(* ===== verification/Prelude.thy ===== *)
theory Prelude
  imports Main "HOL-Library.Word" "HOL-Library.Sublist" "HOL-Library.Char_ord" "HOL-Library.List_Lexorder"
begin

text \<open>
  What every component shares: the machine integers at their Rust width, byte strings in network
  order, Rust's \<open>str\<close> (a UTF-8 byte sequence, here a \<^typ>\<open>string\<close> whose characters are the bytes),
  the decimal texts that \<open>to_string\<close> writes and \<open>parse\<close> reads, and the list lemmas the component
  proofs use. All of it models the language and its standard library; nothing here comes from the
  client's own sources.
\<close>

unbundle bit_operations_syntax

section \<open>Machine integers and collections of facts\<close>

type_synonym u8 = "8 word"
type_synonym u16 = "16 word"
type_synonym u32 = "32 word"
type_synonym u64 = "64 word"
type_synonym i32 = "32 word"
type_synonym i64 = "64 word"
type_synonym bytes = "u8 list"

named_theorems wire_simps \<open>one step of a reader over the bytes a writer produced\<close>
named_theorems str_simps \<open>conversions between strings and their bytes\<close>

text \<open>\<open>as usize\<close> on a signed integer: sign extension to 64 bits, read as unsigned.\<close>

definition as_usize :: "'a::len word \<Rightarrow> nat" where
  "as_usize w = nat (sint w mod 2 ^ 64)"

lemma as_usize_nonneg:
  fixes w :: "'a::len word"
  assumes "0 \<le> sint w" and "LENGTH('a) \<le> 64"
  shows "as_usize w = nat (sint w)"
proof -
  have "sint w < 2 ^ (LENGTH('a) - 1)"
    by (rule sint_lt)
  also have "(2::int) ^ (LENGTH('a) - 1) \<le> 2 ^ 64"
    using assms(2) by (intro power_increasing) auto
  finally have "sint w < 2 ^ 64" .
  then show ?thesis
    using assms(1) by (simp add: as_usize_def)
qed

lemma as_usize_0 [simp]: "as_usize 0 = 0"
  by (simp add: as_usize_def)

lemma sint_of_nat_small:
  assumes "n < 2 ^ (LENGTH('a::len) - 1)"
  shows "sint (of_nat n :: 'a word) = int n"
proof -
  have "int n < 2 ^ (LENGTH('a) - 1)"
    using assms by (simp flip: of_nat_less_iff)
  then show ?thesis
    by (simp add: signed_of_nat signed_take_bit_int_eq_self_iff order_trans [of _ 0])
qed

lemma as_usize_of_nat:
  assumes "n < 2 ^ (LENGTH('a::len) - 1)" and "LENGTH('a) \<le> 64"
  shows "as_usize (of_nat n :: 'a word) = n"
  using assms by (simp add: as_usize_nonneg sint_of_nat_small)

text \<open>Signed arithmetic on \<open>i64\<close> that stays in range.\<close>

lemma sint_word_of_int_64: "- (2 ^ 63) \<le> x \<Longrightarrow> x < 2 ^ 63 \<Longrightarrow> sint (word_of_int x :: i64) = x"
  by (simp add: signed_of_int signed_take_bit_int_eq_self)

lemma sint_diff_64:
  assumes "- (2 ^ 63) \<le> sint a - sint b" and "sint a - sint b < 2 ^ 63"
  shows "sint (a - b :: i64) = sint a - sint b"
proof -
  have "a - b = word_of_int (sint a - sint b)"
    by simp
  then show ?thesis
    using sint_word_of_int_64 [OF assms] by simp
qed

lemma sint_add_64:
  assumes "- (2 ^ 63) \<le> sint a + sint b" and "sint a + sint b < 2 ^ 63"
  shows "sint (a + b :: i64) = sint a + sint b"
proof -
  have "a + b = word_of_int (sint a + sint b)"
    by simp
  then show ?thesis
    using sint_word_of_int_64 [OF assms] by simp
qed

lemma sint_range_64: "- (2 ^ 63) \<le> sint (a :: i64)" "sint a < 2 ^ 63"
  using sint_ge [of a] sint_lt [of a] by simp_all

section \<open>Big-endian byte strings\<close>

definition to_be_bytes :: "'a::len word \<Rightarrow> bytes" where
  "to_be_bytes w = map (\<lambda>i. ucast (drop_bit (8 * i) w)) (rev [0..<LENGTH('a) div 8])"

definition from_be_bytes :: "bytes \<Rightarrow> 'a::len word" where
  "from_be_bytes bs = foldl (\<lambda>a b. push_bit 8 a + ucast b) 0 bs"

lemma length_to_be_bytes [simp]: "length (to_be_bytes (w :: 'a::len word)) = LENGTH('a) div 8"
  by (simp add: to_be_bytes_def)

definition be_val :: "int \<Rightarrow> bytes \<Rightarrow> int" where
  "be_val = foldl (\<lambda>a b. a * 256 + uint b)"

lemma be_val_simps [simp]:
  "be_val a [] = a"
  "be_val a (b # bs) = be_val (a * 256 + uint b) bs"
  "be_val a (xs @ [b]) = be_val a xs * 256 + uint b"
  by (simp_all add: be_val_def)

lemma from_be_bytes_val: "(from_be_bytes bs :: 'a::len word) = word_of_int (be_val 0 bs)"
proof (induction bs rule: rev_induct)
  case Nil
  then show ?case by (simp add: from_be_bytes_def)
next
  case (snoc b bs)
  have "(ucast b :: 'a word) = word_of_int (uint b)"
    by (simp add: word_of_int_eq_iff)
  with snoc show ?case
    by (simp add: from_be_bytes_def push_bit_eq_mult)
qed

lemma be_val_digits:
  "be_val a (map (\<lambda>i. word_of_int (v div 256 ^ i)) (rev [0..<n])) = a * 256 ^ n + v mod 256 ^ n"
proof (induction n arbitrary: a)
  case 0
  then show ?case by simp
next
  case (Suc n)
  have "uint (word_of_int (v div 256 ^ n) :: u8) = v div 256 ^ n mod 256"
    by (simp add: uint_word_of_int_eq take_bit_eq_mod)
  moreover have "v mod 256 ^ Suc n = (v div 256 ^ n mod 256) * 256 ^ n + v mod 256 ^ n"
    using zmod_zmult2_eq [of 256 v "256 ^ n"] by (simp add: mult.commute)
  ultimately show ?case
    using Suc by (simp add: algebra_simps)
qed

lemma to_be_bytes_digits:
  "to_be_bytes (w :: 'a::len word) =
     map (\<lambda>i. word_of_int (uint w div 256 ^ i)) (rev [0..<LENGTH('a) div 8])"
proof -
  have "take_bit LENGTH('a) (uint w) = uint w"
    by (simp add: take_bit_int_eq_self)
  then have "uint (drop_bit (8 * i) w) = uint w div 256 ^ i" for i
    by (simp only: unsigned_drop_bit_eq) (simp add: drop_bit_eq_div power_mult)
  moreover have "(ucast (drop_bit (8 * i) w) :: u8) = word_of_int (uint (drop_bit (8 * i) w))" for i
    by simp
  ultimately show ?thesis
    by (simp add: to_be_bytes_def)
qed

lemma from_to_be_bytes:
  assumes "8 dvd LENGTH('a::len)"
  shows "from_be_bytes (to_be_bytes w) = (w :: 'a word)"
proof -
  have "256 ^ (LENGTH('a) div 8) = (2::int) ^ (8 * (LENGTH('a) div 8))"
    by (simp add: power_mult)
  also have "8 * (LENGTH('a) div 8) = LENGTH('a)"
    using assms by simp
  finally have "uint w mod 256 ^ (LENGTH('a) div 8) = uint w"
    by simp
  then show ?thesis
    by (simp add: from_be_bytes_val to_be_bytes_digits be_val_digits)
qed

lemma from_to_be_bytes_simps [simp]:
  "from_be_bytes (to_be_bytes (a :: u16)) = a"
  "from_be_bytes (to_be_bytes (b :: u32)) = b"
  "from_be_bytes (to_be_bytes (c :: u64)) = c"
  by (rule from_to_be_bytes, simp)+

lemma be_val_bounds: "0 \<le> be_val 0 bs \<and> be_val 0 bs < 256 ^ length bs"
proof (induction bs rule: rev_induct)
  case Nil
  then show ?case by simp
next
  case (snoc b bs)
  have "0 \<le> uint b" and "uint b < 256"
    using uint_lt2p [of b] by simp_all
  with snoc show ?case by auto
qed

lemma word_256: "(256 :: u8) = 0"
  by simp

lemma be_val_digits_inv:
  "map (\<lambda>i. word_of_int (be_val 0 bs div 256 ^ i)) (rev [0..<length bs]) = bs"
proof (induction bs rule: rev_induct)
  case Nil
  then show ?case by simp
next
  case (snoc b bs)
  have b: "0 \<le> uint b" "uint b < 256"
    using uint_lt2p [of b] by simp_all
  then have "(be_val 0 bs * 256 + uint b) div 256 ^ Suc i = be_val 0 bs div 256 ^ i" for i
    by (simp add: div_mult2_eq zdiv_zmult2_eq)
  moreover have "rev [0..<Suc n] = map Suc (rev [0..<n]) @ [0]" for n
    by (simp add: upt_conv_Cons rev_map map_Suc_upt del: upt_Suc flip: map_Suc_upt)
  moreover have "(word_of_int (be_val 0 bs * 256 + uint b) :: u8) = b"
    by (simp add: word_256)
  ultimately show ?case
    using snoc by (simp del: upt_Suc add: comp_def)
qed

lemma to_from_be_bytes:
  assumes "length bs = LENGTH('a::len) div 8" and "8 dvd LENGTH('a)"
  shows "to_be_bytes (from_be_bytes bs :: 'a word) = bs"
proof -
  have "(256::int) ^ length bs = 2 ^ (8 * (LENGTH('a) div 8))"
    using assms(1) by (simp add: power_mult)
  also have "8 * (LENGTH('a) div 8) = LENGTH('a)"
    using assms(2) by simp
  finally have "uint (word_of_int (be_val 0 bs) :: 'a word) = be_val 0 bs"
    using be_val_bounds [of bs] by (simp add: uint_word_of_int)
  then show ?thesis
    using be_val_digits_inv [of bs] assms(1) by (simp add: from_be_bytes_val to_be_bytes_digits)
qed

section \<open>Strings and their bytes\<close>

text \<open>
  A Rust \<open>str\<close> is a sequence of bytes that is valid UTF-8. The model keeps the bytes, one
  \<^typ>\<open>char\<close> each, so that \<open>len()\<close> is \<^const>\<open>length\<close> and ASCII literals read as they do in the code;
  \<open>is_str\<close> is the invariant that the Rust type carries.
\<close>

definition char_byte :: "char \<Rightarrow> u8" where
  "char_byte c = of_nat (of_char c)"

definition byte_char :: "u8 \<Rightarrow> char" where
  "byte_char b = char_of (unat b)"

definition str_bytes :: "string \<Rightarrow> bytes" where
  "str_bytes = map char_byte"

definition bytes_str :: "bytes \<Rightarrow> string" where
  "bytes_str = map byte_char"

lemma char_byte_char [simp]: "byte_char (char_byte c) = c"
proof -
  have "of_char c < (256 :: nat)"
    by (rule of_char_mod_256 [THEN subst, of _ c]) simp
  then show ?thesis
    by (simp add: byte_char_def char_byte_def unat_of_nat)
qed

lemma byte_char_byte [simp]: "char_byte (byte_char b) = b"
proof -
  have "unat b < 256"
    using unsigned_less [of b, where ?'a = nat] by simp
  then show ?thesis
    by (simp add: byte_char_def char_byte_def of_char_of)
qed

lemma bytes_str_bytes [simp, str_simps]:
  "bytes_str (str_bytes s) = s" "str_bytes (bytes_str bs) = bs"
  by (simp_all add: bytes_str_def str_bytes_def comp_def)

lemma str_bytes_simps [simp, str_simps]:
  "str_bytes [] = []" "str_bytes (c # s) = char_byte c # str_bytes s"
  "str_bytes (s @ t) = str_bytes s @ str_bytes t" "length (str_bytes s) = length s"
  "bytes_str [] = []" "bytes_str (b # bs) = byte_char b # bytes_str bs"
  "bytes_str (bs @ cs) = bytes_str bs @ bytes_str cs" "length (bytes_str bs) = length bs"
  "(str_bytes s = []) = (s = [])"
  by (simp_all add: str_bytes_def bytes_str_def)

subsection \<open>UTF-8\<close>

text \<open>\<open>utf8_head\<close> is the width of the scalar value at the front, \<open>None\<close> where the bytes are not
  UTF-8 (overlong forms, surrogates and values above U+10FFFF included).\<close>

definition utf8_cont :: "u8 \<Rightarrow> bool" where
  "utf8_cont b \<longleftrightarrow> 0x80 \<le> b \<and> b < 0xC0"

definition utf8_second3 :: "u8 \<Rightarrow> u8 \<Rightarrow> bool" where
  "utf8_second3 b0 b1 \<longleftrightarrow>
     utf8_cont b1 \<and> (b0 = 0xE0 \<longrightarrow> 0xA0 \<le> b1) \<and> (b0 = 0xED \<longrightarrow> b1 < 0xA0)"

definition utf8_second4 :: "u8 \<Rightarrow> u8 \<Rightarrow> bool" where
  "utf8_second4 b0 b1 \<longleftrightarrow>
     utf8_cont b1 \<and> (b0 = 0xF0 \<longrightarrow> 0x90 \<le> b1) \<and> (b0 = 0xF4 \<longrightarrow> b1 < 0x90)"

definition utf8_head :: "bytes \<Rightarrow> nat option" where
  "utf8_head bs = (case bs of [] \<Rightarrow> None | b0 # r \<Rightarrow>
     if b0 < 0x80 then Some 1
     else if 0xC2 \<le> b0 \<and> b0 \<le> 0xDF then
       (case r of b1 # _ \<Rightarrow> if utf8_cont b1 then Some 2 else None | _ \<Rightarrow> None)
     else if 0xE0 \<le> b0 \<and> b0 \<le> 0xEF then
       (case r of b1 # b2 # _ \<Rightarrow> if utf8_second3 b0 b1 \<and> utf8_cont b2 then Some 3 else None
        | _ \<Rightarrow> None)
     else if 0xF0 \<le> b0 \<and> b0 \<le> 0xF4 then
       (case r of b1 # b2 # b3 # _ \<Rightarrow>
          if utf8_second4 b0 b1 \<and> utf8_cont b2 \<and> utf8_cont b3 then Some 4 else None
        | _ \<Rightarrow> None)
     else None)"

lemma utf8_head_Some:
  "utf8_head bs = Some n \<Longrightarrow> 0 < n \<and> n \<le> length bs \<and> utf8_head (bs @ cs) = Some n"
  by (auto simp: utf8_head_def split: list.splits if_splits)

lemma utf8_head_pos: "utf8_head bs = Some n \<Longrightarrow> 0 < n \<and> bs \<noteq> []"
  using utf8_head_Some [of bs n "[]"] by auto

function valid_utf8 :: "bytes \<Rightarrow> bool" where
  "valid_utf8 bs = (if bs = [] then True else
     (case utf8_head bs of None \<Rightarrow> False | Some n \<Rightarrow> valid_utf8 (drop n bs)))"
  by pat_completeness auto
termination
  by (relation "measure length") (auto dest: utf8_head_pos)

declare valid_utf8.simps [simp del]

lemma valid_utf8_Nil [simp]: "valid_utf8 []"
  by (simp add: valid_utf8.simps)

lemma valid_utf8_append: "valid_utf8 bs \<Longrightarrow> valid_utf8 (bs @ cs) = valid_utf8 cs"
proof (induction bs rule: valid_utf8.induct)
  case (1 bs)
  show ?case
  proof (cases "bs = []")
    case True
    then show ?thesis by simp
  next
    case False
    with "1.prems" obtain n where n: "utf8_head bs = Some n" "valid_utf8 (drop n bs)"
      by (auto simp: valid_utf8.simps [of bs] split: option.splits)
    then have "valid_utf8 (drop n bs @ cs) = valid_utf8 cs"
      using "1.IH" False by blast
    with n False show ?thesis
      using utf8_head_Some [OF n(1), of cs] by (simp add: valid_utf8.simps [of "bs @ cs"])
  qed
qed

text \<open>\<open>chars()\<close>: the scalar values in order, each as its own bytes.\<close>

function utf8_chunks :: "bytes \<Rightarrow> bytes list" where
  "utf8_chunks bs = (if bs = [] then [] else
     (case utf8_head bs of None \<Rightarrow> [take 1 bs] @ utf8_chunks (drop 1 bs)
      | Some n \<Rightarrow> take n bs # utf8_chunks (drop n bs)))"
  by pat_completeness auto
termination
  by (relation "measure length") (auto dest: utf8_head_pos)

declare utf8_chunks.simps [simp del]

lemma concat_utf8_chunks [simp]: "concat (utf8_chunks bs) = bs"
proof (induction bs rule: utf8_chunks.induct)
  case (1 bs)
  then show ?case
    by (subst utf8_chunks.simps) (auto split: option.split simp flip: drop_Suc)
qed

definition is_str :: "string \<Rightarrow> bool" where
  "is_str s \<longleftrightarrow> valid_utf8 (str_bytes s)"

definition str_chars :: "string \<Rightarrow> string list" where
  "str_chars s = map bytes_str (utf8_chunks (str_bytes s))"

lemma is_str_Nil [simp]: "is_str []"
  by (simp add: is_str_def)

lemma is_str_append: "is_str s \<Longrightarrow> is_str (s @ t) = is_str t"
  by (simp add: is_str_def valid_utf8_append)

lemma is_str_ascii: "\<forall>c \<in> set s. char_byte c < 0x80 \<Longrightarrow> is_str s"
proof (induction s)
  case Nil
  then show ?case by simp
next
  case (Cons c s)
  then show ?case
    by (subst is_str_def, subst valid_utf8.simps) (simp add: utf8_head_def is_str_def)
qed

lemma utf8_chunks_append: "valid_utf8 bs \<Longrightarrow> utf8_chunks (bs @ cs) = utf8_chunks bs @ utf8_chunks cs"
proof (induction bs rule: valid_utf8.induct)
  case (1 bs)
  show ?case
  proof (cases "bs = []")
    case True
    then show ?thesis by (simp add: utf8_chunks.simps [of "[]"])
  next
    case False
    with "1.prems" obtain n where n: "utf8_head bs = Some n" "valid_utf8 (drop n bs)"
      by (auto simp: valid_utf8.simps [of bs] split: option.splits)
    then have "utf8_chunks (drop n bs @ cs) = utf8_chunks (drop n bs) @ utf8_chunks cs"
      using "1.IH" False by blast
    with n False show ?thesis
      using utf8_head_Some [OF n(1), of cs]
      by (simp add: utf8_chunks.simps [of "bs @ cs"] utf8_chunks.simps [of bs])
  qed
qed

lemma str_chars_append: "is_str s \<Longrightarrow> str_chars (s @ t) = str_chars s @ str_chars t"
  by (simp add: str_chars_def is_str_def utf8_chunks_append)

lemma str_chars_Nil [simp]: "str_chars [] = []"
  by (simp add: str_chars_def utf8_chunks.simps)

lemma concat_str_chars [simp]: "concat (str_chars s) = s"
proof -
  have "concat (map bytes_str cs) = bytes_str (concat cs)" for cs
    by (induction cs) auto
  then show ?thesis
    by (simp add: str_chars_def)
qed

lemma str_chars_ascii: "char_byte c < 0x80 \<Longrightarrow> str_chars (c # s) = [c] # str_chars s"
  by (simp add: str_chars_def utf8_chunks.simps [of "char_byte c # str_bytes s"] utf8_head_def)

lemma str_chars_empty [simp]: "str_chars s = [] \<longleftrightarrow> s = []"
  by (metis concat.simps(1) concat_str_chars str_chars_Nil)

lemma single_in_str_chars: "[c] \<in> set (str_chars s) \<Longrightarrow> c \<in> set s"
  by (metis concat_str_chars in_set_conv_decomp concat_append concat.simps(2) append_Cons append_Nil)

lemma is_str_Cons_ascii: "char_byte c < 0x80 \<Longrightarrow> is_str (c # s) = is_str s"
  by (subst is_str_def, subst valid_utf8.simps) (simp add: utf8_head_def is_str_def)

text \<open>\<open>from_utf8_lossy\<close>: each maximal ill-formed prefix becomes U+FFFD.\<close>

definition utf8_bad_len :: "bytes \<Rightarrow> nat" where
  "utf8_bad_len bs = (case bs of
     b0 # b1 # b2 # _ \<Rightarrow>
       if 0xF0 \<le> b0 \<and> b0 \<le> 0xF4 \<and> utf8_second4 b0 b1 then (if utf8_cont b2 then 3 else 2)
       else if 0xE0 \<le> b0 \<and> b0 \<le> 0xEF \<and> utf8_second3 b0 b1 then 2 else 1
   | b0 # b1 # _ \<Rightarrow>
       if 0xF0 \<le> b0 \<and> b0 \<le> 0xF4 \<and> utf8_second4 b0 b1
         \<or> 0xE0 \<le> b0 \<and> b0 \<le> 0xEF \<and> utf8_second3 b0 b1 then 2 else 1
   | _ \<Rightarrow> 1)"

lemma utf8_bad_len_pos: "0 < utf8_bad_len bs"
  by (auto simp: utf8_bad_len_def split: list.splits)

function from_utf8_lossy :: "bytes \<Rightarrow> string" where
  "from_utf8_lossy bs = (if bs = [] then [] else
     (case utf8_head bs of
        Some n \<Rightarrow> bytes_str (take n bs) @ from_utf8_lossy (drop n bs)
      | None \<Rightarrow> bytes_str [0xEF, 0xBF, 0xBD] @ from_utf8_lossy (drop (utf8_bad_len bs) bs)))"
  by pat_completeness auto
termination
  by (relation "measure length") (auto dest: utf8_head_pos simp: utf8_bad_len_pos)

declare from_utf8_lossy.simps [simp del]

lemma from_utf8_lossy_valid: "valid_utf8 bs \<Longrightarrow> from_utf8_lossy bs = bytes_str bs"
proof (induction bs rule: from_utf8_lossy.induct)
  case (1 bs)
  show ?case
  proof (cases "bs = []")
    case True
    then show ?thesis by (simp add: from_utf8_lossy.simps)
  next
    case False
    with "1.prems" obtain n where n: "utf8_head bs = Some n" "valid_utf8 (drop n bs)"
      by (auto simp: valid_utf8.simps [of bs] split: option.splits)
    then have "from_utf8_lossy (drop n bs) = bytes_str (drop n bs)"
      using "1.IH"(2) False by blast
    with n False show ?thesis
      by (subst from_utf8_lossy.simps) (simp flip: bytes_str_def str_bytes_simps(7))
  qed
qed

lemma from_utf8_lossy_str [simp]: "is_str s \<Longrightarrow> from_utf8_lossy (str_bytes s) = s"
  by (simp add: is_str_def from_utf8_lossy_valid)

text \<open>\<open>String::from_utf8\<close>: \<open>None\<close> is its error.\<close>

definition from_utf8 :: "bytes \<Rightarrow> string option" where
  "from_utf8 bs = (if valid_utf8 bs then Some (bytes_str bs) else None)"

lemma from_utf8_str [simp]: "is_str s \<Longrightarrow> from_utf8 (str_bytes s) = Some s"
  by (simp add: from_utf8_def is_str_def)

section \<open>Decimal texts\<close>

definition digit_char :: "nat \<Rightarrow> char" where
  "digit_char d = char_of (48 + d)"

fun show_nat :: "nat \<Rightarrow> string" where
  "show_nat n = (if n < 10 then [digit_char n] else show_nat (n div 10) @ [digit_char (n mod 10)])"

declare show_nat.simps [simp del]

definition show_int :: "int \<Rightarrow> string" where
  "show_int i = (if i < 0 then CHR ''-'' # show_nat (nat (- i)) else show_nat (nat i))"

definition is_digit :: "char \<Rightarrow> bool" where
  "is_digit c \<longleftrightarrow> 48 \<le> (of_char c :: nat) \<and> (of_char c :: nat) \<le> 57"

definition digit_val :: "char \<Rightarrow> nat" where
  "digit_val c = of_char c - 48"

definition parse_digits :: "string \<Rightarrow> nat option" where
  "parse_digits s = (if s = [] \<or> (\<exists>c \<in> set s. \<not> is_digit c) then None
     else Some (foldl (\<lambda>n c. 10 * n + digit_val c) 0 s))"

text \<open>The text part of \<open>parse\<close> for signed integers: an optional sign, then at least one digit.\<close>

definition parse_int :: "string \<Rightarrow> int option" where
  "parse_int s = (case s of [] \<Rightarrow> None
     | c # r \<Rightarrow> if c = CHR ''-'' then map_option (\<lambda>n. - int n) (parse_digits r)
               else if c = CHR ''+'' then map_option int (parse_digits r)
               else map_option int (parse_digits s))"

definition parse_signed :: "string \<Rightarrow> 'a::len word option" where
  "parse_signed s = (case parse_int s of None \<Rightarrow> None
     | Some v \<Rightarrow> if - (2 ^ (LENGTH('a) - 1)) \<le> v \<and> v < 2 ^ (LENGTH('a) - 1)
               then Some (word_of_int v) else None)"

abbreviation parse_i32 :: "string \<Rightarrow> i32 option" where
  "parse_i32 \<equiv> parse_signed"

abbreviation parse_i64 :: "string \<Rightarrow> i64 option" where
  "parse_i64 \<equiv> parse_signed"

text \<open>\<open>parse\<close> for unsigned integers: a leading minus is an error.\<close>

definition parse_unsigned :: "string \<Rightarrow> 'a::len word option" where
  "parse_unsigned s =
     (case (case s of c # r \<Rightarrow> if c = CHR ''+'' then parse_digits r else parse_digits s
            | [] \<Rightarrow> None)
      of None \<Rightarrow> None | Some n \<Rightarrow> if n < 2 ^ LENGTH('a) then Some (of_nat n) else None)"

abbreviation show_signed :: "'a::len word \<Rightarrow> string" where
  "show_signed w \<equiv> show_int (sint w)"

lemma digit_char_digit:
  "d < 10 \<Longrightarrow> is_digit (digit_char d)" "d < 10 \<Longrightarrow> digit_val (digit_char d) = d"
  by (simp_all add: is_digit_def digit_char_def digit_val_def of_char_of)

lemma show_nat_digits: "c \<in> set (show_nat n) \<Longrightarrow> is_digit c"
proof (induction n rule: show_nat.induct)
  case (1 n)
  then show ?case
    by (cases "n < 10") (auto simp: show_nat.simps [of n] digit_char_digit)
qed

lemma show_nat_not_Nil [simp]: "show_nat n \<noteq> []"
  by (subst show_nat.simps) simp

lemma show_nat_foldl: "foldl (\<lambda>n c. 10 * n + digit_val c) 0 (show_nat n) = n"
proof (induction n rule: show_nat.induct)
  case (1 n)
  then show ?case
    by (cases "n < 10") (simp_all add: show_nat.simps [of n] digit_char_digit)
qed

lemma parse_show_nat [simp]: "parse_digits (show_nat n) = Some n"
  using show_nat_digits show_nat_foldl by (auto simp: parse_digits_def)

lemma show_nat_no_sign: "show_nat n = c # r \<Longrightarrow> c \<noteq> CHR ''-'' \<and> c \<noteq> CHR ''+''"
  using show_nat_digits [of c n] by (auto simp: is_digit_def of_char_def)

lemma parse_show_int [simp]: "parse_int (show_int i) = Some i"
proof (cases "i < 0")
  case True
  then show ?thesis by (simp add: parse_int_def show_int_def)
next
  case False
  obtain c r where "show_nat (nat i) = c # r"
    using show_nat_not_Nil by (meson neq_Nil_conv)
  with False show_nat_no_sign [OF this] parse_show_nat [of "nat i"] show ?thesis
    by (simp add: parse_int_def show_int_def)
qed

lemma parse_show_signed [simp]: "parse_signed (show_signed w) = Some (w :: 'a::len word)"
  using sint_ge [of w] sint_lt [of w] by (simp add: parse_signed_def)

lemma is_digit_ascii: "is_digit c \<Longrightarrow> char_byte c < 0x80"
proof -
  assume "is_digit c"
  then have "of_char c < (128 :: nat)"
    by (simp add: is_digit_def)
  then have "unat (char_byte c) < 128"
    by (simp add: char_byte_def unat_of_nat)
  then show "char_byte c < 0x80"
    by (simp add: word_less_nat_alt)
qed

lemma show_int_ascii: "c \<in> set (show_int i) \<Longrightarrow> char_byte c < 0x80"
proof -
  assume "c \<in> set (show_int i)"
  then have "c = CHR ''-'' \<or> is_digit c"
    by (auto simp: show_int_def intro: show_nat_digits split: if_splits)
  moreover have "char_byte (CHR ''-'') < 0x80"
    by (simp add: char_byte_def)
  ultimately show "char_byte c < 0x80"
    by (auto intro: is_digit_ascii)
qed

lemma is_str_show_int [simp]: "is_str (show_int i)"
  by (rule is_str_ascii) (use show_int_ascii in blast)

lemma length_show_nat: "n < 10 ^ k \<Longrightarrow> 0 < k \<Longrightarrow> length (show_nat n) \<le> k"
proof (induction n arbitrary: k rule: show_nat.induct)
  case (1 n)
  show ?case
  proof (cases "n < 10")
    case True
    with "1.prems" show ?thesis by (simp add: show_nat.simps)
  next
    case False
    obtain j where j: "k = Suc j"
      using "1.prems"(2) by (cases k) auto
    with False "1.prems"(1) have "0 < j"
      by (cases j) auto
    moreover have "n div 10 < 10 ^ j"
      using "1.prems"(1) j by (simp add: less_mult_imp_div_less mult.commute)
    ultimately have "length (show_nat (n div 10)) \<le> j"
      using "1.IH" False by blast
    with j False show ?thesis by (simp add: show_nat.simps [of n])
  qed
qed

lemma length_show_i64: "length (show_signed (w :: i64)) \<le> 20"
proof -
  have "- (2 ^ 63) \<le> sint w" "sint w < 2 ^ 63"
    using sint_ge [of w] sint_lt [of w] by simp_all
  then have "length (show_nat (nat (- sint w))) \<le> 19" "length (show_nat (nat (sint w))) \<le> 19"
    by (intro length_show_nat; simp)+
  then show ?thesis by (simp add: show_int_def)
qed

section \<open>Operations of str\<close>

definition starts_with :: "string \<Rightarrow> string \<Rightarrow> bool" where
  "starts_with s p \<longleftrightarrow> take (length p) s = p"

lemma starts_with_append [simp]: "starts_with (p @ s) p"
  by (simp add: starts_with_def)

lemma starts_withE: "starts_with s p \<Longrightarrow> s = p @ drop (length p) s"
  by (metis append_take_drop_id starts_with_def)

text \<open>The characters with the Unicode property White\_Space, as \<open>trim\<close> removes them.\<close>

definition white_space :: "bytes list" where
  "white_space = [[9], [10], [11], [12], [13], [32], [0xC2, 0x85], [0xC2, 0xA0], [0xE1, 0x9A, 0x80],
     [0xE2, 0x80, 0x80], [0xE2, 0x80, 0x81], [0xE2, 0x80, 0x82], [0xE2, 0x80, 0x83],
     [0xE2, 0x80, 0x84], [0xE2, 0x80, 0x85], [0xE2, 0x80, 0x86], [0xE2, 0x80, 0x87],
     [0xE2, 0x80, 0x88], [0xE2, 0x80, 0x89], [0xE2, 0x80, 0x8A], [0xE2, 0x80, 0xA8],
     [0xE2, 0x80, 0xA9], [0xE2, 0x80, 0xAF], [0xE2, 0x81, 0x9F], [0xE3, 0x80, 0x80]]"

definition trim_chunks :: "bytes list \<Rightarrow> bytes list" where
  "trim_chunks cs = rev (dropWhile (\<lambda>c. c \<in> set white_space)
     (rev (dropWhile (\<lambda>c. c \<in> set white_space) cs)))"

definition str_trim :: "string \<Rightarrow> string" where
  "str_trim s = bytes_str (concat (trim_chunks (utf8_chunks (str_bytes s))))"

lemma utf8_chunks_ascii: "\<forall>b \<in> set bs. b < 0x80 \<Longrightarrow> utf8_chunks bs = map (\<lambda>b. [b]) bs"
proof (induction bs)
  case Nil
  then show ?case by (simp add: utf8_chunks.simps)
next
  case (Cons b bs)
  then show ?case by (subst utf8_chunks.simps) (simp add: utf8_head_def)
qed

lemma dropWhile_none: "\<forall>x \<in> set xs. \<not> P x \<Longrightarrow> dropWhile P xs = xs"
  by (cases xs) auto

lemma str_trim_id:
  assumes "\<forall>c \<in> set s. char_byte c < 0x80 \<and> [char_byte c] \<notin> set white_space"
  shows "str_trim s = s"
proof -
  have "utf8_chunks (str_bytes s) = map (\<lambda>b. [b]) (str_bytes s)"
    using assms by (intro utf8_chunks_ascii) (auto simp: str_bytes_def)
  moreover have "\<forall>x \<in> set (map (\<lambda>b. [b]) (str_bytes s)). x \<notin> set white_space"
    using assms by (auto simp: str_bytes_def)
  ultimately have "trim_chunks (utf8_chunks (str_bytes s)) = utf8_chunks (str_bytes s)"
    unfolding trim_chunks_def by (simp only:) (subst dropWhile_none | simp)+
  then show ?thesis by (simp add: str_trim_def)
qed

lemma is_digit_not_space: "is_digit c \<Longrightarrow> [char_byte c] \<notin> set white_space"
proof -
  assume "is_digit c"
  then have "48 \<le> unat (char_byte c)" and "unat (char_byte c) < 128"
    by (auto simp: is_digit_def char_byte_def unat_of_nat)
  then show ?thesis
    by (auto simp: white_space_def)
qed

lemma str_trim_show_int [simp]: "str_trim (show_int i) = show_int i"
proof (rule str_trim_id, intro ballI conjI)
  fix c assume c: "c \<in> set (show_int i)"
  then show "char_byte c < 0x80"
    by (rule show_int_ascii)
  from c have "c = CHR ''-'' \<or> is_digit c"
    by (auto simp: show_int_def intro: show_nat_digits split: if_splits)
  moreover have "[char_byte (CHR ''-'')] \<notin> set white_space"
    by (simp add: white_space_def char_byte_def)
  ultimately show "[char_byte c] \<notin> set white_space"
    using is_digit_not_space by blast
qed

definition ascii_lower :: "char \<Rightarrow> char" where
  "ascii_lower c = (if 65 \<le> (of_char c :: nat) \<and> (of_char c :: nat) \<le> 90
     then char_of (of_char c + 32 :: nat) else c)"

definition ascii_upper :: "char \<Rightarrow> char" where
  "ascii_upper c = (if 97 \<le> (of_char c :: nat) \<and> (of_char c :: nat) \<le> 122
     then char_of (of_char c - 32 :: nat) else c)"

definition eq_ignore_ascii_case :: "string \<Rightarrow> string \<Rightarrow> bool" where
  "eq_ignore_ascii_case s t \<longleftrightarrow> map ascii_lower s = map ascii_lower t"

text \<open>\<open>split\<close> on one character.\<close>

fun str_split :: "char \<Rightarrow> string \<Rightarrow> string list" where
  "str_split c [] = [[]]"
| "str_split c (x # xs) = (if x = c then [] # str_split c xs
     else (x # hd (str_split c xs)) # tl (str_split c xs))"

lemma str_split_not_Nil [simp]: "str_split c s \<noteq> []"
  by (cases s) auto

text \<open>\<open>find\<close> on one character: the first index, if any.\<close>

fun str_find :: "char \<Rightarrow> string \<Rightarrow> nat option" where
  "str_find c [] = None"
| "str_find c (x # xs) = (if x = c then Some 0 else map_option Suc (str_find c xs))"

lemma str_find_append: "c \<notin> set s \<Longrightarrow> str_find c (s @ c # t) = Some (length s)"
  by (induction s) auto

lemma str_find_None [simp]: "str_find c s = None \<longleftrightarrow> c \<notin> set s"
  by (induction s) auto

section \<open>Splitting and joining\<close>

fun str_join :: "string \<Rightarrow> string list \<Rightarrow> string" where
  "str_join sep [] = []"
| "str_join sep [p] = p"
| "str_join sep (p # q # ps) = p @ sep @ str_join sep (q # ps)"

lemma starts_with_simps [simp]:
  "starts_with s []" "\<not> starts_with [] (d # p)" "starts_with (c # s) (d # p) \<longleftrightarrow> c = d \<and> starts_with s p"
  by (auto simp: starts_with_def)

lemma starts_with_before: "c \<notin> set p \<Longrightarrow> starts_with (s @ c # t) p = starts_with s p"
proof (induction s arbitrary: p)
  case Nil
  then show ?case by (cases p) auto
next
  case (Cons x s)
  then show ?case by (cases p) auto
qed

lemma str_split_single [simp]: "c \<notin> set s \<Longrightarrow> str_split c s = [s]"
  by (induction s) auto

lemma str_split_append [simp]: "c \<notin> set s \<Longrightarrow> str_split c (s @ c # t) = s # str_split c t"
  by (induction s) auto

lemma str_split_join:
  "ps \<noteq> [] \<Longrightarrow> \<forall>p \<in> set ps. c \<notin> set p \<Longrightarrow> str_split c (str_join [c] ps) = ps"
  by (induction "[c]" ps rule: str_join.induct) auto

lemma str_split_lines:
  "\<forall>x \<in> set xs. c \<notin> set (f x) \<Longrightarrow> str_split c (concat (map (\<lambda>x. f x @ [c]) xs)) = map f xs @ [[]]"
  by (induction xs) auto

lemma str_join_Cons: "str_join [c] (p # ps) = p @ concat (map (\<lambda>p. c # p) ps)"
  by (induction ps arbitrary: p) auto

lemma str_join_free: "c \<notin> set sep \<Longrightarrow> \<forall>p \<in> set ps. c \<notin> set p \<Longrightarrow> c \<notin> set (str_join sep ps)"
  by (induction sep ps rule: str_join.induct) auto

lemma show_int_chars: "c \<in> set (show_int i) \<Longrightarrow> c = CHR ''-'' \<or> is_digit c"
  by (auto simp: show_int_def intro: show_nat_digits split: if_splits)

lemma show_int_free: "c \<noteq> CHR ''-'' \<Longrightarrow> \<not> is_digit c \<Longrightarrow> c \<notin> set (show_int i)"
  using show_int_chars by blast

lemma show_int_not_Nil [simp]: "show_int i \<noteq> []"
  by (simp add: show_int_def)

lemma separators_not_digits [simp]:
  "\<not> is_digit (CHR '' '')" "\<not> is_digit (CHR 0x0A)" "\<not> is_digit (CHR '';'')" "\<not> is_digit (CHR '','')"
  "\<not> is_digit (CHR '':'')" "\<not> is_digit (CHR ''@'')" "\<not> is_digit (CHR ''%'')"
  by (simp_all add: is_digit_def)

section \<open>What trim leaves\<close>

lemma str_trim_Cons:
  assumes "char_byte c < 0x80" and "[char_byte c] \<notin> set white_space"
  shows "\<exists>t. str_trim (c # s) = c # t"
proof -
  have "utf8_chunks (str_bytes (c # s)) = [char_byte c] # utf8_chunks (str_bytes s)"
    using assms(1) by (subst utf8_chunks.simps) (simp add: utf8_head_def)
  then have "trim_chunks (utf8_chunks (str_bytes (c # s))) =
      [char_byte c] # rev (dropWhile (\<lambda>c. c \<in> set white_space) (rev (utf8_chunks (str_bytes s))))"
    using assms(2) unfolding trim_chunks_def by (simp add: dropWhile_append dropWhile_eq_Nil_conv)
  then show ?thesis
    by (simp add: str_trim_def)
qed

lemma str_trim_digits:
  assumes "is_str s"
  shows "str_trim (s @ show_int i) \<noteq> []"
proof -
  let ?ws = "\<lambda>c. c \<in> set white_space"
  let ?cs = "utf8_chunks (str_bytes (s @ show_int i))"
  have cs: "?cs = utf8_chunks (str_bytes s) @ map (\<lambda>b. [b]) (str_bytes (show_int i))"
    using assms utf8_chunks_ascii [of "str_bytes (show_int i)"] show_int_ascii [of _ i]
    by (simp add: is_str_def utf8_chunks_append) (simp add: str_bytes_def)
  obtain d where d: "d \<in> set (show_int i)"
    by (metis show_int_not_Nil list.set_intros(1) neq_Nil_conv)
  have "[char_byte (CHR ''-'')] \<notin> set white_space"
    by (simp add: white_space_def char_byte_def)
  then have nws: "[char_byte d] \<notin> set white_space"
    using show_int_chars [OF d] is_digit_not_space by blast
  have "[char_byte d] \<in> set ?cs"
    using d unfolding cs by (auto simp: str_bytes_def)
  then have "[char_byte d] \<in> set (trim_chunks ?cs)"
    using nws unfolding trim_chunks_def
    by (metis set_rev set_takeWhileD takeWhile_dropWhile_id Un_iff set_append)
  then have "concat (trim_chunks ?cs) \<noteq> []"
    by fastforce
  then show ?thesis
    by (simp add: str_trim_def bytes_str_def)
qed

lemma parse_i64_show_i32: "parse_i64 (show_signed (q :: i32)) = Some (scast q)"
proof -
  have "- (2 ^ 31) \<le> sint q" "sint q < 2 ^ 31"
    using sint_ge [of q] sint_lt [of q] by simp_all
  then have "- (2 ^ 63) \<le> sint q" "sint q < 2 ^ 63" by simp_all
  then show ?thesis by (simp add: parse_signed_def)
qed

lemma narrow_i32: "ucast (scast (q :: i32) :: i64) = q"
proof -
  have "ucast (word_of_int (sint q) :: i64) = (word_of_int (sint q) :: i32)"
    by (rule ucast_down_wi) (simp add: is_down)
  then show ?thesis by (simp add: scast_id)
qed

lemma sint_widen: "sint (scast (q :: i32) :: i64) = sint q"
  using sint_ge [of q] sint_lt [of q] sint_word_of_int_64 [of "sint q"] by simp

lemma fold_map: "fold f (map g xs) a = fold (\<lambda>x. f (g x)) xs a"
  by (induction xs arbitrary: a) simp_all

section \<open>Debug texts\<close>

text \<open>
  \<open>{:?}\<close> of a string: quotes, backslashes and ASCII control characters are escaped. Other characters
  stand for themselves; the escapes of unprintable characters outside ASCII are not modelled.
\<close>

fun show_hex :: "nat \<Rightarrow> string" where
  "show_hex n = (if n < 16 then [''0123456789abcdef'' ! n]
     else show_hex (n div 16) @ [''0123456789abcdef'' ! (n mod 16)])"

declare show_hex.simps [simp del]

definition debug_char :: "char \<Rightarrow> char \<Rightarrow> string" where
  "debug_char quote c =
     (if c = quote \<or> c = CHR 0x5C then [CHR 0x5C, c]
      else if c = CHR 0x09 then [CHR 0x5C, CHR ''t'']
      else if c = CHR 0x0A then [CHR 0x5C, CHR ''n'']
      else if c = CHR 0x0D then [CHR 0x5C, CHR ''r'']
      else if c = CHR 0x00 then [CHR 0x5C, CHR ''0'']
      else if (of_char c :: nat) < 32 \<or> c = CHR 0x7F
      then [CHR 0x5C, CHR ''u'', CHR 0x7B] @ show_hex (of_char c) @ [CHR 0x7D]
      else [c])"

definition str_debug :: "string \<Rightarrow> string" where
  "str_debug s = CHR 0x22 # concat (map (debug_char (CHR 0x22)) s) @ [CHR 0x22]"

end
