(* ===== verification/Rmq_Error.thy ===== *)
theory Rmq_Error
  imports Prelude
begin

text \<open>
  The error values of \<open>src/rust/src/error.rs\<close> and the results built from them. A fallible operation
  of the code returns \<open>failure + 'a\<close>: \<open>Inl (Err e)\<close> for an \<open>Err(e)\<close>, \<open>Inl (Panic m)\<close> where the Rust
  code would abort the task (a slice or an index out of range), \<open>Inr v\<close> for \<open>Ok(v)\<close>. The texts that the
  standard library's own errors add to a message are left out of the message.
\<close>

datatype error =
    RemotingCommand string
  | Connect string
  | SendRequest string string
  | Timeout string i64
  | TooMuchRequest string
  | Server i32 string
  | Client "i32 option" string
  | Broker i32 string
  | RequestTimeout string i64
  | Decode string
  | Encode string
  | Io string
  | Json string

datatype failure = Err error | Panic string

type_synonym 'a result = "failure + 'a"

abbreviation fail :: "error \<Rightarrow> 'a result" where
  "fail e \<equiv> Inl (Err e)"

definition client_err :: "string \<Rightarrow> error" where
  "client_err m = Client None m"

definition client_err_with_code :: "i32 \<Rightarrow> string \<Rightarrow> error" where
  "client_err_with_code c m = Client (Some c) m"

definition REQUEST_TIMEOUT_EXCEPTION :: i32 where
  "REQUEST_TIMEOUT_EXCEPTION = 10006"

fun response_code :: "error \<Rightarrow> i32 option" where
  "response_code (Server c _) = Some c"
| "response_code (Client (Some c) _) = Some c"
| "response_code (Broker c _) = Some c"
| "response_code (RequestTimeout _ _) = Some REQUEST_TIMEOUT_EXCEPTION"
| "response_code _ = None"

text \<open>The \<open>?\<close> operator.\<close>

definition bind_result :: "'a result \<Rightarrow> ('a \<Rightarrow> 'b result) \<Rightarrow> 'b result" where
  "bind_result m f = (case m of Inl e \<Rightarrow> Inl e | Inr a \<Rightarrow> f a)"

definition ok_or :: "'a option \<Rightarrow> error \<Rightarrow> 'a result" where
  "ok_or x e = (case x of None \<Rightarrow> fail e | Some a \<Rightarrow> Inr a)"

lemma bind_result_simps [simp]:
  "bind_result (Inl e) f = Inl e" "bind_result (Inr a) f = f a"
  by (simp_all add: bind_result_def)

lemma bind_result_Inr: "bind_result m f = Inr b \<longleftrightarrow> (\<exists>a. m = Inr a \<and> f a = Inr b)"
  by (cases m) auto

lemma ok_or_simps [simp]: "ok_or None e = fail e" "ok_or (Some a) e = Inr a"
  by (simp_all add: ok_or_def)

definition no_panic :: "'a result \<Rightarrow> bool" where
  "no_panic r \<longleftrightarrow> (case r of Inl (Panic _) \<Rightarrow> False | _ \<Rightarrow> True)"

lemma no_panic_simps [simp]:
  "no_panic (Inr a)" "no_panic (fail e)" "\<not> no_panic (Inl (Panic m))"
  by (simp_all add: no_panic_def)

lemma no_panic_bind:
  "no_panic m \<Longrightarrow> (\<And>a. m = Inr a \<Longrightarrow> no_panic (f a)) \<Longrightarrow> no_panic (bind_result m f)"
  by (cases m) (auto simp: no_panic_def)

lemma no_panic_ok_or [simp]: "no_panic (ok_or x e)"
  by (cases x) auto

section \<open>Indexing\<close>

text \<open>
  The index expressions of the language. \<open>xs[i]\<close> and \<open>&xs[a..b]\<close> panic out of range; a byte array that is
  assembled from several indices panics with the first one that is.
\<close>

definition index_at :: "'a list \<Rightarrow> nat \<Rightarrow> 'a result" where
  "index_at xs i = (if i < length xs then Inr (xs ! i) else Inl (Panic ''index out of bounds''))"

fun index_all :: "'a list \<Rightarrow> nat list \<Rightarrow> 'a list result" where
  "index_all xs [] = Inr []"
| "index_all xs (i # is) = bind_result (index_at xs i) (\<lambda>a. bind_result (index_all xs is) (\<lambda>as. Inr (a # as)))"

definition slice_index :: "'a list \<Rightarrow> nat \<Rightarrow> nat \<Rightarrow> 'a list result" where
  "slice_index xs a b = (if a \<le> b \<and> b \<le> length xs then Inr (take (b - a) (drop a xs))
     else Inl (Panic ''slice index out of range''))"

lemma index_at_ok [simp]: "i < length xs \<Longrightarrow> index_at xs i = Inr (xs ! i)"
  by (simp add: index_at_def)

lemma index_all_ok: "list_all (\<lambda>i. i < length xs) is \<Longrightarrow> index_all xs is = Inr (map ((!) xs) is)"
  by (induction "is") simp_all

lemma slice_index_ok: "a \<le> b \<Longrightarrow> b \<le> length xs \<Longrightarrow> slice_index xs a b = Inr (take (b - a) (drop a xs))"
  by (simp add: slice_index_def)

end
