(* ===== verification/Ext_Fields.thy ===== *)
theory Ext_Fields
  imports Rmq_Error
begin

text \<open>
  The order-preserving string map of \<open>src/rust/src/remoting/protocol/ext_fields.rs\<close>, used both for the
  extension fields of a command and for message properties. The locale \<open>str_map\<close> is the contract the
  other components rely on (lookup after insert and remove); it is interpreted on the entry list.
\<close>

section \<open>Entries and operations\<close>

type_synonym ext_fields = "(string \<times> string) list"
type_synonym string_map = ext_fields

definition ext_new :: ext_fields where
  "ext_new = []"

text \<open>\<open>get\<close> searches from the back, \<open>insert\<close> overwrites from the front.\<close>

definition ext_get :: "ext_fields \<Rightarrow> string \<Rightarrow> string option" where
  "ext_get m key = map_option snd (find (\<lambda>(k, _). k = key) (rev m))"

fun ext_insert :: "string \<Rightarrow> string \<Rightarrow> ext_fields \<Rightarrow> ext_fields" where
  "ext_insert key value [] = [(key, value)]"
| "ext_insert key value ((k, v) # m) =
     (if k = key then (k, value) # m else (k, v) # ext_insert key value m)"

definition ext_insert_opt :: "string \<Rightarrow> string option \<Rightarrow> ext_fields \<Rightarrow> ext_fields" where
  "ext_insert_opt key value m = (case value of None \<Rightarrow> m | Some v \<Rightarrow> ext_insert key v m)"

fun ext_remove :: "string \<Rightarrow> ext_fields \<Rightarrow> string option \<times> ext_fields" where
  "ext_remove key [] = (None, [])"
| "ext_remove key ((k, v) # m) =
     (if k = key then (Some v, m) else (let (r, m') = ext_remove key m in (r, (k, v) # m')))"

definition ext_contains_key :: "ext_fields \<Rightarrow> string \<Rightarrow> bool" where
  "ext_contains_key m key \<longleftrightarrow> ext_get m key \<noteq> None"

definition ext_extend :: "ext_fields \<Rightarrow> ext_fields \<Rightarrow> ext_fields" where
  "ext_extend m other = fold (\<lambda>(k, v). ext_insert k v) other m"

text \<open>\<open>sort_unstable_by\<close> on the keys; the keys of a map are distinct, so the order of equal keys,
  which an unstable sort leaves open, does not arise.\<close>

definition ext_sorted :: "ext_fields \<Rightarrow> (string \<times> string) list" where
  "ext_sorted m = sort_key fst m"

definition ext_parse_num ::
  "ext_fields \<Rightarrow> string \<Rightarrow> (string \<Rightarrow> 'a option) \<Rightarrow> string \<Rightarrow> 'a option result" where
  "ext_parse_num m key parse kind = (case ext_get m key of
     None \<Rightarrow> Inr None
   | Some raw \<Rightarrow> (case parse raw of
       None \<Rightarrow> fail (Decode (''extField '' @ key @ ''='' @ str_debug raw @ '' is not a '' @ kind @ '': ''))
     | Some v \<Rightarrow> Inr (Some v)))"

definition ext_get_i32 :: "ext_fields \<Rightarrow> string \<Rightarrow> i32 option result" where
  "ext_get_i32 m key = ext_parse_num m key parse_i32 ''int''"

definition ext_get_i64 :: "ext_fields \<Rightarrow> string \<Rightarrow> i64 option result" where
  "ext_get_i64 m key = ext_parse_num m key parse_i64 ''long''"

definition ext_get_bool :: "ext_fields \<Rightarrow> string \<Rightarrow> bool option" where
  "ext_get_bool m key =
     map_option (\<lambda>v. eq_ignore_ascii_case v ''true'' \<or> v = ''1'') (ext_get m key)"

section \<open>The contract of a string map\<close>

locale str_map =
  fixes empty :: 'm
    and get :: "'m \<Rightarrow> string \<Rightarrow> string option"
    and ins :: "string \<Rightarrow> string \<Rightarrow> 'm \<Rightarrow> 'm"
    and rem :: "string \<Rightarrow> 'm \<Rightarrow> string option \<times> 'm"
    and inv :: "'m \<Rightarrow> bool"
  assumes get_empty: "get empty = Map.empty"
    and inv_empty: "inv empty"
    and get_ins: "inv m \<Longrightarrow> get (ins k v m) = (get m)(k \<mapsto> v)"
    and inv_ins: "inv m \<Longrightarrow> inv (ins k v m)"
    and get_rem: "inv m \<Longrightarrow> get (snd (rem k m)) = (get m)(k := None)"
    and fst_rem: "inv m \<Longrightarrow> fst (rem k m) = get m k"
    and inv_rem: "inv m \<Longrightarrow> inv (snd (rem k m))"
begin

lemma inv_fold_ins: "inv m \<Longrightarrow> inv (fold (\<lambda>(k, v). ins k v) kvs m)"
  by (induction kvs arbitrary: m) (auto simp: inv_ins)

lemma get_fold_ins:
  "inv m \<Longrightarrow> get (fold (\<lambda>(k, v). ins k v) kvs m) = get m ++ map_of (rev kvs)"
proof (induction kvs arbitrary: m)
  case Nil
  then show ?case by simp
next
  case (Cons kv kvs)
  obtain k v where kv: "kv = (k, v)"
    by fastforce
  with Cons show ?case
    by (simp add: get_ins inv_ins) (simp add: map_add_def fun_eq_iff split: option.split)
qed

lemma get_ins_other: "inv m \<Longrightarrow> k' \<noteq> k \<Longrightarrow> get (ins k v m) k' = get m k'"
  by (simp add: get_ins)

lemma get_ins_same: "inv m \<Longrightarrow> get (ins k v m) k = Some v"
  by (simp add: get_ins)

end

section \<open>The entry list satisfies it\<close>

definition ext_inv :: "ext_fields \<Rightarrow> bool" where
  "ext_inv m \<longleftrightarrow> distinct (map fst m)"

lemma find_key: "map_option snd (find (\<lambda>(k, _). k = key) m) = map_of m key"
  by (induction m) auto

lemma ext_get_map_of: "ext_inv m \<Longrightarrow> ext_get m = map_of m"
proof
  fix key
  assume "ext_inv m"
  then have "map_of (rev m) = map_of m"
    using map_of_inject_set [of "rev m" m] by (simp add: ext_inv_def flip: rev_map)
  then show "ext_get m key = map_of m key"
    by (simp add: ext_get_def find_key)
qed

lemma ext_insert_keys:
  "map fst (ext_insert k v m) = (if k \<in> fst ` set m then map fst m else map fst m @ [k])"
  by (induction k v m rule: ext_insert.induct) auto

lemma map_of_ext_insert: "map_of (ext_insert k v m) = (map_of m)(k \<mapsto> v)"
  by (induction k v m rule: ext_insert.induct) auto

lemma ext_remove_map_of:
  "ext_inv m \<Longrightarrow> fst (ext_remove k m) = map_of m k \<and> map_of (snd (ext_remove k m)) = (map_of m)(k := None)"
proof (induction k m rule: ext_remove.induct)
  case (1 key)
  then show ?case by simp
next
  case (2 key k v m)
  then show ?case
    by (cases "k = key"; cases "ext_remove key m")
      (auto simp: ext_inv_def fun_eq_iff map_of_eq_None_iff)
qed

lemma ext_remove_keys: "ext_inv m \<Longrightarrow> map fst (snd (ext_remove k m)) = filter (\<lambda>x. x \<noteq> k) (map fst m)"
proof (induction k m rule: ext_remove.induct)
  case (2 key k v m)
  then have "key \<notin> set (map fst m) \<Longrightarrow> filter (\<lambda>x. x \<noteq> key) (map fst m) = map fst m"
    by (intro filter_True) auto
  with 2 show ?case
    by (auto simp: ext_inv_def split: prod.splits)
qed simp

lemma ext_inv_insert: "ext_inv m \<Longrightarrow> ext_inv (ext_insert k v m)"
  by (auto simp: ext_inv_def ext_insert_keys)

interpretation ext: str_map ext_new ext_get ext_insert ext_remove ext_inv
proof
  show "ext_get ext_new = Map.empty"
    by (simp add: ext_get_def ext_new_def fun_eq_iff)
  show "ext_inv ext_new"
    by (simp add: ext_inv_def ext_new_def)
  fix m k v
  assume m: "ext_inv m"
  then show inv: "ext_inv (ext_insert k v m)"
    by (rule ext_inv_insert)
  from m inv show "ext_get (ext_insert k v m) = (ext_get m)(k \<mapsto> v)"
    by (simp add: ext_get_map_of map_of_ext_insert)
  from m show inv': "ext_inv (snd (ext_remove k m))"
    by (simp add: ext_inv_def ext_remove_keys)
  from m inv' show "ext_get (snd (ext_remove k m)) = (ext_get m)(k := None)"
    and "fst (ext_remove k m) = ext_get m k"
    by (simp_all add: ext_get_map_of ext_remove_map_of)
qed

lemma ext_insert_fresh: "k \<notin> fst ` set m \<Longrightarrow> ext_insert k v m = m @ [(k, v)]"
  by (induction k v m rule: ext_insert.induct) auto

lemma ext_extend_fresh:
  "distinct (map fst (m @ kvs)) \<Longrightarrow> ext_extend m kvs = m @ kvs"
proof (induction kvs arbitrary: m)
  case Nil
  then show ?case by (simp add: ext_extend_def)
next
  case (Cons kv kvs)
  obtain k v where kv: "kv = (k, v)"
    by fastforce
  with Cons.prems have "ext_insert k v m = m @ [(k, v)]"
    by (intro ext_insert_fresh) auto
  with Cons.IH [of "m @ [(k, v)]"] Cons.prems kv show ?case
    by (simp add: ext_extend_def)
qed

lemma ext_extend_new: "ext_inv m \<Longrightarrow> ext_extend ext_new m = m"
  using ext_extend_fresh [of ext_new m] by (simp add: ext_inv_def ext_new_def)

text \<open>The entries that both wire formats can carry: a name and a value that are not empty.\<close>

definition carried :: "string_map \<Rightarrow> string_map" where
  "carried m = filter (\<lambda>(k, v). k \<noteq> [] \<and> v \<noteq> []) m"

lemma ext_inv_carried: "ext_inv m \<Longrightarrow> ext_inv (carried m)"
  by (simp add: ext_inv_def carried_def distinct_map_filter)

section \<open>Properties\<close>

datatype ext_op = Insert string string | Remove string

fun ext_apply :: "ext_op \<Rightarrow> ext_fields \<Rightarrow> ext_fields" where
  "ext_apply (Insert k v) m = ext_insert k v m"
| "ext_apply (Remove k) m = snd (ext_remove k m)"

fun map_apply :: "ext_op \<Rightarrow> (string \<rightharpoonup> string) \<Rightarrow> (string \<rightharpoonup> string)" where
  "map_apply (Insert k v) f = f(k \<mapsto> v)"
| "map_apply (Remove k) f = f(k := None)"

fun key_apply :: "ext_op \<Rightarrow> string list \<Rightarrow> string list" where
  "key_apply (Insert k v) ks = (if k \<in> set ks then ks else ks @ [k])"
| "key_apply (Remove k) ks = filter (\<lambda>x. x \<noteq> k) ks"

text \<open>
  C35. The entry list refines a finite map: after any sequence of inserts and removals \<open>get\<close> is the lookup of
  the map after the same operations, and the keys stay distinct.
\<close>
theorem ext_fields_refine_map:
  "ext_get (fold ext_apply ops ext_new) = fold map_apply ops Map.empty
     \<and> ext_inv (fold ext_apply ops ext_new)"
proof -
  have "ext_get (fold ext_apply ops m) = fold map_apply ops (ext_get m) \<and> ext_inv (fold ext_apply ops m)"
    if "ext_inv m" for m
    using that
  proof (induction ops arbitrary: m)
    case Nil
    then show ?case by simp
  next
    case (Cons op ops)
    then show ?case
      by (cases op) (simp_all add: ext.get_ins ext.inv_ins ext.get_rem ext.inv_rem fun_upd_def)
  qed
  from this [OF ext.inv_empty] show ?thesis
    by (simp add: ext.get_empty)
qed

text \<open>
  The entries stay in the order of first insertion: over any sequence of operations an insert leaves the
  present keys where they are and puts a new key last, and a removal takes exactly its key out.
\<close>
theorem ext_fields_key_order: "map fst (fold ext_apply ops ext_new) = fold key_apply ops []"
proof -
  have "map fst (fold ext_apply ops m) = fold key_apply ops (map fst m)" if "ext_inv m" for m
    using that
  proof (induction ops arbitrary: m)
    case Nil
    then show ?case by simp
  next
    case (Cons op ops)
    then show ?case
      by (cases op) (simp_all add: ext.inv_ins ext.inv_rem ext_insert_keys ext_remove_keys)
  qed
  from this [OF ext.inv_empty] show ?thesis
    by (simp add: ext_new_def)
qed

end
