(* ===== verification/Util_All.thy ===== *)
theory Util_All
  imports Rmq_Error
begin

text \<open>
  The pure helpers of \<open>src/rust/src/common/util_all.rs\<close>: the Java string hash, CRC-32, and the
  upper-case hexadecimal text used for message ids.
\<close>

section \<open>Definitions\<close>

text \<open>\<open>ch as u32\<close> of a character given by its UTF-8 bytes.\<close>

definition char_code :: "bytes \<Rightarrow> u32" where
  "char_code c = (case c of
     [a] \<Rightarrow> ucast a
   | [a, b] \<Rightarrow> push_bit 6 (ucast (a AND 0x1F)) OR ucast (b AND 0x3F)
   | [a, b, d] \<Rightarrow> push_bit 12 (ucast (a AND 0x0F)) OR push_bit 6 (ucast (b AND 0x3F))
       OR ucast (d AND 0x3F)
   | [a, b, d, e] \<Rightarrow> push_bit 18 (ucast (a AND 0x07)) OR push_bit 12 (ucast (b AND 0x3F))
       OR push_bit 6 (ucast (d AND 0x3F)) OR ucast (e AND 0x3F)
   | _ \<Rightarrow> 0)"

definition java_string_hash :: "string \<Rightarrow> i32" where
  "java_string_hash s = foldl (\<lambda>h c. h * 31 + char_code c) 0 (utf8_chunks (str_bytes s))"

definition is_blank :: "string option \<Rightarrow> bool" where
  "is_blank s = (case s of None \<Rightarrow> True | Some v \<Rightarrow> str_trim v = [])"

text \<open>One table slot: eight conditional shifts of the polynomial.\<close>

definition crc32_step :: "u32 \<Rightarrow> u32" where
  "crc32_step c = (if c AND 1 \<noteq> 0 then 0xEDB88320 XOR drop_bit 1 c else drop_bit 1 c)"

definition crc32_table :: "u32 list" where
  "crc32_table = map (\<lambda>i. (crc32_step ^^ 8) (of_nat i)) [0..<256]"

definition crc32_raw :: "bytes \<Rightarrow> u32" where
  "crc32_raw bs =
     foldl (\<lambda>crc b. crc32_table ! unat ((crc XOR ucast b) AND 0xFF) XOR drop_bit 8 crc) 0xFFFFFFFF bs
       XOR 0xFFFFFFFF"

definition crc32 :: "bytes \<Rightarrow> u32" where
  "crc32 bs = crc32_raw bs AND 0x7FFFFFFF"

definition HEX_ARRAY :: string where
  "HEX_ARRAY = ''0123456789ABCDEF''"

definition bytes_2_string :: "bytes \<Rightarrow> string" where
  "bytes_2_string bs = concat (map (\<lambda>b. [HEX_ARRAY ! unat (drop_bit 4 b), HEX_ARRAY ! unat (b AND 0x0F)]) bs)"

fun position :: "('a \<Rightarrow> bool) \<Rightarrow> 'a list \<Rightarrow> nat option" where
  "position p [] = None"
| "position p (x # xs) = (if p x then Some 0 else map_option Suc (position p xs))"

fun hex_pairs :: "string \<Rightarrow> bytes option" where
  "hex_pairs (h # l # rest) =
     (case position (\<lambda>c. c = h) HEX_ARRAY of None \<Rightarrow> None
      | Some hi \<Rightarrow> (case position (\<lambda>c. c = l) HEX_ARRAY of None \<Rightarrow> None
        | Some lo \<Rightarrow> map_option (\<lambda>out. (push_bit 4 (of_nat hi) OR of_nat lo) # out) (hex_pairs rest)))"
| "hex_pairs _ = Some []"

definition string_2_bytes :: "string \<Rightarrow> bytes option" where
  "string_2_bytes hex =
     (if hex = [] then None
      else let upper = map ascii_upper hex in
        if length upper mod 2 \<noteq> 0 then None else hex_pairs upper)"

section \<open>Hexadecimal texts\<close>

lemma position_Some: "position p xs = Some i \<Longrightarrow> i < length xs \<and> p (xs ! i)"
  by (induction xs arbitrary: i) (auto split: if_splits simp: nth_Cons split: nat.splits)

lemma position_nth: "distinct xs \<Longrightarrow> i < length xs \<Longrightarrow> position (\<lambda>c. c = xs ! i) xs = Some i"
proof (induction xs arbitrary: i)
  case Nil
  then show ?case by simp
next
  case (Cons x xs)
  show ?case
  proof (cases i)
    case 0
    then show ?thesis by simp
  next
    case (Suc j)
    with Cons.prems have "x \<noteq> xs ! j"
      by auto
    with Cons Suc show ?thesis by simp
  qed
qed

lemma hex_nibble_position: "i < 16 \<Longrightarrow> position (\<lambda>c. c = HEX_ARRAY ! i) HEX_ARRAY = Some i"
  by (rule position_nth) (simp_all add: HEX_ARRAY_def)

lemma hex_upper: "i < 16 \<Longrightarrow> ascii_upper (HEX_ARRAY ! i) = HEX_ARRAY ! i"
proof -
  assume "i < 16"
  then have "HEX_ARRAY ! i \<in> set HEX_ARRAY"
    by (intro nth_mem) (simp add: HEX_ARRAY_def)
  then show ?thesis
    by (auto simp: HEX_ARRAY_def ascii_upper_def)
qed

lemma nibbles: "push_bit 4 (drop_bit 4 b) OR (b AND 0x0F) = (b :: u8)"
proof -
  have "push_bit 4 (drop_bit 4 b) OR (b AND mask 4) = b"
    by (rule bit_word_eqI) (auto simp: bit_simps)
  moreover have "(0x0F :: u8) = mask 4"
    by (simp add: mask_eq_exp_minus_1)
  ultimately show ?thesis
    by (simp only:)
qed

lemma nibble_bounds: "unat (drop_bit 4 (b :: u8)) < 16" "unat (b AND 0x0F) < 16"
proof -
  have "unat b < 256"
    using unsigned_less [of b, where ?'a = nat] by simp
  then show "unat (drop_bit 4 b) < 16"
    by (simp add: drop_bit_eq_div unat_div)
  have "unat (b AND 0x0F) \<le> unat (0x0F :: u8)"
    by (rule word_and_le1 [THEN word_le_nat_alt [THEN iffD1]])
  then show "unat (b AND 0x0F) < 16"
    by simp
qed

lemma bytes_2_string_simps:
  "bytes_2_string [] = []"
  "bytes_2_string (b # bs) =
     HEX_ARRAY ! unat (drop_bit 4 b) # HEX_ARRAY ! unat (b AND 0x0F) # bytes_2_string bs"
  by (simp_all add: bytes_2_string_def)

lemma hex_pairs_bytes_2_string: "hex_pairs (bytes_2_string bs) = Some bs"
proof (induction bs)
  case Nil
  then show ?case by (simp add: bytes_2_string_simps)
next
  case (Cons b bs)
  then show ?case
    by (simp add: bytes_2_string_simps hex_nibble_position nibble_bounds nibbles)
qed

lemma upper_bytes_2_string: "map ascii_upper (bytes_2_string bs) = bytes_2_string bs"
  by (induction bs) (simp_all add: bytes_2_string_simps hex_upper nibble_bounds)

lemma length_bytes_2_string [simp]: "length (bytes_2_string bs) = 2 * length bs"
  by (induction bs) (simp_all add: bytes_2_string_simps)

lemma string_2_bytes_2_string: "bs \<noteq> [] \<Longrightarrow> string_2_bytes (bytes_2_string bs) = Some bs"
proof -
  assume "bs \<noteq> []"
  then have "bytes_2_string bs \<noteq> []"
    by (cases bs) (simp_all add: bytes_2_string_simps)
  then show ?thesis
    by (simp add: string_2_bytes_def upper_bytes_2_string hex_pairs_bytes_2_string)
qed

lemma crc32_top_bit: "\<not> bit (crc32 bs) 31"
proof -
  have "(0x7FFFFFFF :: u32) = mask 31"
    by (simp add: mask_eq_exp_minus_1)
  then show ?thesis
    by (simp add: crc32_def bit_and_iff bit_mask_iff)
qed

section \<open>The table-driven checksum computes the bitwise one\<close>

text \<open>CRC-32/ISO-HDLC as its definition has it: shift the register one bit at a time.\<close>

definition crc32_bitwise :: "bytes \<Rightarrow> u32" where
  "crc32_bitwise bs = foldl (\<lambda>crc b. (crc32_step ^^ 8) (crc XOR ucast b)) 0xFFFFFFFF bs XOR 0xFFFFFFFF"

lemma crc32_step_bit: "crc32_step c = (if bit c 0 then 0xEDB88320 XOR drop_bit 1 c else drop_bit 1 c)"
  by (simp add: crc32_step_def bit_iff_and_push_bit_not_eq_0 [of c 0])

lemma crc32_step_xor: "crc32_step (a XOR b) = crc32_step a XOR crc32_step b"
proof -
  have "drop_bit 1 (a XOR b) = drop_bit 1 a XOR drop_bit 1 b"
    by (rule drop_bit_xor)
  then show ?thesis
    by (simp add: crc32_step_bit bit_xor_iff ac_simps flip: xor.assoc)
qed

lemma crc32_steps_xor: "(crc32_step ^^ n) (a XOR b) = (crc32_step ^^ n) a XOR (crc32_step ^^ n) b"
  by (induction n) (simp_all add: crc32_step_xor)

lemma crc32_steps_high: "n \<le> 8 \<Longrightarrow> (crc32_step ^^ n) (push_bit 8 h) = push_bit (8 - n) (h AND mask 24)"
proof (induction n)
  case 0
  then show ?case
    by (simp) (rule bit_word_eqI, auto simp: bit_simps)
next
  case (Suc n)
  then have IH: "(crc32_step ^^ n) (push_bit 8 h) = push_bit (8 - n) (h AND mask 24)"
    by simp
  have "\<not> bit (push_bit (8 - n) (h AND mask 24)) 0"
    using Suc.prems by (auto simp: bit_push_bit_iff bit_and_iff)
  moreover have "drop_bit 1 (push_bit (8 - n) (h AND mask 24)) = push_bit (8 - Suc n) (h AND mask 24)"
    using Suc.prems by (intro bit_word_eqI) (auto simp: bit_simps)
  ultimately have "crc32_step (push_bit (8 - n) (h AND mask 24)) = push_bit (8 - Suc n) (h AND mask 24)"
    by (simp only: crc32_step_bit if_False)
  then show ?case
    by (simp only: funpow.simps comp_apply IH)
qed

lemma low_high_bytes: "c = push_bit 8 (drop_bit 8 c) XOR (c AND 0xFF)" for c :: u32
proof -
  have "c = push_bit 8 (drop_bit 8 c) XOR (c AND mask 8)"
    by (rule bit_word_eqI) (auto simp: bit_simps)
  moreover have "(0xFF :: u32) = mask 8"
    by (simp add: mask_eq_exp_minus_1)
  ultimately show ?thesis
    by (simp only:)
qed

lemma crc32_table_step:
  "crc32_table ! unat ((crc XOR ucast b) AND 0xFF) XOR drop_bit 8 crc =
     (crc32_step ^^ 8) (crc XOR ucast (b :: u8))"
proof -
  let ?x = "crc XOR ucast b"
  have "unat (?x AND 0xFF) \<le> unat (0xFF :: u32)"
    by (rule word_and_le1 [THEN word_le_nat_alt [THEN iffD1]])
  then have tab: "crc32_table ! unat (?x AND 0xFF) = (crc32_step ^^ 8) (?x AND 0xFF)"
    by (simp add: crc32_table_def)
  have "drop_bit 8 ?x AND mask 24 = drop_bit 8 crc"
    using bit_imp_le_length [of b] bit_imp_le_length [of crc]
    by (intro bit_word_eqI) (force simp: bit_simps)
  then have "(crc32_step ^^ 8) (push_bit 8 (drop_bit 8 ?x)) = drop_bit 8 crc"
    using crc32_steps_high [of 8 "drop_bit 8 ?x"] by (simp only: diff_self_eq_0 order_refl push_bit_0_id id_apply)
  then have "(crc32_step ^^ 8) ?x = drop_bit 8 crc XOR (crc32_step ^^ 8) (?x AND 0xFF)"
    by (subst low_high_bytes [of ?x]) (simp only: crc32_steps_xor)
  with tab show ?thesis
    by (simp only: xor.commute)
qed

section \<open>Properties\<close>

text \<open>
  The table-driven CRC-32 is the bit-by-bit CRC-32 with the reflected polynomial, and the stamped value
  is that with the sign bit cleared.
\<close>
theorem crc32_table_equivalence:
  "crc32_raw bs = crc32_bitwise bs \<and> crc32 bs = crc32_bitwise bs AND 0x7FFFFFFF \<and> \<not> bit (crc32 bs) 31"
proof -
  have "crc32_raw bs = crc32_bitwise bs"
    by (simp only: crc32_raw_def crc32_bitwise_def crc32_table_step)
  then show ?thesis
    using crc32_top_bit [of bs] by (simp add: crc32_def)
qed

end
