(* ===== verification/Message.thy ===== *)
theory Message
  imports Ext_Fields Util_All
begin

text \<open>
  The message data of \<open>src/rust/src/common/message.rs\<close>: queues with their order, the outgoing
  \<open>Message\<close>, and \<open>MessageExt\<close>, which adds the stored fields. \<open>MessageExt\<close> repeats the five fields of
  \<open>Message\<close>, so it extends that record and the property accessors, whose bodies are the same in both
  implementations, are stated once.
\<close>

section \<open>MessageQueue\<close>

datatype message_queue =
  MessageQueue (mq_topic: string) (mq_broker_name: string) (mq_queue_id: i32)

definition to_java_string :: "message_queue \<Rightarrow> string" where
  "to_java_string mq = ''MessageQueue [topic='' @ mq_topic mq @ '', brokerName='' @ mq_broker_name mq
     @ '', queueId='' @ show_signed (mq_queue_id mq) @ '']''"

definition mq_hashcode :: "message_queue \<Rightarrow> i32" where
  "mq_hashcode mq =
     (let topic_hash = java_string_hash (mq_topic mq);
          broker_hash = java_string_hash (mq_broker_name mq);
          r = 31;
          r = r + broker_hash;
          r = r * 31 + mq_queue_id mq
      in r * 31 + topic_hash)"

datatype ordering = Less | Equal | Greater

definition str_cmp :: "string \<Rightarrow> string \<Rightarrow> ordering" where
  "str_cmp a b = (if a < b then Less else if a = b then Equal else Greater)"

definition i32_cmp :: "i32 \<Rightarrow> i32 \<Rightarrow> ordering" where
  "i32_cmp a b = (if a <s b then Less else if a = b then Equal else Greater)"

definition compare_to :: "message_queue \<Rightarrow> message_queue \<Rightarrow> ordering" where
  "compare_to a b =
     (case str_cmp (mq_topic a) (mq_topic b) of
        Equal \<Rightarrow> (case str_cmp (mq_broker_name a) (mq_broker_name b) of
          Equal \<Rightarrow> i32_cmp (mq_queue_id a) (mq_queue_id b)
        | r \<Rightarrow> r)
      | r \<Rightarrow> r)"

lemma compare_to_Less:
  "compare_to a b = Less \<longleftrightarrow> mq_topic a < mq_topic b
     \<or> mq_topic a = mq_topic b \<and> (mq_broker_name a < mq_broker_name b
       \<or> mq_broker_name a = mq_broker_name b \<and> sint (mq_queue_id a) < sint (mq_queue_id b))"
  by (auto simp: compare_to_def str_cmp_def i32_cmp_def word_sless_alt)

lemma compare_to_Equal: "compare_to a b = Equal \<longleftrightarrow> a = b"
  by (cases a; cases b) (auto simp: compare_to_def str_cmp_def i32_cmp_def)

text \<open>The \<open>Ord\<close> implementation is a linear order; the library's sorting applies to queues.\<close>

instantiation message_queue :: linorder
begin

definition less_message_queue :: "message_queue \<Rightarrow> message_queue \<Rightarrow> bool" where
  "less_message_queue a b \<longleftrightarrow> compare_to a b = Less"

definition less_eq_message_queue :: "message_queue \<Rightarrow> message_queue \<Rightarrow> bool" where
  "less_eq_message_queue a b \<longleftrightarrow> compare_to a b = Less \<or> a = b"

instance
proof
  fix x y z :: message_queue
  show "x < y \<longleftrightarrow> x \<le> y \<and> \<not> y \<le> x"
    by (auto simp: less_message_queue_def less_eq_message_queue_def compare_to_Less)
  show "x \<le> x"
    by (simp add: less_eq_message_queue_def)
  show "x \<le> y \<Longrightarrow> y \<le> z \<Longrightarrow> x \<le> z"
    by (auto simp: less_eq_message_queue_def compare_to_Less)
  show "x \<le> y \<Longrightarrow> y \<le> x \<Longrightarrow> x = y"
    by (auto simp: less_eq_message_queue_def compare_to_Less)
  show "x \<le> y \<or> y \<le> x"
    by (cases x; cases y) (auto simp: less_eq_message_queue_def compare_to_Less,
        metis linorder_neqE_linordered_idom signed_word_eqI)
qed

end

section \<open>Message and MessageExt\<close>

record message =
  m_topic :: string
  m_flag :: i32
  m_body :: "bytes option"
  m_properties :: string_map
  m_transaction_id :: "string option"

record message_ext = message +
  x_queue_id :: i32
  x_store_size :: i32
  x_queue_offset :: i64
  x_sys_flag :: i32
  x_born_timestamp :: i64
  x_born_host :: "string option"
  x_born_host_port :: u32
  x_store_timestamp :: i64
  x_store_host :: "string option"
  x_store_host_port :: u32
  x_msg_id :: "string option"
  x_commit_log_offset :: i64
  x_body_crc :: u32
  x_reconsume_times :: i32
  x_prepared_transaction_offset :: i64
  x_broker_name :: "string option"
  x_offset_msg_id :: "string option"
  x_msg_type :: "string option"

definition PROPERTY_KEYS :: string where "PROPERTY_KEYS = ''KEYS''"
definition PROPERTY_TAGS :: string where "PROPERTY_TAGS = ''TAGS''"
definition PROPERTY_WAIT_STORE_MSG_OK :: string where "PROPERTY_WAIT_STORE_MSG_OK = ''WAIT''"
definition PROPERTY_DELAY_TIME_LEVEL :: string where "PROPERTY_DELAY_TIME_LEVEL = ''DELAY''"
definition PROPERTY_UNIQ_CLIENT_MESSAGE_ID_KEYIDX :: string where
  "PROPERTY_UNIQ_CLIENT_MESSAGE_ID_KEYIDX = ''UNIQ_KEY''"
definition PROPERTY_TIMER_DELAY_SEC :: string where "PROPERTY_TIMER_DELAY_SEC = ''TIMER_DELAY_SEC''"
definition PROPERTY_TIMER_DELAY_MS :: string where "PROPERTY_TIMER_DELAY_MS = ''TIMER_DELAY_MS''"
definition PROPERTY_TIMER_DELIVER_MS :: string where "PROPERTY_TIMER_DELIVER_MS = ''TIMER_DELIVER_MS''"
definition PROPERTY_INNER_MULTI_DISPATCH :: string where
  "PROPERTY_INNER_MULTI_DISPATCH = ''INNER_MULTI_DISPATCH''"

definition message_default :: message where
  "message_default = \<lparr>m_topic = [], m_flag = 0, m_body = None, m_properties = ext_new,
     m_transaction_id = None\<rparr>"

definition message_new :: "string \<Rightarrow> bytes option \<Rightarrow> message" where
  "message_new topic body = \<lparr>m_topic = topic, m_flag = 0,
     m_body = Some (case body of None \<Rightarrow> [] | Some b \<Rightarrow> b),
     m_properties = ext_new, m_transaction_id = None\<rparr>"

definition with_tags_and_keys ::
  "string \<Rightarrow> bytes option \<Rightarrow> string option \<Rightarrow> string option \<Rightarrow> i32 \<Rightarrow> message" where
  "with_tags_and_keys topic body tags keys flag =
     (let msg = (message_new topic body)\<lparr>m_flag := flag\<rparr>;
          msg = (case tags of None \<Rightarrow> msg | Some t \<Rightarrow> if t = [] then msg
             else msg\<lparr>m_properties := ext_insert PROPERTY_TAGS t (m_properties msg)\<rparr>)
      in (case keys of None \<Rightarrow> msg | Some k \<Rightarrow> if k = [] then msg
             else msg\<lparr>m_properties := ext_insert PROPERTY_KEYS k (m_properties msg)\<rparr>))"

definition message_ext_new :: message_ext where
  "message_ext_new = \<lparr>m_topic = [], m_flag = 0, m_body = Some [], m_properties = ext_new,
     m_transaction_id = None, x_queue_id = 0, x_store_size = 0, x_queue_offset = 0, x_sys_flag = 0,
     x_born_timestamp = 0, x_born_host = None, x_born_host_port = 0, x_store_timestamp = 0,
     x_store_host = None, x_store_host_port = 0, x_msg_id = None, x_commit_log_offset = 0,
     x_body_crc = 0, x_reconsume_times = 0, x_prepared_transaction_offset = 0,
     x_broker_name = None, x_offset_msg_id = None, x_msg_type = None\<rparr>"

definition from_message :: "message \<Rightarrow> message_ext" where
  "from_message msg = message_ext_new\<lparr>m_topic := m_topic msg, m_flag := m_flag msg,
     m_body := m_body msg, m_properties := m_properties msg,
     m_transaction_id := m_transaction_id msg\<rparr>"

definition to_message :: "message_ext \<Rightarrow> message" where
  "to_message x = \<lparr>m_topic = m_topic x, m_flag = m_flag x, m_body = m_body x,
     m_properties = m_properties x, m_transaction_id = m_transaction_id x\<rparr>"

definition get_body :: "'a message_scheme \<Rightarrow> bytes" where
  "get_body msg = (case m_body msg of None \<Rightarrow> [] | Some b \<Rightarrow> b)"

definition set_body :: "bytes option \<Rightarrow> message \<Rightarrow> message" where
  "set_body body msg = msg\<lparr>m_body := Some (case body of None \<Rightarrow> [] | Some b \<Rightarrow> b)\<rparr>"

definition ext_set_body :: "bytes option \<Rightarrow> message_ext \<Rightarrow> message_ext" where
  "ext_set_body body msg = msg\<lparr>m_body := body\<rparr>"

definition get_property :: "'a message_scheme \<Rightarrow> string \<Rightarrow> string option" where
  "get_property msg name = ext_get (m_properties msg) name"

definition put_property :: "string \<Rightarrow> string \<Rightarrow> 'a message_scheme \<Rightarrow> 'a message_scheme" where
  "put_property name value msg = msg\<lparr>m_properties := ext_insert name value (m_properties msg)\<rparr>"

definition remove_property :: "string \<Rightarrow> 'a message_scheme \<Rightarrow> 'a message_scheme" where
  "remove_property name msg = msg\<lparr>m_properties := snd (ext_remove name (m_properties msg))\<rparr>"

definition clear_property :: "message \<Rightarrow> message" where
  "clear_property msg = msg\<lparr>m_properties := ext_new\<rparr>"

definition wait_store_msg_ok_of :: "string option \<Rightarrow> bool" where
  "wait_store_msg_ok_of raw = (case raw of None \<Rightarrow> True | Some v \<Rightarrow> eq_ignore_ascii_case v ''true'')"

definition get_wait_store_msg_ok :: "'a message_scheme \<Rightarrow> string option" where
  "get_wait_store_msg_ok msg = get_property msg PROPERTY_WAIT_STORE_MSG_OK"

definition is_wait_store_msg_ok :: "message \<Rightarrow> bool" where
  "is_wait_store_msg_ok msg = wait_store_msg_ok_of (get_wait_store_msg_ok msg)"

definition set_wait_store_msg_ok :: "bool \<Rightarrow> 'a message_scheme \<Rightarrow> 'a message_scheme" where
  "set_wait_store_msg_ok ok msg =
     put_property PROPERTY_WAIT_STORE_MSG_OK (if ok then ''true'' else ''false'') msg"

definition set_delay_time_level :: "i32 \<Rightarrow> 'a message_scheme \<Rightarrow> 'a message_scheme" where
  "set_delay_time_level level msg = put_property PROPERTY_DELAY_TIME_LEVEL (show_signed level) msg"

definition get_delay_time_level :: "'a message_scheme \<Rightarrow> string option" where
  "get_delay_time_level msg = get_property msg PROPERTY_DELAY_TIME_LEVEL"

definition delay_time_level :: "'a message_scheme \<Rightarrow> i32" where
  "delay_time_level msg = (case get_delay_time_level msg of
     Some v \<Rightarrow> (case parse_i32 (str_trim v) of Some n \<Rightarrow> n | None \<Rightarrow> 0) | None \<Rightarrow> 0)"

definition timer_property :: "message \<Rightarrow> string \<Rightarrow> i64" where
  "timer_property msg name = (case get_property msg name of
     Some v \<Rightarrow> (case parse_i64 (str_trim v) of Some n \<Rightarrow> n | None \<Rightarrow> 0) | None \<Rightarrow> 0)"

definition set_delay_time_sec :: "i64 \<Rightarrow> message \<Rightarrow> message" where
  "set_delay_time_sec sec msg = put_property PROPERTY_TIMER_DELAY_SEC (show_signed sec) msg"

definition get_delay_time_sec :: "message \<Rightarrow> i64" where
  "get_delay_time_sec msg = timer_property msg PROPERTY_TIMER_DELAY_SEC"

definition set_delay_time_ms :: "i64 \<Rightarrow> message \<Rightarrow> message" where
  "set_delay_time_ms ms msg = put_property PROPERTY_TIMER_DELAY_MS (show_signed ms) msg"

definition get_delay_time_ms :: "message \<Rightarrow> i64" where
  "get_delay_time_ms msg = timer_property msg PROPERTY_TIMER_DELAY_MS"

definition set_deliver_time_ms :: "i64 \<Rightarrow> message \<Rightarrow> message" where
  "set_deliver_time_ms ms msg = put_property PROPERTY_TIMER_DELIVER_MS (show_signed ms) msg"

definition get_deliver_time_ms :: "message \<Rightarrow> i64" where
  "get_deliver_time_ms msg = timer_property msg PROPERTY_TIMER_DELIVER_MS"

text \<open>\<open>MessageClientIDSetter\<close>: the id is a parameter, it comes from the address, pid and clock.\<close>

definition set_uniq_id :: "string \<Rightarrow> message \<Rightarrow> message" where
  "set_uniq_id fresh msg =
     (if get_property msg PROPERTY_UNIQ_CLIENT_MESSAGE_ID_KEYIDX = None
      then put_property PROPERTY_UNIQ_CLIENT_MESSAGE_ID_KEYIDX fresh msg else msg)"

section \<open>Property accessors\<close>

definition message_inv :: "'a message_scheme \<Rightarrow> bool" where
  "message_inv msg \<longleftrightarrow> ext_inv (m_properties msg)"

lemma message_inv_preserved:
  "message_inv (message_new t b)"
  "message_inv msg \<Longrightarrow> message_inv (put_property k v msg)"
  "message_inv msg \<Longrightarrow> message_inv (remove_property k msg)"
  by (simp_all add: message_inv_def message_new_def put_property_def remove_property_def
      ext.inv_empty ext.inv_ins ext.inv_rem)

lemma get_put_property:
  "message_inv msg \<Longrightarrow> get_property (put_property k v msg) = (get_property msg)(k \<mapsto> v)"
  by (simp add: message_inv_def get_property_def put_property_def ext.get_ins fun_eq_iff)

lemma set_uniq_id_stable:
  assumes "message_inv msg"
  shows "set_uniq_id b (set_uniq_id a msg) = set_uniq_id a msg"
  using assms by (simp add: set_uniq_id_def get_put_property)

lemma delay_time_level_round_trip:
  "message_inv msg \<Longrightarrow> delay_time_level (set_delay_time_level n msg) = n"
  by (simp add: delay_time_level_def get_delay_time_level_def set_delay_time_level_def
      get_put_property)

lemma timer_round_trip:
  assumes "message_inv msg"
  shows "get_delay_time_sec (set_delay_time_sec n msg) = n"
    and "get_delay_time_ms (set_delay_time_ms n msg) = n"
    and "get_deliver_time_ms (set_deliver_time_ms n msg) = n"
  using assms
  by (simp_all add: get_delay_time_sec_def set_delay_time_sec_def get_delay_time_ms_def
      set_delay_time_ms_def get_deliver_time_ms_def set_deliver_time_ms_def timer_property_def
      get_put_property)

lemma wait_store_round_trip:
  "message_inv msg \<Longrightarrow> is_wait_store_msg_ok (set_wait_store_msg_ok b msg) = b"
  by (simp add: is_wait_store_msg_ok_def get_wait_store_msg_ok_def set_wait_store_msg_ok_def
      get_put_property wait_store_msg_ok_of_def eq_ignore_ascii_case_def ascii_lower_def)

section \<open>Properties\<close>

text \<open>
  \<open>Ord\<close> for queues is the lexicographic order on topic, broker and the signed queue number, a linear order
  that agrees with equality.
\<close>
theorem message_queue_order:
  "(a < b \<longleftrightarrow> mq_topic a < mq_topic b \<or> mq_topic a = mq_topic b \<and> (mq_broker_name a < mq_broker_name b
       \<or> mq_broker_name a = mq_broker_name b \<and> sint (mq_queue_id a) < sint (mq_queue_id b)))
     \<and> (compare_to a b = Equal \<longleftrightarrow> a = b) \<and> (compare_to a b = Less \<longleftrightarrow> compare_to b a = Greater)"
  by (cases a; cases b)
    (auto simp: less_message_queue_def compare_to_Less compare_to_Equal compare_to_def str_cmp_def
      i32_cmp_def word_sless_alt dest: signed_word_eqI)

end
