(* ===== verification/Message_Properties.thy ===== *)
theory Message_Properties
  imports Ext_Fields
begin

text \<open>
  The properties text of a message (\<open>message_properties_2_string\<close> and \<open>string_2_message_properties\<close> of
  \<open>src/rust/src/common/message_decoder.rs\<close>): entries \<open>name \x01 value \x02\<close> in map order. A char of the
  text is the string of its own bytes, as in \<open>str_chars\<close>.
\<close>

section \<open>Printing and scanning\<close>

definition NAME_VALUE_SEPARATOR :: string where "NAME_VALUE_SEPARATOR = [CHR 0x01]"
definition PROPERTY_SEPARATOR :: string where "PROPERTY_SEPARATOR = [CHR 0x02]"

definition message_properties_2_string :: "string_map \<Rightarrow> string" where
  "message_properties_2_string properties =
     fold (\<lambda>(name, value) sb. sb @ name @ NAME_VALUE_SEPARATOR @ value @ PROPERTY_SEPARATOR)
       properties []"

definition find_char :: "string list \<Rightarrow> nat \<Rightarrow> nat \<Rightarrow> string \<Rightarrow> nat option result" where
  "find_char chars from len target =
     (case find (\<lambda>i. length chars \<le> i \<or> chars ! i = target) [from..<len] of
        None \<Rightarrow> Inr None
      | Some i \<Rightarrow> bind_result (index_at chars i) (\<lambda>_. Inr (Some i)))"

text \<open>\<open>n - 1\<close> on \<open>usize\<close>, which wraps around at zero.\<close>

definition usize_pred :: "nat \<Rightarrow> nat" where
  "usize_pred n = (if n = 0 then 2 ^ 64 - 1 else n - 1)"

text \<open>The body of the loop for the entry between \<open>index\<close> and \<open>new_index\<close>.\<close>

definition scan_entry :: "string list \<Rightarrow> nat \<Rightarrow> nat \<Rightarrow> string_map \<Rightarrow> string_map result" where
  "scan_entry chars index new_index result =
     (if index + 3 \<le> new_index then
        bind_result (find_char chars index (length chars) NAME_VALUE_SEPARATOR) (\<lambda>found. case found of
           None \<Rightarrow> Inr result
         | Some kv_sep \<Rightarrow>
             if index < kv_sep \<and> kv_sep < usize_pred new_index
             then bind_result (slice_index chars index kv_sep) (\<lambda>key.
                  bind_result (slice_index chars (kv_sep + 1) new_index) (\<lambda>value.
                  Inr (ext_insert (concat key) (concat value) result)))
             else Inr result)
      else Inr result)"

definition next_separator :: "string list \<Rightarrow> nat \<Rightarrow> nat result" where
  "next_separator chars index =
     bind_result (find_char chars index (length chars) PROPERTY_SEPARATOR) (\<lambda>found.
       Inr (case found of None \<Rightarrow> length chars | Some i \<Rightarrow> i))"

text \<open>What the loop does without the index expressions: the reference for it.\<close>

definition first_char :: "string list \<Rightarrow> nat \<Rightarrow> string \<Rightarrow> nat option" where
  "first_char chars from target = find (\<lambda>i. chars ! i = target) [from..<length chars]"

definition entry_end :: "string list \<Rightarrow> nat \<Rightarrow> nat" where
  "entry_end chars index = (case first_char chars index PROPERTY_SEPARATOR of None \<Rightarrow> length chars | Some i \<Rightarrow> i)"

definition keep_property :: "string list \<Rightarrow> nat \<Rightarrow> nat \<Rightarrow> string_map \<Rightarrow> string_map" where
  "keep_property chars index new_index result =
     (case first_char chars index NAME_VALUE_SEPARATOR of
        Some kv_sep \<Rightarrow>
          if index < kv_sep \<and> kv_sep + 1 < new_index
          then ext_insert (concat (take (kv_sep - index) (drop index chars)))
                 (concat (take (new_index - (kv_sep + 1)) (drop (kv_sep + 1) chars))) result
          else result
      | None \<Rightarrow> result)"

lemma find_cong_set: "(\<And>x. x \<in> set xs \<Longrightarrow> P x = Q x) \<Longrightarrow> find P xs = find Q xs"
  by (induction xs) auto

lemma find_char_first: "find_char chars from (length chars) t = Inr (first_char chars from t)"
proof -
  have same: "find (\<lambda>i. length chars \<le> i \<or> chars ! i = t) [from..<length chars] = first_char chars from t"
    unfolding first_char_def by (rule find_cong_set) auto
  moreover have "i < length chars" if "first_char chars from t = Some i" for i
    using that by (auto simp: first_char_def find_Some_iff)
  ultimately show ?thesis
    by (cases "first_char chars from t") (simp_all add: find_char_def)
qed

lemma first_char_ge: "first_char chars from t = Some i \<Longrightarrow> from \<le> i \<and> i < length chars"
  by (auto simp: first_char_def find_Some_iff)

lemma next_separator_end: "next_separator chars index = Inr (entry_end chars index)"
  by (simp add: next_separator_def find_char_first entry_end_def)

lemma entry_end_ge: "index < length chars \<Longrightarrow> index \<le> entry_end chars index"
  by (auto simp: entry_end_def dest: first_char_ge split: option.split)

lemma entry_end_le: "entry_end chars index \<le> length chars"
  by (auto simp: entry_end_def dest: first_char_ge split: option.split)

lemma scan_entry_keep:
  assumes "new_index \<le> length chars"
  shows "scan_entry chars index new_index result = Inr (keep_property chars index new_index result)"
proof (cases "first_char chars index NAME_VALUE_SEPARATOR")
  case (Some kv_sep)
  then have "kv_sep < length chars"
    by (auto dest: first_char_ge)
  then show ?thesis
    using assms Some
    by (auto simp: scan_entry_def find_char_first keep_property_def slice_index_ok usize_pred_def)
qed (simp add: scan_entry_def find_char_first keep_property_def)

function scan_properties :: "string list \<Rightarrow> nat \<Rightarrow> string_map \<Rightarrow> string_map result" where
  "scan_properties chars index result =
     (if index < length chars then
        (case next_separator chars index of
           Inl e \<Rightarrow> Inl e
         | Inr new_index \<Rightarrow>
             (case scan_entry chars index new_index result of
                Inl e \<Rightarrow> Inl e
              | Inr result \<Rightarrow> scan_properties chars (new_index + 1) result))
      else Inr result)"
  by pat_completeness auto
termination
  by (relation "measure (\<lambda>(chars, index, _). length chars - index)")
    (auto intro!: diff_less_mono2 simp: less_Suc_eq_le next_separator_end entry_end_ge)

declare scan_properties.simps [simp del]

lemma scan_properties_next:
  "index < length chars \<Longrightarrow> scan_properties chars index result =
     scan_properties chars (entry_end chars index + 1) (keep_property chars index (entry_end chars index) result)"
  by (subst scan_properties.simps) (simp add: next_separator_end scan_entry_keep entry_end_le)

lemma scan_properties_end: "length chars \<le> index \<Longrightarrow> scan_properties chars index result = Inr result"
  by (subst scan_properties.simps) simp

text \<open>The loop returns a map on every text; none of its index expressions is out of range.\<close>

lemma scan_properties_no_panic: "no_panic (scan_properties chars index result)"
proof (induction "length chars - index" arbitrary: index result rule: less_induct)
  case less
  show ?case
  proof (cases "index < length chars")
    case True
    then have "length chars - (entry_end chars index + 1) < length chars - index"
      using entry_end_ge [of index chars] by linarith
    from less [OF this] show ?thesis
      using True by (simp add: scan_properties_next)
  qed (simp add: scan_properties_end)
qed

definition string_2_message_properties :: "string \<Rightarrow> string_map result" where
  "string_2_message_properties properties_str =
     (if properties_str = [] then Inr ext_new else scan_properties (str_chars properties_str) 0 ext_new)"

lemma properties_no_panic [simp]: "no_panic (string_2_message_properties s)"
  by (simp add: string_2_message_properties_def scan_properties_no_panic)

section \<open>Reading back what was printed\<close>

definition property_text :: "string \<times> string \<Rightarrow> string" where
  "property_text kv = fst kv @ NAME_VALUE_SEPARATOR @ snd kv @ PROPERTY_SEPARATOR"

definition property_ok :: "string \<times> string \<Rightarrow> bool" where
  "property_ok kv \<longleftrightarrow> is_str (fst kv) \<and> is_str (snd kv)
     \<and> CHR 0x01 \<notin> set (fst kv) \<and> CHR 0x02 \<notin> set (fst kv) \<and> CHR 0x02 \<notin> set (snd kv)"

definition properties_ok :: "string_map \<Rightarrow> bool" where
  "properties_ok m \<longleftrightarrow> ext_inv m \<and> list_all property_ok m"

lemma message_properties_2_string_concat:
  "message_properties_2_string m = concat (map property_text m)"
proof -
  have "fold (\<lambda>(name, value) sb. sb @ name @ NAME_VALUE_SEPARATOR @ value @ PROPERTY_SEPARATOR) m a =
      a @ concat (map property_text m)" for a
    by (induction m arbitrary: a) (auto simp: property_text_def split: prod.splits)
  then show ?thesis by (simp add: message_properties_2_string_def)
qed

lemma is_str_property_text: "property_ok kv \<Longrightarrow> is_str (property_text kv)"
  by (auto simp: property_text_def property_ok_def NAME_VALUE_SEPARATOR_def PROPERTY_SEPARATOR_def
      is_str_append is_str_Cons_ascii char_byte_def)

lemma is_str_properties: "list_all property_ok m \<Longrightarrow> is_str (concat (map property_text m))"
  by (induction m) (auto simp: is_str_append is_str_property_text)

lemma find_append: "find P (xs @ ys) = (case find P xs of None \<Rightarrow> find P ys | Some x \<Rightarrow> Some x)"
  by (induction xs) auto

lemma first_char_append:
  assumes "t \<notin> set xs"
  shows "first_char (pre @ xs @ t # post) (length pre) t =
    Some (length pre + length xs)"
proof -
  have "[length pre ..< length (pre @ xs @ t # post)] =
      [length pre ..< length pre + length xs]
        @ (length pre + length xs) # [Suc (length pre + length xs) ..< length (pre @ xs @ t # post)]"
    using upt_add_eq_append [of "length pre" "length pre + length xs" "Suc (length post)"]
    by (simp add: upt_conv_Cons del: upt_Suc) (simp add: ac_simps)
  moreover have "find (\<lambda>i. (pre @ xs @ t # post) ! i = t) [length pre ..< length pre + length xs] = None"
    using assms by (auto simp: find_None_iff nth_append in_set_conv_nth)
  ultimately show ?thesis
    unfolding first_char_def
    by (simp add: find_append nth_append del: upt_Suc)
qed

lemma keep_property_hit:
  fixes pre K V post
  defines "cs \<equiv> pre @ K @ NAME_VALUE_SEPARATOR # V @ PROPERTY_SEPARATOR # post"
  assumes "first_char cs (length pre) NAME_VALUE_SEPARATOR = Some (length pre + length K)"
  shows "keep_property cs (length pre) (length pre + length K + length V + 1) res =
    (if K \<noteq> [] \<and> V \<noteq> [] then ext_insert (concat K) (concat V) res else res)"
proof -
  have "take (length K) (drop (length pre) cs) = K"
    and "take (length V) (drop (length pre + length K + 1) cs) = V"
    by (simp_all add: cs_def)
  moreover have "length pre + length K + length V + 1 - (length pre + length K + 1) = length V"
    by simp
  ultimately show ?thesis
    unfolding keep_property_def assms(2) by (cases K; cases V) auto
qed

lemma scan_properties_entry:
  assumes "property_ok (k, v)"
  shows "scan_properties (pre @ str_chars (property_text (k, v)) @ post) (length pre) res =
    scan_properties (pre @ str_chars (property_text (k, v)) @ post)
      (length (pre @ str_chars (property_text (k, v))))
      (if k \<noteq> [] \<and> v \<noteq> [] then ext_insert k v res else res)"
proof -
  let ?K = "str_chars k" and ?V = "str_chars v"
  let ?cs = "pre @ ?K @ NAME_VALUE_SEPARATOR # ?V @ PROPERTY_SEPARATOR # post"
  have cs: "pre @ str_chars (property_text (k, v)) @ post = ?cs"
    using assms by (simp add: property_text_def property_ok_def str_chars_append str_chars_ascii
        NAME_VALUE_SEPARATOR_def PROPERTY_SEPARATOR_def char_byte_def)
  have len: "length (str_chars (property_text (k, v))) = length ?K + length ?V + 2"
    using assms by (simp add: property_text_def property_ok_def str_chars_append str_chars_ascii
        NAME_VALUE_SEPARATOR_def PROPERTY_SEPARATOR_def char_byte_def)
  have kv: "first_char ?cs (length pre) NAME_VALUE_SEPARATOR = Some (length pre + length ?K)"
    using first_char_append [of NAME_VALUE_SEPARATOR ?K pre "?V @ PROPERTY_SEPARATOR # post"] assms
    by (auto simp: property_ok_def NAME_VALUE_SEPARATOR_def dest: single_in_str_chars)
  have "PROPERTY_SEPARATOR \<notin> set (?K @ NAME_VALUE_SEPARATOR # ?V)"
    using assms by (auto simp: property_ok_def NAME_VALUE_SEPARATOR_def PROPERTY_SEPARATOR_def
        dest: single_in_str_chars)
  then have sep: "entry_end ?cs (length pre) = length pre + length ?K + length ?V + 1"
    using first_char_append [of PROPERTY_SEPARATOR "?K @ NAME_VALUE_SEPARATOR # ?V" pre post]
    by (simp add: entry_end_def)
  have "keep_property ?cs (length pre) (length pre + length ?K + length ?V + 1) res =
      (if k \<noteq> [] \<and> v \<noteq> [] then ext_insert k v res else res)"
    using keep_property_hit [OF kv] by simp
  then show ?thesis
    unfolding cs length_append len by (subst scan_properties_next) (simp_all add: sep add.assoc)
qed

lemma scan_properties_text:
  assumes "list_all property_ok m"
  shows "scan_properties (pre @ str_chars (concat (map property_text m))) (length pre) res =
    Inr (ext_extend res (carried m))"
  using assms
proof (induction m arbitrary: pre res)
  case Nil
  then show ?case by (simp add: scan_properties_end carried_def ext_extend_def)
next
  case (Cons kv m)
  obtain k v where kv: "kv = (k, v)"
    by fastforce
  let ?res = "if k \<noteq> [] \<and> v \<noteq> [] then ext_insert k v res else res"
  have "str_chars (concat (map property_text (kv # m))) =
      str_chars (property_text kv) @ str_chars (concat (map property_text m))"
    using Cons.prems by (simp add: str_chars_append is_str_property_text)
  then show ?case
    using Cons.prems Cons.IH [of "pre @ str_chars (property_text kv)" ?res]
    by (simp add: kv scan_properties_entry carried_def ext_extend_def)
qed

lemma string_2_message_properties_2_string:
  assumes "properties_ok m"
  shows "string_2_message_properties (message_properties_2_string m) = Inr (carried m)"
proof -
  have "ext_extend ext_new (carried m) = carried m"
    using assms by (simp add: properties_ok_def ext_inv_carried ext_extend_new)
  moreover have "m = []" if "concat (map property_text m) = []"
    using that by (cases m) (auto simp: property_text_def NAME_VALUE_SEPARATOR_def)
  ultimately show ?thesis
    using assms scan_properties_text [of m "[]" ext_new]
    by (auto simp: string_2_message_properties_def message_properties_2_string_concat
        properties_ok_def carried_def ext_new_def)
qed

section \<open>Properties\<close>

text \<open>
  A properties text is read back as the map it was printed from, without the entries whose name or value
  is empty.
\<close>
theorem properties_text_round_trip:
  "properties_ok m \<Longrightarrow> string_2_message_properties (message_properties_2_string m) = Inr (carried m)"
  by (rule string_2_message_properties_2_string)

theorem properties_text_round_trip_witness:
  "string_2_message_properties (message_properties_2_string [(''a'', ''1''), (''b'', []), (''c'', ''3'')]) =
     Inr [(''a'', ''1''), (''c'', ''3'')]"
proof -
  have "properties_ok [(''a'', ''1''), (''b'', []), (''c'', ''3'')]"
    by code_simp
  from properties_text_round_trip [OF this] show ?thesis
    by (simp add: carried_def)
qed

end
