(* ===== verification/Buffer.thy ===== *)
theory Buffer
  imports Rmq_Error
begin

text \<open>
  The byte-buffer layer of \<open>src/rust/src/common/buffer.rs\<close>. A \<open>Writer\<close> is a record with its bytes, a
  \<open>Reader\<close> one with the data and a position; every method is a function on the record, the fallible
  ones a \<open>failure + ('a \<times> reader)\<close>. The locale \<open>wire_field\<close> states what a field's encoder and decoder
  promise each other, and is interpreted on every field kind of the wire format.
\<close>

section \<open>Writer\<close>

record writer =
  w_buf :: bytes

definition writer_new :: writer where
  "writer_new = \<lparr>w_buf = []\<rparr>"

definition writer_len :: "writer \<Rightarrow> nat" where
  "writer_len w = length (w_buf w)"

definition writer_bytes :: "bytes \<Rightarrow> writer \<Rightarrow> writer" where
  "writer_bytes src w = w\<lparr>w_buf := w_buf w @ src\<rparr>"

definition writer_u8 :: "u8 \<Rightarrow> writer \<Rightarrow> writer" where
  "writer_u8 v w = w\<lparr>w_buf := w_buf w @ [v]\<rparr>"

definition writer_i16 :: "i32 \<Rightarrow> writer \<Rightarrow> writer" where
  "writer_i16 v w = w\<lparr>w_buf := w_buf w @ to_be_bytes (ucast v :: u16)\<rparr>"

definition writer_u16 :: "u32 \<Rightarrow> writer \<Rightarrow> writer" where
  "writer_u16 v w = w\<lparr>w_buf := w_buf w @ to_be_bytes (ucast v :: u16)\<rparr>"

definition writer_i32 :: "i32 \<Rightarrow> writer \<Rightarrow> writer" where
  "writer_i32 v w = w\<lparr>w_buf := w_buf w @ to_be_bytes v\<rparr>"

definition writer_u32 :: "u32 \<Rightarrow> writer \<Rightarrow> writer" where
  "writer_u32 v w = w\<lparr>w_buf := w_buf w @ to_be_bytes v\<rparr>"

definition writer_i64 :: "i64 \<Rightarrow> writer \<Rightarrow> writer" where
  "writer_i64 v w = w\<lparr>w_buf := w_buf w @ to_be_bytes v\<rparr>"

definition writer_zeros :: "nat \<Rightarrow> writer \<Rightarrow> writer" where
  "writer_zeros n w = w\<lparr>w_buf := w_buf w @ replicate n 0\<rparr>"

text \<open>Overwrites four bytes; the slice \<open>buf[at..at + 4]\<close> panics when it is out of range.\<close>

definition writer_patch_i32 :: "nat \<Rightarrow> i32 \<Rightarrow> writer \<Rightarrow> writer result" where
  "writer_patch_i32 at v w =
     (if length (w_buf w) < at + 4 then Inl (Panic ''range end index out of range'')
      else Inr (w\<lparr>w_buf := take at (w_buf w) @ to_be_bytes v @ drop (at + 4) (w_buf w)\<rparr>))"

definition writer_string :: "bool \<Rightarrow> string option \<Rightarrow> writer \<Rightarrow> writer" where
  "writer_string short_length s w =
     (let bytes = (case s of None \<Rightarrow> [] | Some t \<Rightarrow> str_bytes t);
          w = (if short_length then writer_u16 (of_nat (length bytes)) w
               else writer_i32 (of_nat (length bytes)) w)
      in writer_bytes bytes w)"

definition writer_decimal_long :: "i64 \<Rightarrow> writer \<Rightarrow> writer result" where
  "writer_decimal_long value w =
     (let len_at = length (w_buf w);
          w = writer_i32 0 w;
          w = writer_bytes (str_bytes (show_signed value)) w
      in writer_patch_i32 len_at (of_nat (length (w_buf w) - len_at - 4)) w)"

text \<open>\<open>decimal_int\<close> widens its argument to \<open>i64\<close>.\<close>

definition writer_decimal_int :: "i32 \<Rightarrow> writer \<Rightarrow> writer result" where
  "writer_decimal_int value w = writer_decimal_long (scast value) w"

text \<open>A run of writer calls, in the order of the statements.\<close>

definition write_seq :: "(writer \<Rightarrow> writer) list \<Rightarrow> writer \<Rightarrow> writer" where
  "write_seq fs w = fold (\<lambda>f w. f w) fs w"

section \<open>Reader\<close>

record reader =
  r_data :: bytes
  r_pos :: nat

type_synonym 'a reader_m = "reader \<Rightarrow> ('a \<times> reader) result"

definition r_bind :: "'a reader_m \<Rightarrow> ('a \<Rightarrow> 'b reader_m) \<Rightarrow> 'b reader_m" where
  "r_bind m f r = (case m r of Inl e \<Rightarrow> Inl e | Inr (a, r') \<Rightarrow> f a r')"

definition r_return :: "'a \<Rightarrow> 'a reader_m" where
  "r_return a r = Inr (a, r)"

definition r_fail :: "error \<Rightarrow> 'a reader_m" where
  "r_fail e r = fail e"

text \<open>A fallible computation that leaves the reader alone.\<close>

definition r_lift :: "'a result \<Rightarrow> 'a reader_m" where
  "r_lift m r = bind_result m (\<lambda>a. Inr (a, r))"

text \<open>The value of a run from the start of the data, the reader dropped at the end.\<close>

definition run_reader :: "'a reader_m \<Rightarrow> bytes \<Rightarrow> 'a result" where
  "run_reader m d = bind_result (m \<lparr>r_data = d, r_pos = 0\<rparr>) (\<lambda>(a, r). Inr a)"

definition reader_new :: "bytes \<Rightarrow> reader" where
  "reader_new d = \<lparr>r_data = d, r_pos = 0\<rparr>"

definition reader_with_pos :: "bytes \<Rightarrow> nat \<Rightarrow> reader" where
  "reader_with_pos d p = \<lparr>r_data = d, r_pos = p\<rparr>"

definition reader_remaining :: "reader \<Rightarrow> nat" where
  "reader_remaining r = length (r_data r) - r_pos r"

text \<open>
  \<open>start.checked_add(len)\<close> fails above \<open>usize::MAX\<close>. A slice is never that long, so the overflow is a
  case of the end lying beyond the data, and the model decides it inside that case.
\<close>

definition reader_slice :: "nat \<Rightarrow> nat \<Rightarrow> reader \<Rightarrow> bytes result" where
  "reader_slice start len r =
     (if length (r_data r) < start + len then
        (if 2 ^ 64 \<le> start + len then fail (Decode ''slice overflow'')
         else fail (Decode (''buffer underflow: need '' @ show_nat (start + len) @ '' bytes, have ''
                @ show_nat (length (r_data r)))))
      else slice_index (r_data r) start (start + len))"

definition reader_take :: "nat \<Rightarrow> bytes reader_m" where
  "reader_take n r = bind_result (reader_slice (r_pos r) n r)
     (\<lambda>part. Inr (part, r\<lparr>r_pos := r_pos r + n\<rparr>))"

text \<open>\<open>from_be_bytes\<close> of an array of index expressions.\<close>

definition be_at :: "bytes \<Rightarrow> nat list \<Rightarrow> 'a::len word result" where
  "be_at bs is = bind_result (index_all bs is) (\<lambda>as. Inr (from_be_bytes as))"

definition reader_u8 :: "u8 reader_m" where
  "reader_u8 = r_bind (reader_take 1) (\<lambda>b. r_lift (index_at b 0))"

definition reader_u16 :: "u16 reader_m" where
  "reader_u16 = r_bind (reader_take 2) (\<lambda>b. r_lift (be_at b [0, 1]))"

text \<open>\<open>i16\<close> is declared signed but returns the unsigned value widened to \<open>i32\<close>.\<close>

definition reader_i16 :: "i32 reader_m" where
  "reader_i16 = r_bind reader_u16 (\<lambda>v. r_return (ucast v))"

definition reader_i32 :: "i32 reader_m" where
  "reader_i32 = r_bind (reader_take 4)
     (\<lambda>b. r_lift (be_at b [0, 1, 2, 3]))"

definition reader_u32 :: "u32 reader_m" where
  "reader_u32 = r_bind (reader_take 4)
     (\<lambda>b. r_lift (be_at b [0, 1, 2, 3]))"

definition reader_i64 :: "i64 reader_m" where
  "reader_i64 = r_bind (reader_take 8)
     (\<lambda>b. r_lift (be_at b [0, 1, 2, 3, 4, 5, 6, 7]))"

definition reader_bytes :: "nat \<Rightarrow> bytes reader_m" where
  "reader_bytes n = reader_take n"

definition reader_rest :: "bytes reader_m" where
  "reader_rest r = bind_result (slice_index (r_data r) (min (r_pos r) (length (r_data r))) (length (r_data r)))
     (\<lambda>part. Inr (part, r\<lparr>r_pos := length (r_data r)\<rparr>))"

text \<open>An optional string; length 0 is \<open>None\<close>, not the empty string.\<close>

definition reader_string :: "bool \<Rightarrow> string option reader_m" where
  "reader_string short_length =
     r_bind (if short_length then r_bind reader_u16 (\<lambda>n. r_return (unat n))
             else r_bind reader_i32 (\<lambda>raw.
               if raw <s 0
               then r_fail (Decode (''negative string length '' @ show_signed raw))
               else r_return (as_usize raw)))
       (\<lambda>n. if n = 0 then r_return None
            else r_bind (reader_bytes n) (\<lambda>bytes.
              case from_utf8 bytes of
                None \<Rightarrow> r_fail (Decode ''invalid utf8: '')
              | Some s \<Rightarrow> r_return (Some s)))"

definition reader_decimal_long :: "i64 reader_m" where
  "reader_decimal_long =
     r_bind reader_i32 (\<lambda>n.
       if n \<le>s 0 then r_return 0
       else r_bind (reader_bytes (as_usize n)) (\<lambda>raw.
         case from_utf8 raw of
           None \<Rightarrow> r_fail (Decode ''invalid utf8: '')
         | Some text \<Rightarrow>
             (case parse_i64 (str_trim text) of
                None \<Rightarrow> r_fail (Decode (''bad decimal '' @ text))
              | Some v \<Rightarrow> r_return v)))"

definition reader_decimal_int :: "i32 reader_m" where
  "reader_decimal_int = r_bind reader_decimal_long (\<lambda>v. r_return (ucast v))"

section \<open>Writers append, readers advance\<close>

lemma w_buf_simps [simp]:
  "w_buf writer_new = []"
  "w_buf (writer_bytes bs w) = w_buf w @ bs"
  "w_buf (writer_u8 b w) = w_buf w @ [b]"
  "w_buf (writer_i16 i w) = w_buf w @ to_be_bytes (ucast i :: u16)"
  "w_buf (writer_u16 u w) = w_buf w @ to_be_bytes (ucast u :: u16)"
  "w_buf (writer_i32 i w) = w_buf w @ to_be_bytes i"
  "w_buf (writer_u32 u w) = w_buf w @ to_be_bytes u"
  "w_buf (writer_i64 l w) = w_buf w @ to_be_bytes l"
  "w_buf (writer_zeros n w) = w_buf w @ replicate n 0"
  by (simp_all add: writer_new_def writer_bytes_def writer_u8_def writer_i16_def writer_u16_def
      writer_i32_def writer_u32_def writer_i64_def writer_zeros_def)

lemma write_seq_simps [simp]:
  "write_seq [] w = w" "write_seq (f # fs) w = write_seq fs (f w)"
  by (simp_all add: write_seq_def)

definition string_field :: "bool \<Rightarrow> string option \<Rightarrow> bytes" where
  "string_field short_length s =
     (let bytes = (case s of None \<Rightarrow> [] | Some t \<Rightarrow> str_bytes t)
      in (if short_length then to_be_bytes (of_nat (length bytes) :: u16)
          else to_be_bytes (of_nat (length bytes) :: i32)) @ bytes)"

lemma ucast_of_nat_16: "(ucast (of_nat n :: u32) :: u16) = of_nat n"
  by (simp add: unsigned_of_nat word_of_nat_eq_iff)

lemma w_buf_string [simp]: "w_buf (writer_string b s w) = w_buf w @ string_field b s"
  by (simp add: writer_string_def string_field_def Let_def ucast_of_nat_16)

definition decimal_field :: "i64 \<Rightarrow> bytes" where
  "decimal_field v = to_be_bytes (of_nat (length (show_signed v)) :: i32) @ str_bytes (show_signed v)"

lemma writer_decimal_long_ok:
  "writer_decimal_long v w = Inr (w\<lparr>w_buf := w_buf w @ decimal_field v\<rparr>)"
  by (simp add: writer_decimal_long_def writer_patch_i32_def decimal_field_def Let_def
      writer_bytes_def writer_i32_def)

text \<open>A reader that has consumed \<open>pre\<close> and has \<open>rest\<close> before it.\<close>

definition rd_at :: "bytes \<Rightarrow> bytes \<Rightarrow> reader" where
  "rd_at pre rest = \<lparr>r_data = pre @ rest, r_pos = length pre\<rparr>"

lemma rd_at_fields [simp]:
  "r_data (rd_at pre rest) = pre @ rest" "r_pos (rd_at pre rest) = length pre"
  "reader_remaining (rd_at pre rest) = length rest"
  by (simp_all add: rd_at_def reader_remaining_def)

lemma reader_new_at: "reader_new d = rd_at [] d"
  by (simp add: reader_new_def rd_at_def)

lemma reader_with_pos_at: "n \<le> length d \<Longrightarrow> reader_with_pos d n = rd_at (take n d) (drop n d)"
  by (simp add: reader_with_pos_def rd_at_def min_def)

lemma run_reader_at: "run_reader m d = bind_result (m (rd_at [] d)) (\<lambda>(a, r). Inr a)"
  by (simp add: run_reader_def rd_at_def)

lemma r_bind_simps [wire_simps]:
  "m r = Inr (a, r') \<Longrightarrow> r_bind m f r = f a r'"
  "m r = Inl e \<Longrightarrow> r_bind m f r = Inl e"
  by (simp_all add: r_bind_def)

lemma r_unit_simps [simp]:
  "r_return a r = Inr (a, r)" "r_fail e r = fail e"
  "r_bind (r_return a) f = f a" "r_bind (r_fail e) f = r_fail e"
  "r_lift (Inr a) r = Inr (a, r)" "r_lift (Inl x) r = Inl x"
  by (simp_all add: r_return_def r_fail_def r_bind_def r_lift_def fun_eq_iff)

lemma r_bind_assoc: "r_bind (r_bind m f) g = r_bind m (\<lambda>a. r_bind (f a) g)"
  by (auto simp: r_bind_def fun_eq_iff split: sum.splits)

lemma reader_take_at [wire_simps]:
  "length xs = n \<Longrightarrow> reader_take n (rd_at pre (xs @ rest)) = Inr (xs, rd_at (pre @ xs) rest)"
  by (simp add: reader_take_def reader_slice_def slice_index_def rd_at_def)

lemma r_bind_take [wire_simps]:
  "length xs = n \<Longrightarrow>
     r_bind (reader_take n) f (rd_at pre (xs @ rest)) = f xs (rd_at (pre @ xs) rest)"
  by (simp add: r_bind_def reader_take_at)

lemma reader_take_underflow:
  "length rest < n \<Longrightarrow> \<exists>m. reader_take n (rd_at pre rest) = fail (Decode m)"
  by (simp add: reader_take_def reader_slice_def slice_index_def)

lemma reader_take_no_panic [simp]: "no_panic (reader_take n r)"
  by (simp add: reader_take_def reader_slice_def slice_index_def)

lemma reader_take_length: "reader_take n r = Inr (b, r') \<Longrightarrow> length b = n"
  by (auto simp: reader_take_def reader_slice_def slice_index_def bind_result_Inr split: if_splits)

lemma bind_take_cong:
  assumes "\<And>b. length b = n \<Longrightarrow> f b = g b"
  shows "r_bind (reader_take n) f = r_bind (reader_take n) g"
  using assms by (auto simp: r_bind_def fun_eq_iff split: sum.split dest!: reader_take_length)

lemma r_lift_Inr: "r_lift (Inr a) = r_return a"
  by (simp add: fun_eq_iff r_lift_def r_return_def)

text \<open>
  What the fixed-width reads amount to. The indices are in range because \<open>take\<close> hands out as many bytes as it was
  asked for, so none of the index expressions panics.
\<close>

lemma fixed_width_eqs:
  "reader_u8 = r_bind (reader_take 1) (\<lambda>b. r_return (b ! 0))"
  "reader_u16 = r_bind (reader_take 2) (\<lambda>b. r_return (from_be_bytes [b ! 0, b ! 1]))"
  "reader_i32 = r_bind (reader_take 4) (\<lambda>b. r_return (from_be_bytes [b ! 0, b ! 1, b ! 2, b ! 3]))"
  "reader_u32 = r_bind (reader_take 4) (\<lambda>b. r_return (from_be_bytes [b ! 0, b ! 1, b ! 2, b ! 3]))"
  "reader_i64 = r_bind (reader_take 8)
     (\<lambda>b. r_return (from_be_bytes [b ! 0, b ! 1, b ! 2, b ! 3, b ! 4, b ! 5, b ! 6, b ! 7]))"
  unfolding reader_u8_def reader_u16_def reader_i32_def reader_u32_def reader_i64_def
  by (rule bind_take_cong, simp add: be_at_def index_all_ok r_lift_Inr)+

lemma reader_take_cases:
  "reader_take n (rd_at pre rest) =
     (if n \<le> length rest then Inr (take n rest, rd_at (pre @ take n rest) (drop n rest))
      else reader_take n (rd_at pre rest))"
  by (simp add: reader_take_def reader_slice_def slice_index_def rd_at_def)

section \<open>The contract of a wire field\<close>

text \<open>
  What an encoder and a decoder of one field owe each other: on the values the field can carry
  (\<open>ok\<close>), decoding what was encoded gives the value back and stops exactly behind it, whatever
  follows.
\<close>

locale wire_field =
  fixes enc :: "'a \<Rightarrow> bytes"
    and dec :: "'a reader_m"
    and ok :: "'a \<Rightarrow> bool"
  assumes dec_enc: "ok x \<Longrightarrow> dec (rd_at pre (enc x @ rest)) = Inr (x, rd_at (pre @ enc x) rest)"
begin

lemma dec_enc_end: "ok x \<Longrightarrow> dec (rd_at pre (enc x)) = Inr (x, rd_at (pre @ enc x) [])"
  using dec_enc [of x pre "[]"] by simp

lemma bind_dec_enc:
  "ok x \<Longrightarrow> r_bind dec f (rd_at pre (enc x @ rest)) = f x (rd_at (pre @ enc x) rest)"
  by (rule r_bind_simps(1)) (rule dec_enc)

lemma prefix_free:
  assumes "ok x" and "ok y" and "enc x @ r = enc y @ s"
  shows "x = y \<and> r = s"
proof -
  have "dec (rd_at [] (enc x @ r)) = Inr (y, rd_at ([] @ enc y) s)"
    using assms(2,3) dec_enc [of y "[]" s] by simp
  then have "x = y"
    using assms(1) dec_enc [of x "[]" r] by simp
  with assms(3) show ?thesis by simp
qed

end

lemma list4: "length xs = 4 \<Longrightarrow> [xs ! 0, xs ! 1, xs ! 2, xs ! 3] = xs"
  by (auto simp: numeral_eq_Suc length_Suc_conv)

lemma list8: "length xs = 8 \<Longrightarrow>
    [xs ! 0, xs ! 1, xs ! 2, xs ! 3, xs ! 4, xs ! 5, xs ! 6, xs ! 7] = xs"
  by (auto simp: numeral_eq_Suc length_Suc_conv)

lemma list2: "length xs = 2 \<Longrightarrow> [xs ! 0, xs ! 1] = xs"
  by (auto simp: numeral_eq_Suc length_Suc_conv)

lemmas fixed_width_defs =
  fixed_width_eqs reader_i16_def

interpretation fu8: wire_field "\<lambda>b. [b]" reader_u8 "\<lambda>_. True"
proof
  fix x :: u8 and pre rest
  show "reader_u8 (rd_at pre ([x] @ rest)) = Inr (x, rd_at (pre @ [x]) rest)"
    using reader_take_at [of "[x]" 1 pre rest] by (simp add: fixed_width_eqs r_bind_def)
qed

interpretation fu16: wire_field to_be_bytes reader_u16 "\<lambda>_. True"
proof
  fix x :: u16 and pre rest
  show "reader_u16 (rd_at pre (to_be_bytes x @ rest)) = Inr (x, rd_at (pre @ to_be_bytes x) rest)"
    using list2 [of "to_be_bytes x"]
    by (simp add: fixed_width_eqs r_bind_def reader_take_at)
qed

interpretation fi32: wire_field to_be_bytes reader_i32 "\<lambda>_. True"
proof
  fix x :: i32 and pre rest
  show "reader_i32 (rd_at pre (to_be_bytes x @ rest)) = Inr (x, rd_at (pre @ to_be_bytes x) rest)"
    using list4 [of "to_be_bytes x"]
    by (simp add: fixed_width_eqs r_bind_def reader_take_at)
qed

interpretation fu32: wire_field to_be_bytes reader_u32 "\<lambda>_. True"
proof
  fix x :: u32 and pre rest
  show "reader_u32 (rd_at pre (to_be_bytes x @ rest)) = Inr (x, rd_at (pre @ to_be_bytes x) rest)"
    using list4 [of "to_be_bytes x"]
    by (simp add: fixed_width_eqs r_bind_def reader_take_at)
qed

interpretation fi64: wire_field to_be_bytes reader_i64 "\<lambda>_. True"
proof
  fix x :: i64 and pre rest
  show "reader_i64 (rd_at pre (to_be_bytes x @ rest)) = Inr (x, rd_at (pre @ to_be_bytes x) rest)"
    using list8 [of "to_be_bytes x"]
    by (simp add: fixed_width_eqs r_bind_def reader_take_at)
qed

text \<open>The 16-bit field that \<open>i16\<close> reads: only \<open>0..65535\<close> come back as they were written.\<close>

interpretation fi16: wire_field "\<lambda>v :: i32. to_be_bytes (ucast v :: u16)" reader_i16
  "\<lambda>v. v < 0x10000"
proof
  fix x :: i32 and pre rest
  assume "x < 0x10000"
  then have "(ucast (ucast x :: u16) :: i32) = x"
    by (simp add: word_uint_eq_iff word_less_def unsigned_ucast_eq take_bit_eq_mod uint_mod)
  then show "reader_i16 (rd_at pre (to_be_bytes (ucast x :: u16) @ rest)) =
      Inr (x, rd_at (pre @ to_be_bytes (ucast x :: u16)) rest)"
    by (simp add: reader_i16_def fu16.bind_dec_enc)
qed

definition string_ok :: "bool \<Rightarrow> string option \<Rightarrow> bool" where
  "string_ok short_length s \<longleftrightarrow> (case s of None \<Rightarrow> True
     | Some t \<Rightarrow> t \<noteq> [] \<and> is_str t \<and> length t < (if short_length then 2 ^ 16 else 2 ^ 31))"

lemma not_sless_0_of_nat: "n < 2 ^ 31 \<Longrightarrow> \<not> (of_nat n :: i32) <s 0"
  by (simp add: word_sless_alt sint_of_nat_small)

interpretation fstr: wire_field "string_field short_length" "reader_string short_length"
    "string_ok short_length"
  for short_length
proof
  fix x pre rest
  assume ok: "string_ok short_length x"
  define bs where "bs = (case x of None \<Rightarrow> [] | Some t \<Rightarrow> str_bytes t)"
  have short: "unat (of_nat (length bs) :: u16) = length bs" if short_length
    using ok that by (auto simp: string_ok_def bs_def unat_of_nat split: option.splits)
  have long: "as_usize (of_nat (length bs) :: i32) = length bs"
      "\<not> (of_nat (length bs) :: i32) <s 0" if "\<not> short_length"
    using ok that
    by (auto simp: string_ok_def bs_def as_usize_of_nat not_sless_0_of_nat split: option.splits)
  have enc: "string_field short_length x =
      (if short_length then to_be_bytes (of_nat (length bs) :: u16)
       else to_be_bytes (of_nat (length bs) :: i32)) @ bs"
    by (simp add: string_field_def bs_def Let_def)
  have empty: "bs = [] \<longleftrightarrow> x = None"
    using ok by (auto simp: bs_def string_ok_def split: option.splits)
  have tail: "bs \<noteq> [] \<Longrightarrow> r_bind (reader_bytes (length bs))
        (\<lambda>b. case from_utf8 b of None \<Rightarrow> r_fail (Decode ''invalid utf8: '') | Some s \<Rightarrow> r_return (Some s))
        (rd_at q (bs @ rest)) = Inr (x, rd_at (q @ bs) rest)" for q
    using ok by (auto simp: bs_def string_ok_def reader_bytes_def r_bind_take split: option.splits)
  show "reader_string short_length (rd_at pre (string_field short_length x @ rest)) =
      Inr (x, rd_at (pre @ string_field short_length x) rest)"
    unfolding enc reader_string_def
    by (cases short_length; cases "bs = []")
      (simp_all add: r_bind_assoc fu16.bind_dec_enc fi32.bind_dec_enc short long tail empty)
qed

interpretation fdec: wire_field decimal_field reader_decimal_long "\<lambda>_. True"
proof
  fix x :: i64 and pre rest
  define n where "n = length (show_signed x)"
  have n: "n \<le> 20" "n \<noteq> 0"
    using length_show_i64 [of x] by (auto simp: n_def show_int_def)
  then have "\<not> (of_nat n :: i32) \<le>s 0" and "as_usize (of_nat n :: i32) = n"
    by (simp_all add: word_sle_eq sint_of_nat_small as_usize_of_nat)
  then show "reader_decimal_long (rd_at pre (decimal_field x @ rest)) =
      Inr (x, rd_at (pre @ decimal_field x) rest)"
    by (simp add: reader_decimal_long_def decimal_field_def fi32.bind_dec_enc reader_bytes_def
        r_bind_take flip: n_def)
qed

section \<open>Readers that never panic\<close>

definition safe_reader :: "'a reader_m \<Rightarrow> bool" where
  "safe_reader m \<longleftrightarrow> (\<forall>r. no_panic (m r))"

named_theorems safe_intros \<open>readers that never panic\<close>

lemma safe_bind [safe_intros]:
  "safe_reader m \<Longrightarrow> (\<And>a. safe_reader (f a)) \<Longrightarrow> safe_reader (r_bind m f)"
proof (unfold safe_reader_def, rule allI)
  fix r
  assume m: "\<forall>r. no_panic (m r)" and f: "\<And>a. \<forall>r. no_panic (f a r)"
  show "no_panic (r_bind m f r)"
    using m [THEN spec, of r] f by (cases "m r") (auto simp: r_bind_def no_panic_def)
qed

lemma safe_units [safe_intros]:
  "safe_reader (r_return a)" "safe_reader (r_fail e)" "no_panic v \<Longrightarrow> safe_reader (r_lift v)"
  "safe_reader (reader_take n)"
  by (auto simp: safe_reader_def r_lift_def no_panic_def split: sum.splits failure.splits)
    (metis no_panic_simps(3) reader_take_no_panic)

lemma safe_fields [safe_intros]:
  "safe_reader reader_u8" "safe_reader reader_u16" "safe_reader reader_i16" "safe_reader reader_i32" "safe_reader reader_u32"
  "safe_reader reader_i64" "safe_reader (reader_bytes n)"
  unfolding fixed_width_defs reader_bytes_def by (intro safe_intros)+

lemma safe_string [safe_intros]: "safe_reader (reader_string b)"
proof -
  have "safe_reader (case from_utf8 bs of None \<Rightarrow> r_fail e | Some s \<Rightarrow> r_return (Some s))" for bs e
    by (cases "from_utf8 bs") (simp_all add: safe_units)
  then show ?thesis
    unfolding reader_string_def by (auto intro!: safe_intros)
qed

lemma safe_if [safe_intros]: "safe_reader a \<Longrightarrow> safe_reader b \<Longrightarrow> safe_reader (if p then a else b)"
  by simp

end
