(* ===== verification/Frame_Stream.thy ===== *)
theory Frame_Stream
  imports Buffer
begin

text \<open>
  Concatenated records, each opening with its own size as a big-endian \<open>i32\<close>: the scanning loops of
  \<open>src/rust/src/common/message_decoder.rs\<close>. The loop variable is the part of the buffer from \<open>pos\<close> on, so
  \<open>total - pos\<close> is its length. The locale \<open>framed\<close> is the contract of a record's encoder and decoder under
  which the loops return exactly the records that were written.
\<close>

section \<open>The loops\<close>

definition frame_size :: "bytes \<Rightarrow> i32" where
  "frame_size raw = from_be_bytes [raw ! 0, raw ! 1, raw ! 2, raw ! 3]"

definition bad_size :: "i32 \<Rightarrow> bytes \<Rightarrow> bool" where
  "bad_size store_size raw \<longleftrightarrow> store_size \<le>s 0 \<or> length raw < as_usize store_size"

lemma good_size: "\<not> bad_size s raw \<Longrightarrow> 0 < as_usize s \<and> as_usize s \<le> length raw"
proof -
  assume "\<not> bad_size s raw"
  then have "0 < sint s" and "as_usize s \<le> length raw"
    by (auto simp: bad_size_def word_sle_eq)
  then show ?thesis
    by (simp add: as_usize_nonneg)
qed

text \<open>The loop of \<open>decode_messages_with\<close> and of \<open>decode_batch_messages\<close>: a record that does not decode,
  or a size that does not fit, ends it with what was collected.\<close>

function decode_frames :: "(bytes \<Rightarrow> 'a result) \<Rightarrow> bytes \<Rightarrow> 'a list" where
  "decode_frames dec raw =
     (if raw = [] \<or> length raw < 4 then []
      else let store_size = frame_size raw in
        if bad_size store_size raw then []
        else (case dec (take (as_usize store_size) raw) of
                Inl _ \<Rightarrow> []
              | Inr msg \<Rightarrow> msg # decode_frames dec (drop (as_usize store_size) raw)))"
  by pat_completeness auto
termination
  by (relation "measure (\<lambda>(_, raw). length raw)") (auto dest!: good_size)

declare decode_frames.simps [simp del]

text \<open>The loop of \<open>decode_inner_batch_members\<close>: every defect is an error.\<close>

function decode_all_frames :: "(bytes \<Rightarrow> 'a result) \<Rightarrow> bytes \<Rightarrow> 'a list result" where
  "decode_all_frames dec raw =
     (if raw = [] then Inr []
      else if length raw < 4 then fail (Decode ''truncated inner batch record'')
      else let store_size = frame_size raw in
        if bad_size store_size raw
        then fail (Decode (''illegal inner batch record size: '' @ show_signed store_size))
        else (case dec (take (as_usize store_size) raw) of
                Inl e \<Rightarrow> Inl e
              | Inr msg \<Rightarrow> bind_result (decode_all_frames dec (drop (as_usize store_size) raw))
                           (\<lambda>out. Inr (msg # out))))"
  by pat_completeness auto
termination
  by (relation "measure (\<lambda>(_, raw). length raw)") (auto dest!: good_size)

declare decode_all_frames.simps [simp del]

function count_frames :: "i32 \<Rightarrow> bytes \<Rightarrow> i32" where
  "count_frames count raw =
     (if raw = [] then count
      else if length raw < 4 then count + 1
      else let size = frame_size raw in
        if bad_size size raw then count + 1
        else count_frames (count + 1) (drop (as_usize size) raw))"
  by pat_completeness auto
termination
  by (relation "measure (\<lambda>(_, raw). length raw)") (auto dest!: good_size)

declare count_frames.simps [simp del]

definition count_inner_msg_num :: "bytes \<Rightarrow> i32" where
  "count_inner_msg_num raw = count_frames 0 raw"

section \<open>The contract of a sized record\<close>

lemma length_to_be_bytes_i32: "length (to_be_bytes (w :: i32)) = 4"
  by simp

locale framed =
  fixes enc :: "'a \<Rightarrow> bytes"
    and dec :: "bytes \<Rightarrow> 'b result"
    and view :: "'a \<Rightarrow> 'b"
    and ok :: "'a \<Rightarrow> bool"
  assumes dec_enc: "ok x \<Longrightarrow> dec (enc x) = Inr (view x)"
    and enc_size: "ok x \<Longrightarrow> \<exists>body. enc x = to_be_bytes (of_nat (length (enc x)) :: i32) @ body"
    and enc_short: "ok x \<Longrightarrow> length (enc x) < 2 ^ 31"
begin

lemma enc_frame:
  assumes "ok x"
  shows "4 \<le> length (enc x)" "frame_size (enc x @ rest) = of_nat (length (enc x))"
    "as_usize (of_nat (length (enc x)) :: i32) = length (enc x)"
    "\<not> bad_size (of_nat (length (enc x))) (enc x @ rest)"
proof -
  obtain body where body: "enc x = to_be_bytes (of_nat (length (enc x)) :: i32) @ body"
    using enc_size assms by blast
  have "length (enc x) = length (to_be_bytes (of_nat (length (enc x)) :: i32) @ body)"
    by (rule arg_cong [OF body])
  also have "\<dots> = 4 + length body"
    by simp
  finally have len: "length (enc x) = 4 + length body" .
  then show "4 \<le> length (enc x)" by simp
  let ?w = "to_be_bytes (of_nat (length (enc x)) :: i32)"
  have "\<forall>i < 4. (enc x @ rest) ! i = ?w ! i"
    by (metis body append.assoc length_to_be_bytes_i32 nth_append)
  then have "frame_size (enc x @ rest) = from_be_bytes [?w ! 0, ?w ! 1, ?w ! 2, ?w ! 3]"
    by (simp add: frame_size_def)
  also have "\<dots> = of_nat (length (enc x))"
    by (subst list4) simp_all
  finally show "frame_size (enc x @ rest) = of_nat (length (enc x))" .
  show us: "as_usize (of_nat (length (enc x)) :: i32) = length (enc x)"
    using enc_short [OF assms] by (simp add: as_usize_of_nat)
  have "0 < sint (of_nat (length (enc x)) :: i32)"
    using enc_short [OF assms] \<open>4 \<le> length (enc x)\<close> by (auto simp: sint_of_nat_small)
  with us show "\<not> bad_size (of_nat (length (enc x))) (enc x @ rest)"
    by (simp add: bad_size_def word_sle_eq)
qed

lemma decode_frames_step:
  "ok x \<Longrightarrow> decode_frames dec (enc x @ rest) = view x # decode_frames dec rest"
  using enc_frame(1,3) [of x] enc_frame(2,4) [of x rest] dec_enc [of x]
  by (subst decode_frames.simps) (auto simp: Let_def)

text \<open>Records in front of anything are all returned, in order.\<close>

lemma decode_frames_concat:
  "list_all ok xs \<Longrightarrow>
     decode_frames dec (concat (map enc xs) @ rest) = map view xs @ decode_frames dec rest"
  by (induction xs) (simp_all add: decode_frames_step)

lemma decode_frames_all: "list_all ok xs \<Longrightarrow> decode_frames dec (concat (map enc xs)) = map view xs"
  using decode_frames_concat [of xs "[]"] by (simp add: decode_frames.simps [of dec "[]"])

lemma decode_all_frames_step:
  "ok x \<Longrightarrow> decode_all_frames dec (enc x @ rest) =
     bind_result (decode_all_frames dec rest) (\<lambda>out. Inr (view x # out))"
  using enc_frame(1,3) [of x] enc_frame(2,4) [of x rest] dec_enc [of x]
  by (subst decode_all_frames.simps) (auto simp: Let_def)

lemma decode_all_frames_concat:
  "list_all ok xs \<Longrightarrow> decode_all_frames dec (concat (map enc xs) @ rest) =
     bind_result (decode_all_frames dec rest) (\<lambda>out. Inr (map view xs @ out))"
proof (induction xs)
  case Nil
  then show ?case by (cases "decode_all_frames dec rest") simp_all
next
  case (Cons x xs)
  then show ?case by (cases "decode_all_frames dec rest") (simp_all add: decode_all_frames_step)
qed

lemma decode_all_frames_all:
  "list_all ok xs \<Longrightarrow> decode_all_frames dec (concat (map enc xs)) = Inr (map view xs)"
  using decode_all_frames_concat [of xs "[]"] by (simp add: decode_all_frames.simps [of dec "[]"])

lemma count_frames_all:
  "list_all ok xs \<Longrightarrow> count_frames n (concat (map enc xs)) = n + of_nat (length xs)"
proof (induction xs arbitrary: n)
  case Nil
  then show ?case by (simp add: count_frames.simps)
next
  case (Cons x xs)
  with enc_frame(1,3) [of x] enc_frame(2,4) [of x "concat (map enc xs)"] show ?case
    by (subst count_frames.simps) (auto simp: Let_def)
qed

end

end
