(* ===== verification/Sys_Flag.thy ===== *)
theory Sys_Flag
  imports Rmq_Error
begin

text \<open>
  The bit sets of \<open>src/rust/src/common/sysflag.rs\<close>: message system flags with their packed compression
  type and transaction state, pull request flags, and topic permissions.
\<close>

section \<open>MessageSysFlag\<close>

definition COMPRESSED_FLAG :: i32 where "COMPRESSED_FLAG = 0x1"
definition MULTI_TAGS_FLAG :: i32 where "MULTI_TAGS_FLAG = push_bit 1 0x1"
definition TRANSACTION_NOT_TYPE :: i32 where "TRANSACTION_NOT_TYPE = 0"
definition TRANSACTION_PREPARED_TYPE :: i32 where "TRANSACTION_PREPARED_TYPE = push_bit 2 0x1"
definition TRANSACTION_COMMIT_TYPE :: i32 where "TRANSACTION_COMMIT_TYPE = push_bit 2 0x2"
definition TRANSACTION_ROLLBACK_TYPE :: i32 where "TRANSACTION_ROLLBACK_TYPE = push_bit 2 0x3"
definition BORNHOST_V6_FLAG :: i32 where "BORNHOST_V6_FLAG = push_bit 4 0x1"
definition STOREHOSTADDRESS_V6_FLAG :: i32 where "STOREHOSTADDRESS_V6_FLAG = push_bit 5 0x1"
definition NEED_UNWRAP_FLAG :: i32 where "NEED_UNWRAP_FLAG = push_bit 6 0x1"
definition INNER_BATCH_FLAG :: i32 where "INNER_BATCH_FLAG = push_bit 7 0x1"
definition COMPRESSION_LZ4_TYPE :: i32 where "COMPRESSION_LZ4_TYPE = push_bit 8 0x1"
definition COMPRESSION_ZSTD_TYPE :: i32 where "COMPRESSION_ZSTD_TYPE = push_bit 8 0x2"
definition COMPRESSION_ZLIB_TYPE :: i32 where "COMPRESSION_ZLIB_TYPE = push_bit 8 0x3"
definition COMPRESSION_TYPE_COMPARATOR :: i32 where "COMPRESSION_TYPE_COMPARATOR = push_bit 8 0x7"
definition COMPRESSION_TYPE_SHIFT :: nat where "COMPRESSION_TYPE_SHIFT = 8"

definition get_compression_type :: "i32 \<Rightarrow> i32" where
  "get_compression_type sys_flag =
     signed_drop_bit COMPRESSION_TYPE_SHIFT (sys_flag AND COMPRESSION_TYPE_COMPARATOR)"

definition set_compression_type :: "i32 \<Rightarrow> i32 \<Rightarrow> i32" where
  "set_compression_type sys_flag compression_type =
     (sys_flag AND NOT COMPRESSION_TYPE_COMPARATOR)
       OR (push_bit COMPRESSION_TYPE_SHIFT compression_type AND COMPRESSION_TYPE_COMPARATOR)"

definition is_compressed :: "i32 \<Rightarrow> bool" where
  "is_compressed sys_flag \<longleftrightarrow> sys_flag AND COMPRESSED_FLAG = COMPRESSED_FLAG"

definition clear_compressed_flag :: "i32 \<Rightarrow> i32" where
  "clear_compressed_flag sys_flag = sys_flag AND NOT COMPRESSED_FLAG"

definition get_transaction_value :: "i32 \<Rightarrow> i32" where
  "get_transaction_value flag = flag AND TRANSACTION_ROLLBACK_TYPE"

definition reset_transaction_value :: "i32 \<Rightarrow> i32 \<Rightarrow> i32" where
  "reset_transaction_value flag transaction_type =
     (flag AND NOT TRANSACTION_ROLLBACK_TYPE) OR transaction_type"

definition check_flag :: "i32 \<Rightarrow> i32 \<Rightarrow> bool" where
  "check_flag flag expected_flag \<longleftrightarrow> flag AND expected_flag \<noteq> 0"

section \<open>PullSysFlag\<close>

definition FLAG_COMMIT_OFFSET :: i32 where "FLAG_COMMIT_OFFSET = 0x1"
definition FLAG_SUSPEND :: i32 where "FLAG_SUSPEND = push_bit 1 0x1"
definition FLAG_SUBSCRIPTION :: i32 where "FLAG_SUBSCRIPTION = push_bit 2 0x1"
definition FLAG_CLASS_FILTER :: i32 where "FLAG_CLASS_FILTER = push_bit 3 0x1"
definition FLAG_LITE_PULL_MESSAGE :: i32 where "FLAG_LITE_PULL_MESSAGE = push_bit 4 0x1"
definition FLAG_START_OFFSET :: i32 where "FLAG_START_OFFSET = push_bit 9 0x1"
definition FLAG_SUPPORT_FILTER_AND_COMPUTE_HASHING :: i32 where
  "FLAG_SUPPORT_FILTER_AND_COMPUTE_HASHING = push_bit 10 0x1"

definition build_sys_flag :: "bool \<Rightarrow> bool \<Rightarrow> bool \<Rightarrow> bool \<Rightarrow> bool \<Rightarrow> i32" where
  "build_sys_flag commit_offset suspend subscription class_filter lite_pull =
     (let flag = 0;
          flag = (if commit_offset then flag OR FLAG_COMMIT_OFFSET else flag);
          flag = (if suspend then flag OR FLAG_SUSPEND else flag);
          flag = (if subscription then flag OR FLAG_SUBSCRIPTION else flag);
          flag = (if class_filter then flag OR FLAG_CLASS_FILTER else flag);
          flag = (if lite_pull then flag OR FLAG_LITE_PULL_MESSAGE else flag)
      in flag)"

definition build_sys_flag_basic :: "bool \<Rightarrow> bool \<Rightarrow> bool \<Rightarrow> bool \<Rightarrow> i32" where
  "build_sys_flag_basic commit_offset suspend subscription class_filter =
     build_sys_flag commit_offset suspend subscription class_filter False"

definition build_sys_flag_with_hashing :: "i32 \<Rightarrow> bool \<Rightarrow> i32" where
  "build_sys_flag_with_hashing sys_flag support =
     (if support then sys_flag OR FLAG_SUPPORT_FILTER_AND_COMPUTE_HASHING else sys_flag)"

definition has_support_filter_and_compute_hashing_flag :: "i32 \<Rightarrow> bool" where
  "has_support_filter_and_compute_hashing_flag sys_flag \<longleftrightarrow>
     sys_flag AND FLAG_SUPPORT_FILTER_AND_COMPUTE_HASHING = FLAG_SUPPORT_FILTER_AND_COMPUTE_HASHING"

definition clear_commit_offset_flag :: "i32 \<Rightarrow> i32" where
  "clear_commit_offset_flag sys_flag = sys_flag AND NOT FLAG_COMMIT_OFFSET"

definition has_commit_offset_flag :: "i32 \<Rightarrow> bool" where
  "has_commit_offset_flag sys_flag \<longleftrightarrow> sys_flag AND FLAG_COMMIT_OFFSET = FLAG_COMMIT_OFFSET"

definition has_suspend_flag :: "i32 \<Rightarrow> bool" where
  "has_suspend_flag sys_flag \<longleftrightarrow> sys_flag AND FLAG_SUSPEND = FLAG_SUSPEND"

definition clear_suspend_flag :: "i32 \<Rightarrow> i32" where
  "clear_suspend_flag sys_flag = sys_flag AND NOT FLAG_SUSPEND"

definition has_subscription_flag :: "i32 \<Rightarrow> bool" where
  "has_subscription_flag sys_flag \<longleftrightarrow> sys_flag AND FLAG_SUBSCRIPTION = FLAG_SUBSCRIPTION"

definition build_sys_flag_with_subscription :: "i32 \<Rightarrow> i32" where
  "build_sys_flag_with_subscription sys_flag = sys_flag OR FLAG_SUBSCRIPTION"

definition has_class_filter_flag :: "i32 \<Rightarrow> bool" where
  "has_class_filter_flag sys_flag \<longleftrightarrow> sys_flag AND FLAG_CLASS_FILTER = FLAG_CLASS_FILTER"

definition has_lite_pull_flag :: "i32 \<Rightarrow> bool" where
  "has_lite_pull_flag sys_flag \<longleftrightarrow> sys_flag AND FLAG_LITE_PULL_MESSAGE = FLAG_LITE_PULL_MESSAGE"

definition has_start_offset_flag :: "i32 \<Rightarrow> bool" where
  "has_start_offset_flag sys_flag \<longleftrightarrow> sys_flag AND FLAG_START_OFFSET = FLAG_START_OFFSET"

section \<open>PermName\<close>

definition PERM_PRIORITY :: i32 where "PERM_PRIORITY = push_bit 3 0x1"
definition PERM_READ :: i32 where "PERM_READ = 0x4"
definition PERM_WRITE :: i32 where "PERM_WRITE = 0x2"
definition PERM_INHERIT :: i32 where "PERM_INHERIT = 0x1"

definition perm_is_valid :: "i32 \<Rightarrow> bool" where
  "perm_is_valid perm \<longleftrightarrow> 0 \<le>s perm \<and> perm <s PERM_PRIORITY"

definition perm_is_valid_str :: "string \<Rightarrow> bool" where
  "perm_is_valid_str perm =
     (case parse_i32 (str_trim perm) of Some v \<Rightarrow> perm_is_valid v | None \<Rightarrow> False)"

definition perm_to_string :: "i32 \<Rightarrow> string" where
  "perm_to_string perm =
     [if PERM_READ = perm AND PERM_READ then CHR ''R'' else CHR ''-'',
      if PERM_WRITE = perm AND PERM_WRITE then CHR ''W'' else CHR ''-'',
      if PERM_INHERIT = perm AND PERM_INHERIT then CHR ''X'' else CHR ''-'']"

definition check_perm :: "i32 \<Rightarrow> i32 \<Rightarrow> bool" where
  "check_perm perm wanted_perm \<longleftrightarrow> perm AND wanted_perm = wanted_perm"

section \<open>The flags as bits\<close>

lemma and_single_bit:
  "k < LENGTH('a::len) \<Longrightarrow> (x AND push_bit k 1 = push_bit k 1) = bit (x :: 'a word) k"
proof
  assume "k < LENGTH('a)" and "x AND push_bit k 1 = push_bit k 1"
  then have "bit (x AND push_bit k 1) k"
    by (simp add: bit_simps)
  then show "bit x k"
    by (simp add: bit_simps)
next
  assume "bit x k"
  then show "x AND push_bit k 1 = push_bit k 1"
    by (intro bit_word_eqI) (auto simp: bit_simps)
qed

lemmas flag_defs = COMPRESSED_FLAG_def MULTI_TAGS_FLAG_def BORNHOST_V6_FLAG_def
  STOREHOSTADDRESS_V6_FLAG_def NEED_UNWRAP_FLAG_def INNER_BATCH_FLAG_def FLAG_COMMIT_OFFSET_def
  FLAG_SUSPEND_def FLAG_SUBSCRIPTION_def FLAG_CLASS_FILTER_def FLAG_LITE_PULL_MESSAGE_def
  FLAG_START_OFFSET_def FLAG_SUPPORT_FILTER_AND_COMPUTE_HASHING_def

lemmas mask_defs = COMPRESSION_TYPE_COMPARATOR_def COMPRESSION_TYPE_SHIFT_def
  TRANSACTION_ROLLBACK_TYPE_def

lemma and_1_eq: "(x AND 1 = 1) = bit (x :: i32) 0"
  using and_single_bit [of 0 x] by simp

lemma seven_mask: "(7 :: i32) = mask 3" "(3 :: i32) = mask 2"
  by (simp_all add: mask_eq_exp_minus_1)

lemma compression_type_set_get:
  "get_compression_type (set_compression_type s t) = t AND 7"
  unfolding get_compression_type_def set_compression_type_def mask_defs seven_mask
  by (rule bit_word_eqI) (auto simp: bit_simps bit_mask_iff min_def)

lemma set_compression_type_frame:
  "set_compression_type s t AND NOT COMPRESSION_TYPE_COMPARATOR = s AND NOT COMPRESSION_TYPE_COMPARATOR"
  unfolding set_compression_type_def mask_defs seven_mask
  by (rule bit_word_eqI) (auto simp: bit_simps bit_mask_iff)

lemma compression_type_fixed:
  "set_compression_type s (get_compression_type s) = s"
  unfolding get_compression_type_def set_compression_type_def mask_defs seven_mask
  by (rule bit_word_eqI) (auto simp: bit_simps bit_mask_iff min_def)

lemma transaction_value_reset:
  assumes "t AND NOT TRANSACTION_ROLLBACK_TYPE = 0"
  shows "get_transaction_value (reset_transaction_value f t) = t"
    and "reset_transaction_value f t AND NOT TRANSACTION_ROLLBACK_TYPE = f AND NOT TRANSACTION_ROLLBACK_TYPE"
proof -
  have t: "bit t n \<Longrightarrow> bit TRANSACTION_ROLLBACK_TYPE n" for n
    using assms by (metis bit_and_iff bit_not_iff bit_0_eq bot_apply bot_bool_def bit_imp_possible_bit)
  show "get_transaction_value (reset_transaction_value f t) = t"
    by (rule bit_word_eqI) (use t in \<open>auto simp: get_transaction_value_def reset_transaction_value_def bit_simps\<close>)
  show "reset_transaction_value f t AND NOT TRANSACTION_ROLLBACK_TYPE = f AND NOT TRANSACTION_ROLLBACK_TYPE"
    by (rule bit_word_eqI) (use t in \<open>auto simp: reset_transaction_value_def bit_simps\<close>)
qed

lemma has_flags_bits:
  "is_compressed s = bit s 0" "has_commit_offset_flag s = bit s 0" "has_suspend_flag s = bit s 1"
  "has_subscription_flag s = bit s 2" "has_class_filter_flag s = bit s 3"
  "has_lite_pull_flag s = bit s 4" "has_start_offset_flag s = bit s 9"
  "has_support_filter_and_compute_hashing_flag s = bit s 10"
  using and_single_bit [of 1 s]
  by (simp_all add: is_compressed_def has_commit_offset_flag_def has_suspend_flag_def
      has_subscription_flag_def has_class_filter_flag_def has_lite_pull_flag_def
      has_start_offset_flag_def has_support_filter_and_compute_hashing_flag_def flag_defs
      and_single_bit and_1_eq del: push_bit_numeral push_bit_of_1)

lemma check_flag_single: "k < 32 \<Longrightarrow> check_flag s (push_bit k 1) = bit s k"
  by (simp add: check_flag_def bit_iff_and_push_bit_not_eq_0)

lemma bit_push_1: "bit (push_bit k 1 :: i32) n \<longleftrightarrow> n = k \<and> k < 32"
  by (auto simp: bit_simps)

section \<open>Properties\<close>

text \<open>
  Setting the compression type stores its low three bits, is read back, and touches no other bit of the
  system flag.
\<close>
theorem compression_type_field:
  "get_compression_type (set_compression_type s t) = t AND 7
     \<and> set_compression_type s t AND NOT COMPRESSION_TYPE_COMPARATOR = s AND NOT COMPRESSION_TYPE_COMPARATOR
     \<and> set_compression_type s (get_compression_type s) = s"
  by (simp add: compression_type_set_get set_compression_type_frame compression_type_fixed)

text \<open>
  The pull flag built from five switches answers each query with its switch.
\<close>
theorem pull_sys_flag_switches:
  "has_commit_offset_flag (build_sys_flag c s u f l) = c \<and> has_suspend_flag (build_sys_flag c s u f l) = s
     \<and> has_subscription_flag (build_sys_flag c s u f l) = u
     \<and> has_class_filter_flag (build_sys_flag c s u f l) = f
     \<and> has_lite_pull_flag (build_sys_flag c s u f l) = l"
  unfolding has_flags_bits build_sys_flag_def flag_defs
  by (simp add: Let_def bit_or_iff bit_push_1 bit_1_iff del: push_bit_numeral push_bit_of_1)

end
