(* ===== verification/Compression.thy ===== *)
theory Compression
  imports Sys_Flag
begin

text \<open>
  The body compression of \<open>src/rust/src/common/compression.rs\<close>. The algorithms are third-party crates,
  the fields of the record \<open>codecs\<close>; what the code relies on is \<open>codecs_lossless\<close>: decompression
  inverts a successful compression. The dispatch on the type bits, the level check and every error
  branch are the code's own.
\<close>

definition LZ4_TYPE :: i32 where "LZ4_TYPE = 1"
definition ZSTD_TYPE :: i32 where "ZSTD_TYPE = 2"
definition ZLIB_TYPE :: i32 where "ZLIB_TYPE = 3"
definition DEFAULT_COMPRESS_LEVEL :: i32 where "DEFAULT_COMPRESS_LEVEL = 5"
definition ZSTD_DEFAULT_LEVEL :: i32 where "ZSTD_DEFAULT_LEVEL = 3"

record codecs =
  zlib_enc :: "u32 \<Rightarrow> bytes \<Rightarrow> bytes option"
  zlib_dec :: "bytes \<Rightarrow> bytes option"
  lz4_enc :: "bytes \<Rightarrow> bytes option"
  lz4_dec :: "bytes \<Rightarrow> bytes option"
  zstd_enc :: "i32 \<Rightarrow> bytes \<Rightarrow> bytes option"
  zstd_dec :: "bytes \<Rightarrow> bytes option"

definition normalize_compression_type :: "i32 \<Rightarrow> i32" where
  "normalize_compression_type t = (if t = 0 then ZLIB_TYPE else t)"

definition validate_compression_type :: "i32 \<Rightarrow> i32 result" where
  "validate_compression_type t =
     (if t = 0 \<or> t = ZLIB_TYPE then Inr ZLIB_TYPE
      else if t = LZ4_TYPE then Inr LZ4_TYPE
      else if t = ZSTD_TYPE then Inr ZSTD_TYPE
      else fail (Encode (''Unknown compress type value: '' @ show_signed t)))"

definition compression_type_name :: "i32 \<Rightarrow> string option" where
  "compression_type_name t =
     (let n = normalize_compression_type t in
      if n = LZ4_TYPE then Some ''LZ4'' else if n = ZSTD_TYPE then Some ''ZSTD''
      else if n = ZLIB_TYPE then Some ''ZLIB'' else None)"

definition unsupported :: "i32 \<Rightarrow> error" where
  "unsupported t = Decode (''unsupported compression type: '' @ show_signed t)"

definition zlib_compress :: "codecs \<Rightarrow> bytes \<Rightarrow> i32 \<Rightarrow> bytes result" where
  "zlib_compress c d level =
     (if \<not> (0 \<le>s level \<and> level \<le>s 9) then fail (Encode (''invalid zlib level: '' @ show_signed level))
      else ok_or (zlib_enc c level d) (Encode ''zlib compress failed: ''))"

definition zlib_decompress :: "codecs \<Rightarrow> bytes \<Rightarrow> bytes result" where
  "zlib_decompress c d = ok_or (zlib_dec c d) (Decode ''zlib decompress failed: '')"

definition lz4_compress :: "codecs \<Rightarrow> bytes \<Rightarrow> bytes result" where
  "lz4_compress c d = ok_or (lz4_enc c d) (Encode ''lz4 compress failed: '')"

definition lz4_decompress :: "codecs \<Rightarrow> bytes \<Rightarrow> bytes result" where
  "lz4_decompress c d = ok_or (lz4_dec c d) (Decode ''lz4 decompress failed: '')"

definition zstd_compress :: "codecs \<Rightarrow> bytes \<Rightarrow> i32 \<Rightarrow> bytes result" where
  "zstd_compress c d level = ok_or (zstd_enc c level d) (Encode ''zstd compress failed: '')"

definition zstd_decompress :: "codecs \<Rightarrow> bytes \<Rightarrow> bytes result" where
  "zstd_decompress c d = ok_or (zstd_dec c d) (Decode ''zstd decompress failed: '')"

definition compress :: "codecs \<Rightarrow> bytes \<Rightarrow> i32 \<Rightarrow> i32 \<Rightarrow> bytes result" where
  "compress c d t level =
     (let n = normalize_compression_type t in
      if n = ZLIB_TYPE then zlib_compress c d level
      else if n = LZ4_TYPE then lz4_compress c d
      else if n = ZSTD_TYPE then zstd_compress c d ZSTD_DEFAULT_LEVEL
      else fail (unsupported t))"

definition decompress :: "codecs \<Rightarrow> bytes \<Rightarrow> i32 \<Rightarrow> bytes result" where
  "decompress c d t =
     (let n = normalize_compression_type t in
      if n = ZLIB_TYPE then zlib_decompress c d
      else if n = LZ4_TYPE then lz4_decompress c d
      else if n = ZSTD_TYPE then zstd_decompress c d
      else fail (unsupported t))"

section \<open>Round trip and unsupported types\<close>

definition codecs_lossless :: "codecs \<Rightarrow> bool" where
  "codecs_lossless c \<longleftrightarrow>
     (\<forall>l d e. zlib_enc c l d = Some e \<longrightarrow> zlib_dec c e = Some d)
     \<and> (\<forall>d e. lz4_enc c d = Some e \<longrightarrow> lz4_dec c e = Some d)
     \<and> (\<forall>l d e. zstd_enc c l d = Some e \<longrightarrow> zstd_dec c e = Some d)"

definition supported_type :: "i32 \<Rightarrow> bool" where
  "supported_type t \<longleftrightarrow> t \<in> {0, LZ4_TYPE, ZSTD_TYPE, ZLIB_TYPE}"

lemmas compression_defs = compress_def decompress_def zlib_compress_def zlib_decompress_def
  lz4_compress_def lz4_decompress_def zstd_compress_def zstd_decompress_def Let_def

lemma compress_decompress:
  assumes "codecs_lossless c" and "compress c d t level = Inr e"
  shows "decompress c e t = Inr d"
  using assms
  by (auto simp: compression_defs codecs_lossless_def ok_or_def split: if_splits option.splits)

lemma unsupported_type_iff:
  "(\<forall>d. decompress c d t = fail (unsupported t)) \<longleftrightarrow> \<not> supported_type t"
  "validate_compression_type t = fail (Encode (''Unknown compress type value: '' @ show_signed t))
     \<longleftrightarrow> \<not> supported_type t"
  by (auto simp: compression_defs supported_type_def normalize_compression_type_def
      validate_compression_type_def LZ4_TYPE_def ZSTD_TYPE_def ZLIB_TYPE_def ok_or_def unsupported_def
      split: if_splits option.splits)

section \<open>Properties\<close>

text \<open>
  Only the types 0 (an alias of zlib), 1, 2 and 3 are supported: every other value is an error in both
  directions and in the validation, whatever the codecs do.
\<close>
theorem unsupported_compression_types:
  assumes "\<not> supported_type t"
  shows "compress c d t level = fail (unsupported t) \<and> decompress c d t = fail (unsupported t)
    \<and> isl (validate_compression_type t)"
  using assms
  by (auto simp: compression_defs supported_type_def normalize_compression_type_def
      validate_compression_type_def LZ4_TYPE_def ZSTD_TYPE_def ZLIB_TYPE_def)

theorem unsupported_compression_types_witness:
  "decompress (codecs.make (\<lambda>_ _. None) (\<lambda>_. None) (\<lambda>_. None) (\<lambda>_. None) (\<lambda>_ _. None) (\<lambda>_. None)) [1] 7 =
     fail (Decode ''unsupported compression type: 7'')"
proof -
  have "\<not> supported_type 7" and "unsupported 7 = Decode ''unsupported compression type: 7''"
    by code_simp+
  then show ?thesis
    using unsupported_compression_types [of 7] by simp
qed

end
