(* ===== verification/Net_Addr.thy ===== *)
theory Net_Addr
  imports Rmq_Error
begin

text \<open>
  The text forms of \<open>std::net::IpAddr\<close> that the message codec uses: the parser (at most three decimal
  digits and no leading zero per IPv4 part; up to four hexadecimal digits per IPv6 group, one \<open>::\<close>, an
  optional IPv4 tail) and the canonical printer (longest run of at least two zero groups as \<open>::\<close>).
\<close>

datatype ip_addr = V4 bytes | V6 bytes

section \<open>Parsing\<close>

definition hex_digit :: "char \<Rightarrow> nat option" where
  "hex_digit c = (let n = of_char c in
     if 48 \<le> n \<and> n \<le> 57 then Some (n - 48)
     else if 65 \<le> n \<and> n \<le> 70 then Some (n - 55)
     else if 97 \<le> n \<and> n \<le> 102 then Some (n - 87) else None)"

definition to_digit :: "nat \<Rightarrow> char \<Rightarrow> nat option" where
  "to_digit radix c = (case hex_digit c of None \<Rightarrow> None
     | Some d \<Rightarrow> if d < radix then Some d else None)"

text \<open>Digits are consumed greedily; more than \<open>max_digits\<close> or a value of \<open>limit\<close> or above fails.\<close>

fun read_digits :: "nat \<Rightarrow> nat \<Rightarrow> nat \<Rightarrow> nat \<Rightarrow> nat \<Rightarrow> string \<Rightarrow> (nat \<times> nat \<times> string) option" where
  "read_digits radix max_digits limit count acc [] = Some (acc, count, [])"
| "read_digits radix max_digits limit count acc (c # s) =
     (case to_digit radix c of
        None \<Rightarrow> Some (acc, count, c # s)
      | Some d \<Rightarrow> if acc * radix + d \<ge> limit \<or> Suc count > max_digits then None
                else read_digits radix max_digits limit (Suc count) (acc * radix + d) s)"

definition read_number :: "nat \<Rightarrow> nat \<Rightarrow> nat \<Rightarrow> bool \<Rightarrow> string \<Rightarrow> (nat \<times> string) option" where
  "read_number radix max_digits limit allow_zero_prefix s =
     (case read_digits radix max_digits limit 0 0 s of None \<Rightarrow> None
      | Some (v, count, rest) \<Rightarrow>
          if count = 0 \<or> (\<not> allow_zero_prefix \<and> take 1 s = ''0'' \<and> 1 < count) then None
          else Some (v, rest))"

definition read_given_char :: "char \<Rightarrow> string \<Rightarrow> string option" where
  "read_given_char c s = (case s of x # r \<Rightarrow> if x = c then Some r else None | [] \<Rightarrow> None)"

text \<open>Parts after the first are preceded by the separator.\<close>

definition read_separator ::
  "char \<Rightarrow> nat \<Rightarrow> (string \<Rightarrow> ('a \<times> string) option) \<Rightarrow> string \<Rightarrow> ('a \<times> string) option" where
  "read_separator sep index inner s =
     (if index = 0 then inner s
      else (case read_given_char sep s of None \<Rightarrow> None | Some r \<Rightarrow> inner r))"

fun read_v4_parts :: "nat \<Rightarrow> nat \<Rightarrow> string \<Rightarrow> (bytes \<times> string) option" where
  "read_v4_parts i 0 s = Some ([], s)"
| "read_v4_parts i (Suc n) s =
     (case read_separator (CHR ''.'') i (read_number 10 3 256 False) s of None \<Rightarrow> None
      | Some (v, r) \<Rightarrow> map_option (\<lambda>(bs, r'). (of_nat v # bs, r')) (read_v4_parts (Suc i) n r))"

definition read_ipv4 :: "string \<Rightarrow> (bytes \<times> string) option" where
  "read_ipv4 s = read_v4_parts 0 4 s"

text \<open>\<open>read_groups\<close>: the groups read, whether an IPv4 tail ended them, and the rest.\<close>

fun read_groups :: "nat \<Rightarrow> nat \<Rightarrow> string \<Rightarrow> bytes \<times> nat \<times> bool \<times> string" where
  "read_groups i 0 s = ([], 0, False, s)"
| "read_groups i (Suc left) s =
     (case (if 0 < left then read_separator (CHR '':'') i read_ipv4 s else None) of
        Some (v4, r) \<Rightarrow> (v4, 2, True, r)
      | None \<Rightarrow>
          (case read_separator (CHR '':'') i (read_number 16 4 65536 True) s of
             None \<Rightarrow> ([], 0, False, s)
           | Some (g, r) \<Rightarrow>
               (let (bs, n, v4, r') = read_groups (Suc i) left r
                in (to_be_bytes (of_nat g :: u16) @ bs, Suc n, v4, r'))))"

definition read_ipv6 :: "string \<Rightarrow> (bytes \<times> string) option" where
  "read_ipv6 s =
     (let (head, head_size, head_v4, r) = read_groups 0 8 s in
      if head_size = 8 then Some (head, r)
      else if head_v4 then None
      else (case read_given_char (CHR '':'') r of None \<Rightarrow> None
        | Some r1 \<Rightarrow> (case read_given_char (CHR '':'') r1 of None \<Rightarrow> None
          | Some r2 \<Rightarrow>
              (let (tail, tail_size, _, r3) = read_groups 0 (7 - head_size) r2
               in Some (head @ replicate (2 * (8 - head_size - tail_size)) 0 @ tail, r3)))))"

definition parse_ip :: "string \<Rightarrow> ip_addr option" where
  "parse_ip s = (case read_ipv4 s of
     Some (v4, r) \<Rightarrow> if r = [] then Some (V4 v4) else None
   | None \<Rightarrow> (case read_ipv6 s of
       Some (v6, r) \<Rightarrow> if r = [] then Some (V6 v6) else None
     | None \<Rightarrow> None))"

section \<open>Printing\<close>

fun join_with :: "string \<Rightarrow> string list \<Rightarrow> string" where
  "join_with sep [] = []"
| "join_with sep [x] = x"
| "join_with sep (x # y # xs) = x @ sep @ join_with sep (y # xs)"

definition show_v4 :: "bytes \<Rightarrow> string" where
  "show_v4 bs = join_with ''.'' (map (\<lambda>b. show_nat (unat b)) bs)"

fun v6_segments :: "bytes \<Rightarrow> nat list" where
  "v6_segments (a # b # bs) = unat (from_be_bytes [a, b] :: u16) # v6_segments bs"
| "v6_segments _ = []"

text \<open>The longest run of zero groups, the first of that length: (start, length).\<close>

fun longest_zeros :: "nat list \<Rightarrow> nat \<Rightarrow> nat \<times> nat \<Rightarrow> nat \<times> nat \<Rightarrow> nat \<times> nat" where
  "longest_zeros [] i cur best = best"
| "longest_zeros (g # gs) i (cs, cl) (bs, bl) =
     (if g = 0 then
        (let cs' = (if cl = 0 then i else cs); cl' = Suc cl
         in longest_zeros gs (Suc i) (cs', cl') (if cl' > bl then (cs', cl') else (bs, bl)))
      else longest_zeros gs (Suc i) (0, 0) (bs, bl))"

definition show_v6 :: "bytes \<Rightarrow> string" where
  "show_v6 bs =
     (if take 12 bs = replicate 10 0 @ [0xFF, 0xFF] then ''::ffff:'' @ show_v4 (drop 12 bs)
      else let gs = v6_segments bs; (st, len) = longest_zeros gs 0 (0, 0) (0, 0) in
        if 1 < len
        then join_with '':'' (map show_hex (take st gs)) @ ''::''
          @ join_with '':'' (map show_hex (drop (st + len) gs))
        else join_with '':'' (map show_hex gs))"

text \<open>\<open>Ipv6Addr::to_ipv4\<close>: the mapped and the deprecated compatible forms.\<close>

definition v6_to_v4 :: "bytes \<Rightarrow> bytes option" where
  "v6_to_v4 bs = (if take 12 bs = replicate 10 0 @ [0xFF, 0xFF] \<or> take 12 bs = replicate 12 0
     then Some (drop 12 bs) else None)"

section \<open>IPv4 texts read back\<close>

lemma to_digit_10: "to_digit 10 c = (if is_digit c then Some (digit_val c) else None)"
  by (auto simp: to_digit_def hex_digit_def is_digit_def digit_val_def Let_def)

lemma read_digits_show:
  assumes "\<forall>c \<in> set ds. is_digit c" and "r = [] \<or> \<not> is_digit (hd r)"
    and "count + length ds \<le> 3" and "foldl (\<lambda>n c. 10 * n + digit_val c) acc ds < 256"
  shows "read_digits 10 3 256 count acc (ds @ r) =
    Some (foldl (\<lambda>n c. 10 * n + digit_val c) acc ds, count + length ds, r)"
  using assms
proof (induction ds arbitrary: count acc)
  case Nil
  then show ?case by (cases r) (auto simp: to_digit_10)
next
  case (Cons d ds)
  have mono: "a \<le> foldl (\<lambda>n c. 10 * n + digit_val c) a cs" for a cs
  proof (induction cs arbitrary: a)
    case Nil
    then show ?case by simp
  next
    case (Cons c cs)
    have "a \<le> 10 * a + digit_val c" by simp
    also have "\<dots> \<le> foldl (\<lambda>n c. 10 * n + digit_val c) (10 * a + digit_val c) cs"
      by (rule Cons)
    finally show ?case by simp
  qed
  have "10 * acc + digit_val d < 256"
    using Cons.prems(4) mono [of "10 * acc + digit_val d" ds] by simp
  with Cons show ?case
    by (simp add: to_digit_10 mult.commute)
qed

lemma show_nat_leading_zero: "take 1 (show_nat n) = ''0'' \<Longrightarrow> length (show_nat n) = 1"
proof (induction n rule: show_nat.induct)
  case (1 n)
  show ?case
  proof (cases "n < 10")
    case True
    then show ?thesis by (simp add: show_nat.simps)
  next
    case False
    then have "take 1 (show_nat (n div 10)) = ''0''"
      using "1.prems" show_nat_not_Nil [of "n div 10"]
      by (subst (asm) show_nat.simps [of n]) (cases "show_nat (n div 10)"; simp)
    with "1.IH" False have "length (show_nat (n div 10)) = 1"
      by blast
    with \<open>take 1 (show_nat (n div 10)) = ''0''\<close> have "show_nat (n div 10) = ''0''"
      by (cases "show_nat (n div 10)") auto
    then have "n div 10 = 0"
      using show_nat_foldl [of "n div 10"] by (simp add: digit_val_def)
    with False show ?thesis by simp
  qed
qed

lemma read_number_show:
  assumes "n < 256" and "r = [] \<or> \<not> is_digit (hd r)"
  shows "read_number 10 3 256 False (show_nat n @ r) = Some (n, r)"
proof -
  have len: "length (show_nat n) \<le> 3"
    using assms(1) by (intro length_show_nat) auto
  have "read_digits 10 3 256 0 0 (show_nat n @ r) = Some (n, length (show_nat n), r)"
    using read_digits_show [of "show_nat n" r 0 0] assms len show_nat_digits show_nat_foldl
    by auto
  moreover have "take 1 (show_nat n @ r) = take 1 (show_nat n)"
    using show_nat_not_Nil [of n] by (cases "show_nat n") auto
  ultimately show ?thesis
    using show_nat_leading_zero [of n] by (auto simp: read_number_def)
qed

lemma read_v4_parts_4:
  "read_v4_parts i 4 s = (case read_separator (CHR ''.'') i (read_number 10 3 256 False) s of None \<Rightarrow> None
     | Some (v, r) \<Rightarrow> map_option (\<lambda>(bs, r'). (of_nat v # bs, r')) (read_v4_parts (Suc i) 3 r))" (is ?A)
  "read_v4_parts i 3 s = (case read_separator (CHR ''.'') i (read_number 10 3 256 False) s of None \<Rightarrow> None
     | Some (v, r) \<Rightarrow> map_option (\<lambda>(bs, r'). (of_nat v # bs, r')) (read_v4_parts (Suc i) 2 r))" (is ?B)
  "read_v4_parts i 2 s = (case read_separator (CHR ''.'') i (read_number 10 3 256 False) s of None \<Rightarrow> None
     | Some (v, r) \<Rightarrow> map_option (\<lambda>(bs, r'). (of_nat v # bs, r')) (read_v4_parts (Suc i) 1 r))" (is ?C)
proof -
  have "Suc 3 = 4" "Suc 2 = 3" "Suc 1 = 2" by simp_all
  with read_v4_parts.simps(2) [of i 3 s] read_v4_parts.simps(2) [of i 2 s]
    read_v4_parts.simps(2) [of i 1 s]
  show ?A ?B ?C by (simp_all only:)
qed

lemma parse_show_v4: "length bs = 4 \<Longrightarrow> parse_ip (show_v4 bs) = Some (V4 bs)"
proof -
  assume "length bs = 4"
  then obtain a b c d where bs: "bs = [a, b, c, d]"
    by (auto simp: numeral_eq_Suc length_Suc_conv)
  have lt: "unat x < 256" for x :: u8
    using unsigned_less [of x, where ?'a = nat] by simp
  have dot: "\<not> is_digit (CHR ''.'')"
    by (simp add: is_digit_def)
  have "read_ipv4 (show_v4 bs) = Some (bs, [])"
    using read_number_show [OF lt, of "[]"]
    by (simp add: bs read_ipv4_def show_v4_def read_v4_parts_4 read_separator_def read_given_char_def
        read_number_show lt dot)
  then show ?thesis
    by (simp add: parse_ip_def)
qed

end
