(* ===== verification/Message_Decoder.thy ===== *)
theory Message_Decoder
  imports Message Message_Properties Frame_Stream Compression Net_Addr
begin

text \<open>
  The message codec of \<open>src/rust/src/common/message_decoder.rs\<close>: host fields and message ids, the
  17-field stored frame (\<open>encode_message_ext\<close>, \<open>decode_message_with\<close>), the 6-field batch record
  (\<open>encode_message\<close>, \<open>decode_batch_message\<close>) and the loops over concatenated records. The compression
  crates are the parameter \<open>c\<close>.
\<close>

section \<open>Hosts and message ids\<close>

definition to_v6_compatible :: "bytes \<Rightarrow> bytes" where
  "to_v6_compatible v4 = replicate 10 0 @ [0xFF, 0xFF] @ v4"

definition ip_to_bytes :: "string \<Rightarrow> bool \<Rightarrow> bytes result" where
  "ip_to_bytes ip v6 =
     (case parse_ip ip of
        None \<Rightarrow> fail (Decode (''illegal ip address: '' @ ip))
      | Some (V4 b) \<Rightarrow> Inr (if v6 then to_v6_compatible b else b)
      | Some (V6 b) \<Rightarrow>
          if v6 then Inr b
          else (case v6_to_v4 b of
                  Some v4 \<Rightarrow> Inr v4
                | None \<Rightarrow> fail (Decode (''ipv6 address '' @ ip
                    @ '' needs BORNHOST_V6_FLAG / STOREHOSTADDRESS_V6_FLAG''))))"

definition ip_and_port_to_bytes :: "string \<Rightarrow> u32 \<Rightarrow> bool \<Rightarrow> bytes result" where
  "ip_and_port_to_bytes ip port v6 =
     bind_result (ip_to_bytes ip v6) (\<lambda>out. Inr (out @ to_be_bytes port))"

text \<open>\<open>copy_from_slice\<close> into an array of \<open>n\<close> bytes panics on a slice of another length.\<close>

definition copy_from_slice :: "nat \<Rightarrow> bytes \<Rightarrow> bytes result" where
  "copy_from_slice n bs = (if length bs = n then Inr bs else Inl (Panic ''source slice length does not match''))"

definition bytes_to_ip :: "bytes \<Rightarrow> bool \<Rightarrow> string result" where
  "bytes_to_ip bs v6 =
     (if v6 then
        (if length bs \<noteq> 16 then fail (Decode ''illegal ipv6 address length'')
         else bind_result (copy_from_slice 16 bs) (\<lambda>octets. Inr (show_v6 octets)))
      else
        (if length bs \<noteq> 4 then fail (Decode ''illegal ipv4 address length'')
         else bind_result (index_all bs [0, 1, 2, 3]) (\<lambda>octets. Inr (show_v4 octets))))"

definition bytes_to_ip_and_port :: "bytes \<Rightarrow> (string \<times> u32) result" where
  "bytes_to_ip_and_port raw =
     (if length raw \<noteq> 8 \<and> length raw \<noteq> 20
      then fail (Decode (''illegal host bytes length: '' @ show_nat (length raw)))
      else let ip_len = (if length raw = 8 then 4 else 16) in
        bind_result (slice_index raw 0 ip_len) (\<lambda>ip_bytes.
        bind_result (bytes_to_ip ip_bytes (length raw = 20)) (\<lambda>ip.
        bind_result (be_at raw [ip_len, ip_len + 1, ip_len + 2, ip_len + 3]) (\<lambda>port.
        Inr (ip, port)))))"

definition create_message_id :: "bytes \<Rightarrow> i64 \<Rightarrow> string" where
  "create_message_id addr_bytes off = bytes_2_string (addr_bytes @ to_be_bytes off)"

definition decode_message_id :: "string \<Rightarrow> (string \<times> u32 \<times> i64) result" where
  "decode_message_id msg_id =
     bind_result (ok_or (string_2_bytes msg_id) (Decode (''illegal msgId: '' @ msg_id))) (\<lambda>raw.
     if length raw \<noteq> 16 \<and> length raw \<noteq> 28
     then fail (Decode (''illegal msgId length: '' @ show_nat (length raw)))
     else let ip_len = (if length raw = 16 then 4 else 16) in
       bind_result (slice_index raw 0 (ip_len + 4)) (\<lambda>host.
       bind_result (bytes_to_ip_and_port host) (\<lambda>(ip, port).
       bind_result (be_at raw [ip_len + 4, ip_len + 5, ip_len + 6, ip_len + 7, ip_len + 8, ip_len + 9,
         ip_len + 10, ip_len + 11]) (\<lambda>off. Inr (ip, port, off)))))"

section \<open>The 17-field frame\<close>

definition MESSAGE_MAGIC_CODE :: i32 where "MESSAGE_MAGIC_CODE = - 626843481"
definition MESSAGE_MAGIC_CODE_V2 :: i32 where "MESSAGE_MAGIC_CODE_V2 = - 626843477"
definition HEADER_WITHOUT_BODY_LEN :: nat where "HEADER_WITHOUT_BODY_LEN = 68"

record decode_options =
  o_read_body :: bool
  o_decompress_body :: bool
  o_is_client :: bool
  o_check_crc :: bool

definition decode_options_default :: decode_options where
  "decode_options_default = \<lparr>o_read_body = True, o_decompress_body = True, o_is_client = True,
     o_check_crc = False\<rparr>"

definition host_length :: "i32 \<Rightarrow> i32 \<Rightarrow> nat" where
  "host_length sys_flag v6_flag = (if sys_flag AND v6_flag \<noteq> 0 then 20 else 8)"

definition message_string_size :: "string \<Rightarrow> nat" where
  "message_string_size s = 2 + length s"

definition message_bytes_size :: "string \<Rightarrow> nat \<Rightarrow> string_map \<Rightarrow> i32 \<Rightarrow> nat" where
  "message_bytes_size topic body_len properties sys_flag =
     HEADER_WITHOUT_BODY_LEN + host_length sys_flag BORNHOST_V6_FLAG
       + host_length sys_flag STOREHOSTADDRESS_V6_FLAG + 4 + body_len + 1 + length topic
       + message_string_size (message_properties_2_string properties)"

definition wire_body :: "codecs \<Rightarrow> message_ext \<Rightarrow> bool \<Rightarrow> bytes result" where
  "wire_body c x need_compress =
     (let body = get_body x in
      if need_compress \<and> x_sys_flag x AND COMPRESSED_FLAG = COMPRESSED_FLAG
      then compress c body (get_compression_type (x_sys_flag x)) DEFAULT_COMPRESS_LEVEL
      else Inr body)"

definition frame_store_size :: "i32 \<Rightarrow> nat \<Rightarrow> nat" where
  "frame_store_size store_size computed_size =
     (if 0 <s store_size
      then as_usize (if store_size <s of_nat computed_size then of_nat computed_size else store_size)
      else computed_size)"

definition default_host :: "string option \<Rightarrow> string" where
  "default_host h = (case h of Some s \<Rightarrow> s | None \<Rightarrow> ''127.0.0.1'')"

definition encode_message_ext :: "codecs \<Rightarrow> message_ext \<Rightarrow> bool \<Rightarrow> bytes result" where
  "encode_message_ext c x need_compress =
     bind_result (wire_body c x need_compress) (\<lambda>body.
     let sys_flag = x_sys_flag x;
         topic_bytes = str_bytes (m_topic x);
         topic_len = length topic_bytes
     in if 255 < topic_len
        then fail (Encode (''topic length '' @ show_nat topic_len
          @ '' exceeds 1-byte field, needs magic code v2''))
        else let
          properties_bytes = str_bytes (message_properties_2_string (m_properties x));
          properties_length = length properties_bytes;
          bornhost_length = host_length sys_flag BORNHOST_V6_FLAG;
          storehost_length = host_length sys_flag STOREHOSTADDRESS_V6_FLAG;
          computed_size = HEADER_WITHOUT_BODY_LEN + bornhost_length + storehost_length + 4
            + length body + 1 + topic_len + 2 + properties_length;
          store_size = frame_store_size (x_store_size x) computed_size
        in bind_result (ip_and_port_to_bytes (default_host (x_born_host x)) (x_born_host_port x)
               (bornhost_length = 20)) (\<lambda>born_addr.
           bind_result (ip_and_port_to_bytes (default_host (x_store_host x)) (x_store_host_port x)
               (storehost_length = 20)) (\<lambda>store_addr.
           let w = write_seq
             [writer_i32 (of_nat store_size), writer_i32 MESSAGE_MAGIC_CODE,
              writer_u32 (x_body_crc x), writer_i32 (x_queue_id x), writer_i32 (m_flag x),
              writer_i64 (x_queue_offset x), writer_i64 (x_commit_log_offset x),
              writer_i32 sys_flag, writer_i64 (x_born_timestamp x), writer_bytes born_addr,
              writer_i64 (x_store_timestamp x), writer_bytes store_addr,
              writer_i32 (x_reconsume_times x), writer_i64 (x_prepared_transaction_offset x),
              writer_i32 (of_nat (length body)), writer_bytes body,
              writer_u8 (of_nat topic_len), writer_bytes topic_bytes,
              writer_u16 (of_nat properties_length), writer_bytes properties_bytes] writer_new
           in Inr (w_buf (if writer_len w < store_size
                          then writer_zeros (store_size - writer_len w) w else w)))))"

text \<open>Field 15: the body option and the system flag after it.\<close>

definition open_body ::
  "codecs \<Rightarrow> decode_options \<Rightarrow> u32 \<Rightarrow> i32 \<Rightarrow> bytes \<Rightarrow> (bytes option \<times> i32) result" where
  "open_body c opts body_crc sys_flag body =
     (if o_read_body opts then
        (if o_check_crc opts \<and> crc32 body \<noteq> body_crc then fail (Decode ''Msg crc is error'')
         else if o_decompress_body opts \<and> sys_flag AND COMPRESSED_FLAG \<noteq> 0
         then bind_result (decompress c body (get_compression_type sys_flag))
                (\<lambda>b. Inr (Some b, sys_flag AND NOT COMPRESSED_FLAG))
         else Inr (Some body, sys_flag))
      else Inr (None, sys_flag))"

definition reader_body ::
  "codecs \<Rightarrow> decode_options \<Rightarrow> u32 \<Rightarrow> i32 \<Rightarrow> (bytes option \<times> i32) reader_m" where
  "reader_body c opts body_crc sys_flag =
     r_bind reader_i32 (\<lambda>body_len.
     if 0 <s body_len
     then r_bind (reader_bytes (as_usize body_len)) (\<lambda>body.
            r_lift (open_body c opts body_crc sys_flag body))
     else r_return (None, sys_flag))"

definition reader_properties :: "string_map reader_m" where
  "reader_properties =
     r_bind reader_u16 (\<lambda>n.
     if 0 < unat n
     then r_bind (reader_bytes (unat n)) (\<lambda>bs.
            r_lift (string_2_message_properties (from_utf8_lossy bs)))
     else r_return ext_new)"

definition reader_topic :: "bool \<Rightarrow> string reader_m" where
  "reader_topic use_v2 =
     r_bind (if use_v2 then r_bind reader_u16 (\<lambda>n. r_return (unat n))
             else r_bind reader_u8 (\<lambda>n. r_return (unat n))) (\<lambda>topic_len.
     r_bind (reader_bytes topic_len) (\<lambda>bs. r_return (from_utf8_lossy bs)))"

definition reader_message :: "codecs \<Rightarrow> decode_options \<Rightarrow> message_ext reader_m" where
  "reader_message c opts =
     r_bind reader_i32 (\<lambda>store_size.
     r_bind reader_i32 (\<lambda>magic_code.
     r_bind (if magic_code = MESSAGE_MAGIC_CODE then r_return False
             else if magic_code = MESSAGE_MAGIC_CODE_V2 then r_return True
             else r_fail (Decode (''unknown magic code: '' @ show_signed magic_code))) (\<lambda>use_v2.
     r_bind reader_u32 (\<lambda>body_crc.
     r_bind reader_i32 (\<lambda>queue_id.
     r_bind reader_i32 (\<lambda>flag.
     r_bind reader_i64 (\<lambda>queue_offset.
     r_bind reader_i64 (\<lambda>physic_offset.
     r_bind reader_i32 (\<lambda>sys_flag.
     r_bind reader_i64 (\<lambda>born_timestamp.
     r_bind (reader_bytes (host_length sys_flag BORNHOST_V6_FLAG)) (\<lambda>born_addr.
     r_bind (r_lift (bytes_to_ip_and_port born_addr)) (\<lambda>(born_host, born_port).
     r_bind reader_i64 (\<lambda>store_timestamp.
     let storehost_length = host_length sys_flag STOREHOSTADDRESS_V6_FLAG in
     r_bind (reader_bytes storehost_length) (\<lambda>store_addr.
     r_bind (r_lift (bytes_to_ip_and_port store_addr)) (\<lambda>(store_host, store_port).
     r_bind reader_i32 (\<lambda>reconsume_times.
     r_bind reader_i64 (\<lambda>prepared_transaction_offset.
     r_bind (reader_body c opts body_crc sys_flag) (\<lambda>(body, sys_flag).
     r_bind (reader_topic use_v2) (\<lambda>topic.
     r_bind reader_properties (\<lambda>properties.
     r_bind (r_lift (ip_and_port_to_bytes store_host store_port (storehost_length = 20))) (\<lambda>addr.
     let msg_id = Some (create_message_id addr physic_offset) in
     r_return (message_ext_new\<lparr>x_store_size := store_size, x_body_crc := body_crc,
       x_queue_id := queue_id, m_flag := flag, x_queue_offset := queue_offset,
       x_commit_log_offset := physic_offset, x_sys_flag := sys_flag,
       x_born_timestamp := born_timestamp, x_born_host := Some born_host,
       x_born_host_port := born_port, x_store_timestamp := store_timestamp,
       x_store_host := Some store_host, x_store_host_port := store_port,
       x_reconsume_times := reconsume_times,
       x_prepared_transaction_offset := prepared_transaction_offset,
       m_body := body, m_topic := topic, m_properties := properties, x_msg_id := msg_id,
       x_offset_msg_id := (if o_is_client opts then msg_id else None)\<rparr>))))))))))))))))))))))"

definition decode_message_with :: "codecs \<Rightarrow> bytes \<Rightarrow> decode_options \<Rightarrow> message_ext result" where
  "decode_message_with c raw opts = run_reader (reader_message c opts) raw"

definition decode_message :: "codecs \<Rightarrow> bytes \<Rightarrow> message_ext result" where
  "decode_message c raw = decode_message_with c raw decode_options_default"

definition decode_messages_with :: "codecs \<Rightarrow> bytes \<Rightarrow> decode_options \<Rightarrow> message_ext list" where
  "decode_messages_with c raw opts = decode_frames (\<lambda>frame. decode_message_with c frame opts) raw"

definition decode_messages :: "codecs \<Rightarrow> bytes \<Rightarrow> message_ext list" where
  "decode_messages c raw = decode_messages_with c raw decode_options_default"

section \<open>Hosts and ids read back\<close>

text \<open>The length tests of the code are exactly what its index expressions need.\<close>

lemma bytes_to_ip_eq: "bytes_to_ip bs v6 =
    (if v6 then (if length bs \<noteq> 16 then fail (Decode ''illegal ipv6 address length'') else Inr (show_v6 bs))
     else (if length bs \<noteq> 4 then fail (Decode ''illegal ipv4 address length'') else Inr (show_v4 bs)))"
  using list4 [of bs] by (auto simp: bytes_to_ip_def copy_from_slice_def index_all_ok)

lemma bytes_to_ip_and_port_eq: "bytes_to_ip_and_port raw =
    (if length raw \<noteq> 8 \<and> length raw \<noteq> 20
     then fail (Decode (''illegal host bytes length: '' @ show_nat (length raw)))
     else let ip_len = (if length raw = 8 then 4 else 16) in
       bind_result (bytes_to_ip (take ip_len raw) (length raw = 20))
         (\<lambda>ip. Inr (ip, from_be_bytes [raw ! ip_len, raw ! (ip_len + 1), raw ! (ip_len + 2), raw ! (ip_len + 3)])))"
  by (simp add: bytes_to_ip_and_port_def slice_index_ok be_at_def index_all_ok Let_def)

text \<open>A host text in the form the decoder prints, in the address family of its flag.\<close>

definition host_ok :: "string \<Rightarrow> bool \<Rightarrow> bool" where
  "host_ok h v6 \<longleftrightarrow> (case ip_to_bytes h v6 of Inr b \<Rightarrow> bytes_to_ip b v6 = Inr h | Inl _ \<Rightarrow> False)"

lemma host_ok_v4: "length bs = 4 \<Longrightarrow> host_ok (show_v4 bs) False"
  by (simp add: host_ok_def ip_to_bytes_def bytes_to_ip_eq parse_show_v4)

lemma host_okE:
  assumes "host_ok h v6"
  obtains a where "ip_and_port_to_bytes h port v6 = Inr a" "length a = (if v6 then 20 else 8)"
    "bytes_to_ip_and_port a = Inr (h, port)"
proof -
  obtain b where b: "ip_to_bytes h v6 = Inr b" "bytes_to_ip b v6 = Inr h"
    using assms by (auto simp: host_ok_def split: sum.splits)
  then have len: "length b = (if v6 then 16 else 4)"
    by (auto simp: bytes_to_ip_eq split: if_splits)
  let ?p = "to_be_bytes port"
  have port: "from_be_bytes [?p ! 0, ?p ! 1, ?p ! 2, ?p ! 3] = port"
    by (subst list4) simp_all
  show ?thesis
  proof
    show "ip_and_port_to_bytes h port v6 = Inr (b @ ?p)"
      by (simp add: ip_and_port_to_bytes_def b)
    show "length (b @ ?p) = (if v6 then 20 else 8)"
      by (simp add: len)
    show "bytes_to_ip_and_port (b @ ?p) = Inr (h, port)"
      using len b(2) port by (cases v6) (simp_all add: bytes_to_ip_and_port_eq nth_append)
  qed
qed

lemma decode_create_message_id:
  assumes "bytes_to_ip_and_port a = Inr (h, port)"
  shows "decode_message_id (create_message_id a off) = Inr (h, port, off)"
proof -
  let ?o = "to_be_bytes off"
  have len: "length a = 8 \<or> length a = 20"
    using assms by (auto simp: bytes_to_ip_and_port_eq split: if_splits)
  have off: "from_be_bytes [?o ! 0, ?o ! 1, ?o ! 2, ?o ! 3, ?o ! 4, ?o ! 5, ?o ! 6, ?o ! 7] = off"
    by (subst list8) simp_all
  from len have "a @ ?o \<noteq> []" by auto
  with len assms off show ?thesis
    by (auto simp: decode_message_id_def create_message_id_def string_2_bytes_2_string nth_append slice_index_ok
        be_at_def index_all_ok)
qed

section \<open>Frames read back\<close>

definition frame_ok :: "message_ext \<Rightarrow> bool" where
  "frame_ok x \<longleftrightarrow> is_str (m_topic x) \<and> properties_ok (m_properties x)
     \<and> length (message_properties_2_string (m_properties x)) < 2 ^ 16
     \<and> host_ok (default_host (x_born_host x)) (host_length (x_sys_flag x) BORNHOST_V6_FLAG = 20)
     \<and> host_ok (default_host (x_store_host x))
         (host_length (x_sys_flag x) STOREHOSTADDRESS_V6_FLAG = 20)"

definition store_id :: "message_ext \<Rightarrow> string" where
  "store_id x = create_message_id
     (projr (ip_and_port_to_bytes (default_host (x_store_host x)) (x_store_host_port x)
        (host_length (x_sys_flag x) STOREHOSTADDRESS_V6_FLAG = 20))) (x_commit_log_offset x)"

text \<open>What a reader of a frame sees of the message that was written: the client-side fields are not
  part of the format, and the id is the store address with the offset.\<close>

definition stored_view ::
  "decode_options \<Rightarrow> message_ext \<Rightarrow> nat \<Rightarrow> bytes option \<Rightarrow> i32 \<Rightarrow> message_ext" where
  "stored_view opts x n body sys_flag =
     x\<lparr>x_store_size := of_nat n, m_body := body, x_sys_flag := sys_flag,
       m_properties := carried (m_properties x), m_transaction_id := None,
       x_born_host := Some (default_host (x_born_host x)),
       x_store_host := Some (default_host (x_store_host x)),
       x_msg_id := Some (store_id x),
       x_offset_msg_id := (if o_is_client opts then Some (store_id x) else None),
       x_broker_name := None, x_msg_type := None\<rparr>"

lemma host_length_cases: "host_length sf f = (if host_length sf f = 20 then 20 else 8)"
  by (simp add: host_length_def)

lemma r_bind_lift: "r_bind (r_lift (Inr a)) f = f a"
  by (simp add: r_bind_def r_lift_def fun_eq_iff)

lemma bind_u8: "r_bind reader_u8 f (rd_at pre (b # rest)) = f b (rd_at (pre @ [b]) rest)"
  using fu8.bind_dec_enc [of f pre b rest] by simp

lemma reader_topic_at:
  assumes "is_str t" and "length t \<le> 255"
  shows "r_bind (reader_topic False) f (rd_at pre ([of_nat (length t)] @ str_bytes t @ rest)) =
    f t (rd_at (pre @ [of_nat (length t)] @ str_bytes t) rest)"
proof -
  have "unat (of_nat (length t) :: u8) = length t"
    using assms(2) by (simp add: unat_of_nat)
  then show ?thesis
    using assms(1)
    by (simp add: reader_topic_def r_bind_assoc bind_u8 reader_bytes_def r_bind_take)
qed

lemma reader_properties_at:
  assumes "properties_ok m" and "length (message_properties_2_string m) < 2 ^ 16"
  shows "r_bind reader_properties f
      (rd_at pre (to_be_bytes (of_nat (length (message_properties_2_string m)) :: u16)
         @ str_bytes (message_properties_2_string m) @ rest)) =
    f (carried m) (rd_at (pre @ to_be_bytes (of_nat (length (message_properties_2_string m)) :: u16)
         @ str_bytes (message_properties_2_string m)) rest)"
proof -
  let ?s = "message_properties_2_string m"
  have n: "unat (of_nat (length ?s) :: u16) = length ?s"
    using assms(2) by (simp add: unat_of_nat)
  have "is_str ?s"
    using assms(1) by (simp add: properties_ok_def message_properties_2_string_concat is_str_properties)
  moreover have "carried m = ext_new" if "?s = []"
    using string_2_message_properties_2_string [OF assms(1)] that
    by (simp add: string_2_message_properties_def)
  ultimately show ?thesis
    using assms string_2_message_properties_2_string [OF assms(1)]
    by (cases "?s = []")
      (simp_all add: reader_properties_def r_bind_assoc fu16.bind_dec_enc n reader_bytes_def r_bind_take r_bind_lift)
qed

lemma reader_body_at:
  assumes "length body < 2 ^ 31"
  shows "r_bind (reader_body c opts crc sf) f
      (rd_at pre (to_be_bytes (of_nat (length body) :: i32) @ body @ rest)) =
    bind_result (if body = [] then Inr (None, sf) else open_body c opts crc sf body)
      (\<lambda>v. f v (rd_at (pre @ to_be_bytes (of_nat (length body) :: i32) @ body) rest))"
proof -
  have "0 <s (of_nat (length body) :: i32) \<longleftrightarrow> body \<noteq> []"
    using assms by (simp add: word_sless_alt sint_of_nat_small)
  then show ?thesis
    using assms
    by (cases "open_body c opts crc sf body")
      (auto simp: reader_body_def r_bind_assoc fi32.bind_dec_enc reader_bytes_def r_bind_take
        as_usize_of_nat r_bind_lift r_bind_simps)
qed

text \<open>The bytes of a frame.\<close>

definition frame_bytes :: "message_ext \<Rightarrow> bytes \<Rightarrow> bytes \<Rightarrow> bytes \<Rightarrow> nat \<Rightarrow> bytes" where
  "frame_bytes x body born store n =
     to_be_bytes (of_nat n :: i32) @ to_be_bytes MESSAGE_MAGIC_CODE
       @ to_be_bytes (x_body_crc x) @ to_be_bytes (x_queue_id x) @ to_be_bytes (m_flag x)
       @ to_be_bytes (x_queue_offset x) @ to_be_bytes (x_commit_log_offset x)
       @ to_be_bytes (x_sys_flag x) @ to_be_bytes (x_born_timestamp x) @ born
       @ to_be_bytes (x_store_timestamp x) @ store @ to_be_bytes (x_reconsume_times x)
       @ to_be_bytes (x_prepared_transaction_offset x)
       @ to_be_bytes (of_nat (length body) :: i32) @ body
       @ [of_nat (length (m_topic x))] @ str_bytes (m_topic x)
       @ to_be_bytes (of_nat (length (message_properties_2_string (m_properties x))) :: u16)
       @ str_bytes (message_properties_2_string (m_properties x))"

lemma frame_store_size_ge: "n < 2 ^ 31 \<Longrightarrow> n \<le> frame_store_size s n"
  by (auto simp: frame_store_size_def word_sless_alt sint_of_nat_small as_usize_of_nat
      as_usize_nonneg)

lemma encode_message_ext_bytes:
  assumes "frame_ok x" and "wire_body c x nc = Inr body"
    and "encode_message_ext c x nc = Inr raw" and "length raw < 2 ^ 31"
  obtains born store pad where
    "length (m_topic x) \<le> 255" "length body < 2 ^ 31"
    "length born = host_length (x_sys_flag x) BORNHOST_V6_FLAG"
    "bytes_to_ip_and_port born = Inr (default_host (x_born_host x), x_born_host_port x)"
    "ip_and_port_to_bytes (default_host (x_store_host x)) (x_store_host_port x)
       (host_length (x_sys_flag x) STOREHOSTADDRESS_V6_FLAG = 20) = Inr store"
    "length store = host_length (x_sys_flag x) STOREHOSTADDRESS_V6_FLAG"
    "bytes_to_ip_and_port store = Inr (default_host (x_store_host x), x_store_host_port x)"
    "raw = frame_bytes x body born store (length raw) @ pad"
proof -
  let ?b6 = "host_length (x_sys_flag x) BORNHOST_V6_FLAG"
    and ?s6 = "host_length (x_sys_flag x) STOREHOSTADDRESS_V6_FLAG"
  obtain born where born: "ip_and_port_to_bytes (default_host (x_born_host x)) (x_born_host_port x)
        (?b6 = 20) = Inr born" "length born = (if ?b6 = 20 then 20 else 8)"
      "bytes_to_ip_and_port born = Inr (default_host (x_born_host x), x_born_host_port x)"
    using assms(1) unfolding frame_ok_def by (metis host_okE)
  obtain store where store: "ip_and_port_to_bytes (default_host (x_store_host x))
        (x_store_host_port x) (?s6 = 20) = Inr store" "length store = (if ?s6 = 20 then 20 else 8)"
      "bytes_to_ip_and_port store = Inr (default_host (x_store_host x), x_store_host_port x)"
    using assms(1) unfolding frame_ok_def by (metis host_okE)
  define n where "n = HEADER_WITHOUT_BODY_LEN + ?b6 + ?s6 + 4 + length body + 1 + length (m_topic x)
    + 2 + length (message_properties_2_string (m_properties x))"
  define size where "size = frame_store_size (x_store_size x) n"
  have hosts: "length born = ?b6" "length store = ?s6"
    using born(2) store(2) host_length_cases by metis+
  have flen: "length (frame_bytes x body born store k) = n" for k
    by (simp add: frame_bytes_def n_def hosts HEADER_WITHOUT_BODY_LEN_def)
  have topic: "length (m_topic x) \<le> 255"
    using assms(2,3) by (intro leI) (auto simp: encode_message_ext_def Let_def)
  have raw: "raw = frame_bytes x body born store size @ replicate (size - n) 0"
    using assms(2,3) topic born(1) store(1)
    by (auto simp: encode_message_ext_def Let_def writer_len_def writer_new_def frame_bytes_def
        ucast_of_nat_16 n_def size_def hosts HEADER_WITHOUT_BODY_LEN_def)
  then have "length raw = n + (size - n)"
    by (simp add: flen)
  moreover from this have "n \<le> size"
    using assms(4) frame_store_size_ge by (simp add: size_def)
  ultimately have "length raw = size" by simp
  moreover have "length body < 2 ^ 31"
    using assms(4) \<open>length raw = n + (size - n)\<close> by (simp add: n_def)
  ultimately show ?thesis
    using that [OF topic _ hosts(1) born(3) store(1) hosts(2) store(3)] raw by metis
qed

lemma decode_encode_message_ext:
  assumes ok: "frame_ok x" and body: "wire_body c x nc = Inr body"
    and enc: "encode_message_ext c x nc = Inr raw" and len: "length raw < 2 ^ 31"
  shows "decode_message_with c raw opts =
    bind_result (if body = [] then Inr (None, x_sys_flag x)
                 else open_body c opts (x_body_crc x) (x_sys_flag x) body)
      (\<lambda>(b, sf). Inr (stored_view opts x (length raw) b sf))"
proof -
  obtain born store pad where topic: "length (m_topic x) \<le> 255" and blen: "length body < 2 ^ 31"
    and born: "length born = host_length (x_sys_flag x) BORNHOST_V6_FLAG"
      "bytes_to_ip_and_port born = Inr (default_host (x_born_host x), x_born_host_port x)"
    and store: "ip_and_port_to_bytes (default_host (x_store_host x)) (x_store_host_port x)
       (host_length (x_sys_flag x) STOREHOSTADDRESS_V6_FLAG = 20) = Inr store"
      "length store = host_length (x_sys_flag x) STOREHOSTADDRESS_V6_FLAG"
      "bytes_to_ip_and_port store = Inr (default_host (x_store_host x), x_store_host_port x)"
    and raw: "raw = frame_bytes x body born store (length raw) @ pad"
    using encode_message_ext_bytes [OF ok body enc len] by metis
  have props: "properties_ok (m_properties x)"
      "length (message_properties_2_string (m_properties x)) < 2 ^ 16" and str: "is_str (m_topic x)"
    using ok by (simp_all add: frame_ok_def)
  define n where "n = length raw"
  have "decode_message_with c (frame_bytes x body born store n @ pad) opts =
      bind_result (if body = [] then Inr (None, x_sys_flag x)
                   else open_body c opts (x_body_crc x) (x_sys_flag x) body)
        (\<lambda>(b, sf). Inr (stored_view opts x n b sf))"
    unfolding decode_message_with_def run_reader_at frame_bytes_def reader_message_def append_assoc
    by (cases "if body = [] then Inr (None, x_sys_flag x)
          else open_body c opts (x_body_crc x) (x_sys_flag x) body")
      (simp_all only: fi32.bind_dec_enc fu32.bind_dec_enc fi64.bind_dec_enc reader_bytes_def
        r_bind_take born store r_unit_simps r_bind_lift if_True simp_thms prod.case Let_def
        reader_body_at [OF blen] bind_result_simps case_prod_beta reader_topic_at [OF str topic]
        reader_properties_at [OF props],
       auto simp: stored_view_def message_ext_new_def store_id_def store(1) r_bind_lift
         intro!: message_ext.equality)
  then show ?thesis
    using raw n_def by metis
qed

section \<open>Concatenated frames\<close>

definition body_view :: "codecs \<Rightarrow> decode_options \<Rightarrow> message_ext \<Rightarrow> (bytes option \<times> i32) result" where
  "body_view c opts x = bind_result (wire_body c x True) (\<lambda>body.
     if body = [] then Inr (None, x_sys_flag x)
     else open_body c opts (x_body_crc x) (x_sys_flag x) body)"

definition stored_frame :: "codecs \<Rightarrow> message_ext \<Rightarrow> bytes" where
  "stored_frame c x = projr (encode_message_ext c x True)"

definition frame_view :: "codecs \<Rightarrow> decode_options \<Rightarrow> message_ext \<Rightarrow> message_ext" where
  "frame_view c opts x =
     (let (b, sf) = projr (body_view c opts x)
      in stored_view opts x (length (stored_frame c x)) b sf)"

definition storable :: "codecs \<Rightarrow> decode_options \<Rightarrow> message_ext \<Rightarrow> bool" where
  "storable c opts x \<longleftrightarrow> frame_ok x \<and> \<not> isl (body_view c opts x)
     \<and> \<not> isl (encode_message_ext c x True) \<and> length (stored_frame c x) < 2 ^ 31"

lemma storable_decode:
  assumes "storable c opts x"
  shows "decode_message_with c (stored_frame c x) opts = Inr (frame_view c opts x)"
proof -
  obtain raw where raw: "encode_message_ext c x True = Inr raw"
    using assms by (cases "encode_message_ext c x True") (auto simp: storable_def)
  obtain body where body: "wire_body c x True = Inr body"
    using raw by (auto simp: encode_message_ext_def bind_result_Inr)
  obtain b sf where view: "body_view c opts x = Inr (b, sf)"
    using assms by (cases "body_view c opts x") (auto simp: storable_def)
  show ?thesis
    using decode_encode_message_ext [OF _ body raw, of opts] assms view
    by (simp add: storable_def stored_frame_def raw frame_view_def body_view_def body)
qed

lemma storable_size:
  assumes "storable c opts x"
  shows "\<exists>rest. stored_frame c x = to_be_bytes (of_nat (length (stored_frame c x)) :: i32) @ rest"
proof -
  obtain raw where raw: "encode_message_ext c x True = Inr raw"
    using assms by (cases "encode_message_ext c x True") (auto simp: storable_def)
  obtain body where body: "wire_body c x True = Inr body"
    using raw by (auto simp: encode_message_ext_def bind_result_Inr)
  have ok: "frame_ok x" and len: "length raw < 2 ^ 31"
    using assms raw by (simp_all add: storable_def stored_frame_def)
  have "stored_frame c x = raw"
    by (simp add: stored_frame_def raw)
  then show ?thesis
    using encode_message_ext_bytes [OF ok body raw len]
    unfolding frame_bytes_def by (metis append_assoc)
qed

interpretation stored: framed "stored_frame c" "\<lambda>frame. decode_message_with c frame opts"
    "frame_view c opts" "storable c opts"
  for c opts
  by unfold_locales (auto simp: storable_decode storable_size, simp add: storable_def)

section \<open>Decoding never panics\<close>

lemma no_panic_hosts [simp]:
  "no_panic (bytes_to_ip_and_port a)" "no_panic (ip_and_port_to_bytes h p v6)"
  by (auto simp: bytes_to_ip_and_port_eq ip_and_port_to_bytes_def ip_to_bytes_def bytes_to_ip_eq
      Let_def intro!: no_panic_bind split: option.split ip_addr.split)

lemma no_panic_decompress [simp]: "no_panic (decompress c d t)"
  by (simp add: compression_defs)

lemma no_panic_open_body [simp]: "no_panic (open_body c opts crc sf b)"
  by (auto simp: open_body_def intro!: no_panic_bind)

lemma safe_reader_message: "safe_reader (reader_message c opts)"
  unfolding reader_message_def reader_body_def reader_topic_def reader_properties_def Let_def
    case_prod_beta
  by (intro safe_intros no_panic_hosts no_panic_open_body properties_no_panic)

lemma decode_message_no_panic: "no_panic (decode_message_with c raw opts)"
  using safe_reader_message [of c opts]
  by (auto simp: decode_message_with_def run_reader_at safe_reader_def intro!: no_panic_bind)

section \<open>Properties\<close>

lemma compressed_bit: "s AND COMPRESSED_FLAG \<noteq> 0 \<longleftrightarrow> s AND COMPRESSED_FLAG = COMPRESSED_FLAG"
  using check_flag_single [of 0 s] by (simp add: check_flag_def COMPRESSED_FLAG_def and_1_eq)

lemma clear_compressed_idle:
  assumes "s AND COMPRESSED_FLAG = 0"
  shows "clear_compressed_flag s = s"
proof -
  have "\<not> bit s 0"
    using assms and_1_eq [of s] by (auto simp: COMPRESSED_FLAG_def)
  then show ?thesis
    unfolding clear_compressed_flag_def COMPRESSED_FLAG_def
    by (intro bit_word_eqI) (auto simp: bit_simps, metis gr0I)
qed

text \<open>
  C3. A message written as a stored frame and read back with the default options is the message that was
  written: every stored field, the decompressed body, the host addresses and the properties that have a
  name and a value; the compression flag is cleared and the id is the store address with the offset.
\<close>
theorem stored_message_round_trip:
  assumes "codecs_lossless c" and "frame_ok x"
    and "encode_message_ext c x True = Inr raw" and "length raw < 2 ^ 31"
    and "wire_body c x True \<noteq> Inr []"
  shows "decode_message c raw =
    Inr (stored_view decode_options_default x (length raw) (Some (get_body x))
      (clear_compressed_flag (x_sys_flag x)))"
proof -
  obtain body where body: "wire_body c x True = Inr body" "body \<noteq> []"
    using assms(3,5) by (auto simp: encode_message_ext_def bind_result_Inr)
  have "open_body c decode_options_default (x_body_crc x) (x_sys_flag x) body =
      Inr (Some (get_body x), clear_compressed_flag (x_sys_flag x))"
  proof (cases "x_sys_flag x AND COMPRESSED_FLAG = 0")
    case True
    then show ?thesis
      using body compressed_bit [of "x_sys_flag x"]
      by (simp add: open_body_def decode_options_default_def wire_body_def clear_compressed_idle)
  next
    case False
    then have "compress c (get_body x) (get_compression_type (x_sys_flag x)) DEFAULT_COMPRESS_LEVEL = Inr body"
      using body(1) compressed_bit [of "x_sys_flag x"] by (simp add: wire_body_def)
    from compress_decompress [OF assms(1) this] False show ?thesis
      by (simp add: open_body_def decode_options_default_def clear_compressed_flag_def)
  qed
  then show ?thesis
    using decode_encode_message_ext [OF assms(2) body(1) assms(3,4), of decode_options_default] body(2)
    by (simp add: decode_message_def)
qed

definition sample_codecs :: codecs where
  "sample_codecs = \<lparr>zlib_enc = (\<lambda>_ d. Some (0x78 # d)), zlib_dec = (\<lambda>e. Some (tl e)),
     lz4_enc = (\<lambda>d. Some (0x04 # d)), lz4_dec = (\<lambda>e. Some (tl e)),
     zstd_enc = (\<lambda>_ d. Some (0x28 # d)), zstd_dec = (\<lambda>e. Some (tl e))\<rparr>"

definition sample_stored :: message_ext where
  "sample_stored = message_ext_new\<lparr>m_topic := ''T'', m_body := Some [1, 2, 3],
     m_properties := [(''KEYS'', ''k''), (''TAGS'', ''t'')], x_queue_id := 3, x_queue_offset := 7,
     x_sys_flag := 0x301, x_born_host := Some ''10.0.0.1'', x_born_host_port := 9,
     x_commit_log_offset := 99\<rparr>"

lemma sample_codecs_lossless: "codecs_lossless sample_codecs"
  by (simp add: codecs_lossless_def sample_codecs_def)

lemma sample_stored_body:
  "wire_body sample_codecs sample_stored True = Inr [0x78, 1, 2, 3]"
proof -
  have "get_body sample_stored = [1, 2, 3]" "x_sys_flag sample_stored = 0x301"
    by code_simp+
  then show ?thesis
    by (simp add: wire_body_def compression_defs normalize_compression_type_def ZLIB_TYPE_def
        DEFAULT_COMPRESS_LEVEL_def sample_codecs_def word_sle_eq COMPRESSED_FLAG_def
        get_compression_type_def mask_defs)
qed

lemma sample_stored_frame:
  "\<not> isl (encode_message_ext sample_codecs sample_stored True)"
  "length (stored_frame sample_codecs sample_stored) = 110"
  unfolding stored_frame_def encode_message_ext_def sample_stored_body bind_result_simps by code_simp+

lemma sample_stored_ok: "frame_ok sample_stored"
proof -
  have "is_str (m_topic sample_stored)" "properties_ok (m_properties sample_stored)"
    "length (message_properties_2_string (m_properties sample_stored)) = 14"
    "host_ok (default_host (x_born_host sample_stored))
       (host_length (x_sys_flag sample_stored) BORNHOST_V6_FLAG = 20)"
    "host_ok (default_host (x_store_host sample_stored))
       (host_length (x_sys_flag sample_stored) STOREHOSTADDRESS_V6_FLAG = 20)"
    by code_simp+
  then show ?thesis
    by (simp add: frame_ok_def)
qed

theorem stored_message_round_trip_witness:
  "codecs_lossless sample_codecs \<and> frame_ok sample_stored
     \<and> decode_message sample_codecs (stored_frame sample_codecs sample_stored) =
    Inr (stored_view decode_options_default sample_stored 110 (Some [1, 2, 3]) 0x300)"
proof -
  have enc: "encode_message_ext sample_codecs sample_stored True =
      Inr (stored_frame sample_codecs sample_stored)"
    using sample_stored_frame(1) by (auto simp: stored_frame_def isl_def)
  have seen: "get_body sample_stored = [1, 2, 3]" "clear_compressed_flag (x_sys_flag sample_stored) = 0x300"
    by code_simp+
  show ?thesis
    using stored_message_round_trip [OF sample_codecs_lossless sample_stored_ok enc]
      sample_stored_ok sample_codecs_lossless
    by (simp add: sample_stored_frame(2) seen sample_stored_body)
qed

text \<open>
  C7. Any number of storable messages written one after another are all returned, in order, by
  \<open>decode_messages_with\<close>, whatever the options, and what follows them is decoded as if it stood alone.
\<close>
theorem decode_messages_concatenated:
  assumes "list_all (storable c opts) xs"
  shows "decode_messages_with c (concat (map (stored_frame c) xs) @ rest) opts =
    map (frame_view c opts) xs @ decode_messages_with c rest opts"
  unfolding decode_messages_with_def by (rule stored.decode_frames_concat [OF assms])

lemma sample_storable: "storable sample_codecs decode_options_default sample_stored"
proof -
  have "decompress sample_codecs [0x78, 1, 2, 3] 3 = Inr [1, 2, 3]"
    by (simp add: compression_defs normalize_compression_type_def ZLIB_TYPE_def sample_codecs_def)
  moreover have "x_sys_flag sample_stored = 0x301"
    by code_simp
  ultimately have "\<not> isl (body_view sample_codecs decode_options_default sample_stored)"
    by (simp add: body_view_def sample_stored_body open_body_def decode_options_default_def
        COMPRESSED_FLAG_def get_compression_type_def mask_defs)
  then show ?thesis
    by (simp add: storable_def sample_stored_frame sample_stored_ok)
qed

theorem decode_messages_concatenated_witness:
  "list_all (storable sample_codecs decode_options_default) [sample_stored, sample_stored]
     \<and> decode_messages_with sample_codecs (concat (map (stored_frame sample_codecs)
          [sample_stored, sample_stored]) @ [0, 0]) decode_options_default =
        replicate 2 (frame_view sample_codecs decode_options_default sample_stored)"
proof -
  have ok: "list_all (storable sample_codecs decode_options_default) [sample_stored, sample_stored]"
    by (simp add: sample_storable)
  have "decode_messages_with sample_codecs [0, 0] decode_options_default = []"
    by (simp add: decode_messages_with_def decode_frames.simps)
  then show ?thesis
    using ok unfolding decode_messages_concatenated [OF ok] by (simp add: numeral_2_eq_2)
qed

text \<open>
  C8. Decoding a stored frame never panics: on every byte string the result is a message or a decode error.
\<close>
theorem decode_message_total: "no_panic (decode_message_with c raw opts)"
  by (rule decode_message_no_panic)

text \<open>
  A message id made of a host field and an offset decodes to that host, port and offset.
\<close>
theorem message_id_round_trip:
  assumes "host_ok h v6" and "ip_and_port_to_bytes h port v6 = Inr a"
  shows "decode_message_id (create_message_id a off) = Inr (h, port, off)"
proof (rule decode_create_message_id)
  show "bytes_to_ip_and_port a = Inr (h, port)"
    using host_okE [OF assms(1), of port] assms(2) by (metis sum.inject(2))
qed

theorem message_id_round_trip_witness:
  "decode_message_id (create_message_id [10, 0, 0, 1, 0, 0, 0x2A, 0x9F] 77) = Inr (''10.0.0.1'', 10911, 77)"
proof -
  have "host_ok ''10.0.0.1'' False" "ip_and_port_to_bytes ''10.0.0.1'' 10911 False = Inr [10, 0, 0, 1, 0, 0, 0x2A, 0x9F]"
    by code_simp+
  then show ?thesis
    by (rule message_id_round_trip)
qed

end
