(* ===== verification/Mix_All.thy ===== *)
theory Mix_All
  imports Message
begin

text \<open>
  The naming helpers and the text forms of \<open>src/rust/src/common/mix_all.rs\<close>: retry, dead letter, system and
  LMQ names, the client id, the VIP channel address, queues as text, and the properties text with
  continuation lines. The process id, the clock and the local address are arguments of the definitions
  that read them. The scanners of the source stop at ASCII characters only, so they run on the bytes of the
  text.
\<close>

section \<open>Names\<close>

definition RETRY_GROUP_TOPIC_PREFIX :: string where "RETRY_GROUP_TOPIC_PREFIX = ''%RETRY%''"
definition DLQ_GROUP_TOPIC_PREFIX :: string where "DLQ_GROUP_TOPIC_PREFIX = ''%DLQ%''"
definition REPLY_TOPIC_POSTFIX :: string where "REPLY_TOPIC_POSTFIX = ''REPLY_TOPIC''"
definition MIX_SYSTEM_TOPIC_PREFIX :: string where "MIX_SYSTEM_TOPIC_PREFIX = ''rmq_sys_''"
definition CID_RMQ_SYS_PREFIX :: string where "CID_RMQ_SYS_PREFIX = ''CID_RMQ_SYS_''"
definition LMQ_PREFIX :: string where "LMQ_PREFIX = ''%LMQ%''"
definition STREAM_REQUEST_TYPE :: string where "STREAM_REQUEST_TYPE = ''STREAM''"
definition DEFAULT_INSTANCE_NAME :: string where "DEFAULT_INSTANCE_NAME = ''DEFAULT''"

definition get_retry_topic :: "string \<Rightarrow> string" where
  "get_retry_topic consumer_group = RETRY_GROUP_TOPIC_PREFIX @ consumer_group"

definition is_retry_topic :: "string option \<Rightarrow> bool" where
  "is_retry_topic topic = (case topic of Some t \<Rightarrow> starts_with t RETRY_GROUP_TOPIC_PREFIX | None \<Rightarrow> False)"

definition get_dlq_topic :: "string \<Rightarrow> string" where
  "get_dlq_topic consumer_group = DLQ_GROUP_TOPIC_PREFIX @ consumer_group"

definition is_dlq_topic :: "string option \<Rightarrow> bool" where
  "is_dlq_topic topic = (case topic of Some t \<Rightarrow> starts_with t DLQ_GROUP_TOPIC_PREFIX | None \<Rightarrow> False)"

definition get_reply_topic :: "string \<Rightarrow> string" where
  "get_reply_topic cluster_name = cluster_name @ ''_'' @ REPLY_TOPIC_POSTFIX"

definition is_sys_topic :: "string option \<Rightarrow> bool" where
  "is_sys_topic topic = (case topic of Some t \<Rightarrow> starts_with t MIX_SYSTEM_TOPIC_PREFIX | None \<Rightarrow> False)"

definition is_lmq :: "string option \<Rightarrow> bool" where
  "is_lmq lmq_meta_data = (case lmq_meta_data of Some t \<Rightarrow> starts_with t LMQ_PREFIX | None \<Rightarrow> False)"

definition is_sys_consumer_group :: "string option \<Rightarrow> bool" where
  "is_sys_consumer_group consumer_group =
     (case consumer_group of Some g \<Rightarrow> starts_with g CID_RMQ_SYS_PREFIX | None \<Rightarrow> False)"

definition predefine_group_set :: "string list" where
  "predefine_group_set =
     [''DEFAULT_CONSUMER'', ''DEFAULT_PRODUCER'', ''TOOLS_CONSUMER'', ''SCHEDULE_CONSUMER'', ''FILTERSRV_CONSUMER'',
      ''__MONITOR_CONSUMER'', ''CLIENT_INNER_PRODUCER'', ''SELF_TEST_P_GROUP'', ''SELF_TEST_C_GROUP'',
      ''CID_ONS-HTTP-PROXY'', ''CID_ONSAPI_PERMISSION'', ''CID_ONSAPI_OWNER'', ''CID_ONSAPI_PULL'',
      ''CID_SYS_RMQ_TRANS'']"

definition is_predefined_group :: "string \<Rightarrow> bool" where
  "is_predefined_group consumer_group \<longleftrightarrow> consumer_group \<in> set predefine_group_set"

definition mix_system_topic_set :: "string list" where
  "mix_system_topic_set =
     [''TBW102'', ''RMQ_SYS_TRACE_TOPIC'', ''rmq_sys_TRACE_DATA'', ''RMQ_SYS_TRANS_OP_HALF_TOPIC'',
      ''RMQ_SYS_TRANS_HALF_TOPIC'', ''RMQ_SYS_TRANS_OP_HALF_TOPIC'', ''RMQ_SYS_TRANS_CHECK_MAX_TIME_TOPIC'',
      ''LOG_STATS_TOPIC'', ''BenchmarkTest'']"

definition mix_is_system_topic :: "string \<Rightarrow> bool" where
  "mix_is_system_topic topic \<longleftrightarrow> topic \<in> set mix_system_topic_set \<or> is_sys_topic (Some topic)
     \<or> is_retry_topic (Some topic) \<or> is_dlq_topic (Some topic)"

definition reset_retry_and_dlq_topic :: "string option \<Rightarrow> string option" where
  "reset_retry_and_dlq_topic topic = (case topic of
     None \<Rightarrow> None
   | Some topic \<Rightarrow>
       if is_retry_topic (Some topic) then Some (drop (length RETRY_GROUP_TOPIC_PREFIX) topic)
       else if is_dlq_topic (Some topic) then Some (drop (length DLQ_GROUP_TOPIC_PREFIX) topic)
       else Some topic)"

definition compare_and_increase_namespace :: "string \<Rightarrow> string option \<Rightarrow> string" where
  "compare_and_increase_namespace instance_name namespace = (case namespace of
     None \<Rightarrow> instance_name
   | Some ns \<Rightarrow>
       if ns = [] then instance_name
       else if starts_with instance_name ns then instance_name
       else if starts_with instance_name (''%'' @ ns) then instance_name
       else ''%'' @ ns @ ''%%'' @ instance_name)"

section \<open>The client id\<close>

definition build_mq_client_id :: "string \<Rightarrow> string \<Rightarrow> string option \<Rightarrow> bool \<Rightarrow> string" where
  "build_mq_client_id client_ip instance_name unit_name enable_stream_request_type =
     (let sb = client_ip @ ''@'' @ instance_name;
          sb = (case unit_name of
                  Some u \<Rightarrow> if \<not> is_blank (Some u) then sb @ ''@'' @ u else sb
                | None \<Rightarrow> sb)
      in if enable_stream_request_type then sb @ ''@'' @ STREAM_REQUEST_TYPE else sb)"

text \<open>The process id and \<open>nano_time\<close> are what the system answers.\<close>

definition change_instance_name_to_pid :: "u32 \<Rightarrow> 128 word \<Rightarrow> string \<Rightarrow> string" where
  "change_instance_name_to_pid pid nano_time instance_name =
     (if instance_name = DEFAULT_INSTANCE_NAME then show_nat (unat pid) @ ''#'' @ show_nat (unat nano_time)
      else instance_name)"

definition instance_name_for_model :: "u32 \<Rightarrow> 128 word \<Rightarrow> string \<Rightarrow> bool \<Rightarrow> string" where
  "instance_name_for_model pid nano_time instance_name clustering =
     (if clustering then change_instance_name_to_pid pid nano_time instance_name else instance_name)"

definition client_id_for :: "string \<Rightarrow> u32 \<Rightarrow> 128 word \<Rightarrow> string \<Rightarrow> string option \<Rightarrow> bool \<Rightarrow> string" where
  "client_id_for local_ip pid nano_time instance_name unit_name enable_stream_request_type =
     build_mq_client_id local_ip (change_instance_name_to_pid pid nano_time instance_name) unit_name
       enable_stream_request_type"

text \<open>\<open>rsplit_once\<close> on one character.\<close>

fun str_rsplit_once :: "char \<Rightarrow> string \<Rightarrow> (string \<times> string) option" where
  "str_rsplit_once c [] = None"
| "str_rsplit_once c (x # xs) = (case str_rsplit_once c xs of
     Some (a, b) \<Rightarrow> Some (x # a, b)
   | None \<Rightarrow> if x = c then Some ([], xs) else None)"

definition broker_vip_channel :: "bool \<Rightarrow> string \<Rightarrow> string" where
  "broker_vip_channel is_change broker_addr =
     (if \<not> is_change then broker_addr
      else case str_rsplit_once (CHR '':'') broker_addr of
        Some (host, port) \<Rightarrow> (case parse_i64 port of
            Some v \<Rightarrow> host @ '':'' @ show_signed (v - 2)
          | None \<Rightarrow> broker_addr)
      | None \<Rightarrow> broker_addr)"

section \<open>Queues as text\<close>

text \<open>The separator is one character: every caller passes a space.\<close>

definition message_queue_to_string :: "message_queue \<Rightarrow> string" where
  "message_queue_to_string mq = mq_topic mq @ '' '' @ mq_broker_name mq @ '' '' @ show_signed (mq_queue_id mq)"

definition string_to_message_queue :: "string \<Rightarrow> char \<Rightarrow> message_queue result" where
  "string_to_message_queue queue separator =
     (let parts = str_split separator queue in
      if length parts < 3 then fail (Decode (''message queue string '' @ str_debug queue @ '' has ''
          @ show_nat (length parts) @ '' parts, need 3''))
      else bind_result (ok_or (parse_i32 (str_trim (parts ! 2))) (Decode (''bad queueId in '' @ str_debug queue @ '': '')))
        (\<lambda>queue_id. Inr (MessageQueue (parts ! 0) (parts ! 1) queue_id)))"

fun keep_queues :: "string list \<Rightarrow> message_queue list" where
  "keep_queues [] = []"
| "keep_queues (line # lines) =
     (if str_trim line = [] then keep_queues lines
      else case string_to_message_queue line (CHR '' '') of
        Inr mq \<Rightarrow> mq # keep_queues lines
      | Inl _ \<Rightarrow> keep_queues lines)"

definition string_to_message_queues :: "string \<Rightarrow> message_queue list" where
  "string_to_message_queues queues = keep_queues (str_split (CHR 0x0A) queues)"

section \<open>The properties text\<close>

definition properties_to_string :: "string_map \<Rightarrow> bool \<Rightarrow> string" where
  "properties_to_string properties is_sort =
     (let items = (if is_sort then sort_key fst properties else properties)
      in fold (\<lambda>(k, v) buf. buf @ k @ ''='' @ v @ [CHR 0x0A]) items [])"

definition PROP_WS :: string where
  "PROP_WS = [CHR '' '', CHR 0x09, CHR 0x0C]"

definition trim_start_matches :: "string \<Rightarrow> string \<Rightarrow> string" where
  "trim_start_matches cs s = dropWhile (\<lambda>c. c \<in> set cs) s"

definition trim_end_matches :: "char \<Rightarrow> string \<Rightarrow> string" where
  "trim_end_matches c s = rev (dropWhile (\<lambda>x. x = c) (rev s))"

text \<open>The first loop: continuation lines are merged into logical lines.\<close>

fun logical_lines :: "string list \<Rightarrow> string option \<Rightarrow> string list" where
  "logical_lines [] pending = (case pending of Some tail \<Rightarrow> [tail] | None \<Rightarrow> [])"
| "logical_lines (raw # raws) pending =
     (let raw = trim_end_matches (CHR 0x0D) raw;
          line = (case pending of Some head_part \<Rightarrow> head_part @ trim_start_matches PROP_WS raw | None \<Rightarrow> raw);
          trailing = length line - length (trim_end_matches (CHR 0x5C) line)
      in if trailing mod 2 = 1 then logical_lines raws (Some (butlast line))
         else line # logical_lines raws None)"

text \<open>One logical line: a key up to a separator, and the value after it.\<close>

definition key_stop :: "char \<Rightarrow> bool" where
  "key_stop c \<longleftrightarrow> c = CHR ''='' \<or> c = CHR '':'' \<or> c \<in> set PROP_WS"

definition split_entry :: "string \<Rightarrow> string \<times> string" where
  "split_entry line =
     (let s = trim_start_matches PROP_WS line;
          key = takeWhile (\<lambda>c. \<not> key_stop c) s;
          s = trim_start_matches PROP_WS (dropWhile (\<lambda>c. \<not> key_stop c) s);
          s = (case s of c # t \<Rightarrow> if c = CHR ''='' \<or> c = CHR '':'' then trim_start_matches PROP_WS t else s
               | [] \<Rightarrow> [])
      in (key, s))"

definition is_comment :: "string \<Rightarrow> bool" where
  "is_comment line \<longleftrightarrow> (let stripped = str_trim line in
     stripped = [] \<or> starts_with stripped ''#'' \<or> starts_with stripped ''!'')"

definition put_entry :: "string \<Rightarrow> string_map \<Rightarrow> string_map" where
  "put_entry line result = (if is_comment line then result
     else (case split_entry line of (key, value) \<Rightarrow> ext_insert key value result))"

definition string_to_properties :: "string \<Rightarrow> string_map" where
  "string_to_properties text = fold put_entry (logical_lines (str_split (CHR 0x0A) text) None) ext_new"

section \<open>Queues are read back\<close>

definition queue_text_ok :: "message_queue \<Rightarrow> bool" where
  "queue_text_ok mq \<longleftrightarrow> is_str (mq_topic mq) \<and> is_str (mq_broker_name mq)
     \<and> CHR '' '' \<notin> set (mq_topic mq @ mq_broker_name mq) \<and> CHR 0x0A \<notin> set (mq_topic mq @ mq_broker_name mq)"

lemma queue_text_line:
  "queue_text_ok mq \<Longrightarrow> CHR 0x0A \<notin> set (message_queue_to_string mq)"
  by (auto simp: queue_text_ok_def message_queue_to_string_def dest: show_int_chars)

lemma queue_text_trim: "queue_text_ok mq \<Longrightarrow> str_trim (message_queue_to_string mq) \<noteq> []"
  using str_trim_digits [of "mq_topic mq @ '' '' @ mq_broker_name mq @ '' ''" "sint (mq_queue_id mq)"]
  by (simp add: queue_text_ok_def message_queue_to_string_def is_str_append is_str_Cons_ascii char_byte_def)

lemma string_to_message_queue_to_string:
  assumes "queue_text_ok mq"
  shows "string_to_message_queue (message_queue_to_string mq) (CHR '' '') = Inr mq"
proof -
  have "str_split (CHR '' '') (message_queue_to_string mq) =
      [mq_topic mq, mq_broker_name mq, show_signed (mq_queue_id mq)]"
    using assms by (simp add: message_queue_to_string_def queue_text_ok_def show_int_free)
  then show ?thesis
    by (simp add: string_to_message_queue_def)
qed

lemma keep_queues_texts:
  "\<forall>mq \<in> set mqs. queue_text_ok mq \<Longrightarrow> keep_queues (map message_queue_to_string mqs @ [[]]) = mqs"
proof (induction mqs)
  case Nil
  then show ?case by (simp add: str_trim_id)
next
  case (Cons mq mqs)
  then show ?case by (simp add: queue_text_trim string_to_message_queue_to_string)
qed

lemma queue_lines_read_back:
  assumes "\<forall>mq \<in> set mqs. queue_text_ok mq"
  shows "string_to_message_queues (concat (map (\<lambda>mq. message_queue_to_string mq @ [CHR 0x0A]) mqs)) = mqs"
  using assms keep_queues_texts [OF assms] str_split_lines [of mqs "CHR 0x0A" message_queue_to_string]
  by (simp add: string_to_message_queues_def queue_text_line)

section \<open>The properties text is read back\<close>

text \<open>
  What the text form can carry: a key has none of the characters that end it, and does not begin as a
  comment does; a value does not begin with blanks, which are skipped, and does not end with a carriage return
  or a backslash, which would be dropped or continue the line.
\<close>

definition key_ok :: "string \<Rightarrow> bool" where
  "key_ok k \<longleftrightarrow> (\<forall>c \<in> set k. \<not> key_stop c \<and> c \<noteq> CHR 0x0A)
     \<and> (k \<noteq> [] \<longrightarrow> char_byte (hd k) < 0x80 \<and> [char_byte (hd k)] \<notin> set white_space
           \<and> hd k \<noteq> CHR ''#'' \<and> hd k \<noteq> CHR ''!'')"

definition value_ok :: "string \<Rightarrow> bool" where
  "value_ok v \<longleftrightarrow> CHR 0x0A \<notin> set v
     \<and> (v \<noteq> [] \<longrightarrow> hd v \<notin> set PROP_WS \<and> List.last v \<noteq> CHR 0x0D \<and> List.last v \<noteq> CHR 0x5C)"

definition entry_line :: "string \<times> string \<Rightarrow> string" where
  "entry_line kv = fst kv @ ''='' @ snd kv"

definition text_ok :: "string_map \<Rightarrow> bool" where
  "text_ok m \<longleftrightarrow> ext_inv m \<and> (\<forall>kv \<in> set m. key_ok (fst kv) \<and> value_ok (snd kv))"

lemma trim_end_matches_id: "s = [] \<or> List.last s \<noteq> c \<Longrightarrow> trim_end_matches c s = s"
  by (cases s rule: rev_cases) (auto simp: trim_end_matches_def)

lemma trim_start_matches_id: "s = [] \<or> hd s \<notin> set cs \<Longrightarrow> trim_start_matches cs s = s"
  by (cases s) (auto simp: trim_start_matches_def)

lemma entry_line_ends:
  "value_ok (snd kv) \<Longrightarrow> List.last (entry_line kv) \<noteq> CHR 0x0D \<and> List.last (entry_line kv) \<noteq> CHR 0x5C"
  by (auto simp: entry_line_def value_ok_def)

lemma logical_lines_id:
  "\<forall>l \<in> set ls. l = [] \<or> List.last l \<noteq> CHR 0x0D \<and> List.last l \<noteq> CHR 0x5C \<Longrightarrow> logical_lines ls None = ls"
  by (induction ls) (auto simp: Let_def trim_end_matches_id)

lemma split_entry_line:
  assumes "key_ok k" and "value_ok v"
  shows "split_entry (entry_line (k, v)) = (k, v)"
proof -
  have "trim_start_matches PROP_WS (k @ CHR ''='' # v) = k @ CHR ''='' # v"
    using assms(1) by (intro trim_start_matches_id) (cases k; auto simp: key_ok_def key_stop_def PROP_WS_def)
  moreover have "takeWhile (\<lambda>c. \<not> key_stop c) (k @ CHR ''='' # v) = k"
      "dropWhile (\<lambda>c. \<not> key_stop c) (k @ CHR ''='' # v) = CHR ''='' # v"
    using assms(1) by (simp_all add: key_ok_def key_stop_def takeWhile_append dropWhile_append)
  moreover have "trim_start_matches PROP_WS (CHR ''='' # v) = CHR ''='' # v" "trim_start_matches PROP_WS v = v"
    using assms(2) by (auto simp: value_ok_def PROP_WS_def intro!: trim_start_matches_id)
  ultimately show ?thesis
    by (simp add: split_entry_def entry_line_def Let_def)
qed

lemma entry_line_not_comment:
  assumes "key_ok k"
  shows "\<not> is_comment (entry_line (k, v))"
proof -
  obtain c s where cs: "entry_line (k, v) = c # s" "c = (if k = [] then CHR ''='' else hd k)"
    by (cases k) (auto simp: entry_line_def)
  moreover have "char_byte c < 0x80" "[char_byte c] \<notin> set white_space" "c \<noteq> CHR ''#''" "c \<noteq> CHR ''!''"
    using assms cs(2) by (auto simp: key_ok_def white_space_def char_byte_def split: if_splits)
  ultimately show ?thesis
    using str_trim_Cons [of c s] by (auto simp: is_comment_def Let_def starts_with_def)
qed

lemma fold_put_entry:
  "\<forall>kv \<in> set m. key_ok (fst kv) \<and> value_ok (snd kv) \<Longrightarrow> fold put_entry (map entry_line m) r = ext_extend r m"
proof (induction m arbitrary: r)
  case Nil
  then show ?case by (simp add: ext_extend_def)
next
  case (Cons kv m)
  then show ?case
    by (cases kv) (simp add: put_entry_def entry_line_not_comment split_entry_line ext_extend_def)
qed

lemma properties_to_string_lines:
  "properties_to_string m s = concat (map (\<lambda>kv. entry_line kv @ [CHR 0x0A]) (if s then sort_key fst m else m))"
proof -
  have "fold (\<lambda>(k, v) buf. buf @ k @ ''='' @ v @ [CHR 0x0A]) m b =
      b @ concat (map (\<lambda>kv. entry_line kv @ [CHR 0x0A]) m)" for m b
    by (induction m arbitrary: b) (auto simp: entry_line_def)
  then show ?thesis by (simp add: properties_to_string_def)
qed

lemma text_ok_sorted: "text_ok m \<Longrightarrow> text_ok (sort_key fst m)"
  by (simp add: text_ok_def ext_inv_def distinct_map inj_on_def)

lemma string_to_properties_to_string:
  assumes "text_ok m"
  shows "string_to_properties (properties_to_string m s) = (if s then sort_key fst m else m)"
proof -
  define n where "n = (if s then sort_key fst m else m)"
  have n: "text_ok n"
    using assms text_ok_sorted by (simp add: n_def)
  have "\<forall>kv \<in> set n. CHR 0x0A \<notin> set (entry_line kv)"
    using n by (auto simp: text_ok_def key_ok_def value_ok_def entry_line_def)
  moreover have "\<forall>l \<in> set (map entry_line n @ [[]]). l = [] \<or> List.last l \<noteq> CHR 0x0D \<and> List.last l \<noteq> CHR 0x5C"
    using n entry_line_ends by (auto simp: text_ok_def)
  ultimately have "logical_lines (str_split (CHR 0x0A) (properties_to_string m s)) None = map entry_line n @ [[]]"
    using str_split_lines [of n "CHR 0x0A" entry_line] logical_lines_id
    by (simp add: properties_to_string_lines n_def comp_def)
  moreover have "put_entry [] r = r" for r
    by (simp add: put_entry_def is_comment_def str_trim_id)
  ultimately show ?thesis
    using n fold_put_entry [of n ext_new]
    by (simp add: string_to_properties_def text_ok_def ext_extend_new n_def)
qed

section \<open>Properties\<close>

text \<open>
  A properties text is read back as the map it was printed from, in the order it was printed in, for all the
  entries that the text form can carry.
\<close>
theorem properties_file_round_trip:
  "text_ok m \<Longrightarrow> string_to_properties (properties_to_string m s) = (if s then sort_key fst m else m)"
  by (rule string_to_properties_to_string)

theorem properties_file_round_trip_witness:
  "string_to_properties (properties_to_string [(''b'', ''x = y''), (''a'', [])] True) =
     [(''a'', []), (''b'', ''x = y'')]"
proof -
  have "text_ok [(''b'', ''x = y''), (''a'', [])]"
    by code_simp
  from properties_file_round_trip [OF this, of True] show ?thesis by simp
qed

end
