(* ===== verification/Message_Batch.thy ===== *)
theory Message_Batch
  imports Message_Decoder Mix_All
begin

text \<open>
  Batches: the 6-field record and its loops (\<open>src/rust/src/common/message_decoder.rs\<close>), the batch that a
  producer builds (\<open>MessageBatch::generate_from_list\<close> of \<open>src/rust/src/common/message.rs\<close>) and the unwrapping
  of an inner batch on the consumer side. Offsets of unwrapped members wrap at 64 bits, as in a release
  build.
\<close>

section \<open>The 6-field record\<close>

definition encode_message :: "message \<Rightarrow> bytes" where
  "encode_message msg =
     (let body = get_body msg;
          properties_bytes = str_bytes (message_properties_2_string (m_properties msg));
          properties_length = length properties_bytes;
          store_size = 4 + 4 + 4 + 4 + 4 + length body + 2 + properties_length
      in w_buf (write_seq
        [writer_i32 (of_nat store_size), writer_i32 0, writer_i32 0, writer_i32 (m_flag msg),
         writer_i32 (of_nat (length body)), writer_bytes body,
         writer_u16 (of_nat properties_length), writer_bytes properties_bytes] writer_new))"

definition encode_messages :: "message list \<Rightarrow> bytes" where
  "encode_messages msgs = w_buf (fold (\<lambda>msg. writer_bytes (encode_message msg)) msgs writer_new)"

definition reader_batch_message :: "message reader_m" where
  "reader_batch_message =
     r_bind reader_i32 (\<lambda>_.
     r_bind reader_i32 (\<lambda>_.
     r_bind reader_i32 (\<lambda>_.
     r_bind reader_i32 (\<lambda>flag.
     r_bind reader_i32 (\<lambda>body_len.
     r_bind (reader_bytes (as_usize (if body_len <s 0 then 0 else body_len))) (\<lambda>body.
     r_bind reader_u16 (\<lambda>properties_len.
     r_bind (reader_bytes (unat properties_len)) (\<lambda>properties_bytes.
     r_bind (r_lift (string_2_message_properties (from_utf8_lossy properties_bytes))) (\<lambda>properties.
     r_return ((message_new [] (Some body))\<lparr>m_flag := flag, m_properties := properties\<rparr>))))))))))"

definition decode_batch_message :: "bytes \<Rightarrow> message result" where
  "decode_batch_message raw = run_reader reader_batch_message raw"

definition decode_batch_messages :: "bytes \<Rightarrow> message list" where
  "decode_batch_messages raw = decode_frames decode_batch_message raw"

definition decode_inner_batch_members :: "bytes \<Rightarrow> message list result" where
  "decode_inner_batch_members raw = decode_all_frames decode_batch_message raw"

section \<open>Unwrapping\<close>

definition unwrap_member :: "message_ext \<Rightarrow> nat \<Rightarrow> message \<Rightarrow> message_ext" where
  "unwrap_member envelope i member =
     (let ext = message_ext_new\<lparr>m_topic := m_topic envelope,
            x_queue_offset := x_queue_offset envelope + of_nat i,
            x_queue_id := x_queue_id envelope, m_flag := m_flag member,
            m_properties := m_properties member, m_body := Some (get_body member),
            x_store_host := x_store_host envelope, x_store_host_port := x_store_host_port envelope,
            x_born_host := x_born_host envelope, x_born_host_port := x_born_host_port envelope,
            x_born_timestamp := x_born_timestamp envelope,
            x_store_timestamp := x_store_timestamp envelope, x_sys_flag := x_sys_flag envelope,
            x_commit_log_offset := x_commit_log_offset envelope,
            x_broker_name := x_broker_name envelope\<rparr>;
          ext = (case get_wait_store_msg_ok envelope of None \<Rightarrow> ext
             | Some ok \<Rightarrow> put_property PROPERTY_WAIT_STORE_MSG_OK ok ext)
      in ext\<lparr>x_msg_id := get_property ext PROPERTY_UNIQ_CLIENT_MESSAGE_ID_KEYIDX\<rparr>)"

definition inner_batch_flagged :: "message_ext \<Rightarrow> bool" where
  "inner_batch_flagged envelope \<longleftrightarrow>
     x_sys_flag envelope AND INNER_BATCH_FLAG \<noteq> 0 \<and> x_sys_flag envelope AND NEED_UNWRAP_FLAG \<noteq> 0"

definition unwrap_envelope :: "message_ext \<Rightarrow> message_ext list" where
  "unwrap_envelope envelope =
     (if \<not> inner_batch_flagged envelope then [envelope]
      else (case bind_result (ok_or (m_body envelope) (Decode ''inner batch has no body''))
                   decode_inner_batch_members of
              Inl _ \<Rightarrow> [envelope]
            | Inr members \<Rightarrow> if members = [] then [envelope]
                           else map2 (unwrap_member envelope) [0..<length members] members))"

definition unwrap_inner_batch :: "message_ext list \<Rightarrow> message_ext list" where
  "unwrap_inner_batch messages = fold (\<lambda>envelope out. out @ unwrap_envelope envelope) messages []"

section \<open>Building a batch\<close>


definition scheduled_delivery_requested :: "message \<Rightarrow> bool" where
  "scheduled_delivery_requested msg =
     (let delay_level = (case get_delay_time_level msg of None \<Rightarrow> 0
            | Some raw \<Rightarrow> (case parse_i64 (str_trim raw) of Some n \<Rightarrow> n | None \<Rightarrow> 0))
      in 0 <s delay_level \<or> 0 <s get_delay_time_sec msg \<or> 0 <s get_delay_time_ms msg
         \<or> 0 <s get_deliver_time_ms msg)"

record message_batch =
  b_message :: message
  b_messages :: "message list"

fun check_members :: "message list \<Rightarrow> unit result" where
  "check_members [] = Inr ()"
| "check_members (msg # msgs) =
     (if scheduled_delivery_requested msg
      then fail (client_err ''Delayed messages are not supported for batching'')
      else if starts_with (m_topic msg) RETRY_GROUP_TOPIC_PREFIX
      then fail (client_err ''Retry Group is not supported for batching'')
      else check_members msgs)"

fun check_same :: "message \<Rightarrow> message list \<Rightarrow> unit result" where
  "check_same first [] = Inr ()"
| "check_same first (msg # msgs) =
     (if m_topic first \<noteq> m_topic msg
      then fail (client_err ''The topic of the messages in one batch should be the same'')
      else if get_wait_store_msg_ok first \<noteq> get_wait_store_msg_ok msg
      then fail (client_err ''The waitStoreMsgOK of the messages in one batch should be the same'')
      else check_same first msgs)"

definition generate_from_list :: "message list \<Rightarrow> message_batch result" where
  "generate_from_list messages =
     (case messages of
        [] \<Rightarrow> fail (client_err ''messages must not be null or empty'')
      | first # rest \<Rightarrow>
          bind_result (check_members messages) (\<lambda>_.
          bind_result (check_same first rest) (\<lambda>_.
          let wait_store_msg_ok = is_wait_store_msg_ok first;
              outer = message_default\<lparr>m_topic := m_topic first\<rparr>;
              outer = set_wait_store_msg_ok wait_store_msg_ok outer;
              outer = set_body (Some (encode_messages messages)) outer
          in Inr \<lparr>b_message = outer, b_messages = messages\<rparr>)))"

section \<open>The record satisfies the frame contract\<close>

definition batch_view :: "message \<Rightarrow> message" where
  "batch_view msg = \<lparr>m_topic = [], m_flag = m_flag msg, m_body = Some (get_body msg),
     m_properties = carried (m_properties msg), m_transaction_id = None\<rparr>"

definition batchable :: "message \<Rightarrow> bool" where
  "batchable msg \<longleftrightarrow> properties_ok (m_properties msg)
     \<and> length (message_properties_2_string (m_properties msg)) < 2 ^ 16
     \<and> length (get_body msg) + length (message_properties_2_string (m_properties msg)) + 22 < 2 ^ 31"

lemma encode_message_bytes:
  "encode_message msg =
     to_be_bytes (of_nat (length (encode_message msg)) :: i32) @ to_be_bytes (0 :: i32)
       @ to_be_bytes (0 :: i32) @ to_be_bytes (m_flag msg)
       @ to_be_bytes (of_nat (length (get_body msg)) :: i32) @ get_body msg
       @ to_be_bytes (of_nat (length (message_properties_2_string (m_properties msg))) :: u16)
       @ str_bytes (message_properties_2_string (m_properties msg))"
  by (simp add: encode_message_def Let_def writer_new_def ucast_of_nat_16 ac_simps)

lemma length_encode_message:
  "length (encode_message msg) =
     length (get_body msg) + length (message_properties_2_string (m_properties msg)) + 22"
  by (simp add: encode_message_def Let_def writer_new_def)

lemma encode_messages_concat: "encode_messages msgs = concat (map encode_message msgs)"
proof -
  have "w_buf (fold (\<lambda>msg. writer_bytes (encode_message msg)) msgs w) =
      w_buf w @ concat (map encode_message msgs)" for w
    by (induction msgs arbitrary: w) simp_all
  then show ?thesis by (simp add: encode_messages_def writer_new_def)
qed

lemma decode_encode_message:
  assumes "batchable msg"
  shows "decode_batch_message (encode_message msg) = Inr (batch_view msg)"
proof -
  let ?s = "message_properties_2_string (m_properties msg)" and ?b = "get_body msg"
  have n: "unat (of_nat (length ?s) :: u16) = length ?s"
    using assms by (simp add: batchable_def unat_of_nat)
  have b: "\<not> (of_nat (length ?b) :: i32) <s 0" "as_usize (of_nat (length ?b) :: i32) = length ?b"
    using assms by (simp_all add: batchable_def not_sless_0_of_nat as_usize_of_nat)
  have "from_utf8_lossy (str_bytes ?s) = ?s"
    using assms
    by (simp add: batchable_def properties_ok_def message_properties_2_string_concat
        is_str_properties)
  moreover have "string_2_message_properties ?s = Inr (carried (m_properties msg))"
    using assms by (simp add: batchable_def string_2_message_properties_2_string)
  moreover have "r_bind (reader_take (length ?s)) f (rd_at pre (str_bytes ?s)) =
      f (str_bytes ?s) (rd_at (pre @ str_bytes ?s) [])" for f :: "bytes \<Rightarrow> message reader_m" and pre
    using r_bind_take [of "str_bytes ?s" "length ?s" f pre "[]"] by simp
  ultimately show ?thesis
    unfolding decode_batch_message_def run_reader_at
    by (subst encode_message_bytes)
      (simp add: reader_batch_message_def fi32.bind_dec_enc fu16.bind_dec_enc reader_bytes_def
        r_bind_take r_bind_lift n b batch_view_def message_new_def)
qed

interpretation batch: framed encode_message decode_batch_message batch_view batchable
proof
  fix msg
  assume ok: "batchable msg"
  then show "decode_batch_message (encode_message msg) = Inr (batch_view msg)"
    by (rule decode_encode_message)
  show "\<exists>body. encode_message msg = to_be_bytes (of_nat (length (encode_message msg)) :: i32) @ body"
    using encode_message_bytes by metis
  show "length (encode_message msg) < 2 ^ 31"
    using ok by (simp add: batchable_def length_encode_message)
qed

section \<open>Batches end to end\<close>

lemma unwrap_inner_batch_concat: "unwrap_inner_batch xs = concat (map unwrap_envelope xs)"
proof -
  have "fold (\<lambda>e out. out @ unwrap_envelope e) xs acc = acc @ concat (map unwrap_envelope xs)" for acc
    by (induction xs arbitrary: acc) simp_all
  then show ?thesis by (simp add: unwrap_inner_batch_def)
qed

lemma unwrap_encoded:
  assumes "inner_batch_flagged e" and "m_body e = Some (encode_messages msgs)"
    and "list_all batchable msgs" and "msgs \<noteq> []"
  shows "unwrap_envelope e =
    map2 (unwrap_member e) [0..<length msgs] (map batch_view msgs)"
  using assms batch.decode_all_frames_all [of msgs]
  by (simp add: unwrap_envelope_def decode_inner_batch_members_def encode_messages_concat)

lemma check_members_ok:
  "check_members msgs = Inr () \<longleftrightarrow>
     (\<forall>m \<in> set msgs. \<not> scheduled_delivery_requested m
        \<and> \<not> starts_with (m_topic m) RETRY_GROUP_TOPIC_PREFIX)"
  by (induction msgs) auto

lemma check_same_ok:
  "check_same first msgs = Inr () \<longleftrightarrow>
     (\<forall>m \<in> set msgs. m_topic m = m_topic first
        \<and> get_wait_store_msg_ok m = get_wait_store_msg_ok first)"
  by (induction msgs) auto

lemma generate_from_list_Inr:
  "generate_from_list msgs = Inr b \<longleftrightarrow>
     msgs \<noteq> [] \<and> (\<forall>m \<in> set msgs. \<not> scheduled_delivery_requested m
       \<and> \<not> starts_with (m_topic m) RETRY_GROUP_TOPIC_PREFIX
       \<and> m_topic m = m_topic (hd msgs)
       \<and> get_wait_store_msg_ok m = get_wait_store_msg_ok (hd msgs))
     \<and> b = \<lparr>b_message = \<lparr>m_topic = m_topic (hd msgs), m_flag = 0,
                m_body = Some (encode_messages msgs),
                m_properties = [(PROPERTY_WAIT_STORE_MSG_OK,
                  if is_wait_store_msg_ok (hd msgs) then ''true'' else ''false'')],
                m_transaction_id = None\<rparr>,
            b_messages = msgs\<rparr>"
proof (cases msgs)
  case Nil
  then show ?thesis by (simp add: generate_from_list_def)
next
  case (Cons first rest)
  then show ?thesis
    by (auto simp: generate_from_list_def bind_result_Inr check_members_ok [simplified]
        check_same_ok [simplified] Let_def message_default_def set_wait_store_msg_ok_def
        put_property_def set_body_def ext_new_def split: if_splits)
qed

section \<open>Properties\<close>

text \<open>
  C10. The body of a batch that \<open>generate_from_list\<close> accepts decodes back to its members, in order: flag,
  body and every property with a name and a value.
\<close>
theorem batch_body_round_trip:
  assumes "generate_from_list msgs = Inr b" and "list_all batchable msgs"
  shows "decode_batch_messages (get_body (b_message b)) = map batch_view (b_messages b)"
proof -
  have "get_body (b_message b) = concat (map encode_message msgs)" "b_messages b = msgs"
    using generate_from_list_Inr [THEN iffD1, OF assms(1), THEN conjunct2, THEN conjunct2]
    by (simp_all add: get_body_def encode_messages_concat)
  then show ?thesis
    using batch.decode_frames_all [OF assms(2)] by (simp add: decode_batch_messages_def)
qed

definition sample_member :: message where
  "sample_member = (message_new ''T'' (Some [1]))\<lparr>m_properties := [(''K'', ''a'')], m_flag := 2\<rparr>"

definition sample_members :: "message list" where
  "sample_members = [sample_member, sample_member]"

lemma sample_members_batchable: "list_all batchable sample_members"
proof -
  have "properties_ok (m_properties sample_member)"
    "length (message_properties_2_string (m_properties sample_member)) = 4"
    "length (get_body sample_member) = 1"
    by code_simp+
  then show ?thesis
    by (simp add: batchable_def sample_members_def)
qed

lemma sample_members_accepted: "\<not> isl (generate_from_list sample_members)"
  by code_simp

theorem batch_body_round_trip_witness:
  "list_all batchable sample_members \<and> map m_flag
     (decode_batch_messages (get_body (b_message (projr (generate_from_list sample_members))))) = [2, 2]"
proof -
  have "generate_from_list sample_members = Inr (projr (generate_from_list sample_members))"
    using sample_members_accepted by (auto simp: isl_def)
  moreover have "map (\<lambda>m. m_flag (batch_view m))
      (b_messages (projr (generate_from_list sample_members))) = [2, 2]"
    by code_simp
  ultimately show ?thesis
    using batch_body_round_trip [OF _ sample_members_batchable] sample_members_batchable
    by (simp add: comp_def)
qed

text \<open>
  C25. \<open>generate_from_list\<close> accepts exactly the non-empty lists whose members ask for no delayed delivery, are
  not addressed to a retry topic, and agree with the first on topic and wait flag; the batch then has that
  topic, the members unchanged, and their records as its body.
\<close>
theorem generate_from_list_accepts:
  "(\<exists>b. generate_from_list msgs = Inr b) \<longleftrightarrow>
     (msgs \<noteq> [] \<and> list_all (\<lambda>m. \<not> scheduled_delivery_requested m
       \<and> \<not> starts_with (m_topic m) RETRY_GROUP_TOPIC_PREFIX
       \<and> m_topic m = m_topic (hd msgs)
       \<and> get_wait_store_msg_ok m = get_wait_store_msg_ok (hd msgs)) msgs)"
  by (simp add: generate_from_list_Inr list_all_iff)

text \<open>
  What unwrapping is to do with one message, without reference to the code. Bits 6 and 7 of the system flag ask for it.
  The body then is a sequence of records; member \<open>i\<close> takes its content from record \<open>i\<close> and its place from the envelope,
  \<open>i\<close> offsets further on. A body that is missing, empty, or ends in something that is not a record leaves the message alone.
\<close>

definition member_of :: "message_ext \<Rightarrow> nat \<Rightarrow> message \<Rightarrow> message_ext \<Rightarrow> bool" where
  "member_of e i m p \<longleftrightarrow>
     m_flag p = m_flag m \<and> m_body p = Some (get_body m)
     \<and> get_property p = (case get_property e PROPERTY_WAIT_STORE_MSG_OK of
          None \<Rightarrow> ext_get (carried (m_properties m))
        | Some ok \<Rightarrow> (ext_get (carried (m_properties m)))(PROPERTY_WAIT_STORE_MSG_OK \<mapsto> ok))
     \<and> x_msg_id p = get_property p PROPERTY_UNIQ_CLIENT_MESSAGE_ID_KEYIDX
     \<and> x_queue_offset p = x_queue_offset e + of_nat i
     \<and> m_topic p = m_topic e \<and> x_broker_name p = x_broker_name e \<and> x_queue_id p = x_queue_id e
     \<and> x_sys_flag p = x_sys_flag e \<and> x_commit_log_offset p = x_commit_log_offset e
     \<and> (x_born_host p, x_born_host_port p, x_born_timestamp p) = (x_born_host e, x_born_host_port e, x_born_timestamp e)
     \<and> (x_store_host p, x_store_host_port p, x_store_timestamp p)
         = (x_store_host e, x_store_host_port e, x_store_timestamp e)"

definition not_a_record :: "bytes \<Rightarrow> bool" where
  "not_a_record junk \<longleftrightarrow> junk \<noteq> [] \<and> (length junk < 4 \<or> sint (from_be_bytes (take 4 junk) :: i32) \<le> 0
     \<or> int (length junk) < sint (from_be_bytes (take 4 junk) :: i32))"

definition unwraps_to :: "message_ext \<Rightarrow> message_ext list \<Rightarrow> bool" where
  "unwraps_to e part \<longleftrightarrow>
     (if bit (x_sys_flag e) 6 \<and> bit (x_sys_flag e) 7 then
        (m_body e \<in> {None, Some []} \<longrightarrow> part = [e])
        \<and> (\<forall>msgs. list_all batchable msgs \<and> msgs \<noteq> [] \<and> m_body e = Some (concat (map encode_message msgs)) \<longrightarrow>
             length part = length msgs \<and> (\<forall>i < length msgs. member_of e i (msgs ! i) (part ! i)))
        \<and> (\<forall>msgs junk. list_all batchable msgs \<and> not_a_record junk
             \<and> m_body e = Some (concat (map encode_message msgs) @ junk) \<longrightarrow> part = [e])
      else part = [e])"

lemma unwraps_toD:
  assumes "unwraps_to e part" and "bit (x_sys_flag e) 6" and "bit (x_sys_flag e) 7"
    and "m_body e = Some (concat (map encode_message msgs))" and "list_all batchable msgs" and "msgs \<noteq> []"
  shows "length part = length msgs \<and> (\<forall>i < length msgs. member_of e i (msgs ! i) (part ! i))"
proof -
  note parts = assms(1) [unfolded unwraps_to_def if_P [OF conjI [OF assms(2,3)]]]
  show ?thesis
    using parts [THEN conjunct2, THEN conjunct1, THEN spec, of msgs] assms(4-6) by blast
qed

lemma flagged_bits: "inner_batch_flagged e \<longleftrightarrow> bit (x_sys_flag e) 6 \<and> bit (x_sys_flag e) 7"
proof -
  have eq: "x AND push_bit n 1 \<noteq> 0 \<longleftrightarrow> bit x n" for x :: i32 and n
    by (simp only: bit_iff_and_push_bit_not_eq_0)
  show ?thesis
    unfolding inner_batch_flagged_def INNER_BATCH_FLAG_def NEED_UNWRAP_FLAG_def eq by (rule conj_commute)
qed

lemma unwrap_member_of:
  assumes "batchable m"
  shows "member_of e i m (unwrap_member e i (batch_view m))"
proof -
  have "ext_inv (carried (m_properties m))"
    using assms by (simp add: batchable_def properties_ok_def ext_inv_carried)
  then show ?thesis
    by (cases "get_property e PROPERTY_WAIT_STORE_MSG_OK")
      (simp_all add: member_of_def unwrap_member_def batch_view_def get_wait_store_msg_ok_def Let_def get_body_def
        get_property_def put_property_def ext.get_ins fun_eq_iff)
qed

lemma broken_tail:
  assumes "not_a_record junk"
  shows "\<exists>f. decode_all_frames decode_batch_message junk = Inl f"
proof (cases "length junk < 4")
  case True
  then show ?thesis
    using assms by (subst decode_all_frames.simps) (simp add: not_a_record_def)
next
  case False
  then have "length (take 4 junk) = 4"
    by simp
  then have "[junk ! 0, junk ! 1, junk ! 2, junk ! 3] = take 4 junk"
    using list4 [of "take 4 junk"] by simp
  then have size: "frame_size junk = from_be_bytes (take 4 junk)"
    by (simp add: frame_size_def)
  then have "bad_size (frame_size junk) junk"
    using assms False by (auto simp: bad_size_def not_a_record_def word_sle_eq as_usize_nonneg)
  then show ?thesis
    using assms False by (subst decode_all_frames.simps) (simp add: not_a_record_def Let_def)
qed

lemma unwrap_envelope_spec: "unwraps_to e (unwrap_envelope e)"
proof (cases "inner_batch_flagged e")
  case False
  then show ?thesis
    using flagged_bits by (auto simp: unwraps_to_def unwrap_envelope_def)
next
  case True
  have bits: "bit (x_sys_flag e) 6 \<and> bit (x_sys_flag e) 7"
    using True by (simp only: flagged_bits)
  have "unwrap_envelope e = [e]" if "m_body e \<in> {None, Some []}"
    using that True by (auto simp: unwrap_envelope_def decode_inner_batch_members_def
        decode_all_frames.simps [of decode_batch_message "[]"])
  moreover have "length (unwrap_envelope e) = length msgs
      \<and> (\<forall>i < length msgs. member_of e i (msgs ! i) (unwrap_envelope e ! i))"
    if "list_all batchable msgs" "msgs \<noteq> []" "m_body e = Some (concat (map encode_message msgs))" for msgs
    using that unwrap_encoded [OF True, of msgs]
    by (simp add: encode_messages_concat list_all_length unwrap_member_of)
  moreover have "unwrap_envelope e = [e]"
    if "list_all batchable msgs" "not_a_record junk" "m_body e = Some (concat (map encode_message msgs) @ junk)" for msgs junk
    using that True broken_tail [OF that(2)] batch.decode_all_frames_concat [OF that(1), of junk]
    by (auto simp: unwrap_envelope_def decode_inner_batch_members_def)
  ultimately show ?thesis
    unfolding unwraps_to_def if_P [OF bits] by blast
qed

text \<open>
  C16. Unwrapping replaces every message of a pulled list, in place, by what \<open>unwraps_to\<close> asks for: an inner batch by one
  message per record of its body, in order and at consecutive queue offsets; a message without both flags, and a batch whose
  body is missing, empty or does not decode to its end, by itself.
\<close>
theorem unwrap_inner_batch_members:
  "\<exists>parts. list_all2 unwraps_to xs parts \<and> unwrap_inner_batch xs = concat parts"
proof (intro exI conjI)
  show "list_all2 unwraps_to xs (map unwrap_envelope xs)"
    by (simp add: list_all2_conv_all_nth unwrap_envelope_spec)
  show "unwrap_inner_batch xs = concat (map unwrap_envelope xs)"
    by (rule unwrap_inner_batch_concat)
qed

definition sample_envelope :: message_ext where
  "sample_envelope = message_ext_new\<lparr>m_topic := ''T'', m_body := Some (encode_messages sample_members),
     x_sys_flag := 0xC0, x_queue_offset := 5\<rparr>"

theorem unwrap_inner_batch_members_witness:
  "map x_queue_offset (unwrap_inner_batch [sample_envelope, sample_envelope\<lparr>m_body := None\<rparr>]) = [5, 6, 5]"
proof -
  obtain parts where parts: "list_all2 unwraps_to [sample_envelope, sample_envelope\<lparr>m_body := None\<rparr>] parts"
      "unwrap_inner_batch [sample_envelope, sample_envelope\<lparr>m_body := None\<rparr>] = concat parts"
    using unwrap_inner_batch_members by blast
  then obtain p q where pq: "parts = [p, q]" "unwraps_to sample_envelope p" "unwraps_to (sample_envelope\<lparr>m_body := None\<rparr>) q"
    by (auto simp: list_all2_Cons1)
  have bits: "bit (x_sys_flag sample_envelope) 6" "bit (x_sys_flag sample_envelope) 7"
    by code_simp+
  have "m_body sample_envelope = Some (concat (map encode_message sample_members))"
    by (simp add: sample_envelope_def encode_messages_concat)
  then have p: "length p = 2" "\<forall>i < 2. member_of sample_envelope i (sample_members ! i) (p ! i)"
    using unwraps_toD [OF pq(2) bits _ sample_members_batchable] by (simp_all add: sample_members_def)
  have "x_queue_offset sample_envelope = 5"
    by (simp add: sample_envelope_def)
  then have "x_queue_offset (p ! 0) = 5" "x_queue_offset (p ! 1) = 6"
    using p(2) by (simp_all add: member_of_def)
  moreover have "q = [sample_envelope\<lparr>m_body := None\<rparr>]"
    using pq(3) bits by (simp add: unwraps_to_def)
  moreover obtain p0 p1 where "p = [p0, p1]"
    using p(1) by (auto simp: numeral_2_eq_2 length_Suc_conv)
  ultimately show ?thesis
    using parts(2) pq(1) \<open>x_queue_offset sample_envelope = 5\<close> by simp
qed

end
