(* ===== verification/Binary_Header.thy ===== *)
theory Binary_Header
  imports Buffer Ext_Fields Sys_Flag
begin

text \<open>
  The command record of \<open>src/rust/src/remoting/protocol/remoting_command.rs\<close> and the binary header format of
  \<open>src/rust/src/remoting/protocol/serialize.rs\<close> (\<open>RocketMQSerializable\<close> and the length word that carries the
  header format). A custom header is the object behind \<open>dyn CustomHeader\<close>, represented by its one method the
  encoder calls, \<open>to_ext_fields\<close>.
\<close>

section \<open>The command\<close>

record remoting_command =
  c_code :: i32
  c_language :: i32
  c_version :: i32
  c_opaque :: i32
  c_flag :: i32
  c_remark :: "string option"
  c_serialize_type :: i32
  c_body :: "bytes option"
  c_ext_fields :: ext_fields
  c_custom_header :: "(ext_fields \<Rightarrow> ext_fields) option"

section \<open>The length word\<close>

definition SERIALIZE_JSON :: i32 where "SERIALIZE_JSON = 0"
definition SERIALIZE_ROCKETMQ :: i32 where "SERIALIZE_ROCKETMQ = 1"

definition mark_protocol_type :: "i32 \<Rightarrow> i32 \<Rightarrow> i32" where
  "mark_protocol_type source stype = push_bit 24 (stype AND 0xFF) OR (source AND 0x00FFFFFF)"

text \<open>\<open>>>\<close> on \<open>i32\<close> is the arithmetic shift; the mask takes the copies of the sign bit away.\<close>

definition protocol_type_of :: "i32 \<Rightarrow> i32" where
  "protocol_type_of source = signed_drop_bit 24 source AND 0xFF"

definition header_length_of :: "i32 \<Rightarrow> i32" where
  "header_length_of source = source AND 0x00FFFFFF"

definition serialize_type_from_env :: "(string \<Rightarrow> string option) \<Rightarrow> i32" where
  "serialize_type_from_env env =
     (let raw = (case env ''ROCKETMQ_SERIALIZE_TYPE'' of Some v \<Rightarrow> v
                 | None \<Rightarrow> (case env ''rocketmq.serialize.type'' of Some v \<Rightarrow> v | None \<Rightarrow> []))
      in if eq_ignore_ascii_case (str_trim raw) ''ROCKETMQ'' then SERIALIZE_ROCKETMQ else SERIALIZE_JSON)"

section \<open>Extension fields in binary\<close>

definition map_serialize :: "ext_fields \<Rightarrow> bytes option" where
  "map_serialize m =
     (if m = [] then None
      else Some (w_buf (fold (\<lambda>(k, v) w. writer_string False (Some v) (writer_string True (Some k) w))
             m writer_new)))"

definition reader_entry :: "(string option \<times> string option) reader_m" where
  "reader_entry = r_bind (reader_string True) (\<lambda>k. r_bind (reader_string False) (\<lambda>v. r_return (k, v)))"

definition keep_entry :: "string option \<times> string option \<Rightarrow> ext_fields \<Rightarrow> ext_fields" where
  "keep_entry kv m = (case kv of (Some k, Some v) \<Rightarrow> ext_insert k v m | _ \<Rightarrow> m)"

lemma reader_take_advance: "reader_take n r = Inr (a, r') \<Longrightarrow> r_pos r' = r_pos r + n"
  by (auto simp: reader_take_def bind_result_Inr)

lemma reader_string_advance: "reader_string b r = Inr (s, r') \<Longrightarrow> r_pos r < r_pos r'"
  by (auto simp: reader_string_def r_bind_def r_return_def r_fail_def fixed_width_eqs
      reader_bytes_def split: if_splits sum.splits option.splits dest!: reader_take_advance)

lemma reader_entry_advance: "reader_entry r = Inr (kv, r') \<Longrightarrow> r_pos r < r_pos r'"
  by (auto simp: reader_entry_def r_bind_def r_return_def split: sum.splits dest!: reader_string_advance)

function deserialize_loop :: "bytes \<Rightarrow> nat \<Rightarrow> nat \<Rightarrow> ext_fields \<Rightarrow> (ext_fields \<times> nat) result" where
  "deserialize_loop buf stop offset m =
     (if offset < stop then
        (case reader_entry (reader_with_pos buf offset) of
           Inl e \<Rightarrow> Inl e
         | Inr (kv, r) \<Rightarrow> deserialize_loop buf stop (r_pos r) (keep_entry kv m))
      else Inr (m, offset))"
  by pat_completeness auto
termination
  by (relation "measure (\<lambda>(_, stop, offset, _). stop - offset)")
    (auto simp: reader_with_pos_def dest!: reader_entry_advance)

declare deserialize_loop.simps [simp del]

definition map_deserialize :: "bytes \<Rightarrow> nat \<Rightarrow> nat \<Rightarrow> (ext_fields \<times> nat) result" where
  "map_deserialize buf offset len =
     (let stop = offset + len in
      if length buf < stop
      then fail (Decode (''extFields length '' @ show_nat len @ '' overruns header buffer (''
             @ show_nat (length buf) @ '' bytes)''))
      else deserialize_loop buf stop offset ext_new)"

section \<open>The header\<close>

record rocket_mq_header =
  h_code :: i32
  h_language :: i32
  h_version :: i32
  h_opaque :: i32
  h_flag :: i32
  h_remark :: "string option"
  h_ext_fields :: ext_fields

definition cal_total_len :: "string option \<Rightarrow> bytes option \<Rightarrow> nat" where
  "cal_total_len remark ext =
     (let remark_len = (case remark of None \<Rightarrow> 0 | Some r \<Rightarrow> length (str_bytes r));
          ext_len = (case ext of None \<Rightarrow> 0 | Some e \<Rightarrow> length e)
      in 2 + 1 + 2 + 4 + 4 + 4 + remark_len + 4 + ext_len)"

text \<open>A length-prefixed block, or the length 0 alone.\<close>

definition writer_block :: "bytes option \<Rightarrow> writer \<Rightarrow> writer" where
  "writer_block b w = (case b of
     Some bs \<Rightarrow> writer_bytes bs (writer_i32 (of_nat (length bs)) w)
   | None \<Rightarrow> writer_i32 0 w)"

definition nonempty_str :: "string option \<Rightarrow> string option" where
  "nonempty_str s = (case s of Some r \<Rightarrow> if r = [] then None else Some r | None \<Rightarrow> None)"

definition rocket_mq_protocol_encode :: "remoting_command \<Rightarrow> bytes" where
  "rocket_mq_protocol_encode cmd =
     (let ext_bytes = map_serialize (c_ext_fields cmd) in
      w_buf (write_seq
        [writer_i16 (c_code cmd),
         writer_u8 (ucast (c_language cmd AND 0xFF)),
         writer_i16 (c_version cmd),
         writer_i32 (c_opaque cmd),
         writer_i32 (c_flag cmd),
         writer_block (map_option str_bytes (nonempty_str (c_remark cmd))),
         writer_block ext_bytes] writer_new))"

definition reader_ext :: "bytes \<Rightarrow> i32 \<Rightarrow> ext_fields reader_m" where
  "reader_ext header ext_len r = r_lift
     (if 0 <s ext_len
      then bind_result (map_deserialize header (r_pos r) (as_usize ext_len)) (\<lambda>(m, _). Inr m)
      else Inr ext_new) r"

definition reader_header :: "bytes \<Rightarrow> rocket_mq_header reader_m" where
  "reader_header header =
     r_bind reader_i16 (\<lambda>code.
     r_bind reader_u8 (\<lambda>language.
     r_bind reader_i16 (\<lambda>version.
     r_bind reader_i32 (\<lambda>opaque.
     r_bind reader_i32 (\<lambda>flag.
     r_bind (reader_string False) (\<lambda>remark.
     r_bind reader_i32 (\<lambda>ext_len.
     r_bind (reader_ext header ext_len) (\<lambda>ext_fields.
     r_return \<lparr>h_code = code, h_language = ucast language, h_version = version, h_opaque = opaque,
       h_flag = flag, h_remark = remark, h_ext_fields = ext_fields\<rparr>))))))))"

definition rocket_mq_protocol_decode :: "bytes \<Rightarrow> rocket_mq_header result" where
  "rocket_mq_protocol_decode header = run_reader (reader_header header) header"

section \<open>Reading back what was written\<close>

definition entry_bytes :: "string \<times> string \<Rightarrow> bytes" where
  "entry_bytes kv = string_field True (Some (fst kv)) @ string_field False (Some (snd kv))"

definition entry_ok :: "string \<times> string \<Rightarrow> bool" where
  "entry_ok kv \<longleftrightarrow> is_str (fst kv) \<and> is_str (snd kv) \<and> length (fst kv) < 2 ^ 16 \<and> length (snd kv) < 2 ^ 31"

lemma map_serialize_entries:
  "map_serialize m = (if m = [] then None else Some (concat (map entry_bytes m)))"
proof -
  have "w_buf (fold (\<lambda>(k, v) w. writer_string False (Some v) (writer_string True (Some k) w)) m w) =
      w_buf w @ concat (map entry_bytes m)" for w
    by (induction m arbitrary: w) (auto simp: entry_bytes_def)
  then show ?thesis by (simp add: map_serialize_def)
qed

lemma string_field_nonempty: "string_field b (nonempty_str s) = string_field b s"
  by (auto simp: nonempty_str_def string_field_def split: option.splits)

lemma string_ok_nonempty:
  "is_str s \<Longrightarrow> length s < (if b then 2 ^ 16 else 2 ^ 31) \<Longrightarrow> string_ok b (nonempty_str (Some s))"
  by (auto simp: string_ok_def nonempty_str_def)

lemma reader_entry_at:
  assumes "entry_ok kv"
  shows "reader_entry (rd_at pre (entry_bytes kv @ rest)) =
    Inr ((nonempty_str (Some (fst kv)), nonempty_str (Some (snd kv))), rd_at (pre @ entry_bytes kv) rest)"
proof -
  have "string_ok True (nonempty_str (Some (fst kv)))" "string_ok False (nonempty_str (Some (snd kv)))"
    using assms by (auto simp: entry_ok_def intro!: string_ok_nonempty)
  then show ?thesis
    unfolding reader_entry_def entry_bytes_def string_field_nonempty [symmetric, of _ "Some _"] append.assoc
    by (simp add: fstr.bind_dec_enc)
qed

lemma keep_entry_carried:
  "keep_entry (nonempty_str (Some (fst kv)), nonempty_str (Some (snd kv))) m = ext_extend m (carried [kv])"
  by (cases kv) (auto simp: keep_entry_def nonempty_str_def carried_def ext_extend_def)

lemma entry_bytes_length: "6 \<le> length (entry_bytes kv)"
  by (simp add: entry_bytes_def string_field_def Let_def)

lemma deserialize_entries:
  assumes "list_all entry_ok m"
  shows "deserialize_loop (pre @ concat (map entry_bytes m) @ rest)
      (length pre + length (concat (map entry_bytes m))) (length pre) acc =
    Inr (ext_extend acc (carried m), length pre + length (concat (map entry_bytes m)))"
  using assms
proof (induction m arbitrary: pre acc)
  case Nil
  then show ?case by (simp add: deserialize_loop.simps carried_def ext_extend_def)
next
  case (Cons kv m)
  let ?tail = "concat (map entry_bytes m) @ rest"
  have at: "reader_with_pos (pre @ entry_bytes kv @ ?tail) (length pre) = rd_at pre (entry_bytes kv @ ?tail)"
    by (simp add: reader_with_pos_at)
  have "0 < length (entry_bytes kv)"
    using entry_bytes_length [of kv] by linarith
  moreover have "ext_extend acc (carried (kv # m)) = ext_extend (ext_extend acc (carried [kv])) (carried m)"
    by (simp add: carried_def ext_extend_def)
  ultimately show ?case
    using Cons.prems Cons.IH [of "pre @ entry_bytes kv" "ext_extend acc (carried [kv])"]
    by (subst deserialize_loop.simps) (simp add: at reader_entry_at keep_entry_carried add.assoc)
qed

definition remark_ok :: "string option \<Rightarrow> bool" where
  "remark_ok s \<longleftrightarrow> (case s of None \<Rightarrow> True | Some r \<Rightarrow> is_str r \<and> length r < 2 ^ 31)"

definition header_ok :: "remoting_command \<Rightarrow> bool" where
  "header_ok cmd \<longleftrightarrow> remark_ok (c_remark cmd) \<and> ext_inv (c_ext_fields cmd)
     \<and> list_all entry_ok (c_ext_fields cmd) \<and> length (concat (map entry_bytes (c_ext_fields cmd))) < 2 ^ 31"

text \<open>What the format keeps of a command: 16 bits of the code and of the version, 8 of the language, a remark
  and extension fields that are not empty.\<close>

definition header_view :: "remoting_command \<Rightarrow> rocket_mq_header" where
  "header_view cmd = \<lparr>h_code = c_code cmd AND 0xFFFF, h_language = c_language cmd AND 0xFF,
     h_version = c_version cmd AND 0xFFFF, h_opaque = c_opaque cmd, h_flag = c_flag cmd,
     h_remark = nonempty_str (c_remark cmd), h_ext_fields = carried (c_ext_fields cmd)\<rparr>"

lemma writer_block_buf [simp]:
  "w_buf (writer_block (map_option str_bytes s) w) = w_buf w @ string_field False s"
  "w_buf (writer_block (map_serialize m) w) =
     w_buf w @ to_be_bytes (of_nat (length (concat (map entry_bytes m))) :: i32) @ concat (map entry_bytes m)"
  by (auto simp: writer_block_def string_field_def map_serialize_entries split: option.split)

lemma encode_bytes:
  "rocket_mq_protocol_encode cmd =
     to_be_bytes (ucast (c_code cmd) :: u16) @ [ucast (c_language cmd AND 0xFF)]
     @ to_be_bytes (ucast (c_version cmd) :: u16) @ to_be_bytes (c_opaque cmd) @ to_be_bytes (c_flag cmd)
     @ string_field False (nonempty_str (c_remark cmd))
     @ to_be_bytes (of_nat (length (concat (map entry_bytes (c_ext_fields cmd)))) :: i32)
     @ concat (map entry_bytes (c_ext_fields cmd))"
  by (simp add: rocket_mq_protocol_encode_def Let_def)

lemma u16_roundtrip: "(ucast (ucast (x :: i32) :: u16) :: i32) = x AND 0xFFFF"
proof -
  have "x AND 0xFFFF = take_bit 16 x"
    by (simp add: take_bit_eq_mask mask_eq_decr_exp)
  then show ?thesis
    by (simp only:) (rule bit_word_eqI, auto simp: bit_simps)
qed

lemma u8_roundtrip: "(ucast (ucast (x AND 0xFF :: i32) :: u8) :: i32) = x AND 0xFF"
proof -
  have "x AND 0xFF = take_bit 8 x"
    by (simp add: take_bit_eq_mask mask_eq_decr_exp)
  then show ?thesis
    by (simp only:) (rule bit_word_eqI, auto simp: bit_simps)
qed

lemma reader_i16_at:
  "r_bind reader_i16 f (rd_at pre (to_be_bytes (ucast (x :: i32) :: u16) @ rest)) =
     f (x AND 0xFFFF) (rd_at (pre @ to_be_bytes (ucast x :: u16)) rest)"
  by (simp add: reader_i16_def r_bind_assoc fu16.bind_dec_enc u16_roundtrip)

lemma reader_u8_at: "r_bind reader_u8 f (rd_at pre (x # rest)) = f x (rd_at (pre @ [x]) rest)"
  by (rule fu8.bind_dec_enc [simplified])

lemma reader_ext_at:
  assumes "header_ok cmd" and "ext = concat (map entry_bytes (c_ext_fields cmd))"
  shows "r_bind (reader_ext (pre @ ext) (of_nat (length ext))) f (rd_at pre ext) =
    f (carried (c_ext_fields cmd)) (rd_at pre ext)"
proof -
  have len: "length ext < 2 ^ 31" and ok: "list_all entry_ok (c_ext_fields cmd)"
    and inv: "ext_inv (c_ext_fields cmd)"
    using assms by (simp_all add: header_ok_def)
  have pos: "0 <s (of_nat (length ext) :: i32) \<longleftrightarrow> c_ext_fields cmd \<noteq> []"
    using entry_bytes_length [of "hd (c_ext_fields cmd)"] sint_of_nat_small [of "length ext", where ?'a = 32] len
    by (cases "c_ext_fields cmd") (simp_all add: word_sless_alt assms(2))
  have "bind_result (map_deserialize (pre @ ext) (length pre) (length ext)) (\<lambda>(m, _). Inr m) =
      Inr (carried (c_ext_fields cmd))"
    using deserialize_entries [OF ok, of pre "[]" ext_new] inv
    by (simp add: map_deserialize_def ext_extend_new ext_inv_carried assms(2))
  then have "reader_ext (pre @ ext) (of_nat (length ext)) (rd_at pre ext) =
      Inr (carried (c_ext_fields cmd), rd_at pre ext)"
    using len by (simp add: reader_ext_def pos as_usize_of_nat carried_def ext_new_def)
  then show ?thesis
    by (rule r_bind_simps)
qed

lemma protocol_decode_encode:
  assumes "header_ok cmd"
  shows "rocket_mq_protocol_decode (rocket_mq_protocol_encode cmd) = Inr (header_view cmd)"
proof -
  define ext where "ext = concat (map entry_bytes (c_ext_fields cmd))"
  define pre where "pre = to_be_bytes (ucast (c_code cmd) :: u16) @ [ucast (c_language cmd AND 0xFF)]
     @ to_be_bytes (ucast (c_version cmd) :: u16) @ to_be_bytes (c_opaque cmd) @ to_be_bytes (c_flag cmd)
     @ string_field False (nonempty_str (c_remark cmd)) @ to_be_bytes (of_nat (length ext) :: i32)"
  have remark: "string_ok False (nonempty_str (c_remark cmd))"
    using assms string_ok_nonempty [of _ False]
    by (cases "c_remark cmd") (auto simp: header_ok_def remark_ok_def string_ok_def nonempty_str_def)
  have enc: "rocket_mq_protocol_encode cmd = pre @ ext"
    by (simp add: encode_bytes pre_def ext_def)
  have "reader_header (pre @ ext) (rd_at [] (pre @ ext)) = Inr (header_view cmd, rd_at pre ext)"
    unfolding reader_header_def
    by (subst (2) pre_def, simp add: reader_i16_at reader_u8_at fi32.bind_dec_enc fstr.bind_dec_enc [OF remark])
      (simp add: pre_def [simplified, symmetric] reader_ext_at [OF assms ext_def] header_view_def u8_roundtrip)
  then show ?thesis
    by (simp add: rocket_mq_protocol_decode_def run_reader_at enc)
qed

lemma encode_length:
  "length (rocket_mq_protocol_encode cmd) = cal_total_len (c_remark cmd) (map_serialize (c_ext_fields cmd))"
proof -
  have "length (string_field False s) = 4 + (case s of None \<Rightarrow> 0 | Some r \<Rightarrow> length r)" for s
    by (auto simp: string_field_def Let_def split: option.split)
  then show ?thesis
    by (auto simp: encode_bytes cal_total_len_def map_serialize_entries Let_def string_field_nonempty
        split: option.split)
qed

section \<open>No header makes the decoder panic\<close>

lemma no_panic_deserialize [simp]: "no_panic (deserialize_loop buf stop offset m)"
proof (induction buf stop offset m rule: deserialize_loop.induct)
  case (1 buf stop offset m)
  have "safe_reader reader_entry"
    unfolding reader_entry_def by (intro safe_intros)
  then have "no_panic (reader_entry (reader_with_pos buf offset))"
    by (simp add: safe_reader_def)
  with 1 show ?case
    by (subst deserialize_loop.simps, cases "reader_entry (reader_with_pos buf offset)")
      (auto simp: no_panic_def split: failure.splits)
qed

lemma no_panic_map_deserialize [simp]: "no_panic (map_deserialize buf offset len)"
  by (simp add: map_deserialize_def Let_def)

lemma safe_reader_ext [safe_intros]: "safe_reader (reader_ext header n)"
proof -
  have "no_panic (bind_result (map_deserialize header p k) (\<lambda>(m, _). Inr m))" for p k
    by (rule no_panic_bind) auto
  then have "no_panic (r_lift (if 0 <s n then bind_result (map_deserialize header p k) (\<lambda>(m, _). Inr m)
      else Inr ext_new) r)" for p k r
    unfolding r_lift_def by (intro no_panic_bind) simp_all
  then show ?thesis
    by (simp add: safe_reader_def reader_ext_def)
qed

lemma protocol_decode_no_panic: "no_panic (rocket_mq_protocol_decode header)"
proof -
  have "safe_reader (reader_header header)"
    unfolding reader_header_def by (intro safe_intros)
  then show ?thesis
    by (auto simp: rocket_mq_protocol_decode_def run_reader_at safe_reader_def intro!: no_panic_bind)
qed

section \<open>The length word holds both parts\<close>

lemma byte_mask: "x AND 0xFF = take_bit 8 (x :: i32)" "x AND 0x00FFFFFF = take_bit 24 x"
  by (simp_all add: take_bit_eq_mask mask_eq_decr_exp)

lemma length_word:
  "protocol_type_of (mark_protocol_type n t) = t AND 0xFF"
  "header_length_of (mark_protocol_type n t) = n AND 0x00FFFFFF"
  unfolding protocol_type_of_def header_length_of_def mark_protocol_type_def byte_mask
  by (rule bit_word_eqI, auto simp: bit_simps min_def)+

lemma length_word_value: "n < 2 ^ 24 \<Longrightarrow> (of_nat n :: i32) AND 0x00FFFFFF = of_nat n"
proof -
  assume "n < 2 ^ 24"
  then have "take_bit 24 n = n"
    by (simp add: take_bit_nat_eq_self)
  then have "take_bit 24 (of_nat n :: i32) = of_nat n"
    by (metis of_nat_take_bit)
  then show ?thesis
    by (simp only: byte_mask)
qed

end
