(* ===== verification/Json_Value.thy ===== *)
theory Json_Value
  imports Ext_Fields
begin

text \<open>
  JSON values as \<open>serde_json\<close> with \<open>preserve_order\<close> represents them: objects keep the order in which
  their keys were first inserted, and a number is an unsigned or a negative 64-bit integer or an IEEE
  double. The double of a decimal text is its nearest one, ties to even.
\<close>

section \<open>Doubles\<close>

datatype f64 = F64 (f_neg: bool) (f_mant: nat) (f_exp: int)

fun bit_len :: "nat \<Rightarrow> nat" where
  "bit_len n = (if n = 0 then 0 else Suc (bit_len (n div 2)))"

declare bit_len.simps [simp del]

definition scale2 :: "nat \<Rightarrow> nat \<Rightarrow> int \<Rightarrow> nat \<times> nat" where
  "scale2 p q e = (if 0 \<le> e then (p, q * 2 ^ nat e) else (p * 2 ^ nat (- e), q))"

definition round_half_even :: "nat \<times> nat \<Rightarrow> nat" where
  "round_half_even r =
     (let p = fst r; q = snd r; d = p div q; rest = p mod q
      in if 2 * rest < q \<or> 2 * rest = q \<and> even d then d else d + 1)"

text \<open>The quotient \<open>p / q\<close> of positive numbers as a mantissa below \<open>2 ^ 53\<close> and a binary exponent of at
  least \<open>-1074\<close>.\<close>

definition f64_of_ratio :: "bool \<Rightarrow> nat \<Rightarrow> nat \<Rightarrow> f64" where
  "f64_of_ratio neg p q =
     (if p = 0 then F64 neg 0 0
      else let e0 = int (bit_len p) - int (bit_len q) - 53;
               (a, b) = scale2 p q e0;
               e = max (- 1074) (if b * 2 ^ 53 \<le> a then e0 + 1 else e0);
               m = round_half_even (scale2 p q e)
           in if m = 2 ^ 53 then F64 neg (2 ^ 52) (e + 1) else F64 neg m e)"

definition f64_finite :: "f64 \<Rightarrow> bool" where
  "f64_finite v \<longleftrightarrow> int (bit_len (f_mant v)) + f_exp v \<le> 1024"

text \<open>\<open>v as i32\<close>: truncated and saturated.\<close>

definition f64_as_i32 :: "f64 \<Rightarrow> i32" where
  "f64_as_i32 v =
     (let t = (if 0 \<le> f_exp v then int (f_mant v) * 2 ^ nat (f_exp v)
               else int (f_mant v div 2 ^ nat (- f_exp v)));
          t = (if f_neg v then - t else t)
      in word_of_int (max (- (2 ^ 31)) (min (2 ^ 31 - 1) t)))"

section \<open>Values\<close>

datatype number = PosInt u64 | NegInt i64 | Float f64

datatype json =
    JNull
  | JBool bool
  | JNumber number
  | JString string
  | JArray "json list"
  | JObject "(string \<times> json) list"

type_synonym json_map = "(string \<times> json) list"

definition number_of_i64 :: "i64 \<Rightarrow> number" where
  "number_of_i64 v = (if v <s 0 then NegInt v else PosInt v)"

fun json_insert :: "string \<Rightarrow> json \<Rightarrow> json_map \<Rightarrow> json_map" where
  "json_insert key value [] = [(key, value)]"
| "json_insert key value ((k, v) # m) =
     (if k = key then (k, value) # m else (k, v) # json_insert key value m)"

fun json_get :: "json \<Rightarrow> string \<Rightarrow> json option" where
  "json_get (JObject m) key = map_of m key"
| "json_get _ key = None"

fun json_as_str :: "json \<Rightarrow> string option" where
  "json_as_str (JString s) = Some s"
| "json_as_str _ = None"

fun number_as_i64 :: "number \<Rightarrow> i64 option" where
  "number_as_i64 (PosInt n) = (if unat n < 2 ^ 63 then Some n else None)"
| "number_as_i64 (NegInt n) = Some n"
| "number_as_i64 (Float _) = None"

text \<open>\<open>as_f64\<close> of an integer is the nearest double.\<close>

fun number_as_f64 :: "number \<Rightarrow> f64" where
  "number_as_f64 (PosInt n) = f64_of_ratio False (unat n) 1"
| "number_as_f64 (NegInt n) = f64_of_ratio True (nat (- sint n)) 1"
| "number_as_f64 (Float v) = v"

lemma json_insert_fresh: "k \<notin> fst ` set m \<Longrightarrow> json_insert k v m = m @ [(k, v)]"
  by (induction m) auto

section \<open>Extension fields as JSON\<close>

text \<open>\<open>to_string\<close> of a value that is not a string is the printer of \<open>serde_json\<close>, a parameter.\<close>

definition ext_to_json :: "ext_fields \<Rightarrow> json" where
  "ext_to_json m = JObject (fold (\<lambda>(k, v). json_insert k (JString v)) m [])"

definition ext_from_json :: "(json \<Rightarrow> string) \<Rightarrow> json \<Rightarrow> ext_fields" where
  "ext_from_json to_string value = (case value of
     JObject m \<Rightarrow> fold (\<lambda>(k, v) out. case v of
         JString s \<Rightarrow> ext_insert k s out
       | JNull \<Rightarrow> out
       | other \<Rightarrow> ext_insert k (to_string other) out) m ext_new
   | _ \<Rightarrow> ext_new)"

lemma ext_to_json_entries:
  assumes "ext_inv m"
  shows "ext_to_json m = JObject (map (\<lambda>(k, v). (k, JString v)) m)"
proof -
  have "fold (\<lambda>(k, v). json_insert k (JString v)) m acc = acc @ map (\<lambda>(k, v). (k, JString v)) m"
    if "distinct (map fst m)" "fst ` set acc \<inter> fst ` set m = {}" for acc
    using that
  proof (induction m arbitrary: acc)
    case Nil
    then show ?case by simp
  next
    case (Cons kv m)
    obtain k v where kv: "kv = (k, v)"
      by fastforce
    have "json_insert k (JString v) acc = acc @ [(k, JString v)]"
      using Cons.prems kv by (intro json_insert_fresh) auto
    moreover have "fst ` set (acc @ [(k, JString v)]) \<inter> fst ` set m = {}"
      using Cons.prems kv by auto
    ultimately show ?case
      using Cons.IH [of "acc @ [(k, JString v)]"] Cons.prems kv by simp
  qed
  then show ?thesis
    using assms by (simp add: ext_to_json_def ext_inv_def)
qed

lemma ext_from_to_json:
  assumes "ext_inv m"
  shows "ext_from_json to_string (ext_to_json m) = m"
proof -
  have "fold (\<lambda>(k, v) out. case v of JString s \<Rightarrow> ext_insert k s out | JNull \<Rightarrow> out
      | other \<Rightarrow> ext_insert k (to_string other) out) (map (\<lambda>(k, v). (k, JString v)) m) acc
      = ext_extend acc m" for acc
    by (induction m arbitrary: acc) (auto simp: ext_extend_def)
  then show ?thesis
    using assms by (simp add: ext_to_json_entries ext_from_json_def ext_extend_new)
qed

end
