(* ===== verification/Fast_Json.thy ===== *)
theory Fast_Json
  imports Json_Value Buffer
begin

text \<open>
  The tolerant JSON parser \<open>fastjson\<close> of \<open>src/rust/src/remoting/protocol/serialize.rs\<close>, over the bytes of the
  text and a position. \<open>value\<close>, \<open>object\<close>, \<open>array\<close> and \<open>key\<close> call each other, so they take fuel, and
  \<open>None\<close> means that it ran out; \<open>from_str\<close> gives them three units per byte, which is always enough.
  Slices out of range or off a character boundary are panics.
\<close>

section \<open>Scanning\<close>

abbreviation QUOTE :: u8 where "QUOTE \<equiv> 0x22"
abbreviation BACKSLASH :: u8 where "BACKSLASH \<equiv> 0x5C"
abbreviation LBRACE :: u8 where "LBRACE \<equiv> 0x7B"
abbreviation RBRACE :: u8 where "RBRACE \<equiv> 0x7D"
abbreviation LBRACKET :: u8 where "LBRACKET \<equiv> 0x5B"
abbreviation RBRACKET :: u8 where "RBRACKET \<equiv> 0x5D"
abbreviation COMMA :: u8 where "COMMA \<equiv> 0x2C"
abbreviation COLON :: u8 where "COLON \<equiv> 0x3A"

definition is_ws :: "u8 \<Rightarrow> bool" where
  "is_ws c \<longleftrightarrow> c = 0x20 \<or> c = 0x09 \<or> c = 0x0D \<or> c = 0x0A"

definition peek :: "bytes \<Rightarrow> nat \<Rightarrow> u8 option" where
  "peek bs pos = (if pos < length bs then Some (bs ! pos) else None)"

definition skip_ws :: "bytes \<Rightarrow> nat \<Rightarrow> nat" where
  "skip_ws bs pos = pos + length (takeWhile is_ws (drop pos bs))"

definition is_char_boundary :: "bytes \<Rightarrow> nat \<Rightarrow> bool" where
  "is_char_boundary bs i \<longleftrightarrow>
     i = 0 \<or> i = length bs \<or> (i < length bs \<and> \<not> utf8_cont (bs ! i))"

definition text_slice :: "bytes \<Rightarrow> nat \<Rightarrow> nat \<Rightarrow> string result" where
  "text_slice bs a b =
     (if a \<le> b \<and> is_char_boundary bs a \<and> is_char_boundary bs b
      then Inr (bytes_str (take (b - a) (drop a bs))) else Inl (Panic ''str slice''))"

section \<open>Numbers\<close>

definition is_ascii_digit :: "u8 \<Rightarrow> bool" where
  "is_ascii_digit b \<longleftrightarrow> 0x30 \<le> b \<and> b \<le> 0x39"

definition digits_end :: "bytes \<Rightarrow> nat \<Rightarrow> nat" where
  "digits_end b i = i + length (takeWhile is_ascii_digit (drop i b))"

definition sign_end :: "bytes \<Rightarrow> nat \<Rightarrow> nat" where
  "sign_end b i = (if i < length b \<and> (b ! i = 0x2D \<or> b ! i = 0x2B) then i + 1 else i)"

definition number_end :: "bytes \<Rightarrow> nat" where
  "number_end b =
     (let digits_start = sign_end b 0;
          i = digits_end b digits_start
      in if i = digits_start then 0
         else let
           i = (if i < length b \<and> b ! i = 0x2E
                then (let j = digits_end b (i + 1) in if i + 1 < j then j else i) else i)
         in if i < length b \<and> b ! i OR 0x20 = 0x65
            then (let exp_start = sign_end b (i + 1);
                      j = digits_end b exp_start
                  in if exp_start < j then j else i)
            else i)"

text \<open>The double of a text \<open>number_end\<close> delimits: sign, digits, fraction and exponent.\<close>

definition parse_f64 :: "string \<Rightarrow> f64" where
  "parse_f64 raw =
     (let neg = (take 1 raw = ''-'');
          r = dropWhile (\<lambda>c. c = CHR ''-'' \<or> c = CHR ''+'') raw;
          ip = takeWhile is_digit r;
          r = dropWhile is_digit r;
          fp = (if take 1 r = ''.'' then takeWhile is_digit (drop 1 r) else []);
          r = (if take 1 r = ''.'' then dropWhile is_digit (drop 1 r) else r);
          e = (case parse_int (drop 1 r) of Some e \<Rightarrow> e | None \<Rightarrow> 0) - int (length fp);
          n = foldl (\<lambda>n c. 10 * n + digit_val c) 0 (ip @ fp)
      in if 0 \<le> e then f64_of_ratio neg (n * 10 ^ nat e) 1
         else f64_of_ratio neg n (10 ^ nat (- e)))"

definition f64_to_value :: "f64 \<Rightarrow> json option" where
  "f64_to_value v = (if f64_finite v then Some (JNumber (Float v)) else None)"

definition or_null :: "json option \<Rightarrow> json" where
  "or_null v = (case v of Some j \<Rightarrow> j | None \<Rightarrow> JNull)"

definition number_value :: "string \<Rightarrow> json" where
  "number_value raw =
     (if CHR ''.'' \<in> set raw \<or> CHR ''e'' \<in> set raw \<or> CHR ''E'' \<in> set raw
      then or_null (f64_to_value (parse_f64 raw))
      else (case parse_i64 raw of
              Some v \<Rightarrow> JNumber (number_of_i64 v)
            | None \<Rightarrow> (case (parse_unsigned raw :: u64 option) of
                Some v \<Rightarrow> JNumber (PosInt v)
              | None \<Rightarrow> or_null (f64_to_value (parse_f64 raw)))))"

section \<open>Literals\<close>

definition is_token_boundary :: "u8 \<Rightarrow> bool" where
  "is_token_boundary c \<longleftrightarrow> c = COMMA \<or> c = RBRACE \<or> c = RBRACKET \<or> is_ws c"

text \<open>\<open>rest.get(n..n + 1)\<close>: \<open>None\<close> out of range or off a character boundary.\<close>

definition get_byte :: "bytes \<Rightarrow> nat \<Rightarrow> u8 option" where
  "get_byte rest n =
     (if n + 1 \<le> length rest \<and> is_char_boundary rest n \<and> is_char_boundary rest (n + 1)
      then Some (rest ! n) else None)"

definition token_matches :: "bytes \<Rightarrow> bytes \<Rightarrow> bool" where
  "token_matches rest token \<longleftrightarrow>
     (case get_byte rest (length token) of
        Some tail \<Rightarrow> is_token_boundary tail
      | None \<Rightarrow> length rest = length token)
     \<and> take (length token) rest = token"

definition literal_tokens :: "(string \<times> json) list" where
  "literal_tokens = [(''true'', JBool True), (''false'', JBool False), (''null'', JNull),
     (''-Infinity'', JNull), (''Infinity'', JNull), (''NaN'', JNull)]"

definition literal :: "bytes \<Rightarrow> nat \<Rightarrow> (json \<times> nat) result" where
  "literal bs pos =
     bind_result (text_slice bs pos (length bs)) (\<lambda>rest_str.
     let rest = str_bytes rest_str in
     case find (\<lambda>(token, _). token_matches rest (str_bytes token)) literal_tokens of
       Some (token, v) \<Rightarrow> Inr (v, pos + length token)
     | None \<Rightarrow>
         (let e = number_end rest in
          if e = 0
          then fail (Decode (''unexpected token at offset '' @ show_nat pos @ '': ''
                 @ str_debug (concat (take 20 (str_chars rest_str)))))
          else bind_result (text_slice rest 0 e) (\<lambda>raw. Inr (number_value raw, pos + e))))"

section \<open>Strings\<close>

definition utf8_len :: "u8 \<Rightarrow> nat" where
  "utf8_len first = (if first < 0x80 then 1 else if 0xF0 \<le> first then 4
     else if 0xE0 \<le> first then 3 else if 0xC0 \<le> first then 2 else 1)"

definition bad_escape :: error where
  "bad_escape = Decode ([CHR ''b'', CHR ''a'', CHR ''d'', CHR '' '', CHR 0x5C] @ ''u escape'')"

definition hex_val :: "u8 \<Rightarrow> u32 option" where
  "hex_val b =
     (if 0x30 \<le> b \<and> b \<le> 0x39 then Some (ucast b - 48)
      else if 0x41 \<le> b \<and> b \<le> 0x46 then Some (ucast b - 55)
      else if 0x61 \<le> b \<and> b \<le> 0x66 then Some (ucast b - 87) else None)"

fun hex_digits :: "u32 \<Rightarrow> bytes \<Rightarrow> u32 option" where
  "hex_digits acc [] = Some acc"
| "hex_digits acc (b # bs) = (case hex_val b of None \<Rightarrow> None | Some d \<Rightarrow> hex_digits (16 * acc + d) bs)"

text \<open>\<open>u32::from_str_radix(.., 16)\<close> on four bytes: one leading plus is allowed.\<close>

definition from_str_radix16 :: "bytes \<Rightarrow> u32 option" where
  "from_str_radix16 bs = (case bs of
     [] \<Rightarrow> None
   | b # r \<Rightarrow> if b = 0x2B then (if r = [] then None else hex_digits 0 r) else hex_digits 0 bs)"

text \<open>\<open>char::from_u32\<close> followed by \<open>push\<close>: the UTF-8 bytes of a scalar value.\<close>

definition utf8_encode :: "u32 \<Rightarrow> bytes option" where
  "utf8_encode n =
     (if n < 0x80 then Some [ucast n]
      else if n < 0x800 then Some [ucast (0xC0 + n div 64), ucast (0x80 + n mod 64)]
      else if 0xD800 \<le> n \<and> n < 0xE000 then None
      else if n < 0x10000
      then Some [ucast (0xE0 + n div 4096), ucast (0x80 + n div 64 mod 64), ucast (0x80 + n mod 64)]
      else if n < 0x110000
      then Some [ucast (0xF0 + n div 262144), ucast (0x80 + n div 4096 mod 64),
             ucast (0x80 + n div 64 mod 64), ucast (0x80 + n mod 64)]
      else None)"

text \<open>The low half of a surrogate pair, if a second escape follows at \<open>pos + 5\<close>: the scalar value and
  how far the position moves. The slice of its digits is not guarded by a length check.\<close>

definition surrogate :: "bytes \<Rightarrow> nat \<Rightarrow> u32 \<Rightarrow> (u32 \<times> nat) result" where
  "surrogate bs pos code =
     (if 0xD800 \<le> code \<and> code < 0xDC00 \<and> peek bs (pos + 5) = Some BACKSLASH
         \<and> peek bs (pos + 6) = Some 0x75
      then (if length bs < pos + 11 then Inl (Panic ''slice out of range'')
            else (case from_str_radix16 (take 4 (drop (pos + 7) bs)) of
                    None \<Rightarrow> fail bad_escape
                  | Some low \<Rightarrow>
                      if 0xDC00 \<le> low \<and> low < 0xE000
                      then Inr (0x10000 + push_bit 10 (code - 0xD800) + (low - 0xDC00), pos + 6)
                      else Inr (code, pos)))
      else Inr (code, pos))"

definition unicode_escape :: "bytes \<Rightarrow> nat \<Rightarrow> (bytes \<times> nat) result" where
  "unicode_escape bs pos =
     (if length bs \<le> pos + 4 then fail bad_escape
      else bind_result (ok_or (from_str_radix16 (take 4 (drop (pos + 1) bs))) bad_escape) (\<lambda>code.
           bind_result (surrogate bs pos code) (\<lambda>(scalar, pos').
           bind_result (ok_or (utf8_encode scalar) bad_escape) (\<lambda>c. Inr (c, pos' + 5)))))"

definition simple_escape :: "u8 \<Rightarrow> u8 option" where
  "simple_escape e =
     (if e = 0x62 then Some 0x08 else if e = 0x66 then Some 0x0C else if e = 0x6E then Some 0x0A
      else if e = 0x72 then Some 0x0D else if e = 0x74 then Some 0x09
      else if e < 0x80 then Some e else None)"

text \<open>One turn of the loop behind the closing-quote test: what it appends and the next position.\<close>

definition string_step :: "bytes \<Rightarrow> nat \<Rightarrow> (bytes \<times> nat) result" where
  "string_step bs pos =
     (let c = bs ! pos in
      if c = BACKSLASH
      then (case peek bs (pos + 1) of
              None \<Rightarrow> fail (Decode ''unterminated escape'')
            | Some e \<Rightarrow>
                if e = 0x75 then unicode_escape bs (pos + 1)
                else (case simple_escape e of
                        Some b \<Rightarrow> Inr ([b], pos + 2)
                      | None \<Rightarrow> Inr ([BACKSLASH, BACKSLASH], pos + 1)))
      else let e = min (pos + utf8_len c) (length bs); chunk = take (e - pos) (drop pos bs) in
        Inr (if valid_utf8 chunk then chunk else the (utf8_encode (ucast c)), e))"

lemma surrogate_pos: "surrogate bs pos code = Inr (s, p) \<Longrightarrow> pos \<le> p"
  by (auto simp: surrogate_def split: if_splits option.splits)

lemma unicode_escape_pos: "unicode_escape bs pos = Inr (c, p) \<Longrightarrow> pos < p"
  by (auto simp: unicode_escape_def bind_result_Inr dest!: surrogate_pos split: if_splits)

lemma utf8_len_pos: "0 < utf8_len c"
  by (simp add: utf8_len_def)

lemma string_step_pos: "string_step bs pos = Inr (c, p) \<Longrightarrow> pos < length bs \<Longrightarrow> pos < p"
  using utf8_len_pos [of "bs ! pos"]
  by (auto simp: string_step_def Let_def dest!: unicode_escape_pos split: if_splits option.splits)

function string_loop :: "bytes \<Rightarrow> nat \<Rightarrow> bytes \<Rightarrow> (string \<times> nat) result" where
  "string_loop bs pos out =
     (if length bs \<le> pos then fail (Decode ''unterminated string'')
      else if bs ! pos = QUOTE then Inr (bytes_str out, pos + 1)
      else (case string_step bs pos of
              Inl e \<Rightarrow> Inl e
            | Inr (c, p) \<Rightarrow> string_loop bs p (out @ c)))"
  by pat_completeness auto
termination
  by (relation "measure (\<lambda>(bs, pos, _). length bs - pos)") (auto dest!: string_step_pos)

declare string_loop.simps [simp del]

definition json_string :: "bytes \<Rightarrow> nat \<Rightarrow> (string \<times> nat) result" where
  "json_string bs pos = string_loop bs (pos + 1) []"

section \<open>Values, objects, arrays and keys\<close>

type_synonym 'a fueled = "'a result option"

definition f_bind :: "'a fueled \<Rightarrow> ('a \<Rightarrow> 'b fueled) \<Rightarrow> 'b fueled" where
  "f_bind m f = (case m of None \<Rightarrow> None | Some (Inl e) \<Rightarrow> Some (Inl e) | Some (Inr a) \<Rightarrow> f a)"

lemma f_bind_cong [fundef_cong]:
  "m = m' \<Longrightarrow> (\<And>a. m' = Some (Inr a) \<Longrightarrow> f a = g a) \<Longrightarrow> f_bind m f = f_bind m' g"
  by (auto simp: f_bind_def split: option.splits sum.splits)

definition quoted :: "char \<Rightarrow> string" where
  "quoted c = [CHR 0x27, c, CHR 0x27]"

definition expected :: "string \<Rightarrow> nat \<Rightarrow> error" where
  "expected what pos = Decode (''expected '' @ what @ '' at offset '' @ show_nat pos)"

definition comma_or :: "char \<Rightarrow> string" where
  "comma_or c = quoted (CHR '','') @ '' or '' @ quoted c"

definition bare_key_end :: "bytes \<Rightarrow> nat \<Rightarrow> nat" where
  "bare_key_end bs pos = pos + length (takeWhile (\<lambda>c. c \<noteq> COLON \<and> \<not> is_ws c) (drop pos bs))"

fun json_value :: "nat \<Rightarrow> bytes \<Rightarrow> nat \<Rightarrow> (json \<times> nat) fueled"
  and object_loop :: "nat \<Rightarrow> bytes \<Rightarrow> nat \<Rightarrow> json_map \<Rightarrow> (json_map \<times> nat) fueled"
  and array_loop :: "nat \<Rightarrow> bytes \<Rightarrow> nat \<Rightarrow> json list \<Rightarrow> (json list \<times> nat) fueled"
  and json_key :: "nat \<Rightarrow> bytes \<Rightarrow> nat \<Rightarrow> (string \<times> nat) fueled" where
  "json_value 0 bs pos = None"
| "json_value (Suc n) bs pos =
     (let pos = skip_ws bs pos in
      case peek bs pos of
        None \<Rightarrow> Some (fail (Decode (''unexpected end of input at offset '' @ show_nat pos)))
      | Some c \<Rightarrow>
          if c = LBRACE then
            (let p = skip_ws bs (pos + 1) in
             if peek bs p = Some RBRACE then Some (Inr (JObject [], p + 1))
             else f_bind (object_loop n bs p []) (\<lambda>(m, p'). Some (Inr (JObject m, p'))))
          else if c = LBRACKET then
            (let p = skip_ws bs (pos + 1) in
             if peek bs p = Some RBRACKET then Some (Inr (JArray [], p + 1))
             else f_bind (array_loop n bs p []) (\<lambda>(vs, p'). Some (Inr (JArray vs, p'))))
          else if c = QUOTE then
            Some (bind_result (json_string bs pos) (\<lambda>(s, p). Inr (JString s, p)))
          else Some (literal bs pos))"
| "object_loop 0 bs pos result = None"
| "object_loop (Suc n) bs pos result =
     f_bind (json_key n bs pos) (\<lambda>(key, p).
     let p = skip_ws bs p in
     if peek bs p \<noteq> Some COLON then Some (fail (expected (quoted (CHR '':'')) p))
     else f_bind (json_value n bs (p + 1)) (\<lambda>(value, p).
       let result = json_insert key value result; p = skip_ws bs p in
       case peek bs p of
         Some c \<Rightarrow>
           if c = COMMA then
             (let q = skip_ws bs (p + 1) in
              if peek bs q = Some RBRACE then Some (Inr (result, q + 1))
              else object_loop n bs q result)
           else if c = RBRACE then Some (Inr (result, p + 1))
           else Some (fail (expected (comma_or (CHR 0x7D)) p))
       | None \<Rightarrow> Some (fail (expected (comma_or (CHR 0x7D)) p))))"
| "array_loop 0 bs pos items = None"
| "array_loop (Suc n) bs pos items =
     f_bind (json_value n bs pos) (\<lambda>(value, p).
     let items = items @ [value]; p = skip_ws bs p in
     case peek bs p of
       Some c \<Rightarrow>
         if c = COMMA then
           (let q = skip_ws bs (p + 1) in
            if peek bs q = Some RBRACKET then Some (Inr (items, q + 1))
            else array_loop n bs q items)
         else if c = RBRACKET then Some (Inr (items, p + 1))
         else Some (fail (expected (comma_or (CHR 0x5D)) p))
     | None \<Rightarrow> Some (fail (expected (comma_or (CHR 0x5D)) p)))"
| "json_key 0 bs pos = None"
| "json_key (Suc n) bs pos =
     (let start = skip_ws bs pos in
      if peek bs start = Some QUOTE then Some (json_string bs start)
      else if peek bs start = Some LBRACE \<or> peek bs start = Some LBRACKET
      then f_bind (json_value n bs start) (\<lambda>(_, p).
             Some (bind_result (text_slice bs start p) (\<lambda>s. Inr (s, p))))
      else let p = bare_key_end bs start in
        Some (bind_result (text_slice bs start p) (\<lambda>s. Inr (s, p))))"

definition parse_fuel :: "bytes \<Rightarrow> nat" where
  "parse_fuel bs = 3 * length bs + 3"

definition from_str :: "string \<Rightarrow> json fueled" where
  "from_str text =
     (let bs = str_bytes text in
      f_bind (json_value (parse_fuel bs) bs 0) (\<lambda>(value, p).
      let p = skip_ws bs p in
      if p < length bs then Some (fail (Decode (''json trailing data at offset '' @ show_nat p)))
      else Some (Inr value)))"

definition from_slice :: "bytes \<Rightarrow> json fueled" where
  "from_slice data = (case from_utf8 data of
     None \<Rightarrow> Some (fail (Decode ''json is not valid utf8: ''))
   | Some text \<Rightarrow> from_str text)"

definition decode_map_key :: "string \<Rightarrow> json option option" where
  "decode_map_key key =
     (let text = str_trim key in
      if \<not> starts_with text [CHR 0x7B] then Some None
      else (case from_str text of
              None \<Rightarrow> None
            | Some (Inr v) \<Rightarrow> Some (Some v)
            | Some (Inl _) \<Rightarrow> Some None))"

text \<open>\<open>RemotingSerializable::decode\<close>.\<close>

definition json_decode :: "bytes \<Rightarrow> json fueled" where
  "json_decode data =
     (if data = [] then Some (Inr JNull)
      else (case from_utf8 data of
              None \<Rightarrow> Some (fail (Decode ''json header is not valid utf8: ''))
            | Some text \<Rightarrow> from_str text))"

section \<open>Termination: the fuel is always enough\<close>

lemma skip_ws_ge [simp]: "pos \<le> skip_ws bs pos"
  by (simp add: skip_ws_def)

lemma string_loop_pos: "string_loop bs pos out = Inr (s, p) \<Longrightarrow> pos < p"
proof (induction bs pos out rule: string_loop.induct)
  case (1 bs pos out)
  show ?case
  proof (cases "length bs \<le> pos \<or> bs ! pos = QUOTE")
    case True
    with "1.prems" show ?thesis by (subst (asm) string_loop.simps) (auto split: if_splits)
  next
    case False
    then obtain c q where "string_step bs pos = Inr (c, q)" "string_loop bs q (out @ c) = Inr (s, p)"
      using "1.prems" by (subst (asm) string_loop.simps) (auto split: sum.splits)
    with False "1.IH" string_step_pos [of bs pos c q] show ?thesis by fastforce
  qed
qed

lemma json_string_pos: "json_string bs pos = Inr (s, p) \<Longrightarrow> pos < p"
  by (auto simp: json_string_def dest: string_loop_pos)

lemma find_SomeD_set: "find P xs = Some x \<Longrightarrow> x \<in> set xs \<and> P x"
  by (induction xs) (auto split: if_splits)

lemma literal_pos: "literal bs pos = Inr (v, p) \<Longrightarrow> pos < p"
proof -
  assume lit: "literal bs pos = Inr (v, p)"
  have tok: "token \<noteq> []" if "(token, w) \<in> set literal_tokens" for token w
    using that by (auto simp: literal_tokens_def)
  obtain rest where rest: "text_slice bs pos (length bs) = Inr rest"
    using lit by (auto simp: literal_def bind_result_Inr)
  show ?thesis
  proof (cases "find (\<lambda>(token, _). token_matches (str_bytes rest) (str_bytes token)) literal_tokens")
    case None
    with lit rest show ?thesis by (auto simp: literal_def bind_result_Inr Let_def split: if_splits)
  next
    case (Some tv)
    then have "tv \<in> set literal_tokens"
      using find_SomeD_set by fast
    with lit rest Some tok show ?thesis by (auto simp: literal_def split: prod.splits)
  qed
qed

lemma f_bind_Inr: "f_bind m f = Some (Inr b) \<longleftrightarrow> (\<exists>a. m = Some (Inr a) \<and> f a = Some (Inr b))"
  by (auto simp: f_bind_def split: option.splits sum.splits)

lemma bare_key_end_ge: "pos \<le> bare_key_end bs pos"
  by (simp add: bare_key_end_def)

definition ends_after :: "nat \<Rightarrow> ('a \<times> nat) fueled \<Rightarrow> bool" where
  "ends_after pos r \<longleftrightarrow> (\<forall>a p. r = Some (Inr (a, p)) \<longrightarrow> pos \<le> p)"

lemma ends_after_simps [simp]:
  "ends_after pos (Some (Inl e))" "ends_after pos (Some (Inr (a, p))) = (pos \<le> p)"
  "ends_after pos None"
  by (simp_all add: ends_after_def)

lemma ends_after_bind:
  "(\<And>a p. m = Some (Inr (a, p)) \<Longrightarrow> ends_after pos (f (a, p))) \<Longrightarrow> ends_after pos (f_bind m f)"
  by (auto simp: f_bind_def ends_after_def split: option.splits sum.splits)

lemma ends_after_le: "ends_after q r \<Longrightarrow> pos \<le> q \<Longrightarrow> ends_after pos r"
  by (fastforce simp: ends_after_def)

lemma ends_after_bind_result:
  "ends_after pos (Some m) \<Longrightarrow> ends_after pos (Some (bind_result m (\<lambda>(s, p). Inr (g s, p))))"
  "pos \<le> p \<Longrightarrow> ends_after pos (Some (bind_result t (\<lambda>s. Inr (s, p))))"
  by (auto simp: ends_after_def bind_result_Inr)

lemma ends_after_lexemes:
  "ends_after (Suc pos) (Some (json_string bs pos))" "ends_after (Suc pos) (Some (literal bs pos))"
  by (auto simp: ends_after_def dest: json_string_pos literal_pos)

lemma parser_pos_all:
  "(\<forall>pos. ends_after (Suc pos) (json_value n bs pos))
   \<and> (\<forall>pos m. ends_after (Suc pos) (object_loop n bs pos m))
   \<and> (\<forall>pos vs. ends_after (Suc pos) (array_loop n bs pos vs))
   \<and> (\<forall>pos. ends_after pos (json_key n bs pos))"
proof (induction n)
  case 0
  then show ?case by simp
next
  case (Suc n)
  then have IH: "ends_after (Suc pos) (json_value n bs pos)"
      "ends_after (Suc pos) (object_loop n bs pos m)" "ends_after (Suc pos) (array_loop n bs pos vs)"
      "ends_after pos (json_key n bs pos)" for pos m vs
    by blast+
  note ws = skip_ws_ge [of _ bs]
  have val: "ends_after (Suc pos) (json_value (Suc n) bs pos)" for pos
  proof (rule ends_after_le)
    let ?p = "skip_ws bs (skip_ws bs pos + 1)"
    have "Suc (skip_ws bs pos) \<le> ?p"
      using ws [of "skip_ws bs pos + 1"] by simp
    then have le: "Suc (skip_ws bs pos) \<le> Suc ?p"
      by linarith
    have "ends_after (Suc (skip_ws bs pos)) (object_loop n bs ?p [])"
      "ends_after (Suc (skip_ws bs pos)) (array_loop n bs ?p [])"
      by (rule ends_after_le [OF IH(2) le] ends_after_le [OF IH(3) le])+
    with le show "ends_after (Suc (skip_ws bs pos)) (json_value (Suc n) bs pos)"
      by (auto simp: Let_def ends_after_lexemes intro!: ends_after_bind ends_after_bind_result
          split: option.split)
  qed simp
  have key: "ends_after pos (json_key (Suc n) bs pos)" for pos
  proof (rule ends_after_le)
    show "ends_after (skip_ws bs pos) (json_key (Suc n) bs pos)"
      using IH(1) [of "skip_ws bs pos"] bare_key_end_ge [of "skip_ws bs pos" bs]
        ends_after_le [OF ends_after_lexemes(1), of "skip_ws bs pos" "skip_ws bs pos" bs]
      by (auto simp: Let_def intro!: ends_after_bind ends_after_bind_result)
  qed simp
  have after: "ends_after (Suc pos) (object_loop n bs (skip_ws bs (Suc (skip_ws bs r))) m)"
    "ends_after (Suc pos) (array_loop n bs (skip_ws bs (Suc (skip_ws bs r))) vs)"
    "Suc pos \<le> Suc (skip_ws bs (Suc (skip_ws bs r)))" "Suc pos \<le> Suc (skip_ws bs r)"
    if "Suc pos \<le> r" for pos r m vs
  proof -
    have le: "pos \<le> skip_ws bs r" "pos \<le> skip_ws bs (Suc (skip_ws bs r))"
      using that ws [of r] ws [of "Suc (skip_ws bs r)"] by linarith+
    then show "Suc pos \<le> Suc (skip_ws bs (Suc (skip_ws bs r)))" "Suc pos \<le> Suc (skip_ws bs r)"
      "ends_after (Suc pos) (object_loop n bs (skip_ws bs (Suc (skip_ws bs r))) m)"
      "ends_after (Suc pos) (array_loop n bs (skip_ws bs (Suc (skip_ws bs r))) vs)"
      by (auto intro!: ends_after_le [OF IH(2)] ends_after_le [OF IH(3)])
  qed
  have colon: "Suc pos \<le> r" if "json_key n bs pos = Some (Inr (k, q))"
    "json_value n bs (Suc (skip_ws bs q)) = Some (Inr (v, r))" for pos k q v r
  proof -
    have "Suc (Suc (skip_ws bs q)) \<le> r" "pos \<le> q"
      using that IH(1) [of "Suc (skip_ws bs q)"] IH(4) [of pos] by (simp_all add: ends_after_def)
    with ws [of q] show ?thesis by linarith
  qed
  have obj: "ends_after (Suc pos) (object_loop (Suc n) bs pos m)" for pos m
    by (auto simp: Let_def intro!: ends_after_bind split: option.split)
      (metis after(1,3,4) colon Suc_le_mono)+
  have arr: "ends_after (Suc pos) (array_loop (Suc n) bs pos vs)" for pos vs
    using IH(1) [of pos]
    by (auto simp: Let_def ends_after_def [of _ "json_value n bs pos"]
        intro!: ends_after_bind after split: option.split)
      (metis after(3,4) Suc_le_mono)+
  from val key obj arr show ?case by blast
qed

lemmas parser_pos = parser_pos_all [THEN conjunct1, rule_format]
  parser_pos_all [THEN conjunct2, THEN conjunct2, THEN conjunct2, rule_format]

lemma peek_lt: "peek bs pos = Some c \<Longrightarrow> pos < length bs"
  by (simp add: peek_def split: if_splits)

definition returns :: "'a fueled \<Rightarrow> bool" where
  "returns m \<longleftrightarrow> m \<noteq> None"

lemma returns_simps [simp]: "returns (Some r)" "\<not> returns None"
  by (simp_all add: returns_def)

lemma returns_bind:
  "returns m \<Longrightarrow> (\<And>a p. m = Some (Inr (a, p)) \<Longrightarrow> returns (f (a, p))) \<Longrightarrow> returns (f_bind m f)"
  by (auto simp: f_bind_def returns_def split: option.splits sum.splits)

lemma parser_fuel_all:
  "(\<forall>pos. 3 * (length bs - pos) + 1 \<le> n \<longrightarrow> returns (json_value n bs pos))
   \<and> (\<forall>pos m. 3 * (length bs - pos) + 3 \<le> n \<longrightarrow> returns (object_loop n bs pos m))
   \<and> (\<forall>pos vs. 3 * (length bs - pos) + 3 \<le> n \<longrightarrow> returns (array_loop n bs pos vs))
   \<and> (\<forall>pos. 3 * (length bs - pos) + 2 \<le> n \<longrightarrow> returns (json_key n bs pos))"
proof (induction n)
  case 0
  then show ?case by simp
next
  case (Suc n)
  then have IH: "3 * (length bs - pos) + 1 \<le> n \<Longrightarrow> returns (json_value n bs pos)"
      "3 * (length bs - pos) + 3 \<le> n \<Longrightarrow> returns (object_loop n bs pos m)"
      "3 * (length bs - pos) + 3 \<le> n \<Longrightarrow> returns (array_loop n bs pos vs)"
      "3 * (length bs - pos) + 2 \<le> n \<Longrightarrow> returns (json_key n bs pos)" for pos m vs
    by blast+
  note ws = skip_ws_ge [of _ bs]
  have val: "returns (json_value (Suc n) bs pos)" if "3 * (length bs - pos) + 1 \<le> Suc n" for pos
  proof (cases "peek bs (skip_ws bs pos)")
    case None
    then show ?thesis by simp
  next
    case (Some c)
    let ?p = "skip_ws bs (skip_ws bs pos + 1)"
    have "3 * (length bs - ?p) + 3 \<le> n"
      using that peek_lt [OF Some] ws [of pos] ws [of "skip_ws bs pos + 1"] by linarith
    from IH(2,3) [OF this, of "[]"] Some show ?thesis
      by (auto simp: Let_def intro!: returns_bind)
  qed
  have key: "returns (json_key (Suc n) bs pos)" if "3 * (length bs - pos) + 2 \<le> Suc n" for pos
  proof -
    have "3 * (length bs - skip_ws bs pos) + 1 \<le> n"
      using that ws [of pos] by linarith
    from IH(1) [OF this] show ?thesis
      by (auto simp: Let_def intro!: returns_bind)
  qed
  have after: "returns (object_loop n bs (skip_ws bs (Suc (skip_ws bs r))) m)"
    "returns (array_loop n bs (skip_ws bs (Suc (skip_ws bs r))) vs)"
    if "3 * (length bs - pos) + 3 \<le> Suc n" "Suc pos \<le> r" "peek bs (skip_ws bs r) = Some c"
    for pos r c m vs
  proof -
    have "3 * (length bs - skip_ws bs (Suc (skip_ws bs r))) + 3 \<le> n"
      using that peek_lt [OF that(3)] ws [of r] ws [of "Suc (skip_ws bs r)"] by linarith
    then show "returns (object_loop n bs (skip_ws bs (Suc (skip_ws bs r))) m)"
      "returns (array_loop n bs (skip_ws bs (Suc (skip_ws bs r))) vs)"
      by (rule IH(2), rule IH(3))
  qed
  have obj: "returns (object_loop (Suc n) bs pos m)" if fuel: "3 * (length bs - pos) + 3 \<le> Suc n" for pos m
  proof -
    have key: "returns (json_key n bs pos)"
      using IH(4) [of pos] fuel by simp
    have v: "returns (json_value n bs (Suc (skip_ws bs q)))"
      "json_value n bs (Suc (skip_ws bs q)) = Some (Inr (v, r)) \<Longrightarrow> Suc pos \<le> r"
      if k: "json_key n bs pos = Some (Inr (k, q))" and c: "peek bs (skip_ws bs q) = Some COLON" for k q v r
    proof -
      have q: "pos \<le> q"
        using k parser_pos(2) [of pos n bs] by (simp add: ends_after_def)
      then have "3 * (length bs - Suc (skip_ws bs q)) + 1 \<le> n"
        using fuel peek_lt [OF c] ws [of q] by linarith
      then show "returns (json_value n bs (Suc (skip_ws bs q)))"
        by (rule IH(1))
      assume "json_value n bs (Suc (skip_ws bs q)) = Some (Inr (v, r))"
      then have "Suc (Suc (skip_ws bs q)) \<le> r"
        using parser_pos(1) [of "Suc (skip_ws bs q)" n bs] by (simp add: ends_after_def)
      with q ws [of q] show "Suc pos \<le> r" by linarith
    qed
    show ?thesis
      by (auto simp: Let_def intro!: returns_bind key split: option.split)
        (metis v after(1) [OF fuel])+
  qed
  have arr: "returns (array_loop (Suc n) bs pos vs)" if fuel: "3 * (length bs - pos) + 3 \<le> Suc n" for pos vs
  proof -
    have "returns (json_value n bs pos)"
      using IH(1) [of pos] fuel by simp
    then show ?thesis
      using after [OF fuel] parser_pos(1) [of pos n bs]
      by (auto simp: Let_def ends_after_def intro!: returns_bind
          split: option.split)
  qed
  from val key obj arr show ?case by blast
qed

lemma from_str_returns: "returns (from_str text)"
  using parser_fuel_all [of "str_bytes text" "parse_fuel (str_bytes text)"]
  unfolding from_str_def Let_def
  by (intro returns_bind) (auto simp: parse_fuel_def)

section \<open>Properties\<close>

text \<open>
  C22. The parser returns on every text: three units of fuel per byte are enough for its recursion.
\<close>
theorem from_str_terminates: "\<exists>r. from_str text = Some r"
  using from_str_returns [of "text"] by (simp add: returns_def)

definition truncated_pair :: string where
  "truncated_pair = bytes_str [QUOTE, BACKSLASH, 0x75, 0x44, 0x38, 0x33, 0x44, BACKSLASH, 0x75]"

end
