(* ===== verification/Json_Text.thy ===== *)
theory Json_Text
  imports Fast_Json
begin

text \<open>
  The compact JSON text of a value, as \<open>serde_json\<close> documents its output (no spaces, the short escapes,
  other control characters as \<open>\u00xx\<close>, integers in decimal), and the proof that the tolerant parser reads
  every such text back.
\<close>

section \<open>Compact text\<close>

definition hex_lower :: "u8 \<Rightarrow> u8" where
  "hex_lower d = (if d < 10 then 0x30 + d else 0x57 + d)"

definition escape_byte :: "u8 \<Rightarrow> bytes" where
  "escape_byte b =
     (if b = QUOTE then [BACKSLASH, QUOTE] else if b = BACKSLASH then [BACKSLASH, BACKSLASH]
      else if b = 0x08 then [BACKSLASH, 0x62] else if b = 0x0C then [BACKSLASH, 0x66]
      else if b = 0x0A then [BACKSLASH, 0x6E] else if b = 0x0D then [BACKSLASH, 0x72]
      else if b = 0x09 then [BACKSLASH, 0x74]
      else if b < 0x20 then [BACKSLASH, 0x75, 0x30, 0x30, hex_lower (b div 16), hex_lower (b mod 16)]
      else [b])"

definition string_text :: "string \<Rightarrow> bytes" where
  "string_text s = QUOTE # concat (map escape_byte (str_bytes s)) @ [QUOTE]"

fun number_text :: "number \<Rightarrow> bytes" where
  "number_text (PosInt n) = str_bytes (show_nat (unat n))"
| "number_text (NegInt n) = str_bytes (show_signed n)"
| "number_text (Float v) = []"

fun array_text :: "bytes list \<Rightarrow> bytes" where
  "array_text [] = [RBRACKET]"
| "array_text [t] = t @ [RBRACKET]"
| "array_text (t # u # ts) = t @ COMMA # array_text (u # ts)"

fun object_text :: "(string \<times> bytes) list \<Rightarrow> bytes" where
  "object_text [] = [RBRACE]"
| "object_text [(k, t)] = string_text k @ COLON # t @ [RBRACE]"
| "object_text ((k, t) # u # ts) = string_text k @ COLON # t @ COMMA # object_text (u # ts)"

fun json_text :: "json \<Rightarrow> bytes" where
  "json_text JNull = str_bytes ''null''"
| "json_text (JBool b) = str_bytes (if b then ''true'' else ''false'')"
| "json_text (JNumber n) = number_text n"
| "json_text (JString s) = string_text s"
| "json_text (JArray vs) = LBRACKET # array_text (map json_text vs)"
| "json_text (JObject m) = LBRACE # object_text (map (\<lambda>(k, v). (k, json_text v)) m)"

fun number_ok :: "number \<Rightarrow> bool" where
  "number_ok (PosInt n) = True"
| "number_ok (NegInt n) = (n <s 0)"
| "number_ok (Float v) = False"

text \<open>The values a text determines: strings are UTF-8, keys are distinct, integers only.\<close>

fun json_ok :: "json \<Rightarrow> bool" where
  "json_ok (JNumber n) = number_ok n"
| "json_ok (JString s) = is_str s"
| "json_ok (JArray vs) = list_all json_ok vs"
| "json_ok (JObject m) = (distinct (map fst m) \<and> list_all (\<lambda>(k, v). is_str k \<and> json_ok v) m)"
| "json_ok _ = True"

section \<open>Strings read back\<close>

lemma control_escape_all:
  "list_all (\<lambda>b. from_str_radix16 [0x30, 0x30, hex_lower (b div 16), hex_lower (b mod 16)] = Some (ucast b))
     (map of_nat [0..<32])"
  by code_simp

lemma control_escape:
  assumes "b < 0x20"
  shows "from_str_radix16 [0x30, 0x30, hex_lower (b div 16), hex_lower (b mod 16)] = Some (ucast b)"
proof -
  have "unat b < 32"
    using assms by (simp add: word_less_nat_alt)
  then have "b \<in> set (map of_nat [0..<32])"
    unfolding set_map by (intro image_eqI [of _ _ "unat b"]) simp_all
  then show ?thesis
    using control_escape_all by (simp only: list_all_iff)
qed

lemma peek_append [simp]:
  "peek (pre @ xs) (length pre) = (case xs of [] \<Rightarrow> None | x # _ \<Rightarrow> Some x)"
  by (auto simp: peek_def split: list.split)

lemma peek_append_Suc [simp]:
  "peek (pre @ x # xs) (Suc (length pre)) = (case xs of [] \<Rightarrow> None | y # _ \<Rightarrow> Some y)"
  by (auto simp: peek_def nth_append split: list.split)

lemma byte_u32: "unat (ucast (b :: u8) :: u32) = unat b" "ucast (ucast (b :: u8) :: u32) = b"
proof -
  have "unat b < 256"
    using unsigned_less [of b, where ?'a = nat] by simp
  then show "unat (ucast b :: u32) = unat b"
    by (simp add: unsigned_ucast_eq take_bit_eq_mod)
  show "ucast (ucast (b :: u8) :: u32) = b"
    by (rule bit_word_eqI) (auto simp: bit_simps)
qed

lemma ascii_ordinary:
  "b < 0x80 \<Longrightarrow> utf8_len b = 1" "b < 0x80 \<Longrightarrow> valid_utf8 [b]" "b < 0x80 \<Longrightarrow> utf8_encode (ucast b) = Some [b]"
  by (simp_all add: utf8_len_def valid_utf8.simps utf8_head_def utf8_encode_def word_less_nat_alt
      byte_u32)

lemma control_step:
  assumes "b < 0x20"
  shows "unicode_escape (pre @ BACKSLASH # 0x75 # 0x30 # 0x30 # hex_lower (b div 16) # hex_lower (b mod 16)
      # rest) (Suc (length pre)) = Inr ([b], length pre + 6)"
proof -
  have n: "unat b < 32"
    using assms by (simp add: word_less_nat_alt)
  have "b < 0x80"
    using assms by (auto intro: less_trans)
  moreover have "\<not> 0xD800 \<le> (ucast b :: u32)"
    using n by (simp add: word_le_nat_alt byte_u32)
  ultimately show ?thesis
    by (simp add: unicode_escape_def control_escape [OF assms] surrogate_def ascii_ordinary)
qed

lemma escape_step:
  assumes "b < 0x80"
  shows "string_step (pre @ escape_byte b @ rest) (length pre) =
      Inr ([b], length pre + length (escape_byte b))"
    and "hd (escape_byte b) \<noteq> QUOTE" "escape_byte b \<noteq> []"
  using assms
  by (auto simp: string_step_def escape_byte_def Let_def simple_escape_def control_step ascii_ordinary
      min_def)

lemma utf8_head_wide:
  assumes "utf8_head bs = Some n" and "\<not> hd bs < 0x80"
  shows "utf8_len (hd bs) = n" "\<forall>b \<in> set (take n bs). 0x80 \<le> b" "utf8_head (take n bs) = Some n"
    "bs \<noteq> []" "n \<le> length bs"
  using assms
  by (auto simp: utf8_head_def utf8_len_def utf8_cont_def utf8_second3_def utf8_second4_def
      word_less_nat_alt word_le_nat_alt split: list.splits if_splits)

lemma escape_wide: "\<forall>b \<in> set bs. 0x80 \<le> b \<Longrightarrow> concat (map escape_byte bs) = bs"
proof (induction bs)
  case Nil
  then show ?case by simp
next
  case (Cons b bs)
  then have "128 \<le> unat b"
    by (simp add: word_le_nat_alt)
  then have "escape_byte b = [b]"
    by (auto simp: escape_byte_def word_less_nat_alt)
  with Cons show ?case by simp
qed

lemma wide_step:
  assumes "utf8_head bs = Some n" and "\<not> hd bs < 0x80"
  shows "string_step (pre @ take n bs @ rest) (length pre) = Inr (take n bs, length pre + n)"
    and "hd (take n bs) \<noteq> QUOTE" "take n bs \<noteq> []"
proof -
  note wide = utf8_head_wide [OF assms]
  have n: "0 < n"
    using utf8_head_pos [OF assms(1)] by simp
  then show ne: "take n bs \<noteq> []"
    using wide(4) by simp
  have hd: "hd (take n bs) = hd bs" "hd bs \<in> set (take n bs)"
    using n wide(4) by (cases bs; cases n; simp)+
  then have "0x80 \<le> hd bs"
    using wide(2) by blast
  then have "hd bs \<noteq> QUOTE" "hd bs \<noteq> BACKSLASH"
    by (auto simp: word_le_nat_alt)
  with hd show "hd (take n bs) \<noteq> QUOTE" by simp
  have "(pre @ take n bs @ rest) ! length pre = hd bs"
    using hd(1) ne by (simp add: nth_append hd_conv_nth)
  moreover have "valid_utf8 (take n bs)"
    using wide(3,4) by (subst valid_utf8.simps) simp
  ultimately show "string_step (pre @ take n bs @ rest) (length pre) = Inr (take n bs, length pre + n)"
    using \<open>hd bs \<noteq> BACKSLASH\<close> wide(1,5) by (simp add: string_step_def min_def)
qed

lemma string_loop_step:
  assumes "string_step (pre @ e @ rest) (length pre) = Inr (c, length pre + length e)"
    and "hd e \<noteq> QUOTE" and "e \<noteq> []"
  shows "string_loop (pre @ e @ rest) (length pre) out =
    string_loop ((pre @ e) @ rest) (length (pre @ e)) (out @ c)"
  using assms by (subst string_loop.simps) (auto simp: nth_append hd_conv_nth)

lemma string_loop_prefix:
  assumes "valid_utf8 bs"
  shows "string_loop (pre @ concat (map escape_byte bs) @ rest) (length pre) out =
    string_loop (pre @ concat (map escape_byte bs) @ rest) (length (pre @ concat (map escape_byte bs))) (out @ bs)"
  using assms
proof (induction bs arbitrary: pre out rule: valid_utf8.induct)
  case (1 bs)
  show ?case
  proof (cases "bs = []")
    case True
    then show ?thesis by simp
  next
    case False
    with "1.prems" obtain n where n: "utf8_head bs = Some n" "valid_utf8 (drop n bs)"
      by (auto simp: valid_utf8.simps [of bs] split: option.splits)
    let ?e = "concat (map escape_byte (take n bs))" and ?r = "concat (map escape_byte (drop n bs))"
    have split: "concat (map escape_byte bs) = ?e @ ?r"
      by (metis append_take_drop_id concat_append map_append)
    have "string_step (pre @ ?e @ ?r @ rest) (length pre) = Inr (take n bs, length pre + length ?e)
      \<and> hd ?e \<noteq> QUOTE \<and> ?e \<noteq> []"
    proof (cases "hd bs < 0x80")
      case True
      then have "n = 1" "take n bs = [hd bs]"
        using False n(1) by (cases bs; auto simp: utf8_head_def)+
      with escape_step(1) [OF True, of pre "?r @ rest"] escape_step(2,3) [OF True] show ?thesis by simp
    next
      case wide: False
      have e: "?e = take n bs"
        by (rule escape_wide) (rule utf8_head_wide(2) [OF n(1) wide])
      show ?thesis
        using wide_step [OF n(1) wide] utf8_head_wide(5) [OF n(1) wide] by (simp add: e)
    qed
    then have "string_loop (pre @ ?e @ ?r @ rest) (length pre) out =
        string_loop ((pre @ ?e) @ ?r @ rest) (length (pre @ ?e)) (out @ take n bs)"
      by (intro string_loop_step) auto
    also have "\<dots> = string_loop ((pre @ ?e) @ ?r @ rest) (length ((pre @ ?e) @ ?r)) ((out @ take n bs) @ drop n bs)"
      using False n by (intro "1.IH") auto
    finally show ?thesis
      by (simp add: split)
  qed
qed

lemma string_loop_text:
  assumes "valid_utf8 bs"
  shows "string_loop (pre @ concat (map escape_byte bs) @ QUOTE # rest) (length pre) out =
    Inr (bytes_str (out @ bs), length pre + length (concat (map escape_byte bs)) + 1)"
  unfolding string_loop_prefix [OF assms]
  by (subst string_loop.simps) (simp add: nth_append)

lemma json_string_text:
  assumes "is_str s"
  shows "json_string (pre @ string_text s @ rest) (length pre) =
    Inr (s, length pre + length (string_text s))"
  using string_loop_text [of "str_bytes s" "pre @ [QUOTE]" rest "[]"] assms
  by (simp add: json_string_def string_text_def is_str_def)

section \<open>Literals and numbers read back\<close>

text \<open>What may follow a literal: nothing, or a delimiter with a whole character (or nothing) behind it.\<close>

definition delimited :: "bytes \<Rightarrow> bool" where
  "delimited rest \<longleftrightarrow> (case rest of [] \<Rightarrow> True
     | c # r \<Rightarrow> is_token_boundary c \<and> (case r of [] \<Rightarrow> True | d # _ \<Rightarrow> \<not> utf8_cont d))"

lemma token_boundary_cases:
  "is_token_boundary c \<Longrightarrow> c \<in> {COMMA, RBRACE, RBRACKET, 0x20, 0x09, 0x0D, 0x0A}"
  by (auto simp: is_token_boundary_def is_ws_def)

lemma token_boundary_plain:
  assumes "is_token_boundary c"
  shows "\<not> utf8_cont c" "\<not> is_ascii_digit c" "c \<noteq> 0x2E" "c OR 0x20 \<noteq> 0x65"
  using token_boundary_cases [OF assms] by (auto simp: utf8_cont_def is_ascii_digit_def)

lemma text_slice_rest:
  "t \<noteq> [] \<Longrightarrow> \<not> utf8_cont (hd t) \<Longrightarrow>
     text_slice (pre @ t @ rest) (length pre) (length (pre @ t @ rest)) = Inr (bytes_str (t @ rest))"
  by (auto simp: text_slice_def is_char_boundary_def nth_append hd_conv_nth)

lemma get_byte_end:
  "delimited rest \<Longrightarrow> get_byte (t @ rest) (length t) = (case rest of [] \<Rightarrow> None | c # _ \<Rightarrow> Some c)"
  by (auto simp: get_byte_def delimited_def is_char_boundary_def nth_append token_boundary_plain
      split: list.splits)

lemma token_matches_own: "delimited rest \<Longrightarrow> token_matches (t @ rest) t"
  by (auto simp: token_matches_def get_byte_end delimited_def split: list.splits)

lemma token_matches_clash:
  "c \<noteq> d \<Longrightarrow> \<not> token_matches (c # r) (d # u)"
  "c \<noteq> d \<Longrightarrow> \<not> token_matches (x # c # r) (x # d # u)"
  by (auto simp: token_matches_def)

lemma literal_at:
  assumes "t \<noteq> []" and "\<not> utf8_cont (hd t)"
  shows "literal (pre @ t @ rest) (length pre) =
    (case find (\<lambda>(token, _). token_matches (t @ rest) (str_bytes token)) literal_tokens of
       Some (token, v) \<Rightarrow> Inr (v, length pre + length token)
     | None \<Rightarrow>
         (let e = number_end (t @ rest) in
          if e = 0
          then fail (Decode (''unexpected token at offset '' @ show_nat (length pre) @ '': ''
                 @ str_debug (concat (take 20 (str_chars (bytes_str (t @ rest)))))))
          else bind_result (text_slice (t @ rest) 0 e) (\<lambda>raw. Inr (number_value raw, length pre + e))))"
  unfolding literal_def text_slice_rest [OF assms] bind_result_simps Let_def bytes_str_bytes ..

lemma token_bytes:
  "str_bytes ''true'' = [0x74, 0x72, 0x75, 0x65]" "str_bytes ''false'' = [0x66, 0x61, 0x6C, 0x73, 0x65]"
  "str_bytes ''null'' = [0x6E, 0x75, 0x6C, 0x6C]"
  "str_bytes ''-Infinity'' = [0x2D, 0x49, 0x6E, 0x66, 0x69, 0x6E, 0x69, 0x74, 0x79]"
  "str_bytes ''Infinity'' = [0x49, 0x6E, 0x66, 0x69, 0x6E, 0x69, 0x74, 0x79]"
  "str_bytes ''NaN'' = [0x4E, 0x61, 0x4E]"
  by (simp_all add: char_byte_def)

lemma literal_token:
  assumes "delimited rest"
  shows "literal (pre @ str_bytes ''null'' @ rest) (length pre) = Inr (JNull, length pre + 4)"
    and "literal (pre @ str_bytes ''true'' @ rest) (length pre) = Inr (JBool True, length pre + 4)"
    and "literal (pre @ str_bytes ''false'' @ rest) (length pre) = Inr (JBool False, length pre + 5)"
proof -
  have own: "token_matches (str_bytes t @ rest) (str_bytes t)" for t
    by (rule token_matches_own [OF assms])
  note eval = utf8_cont_def literal_tokens_def token_bytes token_matches_clash
    own [of "''null''", unfolded token_bytes, simplified]
    own [of "''true''", unfolded token_bytes, simplified]
    own [of "''false''", unfolded token_bytes, simplified]
  show "literal (pre @ str_bytes ''null'' @ rest) (length pre) = Inr (JNull, length pre + 4)"
    "literal (pre @ str_bytes ''true'' @ rest) (length pre) = Inr (JBool True, length pre + 4)"
    "literal (pre @ str_bytes ''false'' @ rest) (length pre) = Inr (JBool False, length pre + 5)"
    by (subst literal_at; simp add: eval del: str_bytes_simps)+
qed

lemma is_digit_byte: "is_digit c \<Longrightarrow> is_ascii_digit (char_byte c)"
proof -
  assume d: "is_digit c"
  then have "unat (char_byte c) = of_char c"
    by (simp add: is_digit_def char_byte_def unat_of_nat)
  with d show ?thesis
    by (simp add: is_ascii_digit_def is_digit_def word_le_nat_alt)
qed

lemma digit_byte_facts:
  assumes "is_ascii_digit b"
  shows "\<not> utf8_cont b" "\<not> is_ws b" "b \<noteq> 0x2D" "b \<noteq> 0x2B" "b \<notin> {0x49, 0x4E, 0x66, 0x6E, 0x74}" "b \<noteq> LBRACE" "b \<noteq> LBRACKET"
    "b \<noteq> QUOTE" "b \<noteq> RBRACKET"
  using assms by (auto simp: is_ascii_digit_def utf8_cont_def is_ws_def word_le_nat_alt word_less_nat_alt)

lemma takeWhile_digits:
  assumes "\<forall>b \<in> set ds. is_ascii_digit b" and "delimited rest"
  shows "takeWhile is_ascii_digit (ds @ rest) = ds"
  using assms by (cases rest) (auto simp: delimited_def token_boundary_plain)

lemma number_end_digits:
  assumes "\<forall>b \<in> set ds. is_ascii_digit b" and "ds \<noteq> []" and "delimited rest"
  shows "number_end (ds @ rest) = length ds" "number_end (0x2D # ds @ rest) = Suc (length ds)"
proof -
  have hd: "(ds @ rest) ! 0 \<noteq> 0x2D" "(ds @ rest) ! 0 \<noteq> 0x2B"
    using assms(1,2) digit_byte_facts by (cases ds; auto)+
  have tail: "(ds @ rest) ! length ds \<noteq> 0x2E" "(ds @ rest) ! length ds OR 0x20 \<noteq> 0x65"
    if "length ds < length (ds @ rest)"
    using that assms(3) token_boundary_plain by (auto simp: delimited_def split: list.splits)
  show "number_end (ds @ rest) = length ds"
    using assms hd tail takeWhile_digits [OF assms(1,3)]
    by (auto simp: number_end_def sign_end_def digits_end_def Let_def)
  show "number_end (0x2D # ds @ rest) = Suc (length ds)"
    using assms tail takeWhile_digits [OF assms(1,3)]
    by (auto simp: number_end_def sign_end_def digits_end_def Let_def)
qed

lemma text_slice_prefix:
  "delimited rest \<Longrightarrow> text_slice (t @ rest) 0 (length t) = Inr (bytes_str t)"
  by (auto simp: text_slice_def is_char_boundary_def delimited_def token_boundary_plain
      split: list.splits)

lemma literal_number:
  assumes "\<forall>b \<in> set ds. is_ascii_digit b" and "ds \<noteq> []" and "delimited rest"
    and "t = ds \<or> t = 0x2D # ds"
  shows "literal (pre @ t @ rest) (length pre) = Inr (number_value (bytes_str t), length pre + length t)"
proof -
  obtain d ds' where ds: "ds = d # ds'" "is_ascii_digit d"
    using assms(1,2) by (cases ds) auto
  have "find (\<lambda>(token, _). token_matches (t @ rest) (str_bytes token)) literal_tokens = None"
    using assms(4) ds digit_byte_facts(3,5) [OF ds(2)]
    by (auto simp: literal_tokens_def token_bytes token_matches_clash simp del: str_bytes_simps)
  moreover have "number_end (t @ rest) = length t" "length t \<noteq> 0"
    using assms number_end_digits [OF assms(1-3)] by auto
  moreover have "\<not> utf8_cont (hd t)" "t \<noteq> []"
    using assms(4) ds digit_byte_facts(1) [OF ds(2)] by (auto simp: utf8_cont_def)
  ultimately show ?thesis
    by (subst literal_at) (simp_all add: text_slice_prefix [OF assms(3)])
qed

lemma show_nat_bytes: "\<forall>b \<in> set (str_bytes (show_nat n)). is_ascii_digit b"
  by (auto simp: str_bytes_def intro: is_digit_byte show_nat_digits)

lemma number_chars_plain:
  assumes "c \<in> set (show_int i)"
  shows "c \<noteq> CHR ''.'' \<and> c \<noteq> CHR ''e'' \<and> c \<noteq> CHR ''E''"
proof -
  have "c = CHR ''-'' \<or> is_digit c"
    using assms by (auto simp: show_int_def intro: show_nat_digits split: if_splits)
  then show ?thesis by (auto simp: is_digit_def)
qed

lemma not_sless_0_of_nat64: "n < 2 ^ 63 \<Longrightarrow> \<not> (of_nat n :: i64) <s 0"
  by (simp add: word_sless_alt sint_of_nat_small)

lemma number_value_text:
  assumes "number_ok n"
  shows "number_value (bytes_str (number_text n)) = JNumber n"
proof (cases n)
  case (PosInt w)
  have plain: "\<forall>c \<in> set (show_nat (unat w)). c \<noteq> CHR ''.'' \<and> c \<noteq> CHR ''e'' \<and> c \<noteq> CHR ''E''"
    using number_chars_plain [of _ "int (unat w)"] by (auto simp: show_int_def)
  have int: "parse_int (show_nat (unat w)) = Some (int (unat w))"
    using parse_show_int [of "int (unat w)"] by (simp add: show_int_def)
  have bound: "unat w < 2 ^ 64"
    using unsigned_less [of w, where ?'a = nat] by simp
  have uns: "(parse_unsigned (show_nat (unat w)) :: u64 option) = Some w"
  proof -
    obtain c r where cr: "show_nat (unat w) = c # r"
      using show_nat_not_Nil by (meson neq_Nil_conv)
    have "parse_digits (c # r) = Some (unat w)"
      using parse_show_nat [of "unat w"] unfolding cr .
    then show ?thesis
      using bound show_nat_no_sign [OF cr] by (simp add: parse_unsigned_def cr)
  qed
  show ?thesis
  proof (cases "unat w < 2 ^ 63")
    case True
    then have "int (unat w) < 2 ^ 63"
      by (metis of_nat_less_iff of_nat_numeral of_nat_power)
    moreover have "- (2 ^ 63) \<le> int (unat w)"
      by (rule order_trans [of _ 0]) simp_all
    ultimately have "parse_i64 (show_nat (unat w)) = Some w"
      using int by (simp add: parse_signed_def del: uint_nat unat_eq_nat_uint)
    moreover have "\<not> w <s 0"
      using True not_sless_0_of_nat64 [of "unat w"] by simp
    ultimately show ?thesis
      using plain PosInt by (auto simp: number_value_def number_of_i64_def)
  next
    case False
    then have "\<not> int (unat w) < 2 ^ 63"
      by (metis of_nat_less_iff of_nat_numeral of_nat_power)
    then have "(parse_i64 (show_nat (unat w))) = None"
      using int by (simp add: parse_signed_def)
    then show ?thesis
      using plain PosInt uns by (auto simp: number_value_def)
  qed
next
  case (NegInt w)
  then show ?thesis
    using assms number_chars_plain [of _ "sint w"] by (auto simp: number_value_def number_of_i64_def)
next
  case (Float v)
  with assms show ?thesis by simp
qed

lemma literal_number_text:
  assumes "number_ok n" and "delimited rest"
  shows "literal (pre @ number_text n @ rest) (length pre) =
    Inr (JNumber n, length pre + length (number_text n))"
proof -
  obtain m where "number_text n = str_bytes (show_nat m) \<or> number_text n = 0x2D # str_bytes (show_nat m)"
    using assms(1) by (cases n) (force simp: show_int_def char_byte_def word_sless_alt)+
  then show ?thesis
    using literal_number [OF show_nat_bytes _ assms(2), of m "number_text n" pre]
      number_value_text [OF assms(1)] by auto
qed

section \<open>Values read back\<close>

lemma skip_ws_at: "\<not> is_ws c \<Longrightarrow> skip_ws (pre @ c # r) (length pre) = length pre"
  by (simp add: skip_ws_def)

definition starts_value :: "bytes \<Rightarrow> bool" where
  "starts_value t \<longleftrightarrow> t \<noteq> [] \<and> \<not> is_ws (hd t) \<and> \<not> utf8_cont (hd t) \<and> hd t \<noteq> RBRACKET
     \<and> hd t \<noteq> RBRACE"

lemma number_text_start:
  assumes "number_ok n"
  shows "\<exists>b. number_text n \<noteq> [] \<and> hd (number_text n) = b \<and> (b = 0x2D \<or> is_ascii_digit b)"
proof -
  have "is_ascii_digit (hd (str_bytes (show_nat m)))" for m
    using show_nat_bytes [of m] by (cases "show_nat m") auto
  then show ?thesis
    using assms by (cases n) (auto simp: show_int_def char_byte_def)
qed

lemma json_text_start: "json_ok v \<Longrightarrow> starts_value (json_text v)"
proof (cases v)
  case (JNumber n)
  assume "json_ok v"
  with JNumber number_text_start [of n] show ?thesis
    by (auto simp: starts_value_def is_ascii_digit_def utf8_cont_def is_ws_def word_le_nat_alt)
qed (auto simp: starts_value_def string_text_def is_ws_def utf8_cont_def char_byte_def)

definition reads_back :: "json \<Rightarrow> bool" where
  "reads_back v \<longleftrightarrow> (\<forall>n pre rest. delimited rest \<longrightarrow> 3 * length (json_text v) + 1 \<le> n \<longrightarrow>
     json_value n (pre @ json_text v @ rest) (length pre) =
       Some (Inr (v, length pre + length (json_text v))))"

lemma reads_backD:
  assumes "reads_back v" and "delimited rest" and "3 * length (json_text v) + 1 \<le> n"
  shows "json_value n (pre @ json_text v @ rest) (length pre) =
    Some (Inr (v, length (pre @ json_text v)))"
  using assms by (simp add: reads_back_def)

lemma array_text_start: "vs \<noteq> [] \<Longrightarrow> list_all json_ok vs \<Longrightarrow> starts_value (array_text (map json_text vs))"
  using json_text_start by (cases vs; cases "tl vs") (auto simp: starts_value_def)

lemma array_loop_text:
  assumes "vs \<noteq> []" and "list_all json_ok vs" and "\<forall>v \<in> set vs. reads_back v" and "delimited rest"
    and "3 * length (array_text (map json_text vs)) \<le> n"
  shows "array_loop n (pre @ array_text (map json_text vs) @ rest) (length pre) items =
    Some (Inr (items @ vs, length pre + length (array_text (map json_text vs))))"
  using assms
proof (induction vs arbitrary: n pre items)
  case Nil
  then show ?case by simp
next
  case (Cons v vs)
  obtain m where m: "n = Suc m"
    using Cons.prems(5) by (cases n; cases vs) auto
  show ?case
  proof (cases vs)
    case Nil
    have "delimited (RBRACKET # rest)"
      using Cons.prems(4) by (auto simp: delimited_def is_token_boundary_def token_boundary_plain split: list.splits)
    then have "json_value m (pre @ json_text v @ RBRACKET # rest) (length pre) =
        Some (Inr (v, length (pre @ json_text v)))"
      using Cons.prems m Nil by (intro reads_backD) auto
    with skip_ws_at [of RBRACKET "pre @ json_text v" rest]
      peek_append [of "pre @ json_text v" "RBRACKET # rest"]
    show ?thesis
      by (simp add: m Nil f_bind_def is_ws_def)
  next
    case more: (Cons w ws)
    let ?t = "array_text (map json_text vs)"
    have start: "starts_value ?t"
      using Cons.prems more by (intro array_text_start) auto
    then obtain c r where t: "?t = c # r" "\<not> is_ws c" "\<not> utf8_cont c" "c \<noteq> RBRACKET"
      by (cases ?t) (auto simp: starts_value_def)
    let ?q = "pre @ json_text v @ [COMMA]"
    have "delimited (COMMA # ?t @ rest)"
      using t by (simp add: delimited_def is_token_boundary_def)
    then have "json_value m (pre @ json_text v @ COMMA # ?t @ rest) (length pre) =
        Some (Inr (v, length (pre @ json_text v)))"
      using Cons.prems m more by (intro reads_backD) auto
    moreover have "array_loop m (?q @ ?t @ rest) (length ?q) (items @ [v]) =
        Some (Inr ((items @ [v]) @ vs, length ?q + length ?t))"
      using Cons.prems m more by (intro Cons.IH) auto
    ultimately show ?thesis
      using skip_ws_at [of COMMA "pre @ json_text v" "?t @ rest"] skip_ws_at [of c ?q "r @ rest"]
        peek_append [of "pre @ json_text v" "COMMA # ?t @ rest"] peek_append [of ?q "?t @ rest"] t
      by (simp add: m more f_bind_def is_ws_def)
  qed
qed

lemma object_text_start:
  "m \<noteq> [] \<Longrightarrow> \<exists>r. object_text (map (\<lambda>(k, v). (k, json_text v)) m) = QUOTE # r"
  by (cases m; cases "tl m") (auto simp: string_text_def)

lemma json_key_text:
  assumes "is_str k"
    and "0 < n"
  shows "json_key n (pre @ string_text k @ rest) (length pre) =
    Some (Inr (k, length (pre @ string_text k)))"
proof -
  obtain n' where "n = Suc n'"
    using assms(2) by (cases n) auto
  moreover
  have "string_text k @ rest = QUOTE # tl (string_text k @ rest)"
    by (simp add: string_text_def)
  then have "skip_ws (pre @ string_text k @ rest) (length pre) = length pre
    \<and> peek (pre @ string_text k @ rest) (length pre) = Some QUOTE"
    using skip_ws_at [of QUOTE pre "tl (string_text k @ rest)"]
    by (simp add: is_ws_def string_text_def)
  ultimately show ?thesis
    using json_string_text [OF assms(1), of pre rest] by simp
qed

lemma object_text_Cons:
  "m \<noteq> [] \<Longrightarrow> object_text (map (\<lambda>(k, v). (k, json_text v)) ((k, v) # m)) =
     string_text k @ COLON # json_text v @ COMMA # object_text (map (\<lambda>(k, v). (k, json_text v)) m)"
  by (cases m) auto

lemma object_loop_text:
  assumes "m \<noteq> []" and "list_all (\<lambda>(k, v). is_str k \<and> json_ok v) m" and "\<forall>(k, v) \<in> set m. reads_back v"
    and "distinct (map fst (acc @ m))" and "delimited rest"
    and "3 * length (object_text (map (\<lambda>(k, v). (k, json_text v)) m)) \<le> n"
  shows "object_loop n (pre @ object_text (map (\<lambda>(k, v). (k, json_text v)) m) @ rest) (length pre) acc =
    Some (Inr (acc @ m, length pre + length (object_text (map (\<lambda>(k, v). (k, json_text v)) m))))"
  using assms
proof (induction m arbitrary: n pre acc)
  case Nil
  then show ?case by simp
next
  case (Cons kv m)
  obtain k v where kv: "kv = (k, v)"
    by fastforce
  let ?o = "object_text (map (\<lambda>(k, v). (k, json_text v)) m)"
  let ?a = "pre @ string_text k" and ?b = "pre @ string_text k @ [COLON]"
  let ?c = "pre @ string_text k @ [COLON] @ json_text v"
  obtain j where j: "n = Suc j" "0 < j"
    using Cons.prems(6) kv by (cases n; cases "n - 1"; cases m) (auto simp: string_text_def)
  have k: "is_str k" and fresh: "json_insert k v acc = acc @ [(k, v)]" and v: "reads_back v"
    using Cons.prems kv by (auto intro!: json_insert_fresh)
  show ?case
  proof (cases "m = []")
    case True
    let ?t = "json_text v @ RBRACE # rest"
    have "delimited (RBRACE # rest)"
      using Cons.prems(5) by (auto simp: delimited_def is_token_boundary_def token_boundary_plain split: list.splits)
    then have "json_value j (?b @ ?t) (length ?b) = Some (Inr (v, length (?b @ json_text v)))"
      using Cons.prems j True kv by (intro reads_backD v) auto
    with json_key_text [OF k j(2), of pre "COLON # ?t"] fresh
      skip_ws_at [of COLON ?a ?t] peek_append [of ?a "COLON # ?t"]
      skip_ws_at [of RBRACE ?c rest] peek_append [of ?c "RBRACE # rest"]
    show ?thesis
      by (simp add: j(1) kv True f_bind_def is_ws_def)
  next
    case False
    obtain r where o: "?o = QUOTE # r"
      using object_text_start False by blast
    let ?t = "json_text v @ COMMA # ?o @ rest"
    let ?q = "pre @ string_text k @ [COLON] @ json_text v @ [COMMA]"
    note txt_m = object_text_Cons [OF False, of k v]
    have fuel: "3 * (length (string_text k) + length (json_text v) + length ?o + 2) \<le> Suc j"
      using Cons.prems(6) unfolding kv txt_m j(1) by simp
    have "delimited (COMMA # ?o @ rest)"
      using o by (simp add: delimited_def is_token_boundary_def utf8_cont_def)
    then have val: "json_value j (?b @ ?t) (length ?b) = Some (Inr (v, length (?b @ json_text v)))"
      using fuel by (intro reads_backD v) auto
    have "object_loop j (?q @ ?o @ rest) (length ?q) (acc @ [(k, v)]) =
        Some (Inr ((acc @ [(k, v)]) @ m, length ?q + length ?o))"
      using Cons.prems(2-5) False kv fuel by (intro Cons.IH) auto
    with val json_key_text [OF k j(2), of pre "COLON # ?t"] fresh
      skip_ws_at [of COLON ?a ?t] peek_append [of ?a "COLON # ?t"]
      skip_ws_at [of COMMA ?c "?o @ rest"] peek_append [of ?c "COMMA # ?o @ rest"]
      skip_ws_at [of QUOTE ?q "r @ rest"] peek_append [of ?q "?o @ rest"] o
    show ?thesis
      unfolding kv txt_m by (simp add: j(1) f_bind_def is_ws_def)
  qed
qed

lemma json_value_start:
  assumes "\<not> is_ws c" and "c \<noteq> LBRACE" and "c \<noteq> LBRACKET" and "c \<noteq> QUOTE" and "0 < n"
  shows "json_value n (pre @ c # r) (length pre) = Some (literal (pre @ c # r) (length pre))"
proof -
  obtain j where "n = Suc j"
    using assms(5) by (cases n) auto
  then show ?thesis
    using assms by (simp add: skip_ws_at)
qed

lemma json_value_literal:
  assumes "t \<noteq> []" and "\<not> is_ws (hd t)" and "hd t \<notin> {LBRACE, LBRACKET, QUOTE}" and "0 < n"
  shows "json_value n (pre @ t @ rest) (length pre) = Some (literal (pre @ t @ rest) (length pre))"
  using assms json_value_start [of "hd t" n pre "tl t @ rest"] by (cases t) auto

lemma reads_back_literal:
  assumes "\<And>pre rest. delimited rest \<Longrightarrow> literal (pre @ json_text v @ rest) (length pre) =
      Inr (v, length pre + length (json_text v))"
    and "json_text v \<noteq> []" and "\<not> is_ws (hd (json_text v))"
    and "hd (json_text v) \<notin> {LBRACE, LBRACKET, QUOTE}"
  shows "reads_back v"
  using assms by (auto simp: reads_back_def json_value_literal)

lemma reads_back_Suc:
  assumes "\<And>n pre rest. delimited rest \<Longrightarrow> 3 * length (json_text v) \<le> n \<Longrightarrow>
    json_value (Suc n) (pre @ json_text v @ rest) (length pre) =
      Some (Inr (v, length pre + length (json_text v)))"
  shows "reads_back v"
  unfolding reads_back_def
proof (intro allI impI)
  fix n pre rest
  assume "delimited rest" "3 * length (json_text v) + 1 \<le> n"
  with assms [of rest "n - 1" pre]
  show "json_value n (pre @ json_text v @ rest) (length pre) =
      Some (Inr (v, length pre + length (json_text v)))"
    by (cases n) auto
qed

lemma token_reads_back: "reads_back JNull" "reads_back (JBool b)"
proof -
  show "reads_back JNull"
    by (rule reads_back_literal, simp only: json_text.simps literal_token)
      (auto simp: is_ws_def char_byte_def)
  show "reads_back (JBool b)"
    by (rule reads_back_literal, cases b, simp_all only: json_text.simps literal_token if_True if_False)
      (auto simp: is_ws_def char_byte_def)
qed

lemma object_reads_back:
  assumes "distinct (map fst m)" and "list_all (\<lambda>(k, v). is_str k \<and> json_ok v) m"
    and "\<forall>(k, v) \<in> set m. reads_back v"
  shows "reads_back (JObject m)"
proof (rule reads_back_Suc)
  fix n pre rest
  let ?t = "object_text (map (\<lambda>(k, v). (k, json_text v)) m)" and ?p = "pre @ [LBRACE]"
  assume rest: "delimited rest" and n: "3 * length (json_text (JObject m)) \<le> n"
  show "json_value (Suc n) (pre @ json_text (JObject m) @ rest) (length pre) =
      Some (Inr (JObject m, length pre + length (json_text (JObject m))))"
  proof (cases "m = []")
    case True
    then show ?thesis
      using skip_ws_at [of RBRACE ?p rest] peek_append [of ?p "RBRACE # rest"]
      by (simp add: skip_ws_at is_ws_def)
  next
    case False
    obtain r where t: "?t = QUOTE # r"
      using object_text_start [OF False] by blast
    have "object_loop n (?p @ ?t @ rest) (length ?p) [] = Some (Inr ([] @ m, length ?p + length ?t))"
      using False assms rest n by (intro object_loop_text) auto
    then show ?thesis
      using skip_ws_at [of QUOTE ?p "r @ rest"] peek_append [of ?p "?t @ rest"] t
      by (simp add: skip_ws_at is_ws_def f_bind_def)
  qed
qed

lemma array_reads_back:
  assumes "list_all json_ok vs" and "\<forall>v \<in> set vs. reads_back v"
  shows "reads_back (JArray vs)"
proof (rule reads_back_Suc)
  fix n pre rest
  let ?t = "array_text (map json_text vs)" and ?p = "pre @ [LBRACKET]"
  assume rest: "delimited rest" and n: "3 * length (json_text (JArray vs)) \<le> n"
  show "json_value (Suc n) (pre @ json_text (JArray vs) @ rest) (length pre) =
      Some (Inr (JArray vs, length pre + length (json_text (JArray vs))))"
  proof (cases "vs = []")
    case True
    then show ?thesis
      using skip_ws_at [of RBRACKET ?p rest] peek_append [of ?p "RBRACKET # rest"]
      by (simp add: skip_ws_at is_ws_def)
  next
    case False
    obtain c r where t: "?t = c # r" "\<not> is_ws c" "c \<noteq> RBRACKET"
      using array_text_start [OF False assms(1)] by (cases ?t) (auto simp: starts_value_def)
    have "array_loop n (?p @ ?t @ rest) (length ?p) [] = Some (Inr ([] @ vs, length ?p + length ?t))"
      using False assms rest n by (intro array_loop_text) auto
    then show ?thesis
      using skip_ws_at [of c ?p "r @ rest"] peek_append [of ?p "?t @ rest"] t
      by (simp add: skip_ws_at is_ws_def f_bind_def)
  qed
qed

lemma json_reads_back: "json_ok v \<Longrightarrow> reads_back v"
proof (induction v)
  case (JNumber x)
  show ?case
  proof (rule reads_back_literal)
    show "literal (pre @ json_text (JNumber x) @ rest) (length pre) =
        Inr (JNumber x, length pre + length (json_text (JNumber x)))" if "delimited rest" for pre rest
      using JNumber that by (simp add: literal_number_text)
  qed (use JNumber number_text_start [of x] in \<open>auto simp: is_ws_def is_ascii_digit_def\<close>)
next
  case (JString s)
  show ?case
  proof (rule reads_back_Suc)
    fix n pre rest
    show "json_value (Suc n) (pre @ json_text (JString s) @ rest) (length pre) =
        Some (Inr (JString s, length pre + length (json_text (JString s))))"
      using json_string_text [of s pre rest] JString
        skip_ws_at [of QUOTE pre "tl (string_text s @ rest)"]
      by (simp add: string_text_def is_ws_def)
  qed
next
  case (JArray vs)
  then show ?case
    by (intro array_reads_back) (auto simp: list_all_iff)
next
  case (JObject m)
  have "reads_back v" if "(k, v) \<in> set m" for k v
  proof (rule JObject.IH)
    show "(k, v) \<in> set m" by (rule that)
    show "v \<in> Basic_BNFs.snds (k, v)" by simp
    show "json_ok v" using JObject.prems that by (auto simp: list_all_iff)
  qed
  with JObject.prems show ?case
    by (intro object_reads_back) auto
qed (simp_all add: token_reads_back)

text \<open>The parser reads a compact text back, with the fuel that \<open>from_str\<close> gives it.\<close>

lemma from_str_text:
  assumes "json_ok v"
  shows "from_str (bytes_str (json_text v)) = Some (Inr v)"
proof -
  let ?t = "json_text v"
  have "json_value (parse_fuel ?t) ([] @ ?t @ []) (length ([] :: bytes)) = Some (Inr (v, length ([] @ ?t)))"
    using json_reads_back [OF assms] by (rule reads_backD) (simp_all add: delimited_def parse_fuel_def)
  then show ?thesis
    by (simp add: from_str_def f_bind_def skip_ws_def)
qed

section \<open>The text is UTF-8\<close>

lemma valid_utf8_Cons: "b < 0x80 \<Longrightarrow> valid_utf8 (b # bs) = valid_utf8 bs"
  by (subst valid_utf8.simps) (simp add: utf8_head_def)

lemma valid_utf8_ascii: "\<forall>b \<in> set bs. b < 0x80 \<Longrightarrow> valid_utf8 bs"
  by (induction bs) (simp_all add: valid_utf8_Cons)

lemma hex_lower_ascii_all: "list_all (\<lambda>b. hex_lower (b div 16) < 0x80 \<and> hex_lower (b mod 16) < 0x80)
    (map of_nat [0..<32])"
  by code_simp

lemma escape_ascii:
  assumes "b < 0x80" and "x \<in> set (escape_byte b)"
  shows "x < 0x80"
proof (cases "b < 0x20")
  case True
  then have "b \<in> set (map of_nat [0..<32])"
    unfolding set_map by (intro image_eqI [of _ _ "unat b"]) (simp_all add: word_less_nat_alt)
  then have "hex_lower (b div 16) < 0x80 \<and> hex_lower (b mod 16) < 0x80"
    using hex_lower_ascii_all by (simp only: list_all_iff)
  then show ?thesis
    using assms by (auto simp: escape_byte_def split: if_splits)
next
  case False
  then show ?thesis
    using assms by (auto simp: escape_byte_def split: if_splits)
qed

lemma valid_escape: "valid_utf8 bs \<Longrightarrow> valid_utf8 (concat (map escape_byte bs))"
proof (induction bs rule: valid_utf8.induct)
  case (1 bs)
  show ?case
  proof (cases "bs = []")
    case False
    with "1.prems" obtain n where n: "utf8_head bs = Some n" "valid_utf8 (drop n bs)"
      by (auto simp: valid_utf8.simps [of bs] split: option.splits)
    let ?e = "concat (map escape_byte (take n bs))" and ?r = "concat (map escape_byte (drop n bs))"
    have "valid_utf8 ?e"
    proof (cases "hd bs < 0x80")
      case True
      then have "take n bs = [hd bs]"
        using False n(1) by (cases bs; auto simp: utf8_head_def)
      with True show ?thesis
        by (auto intro!: valid_utf8_ascii dest: escape_ascii)
    next
      case wide: False
      have "?e = take n bs"
        by (rule escape_wide) (rule utf8_head_wide(2) [OF n(1) wide])
      then show ?thesis
        using utf8_head_wide(3,4) [OF n(1) wide] by (subst valid_utf8.simps) simp
    qed
    moreover have "concat (map escape_byte bs) = ?e @ ?r"
      by (metis append_take_drop_id concat_append map_append)
    moreover have "valid_utf8 ?r"
      using False n by (intro "1.IH") auto
    ultimately show ?thesis by (simp add: valid_utf8_append)
  qed simp
qed

lemma valid_string_text: "is_str s \<Longrightarrow> valid_utf8 (string_text s)"
  using valid_escape [of "str_bytes s"]
  by (simp add: string_text_def is_str_def valid_utf8_Cons valid_utf8_append valid_utf8_ascii)

lemma valid_array_text: "\<forall>t \<in> set ts. valid_utf8 t \<Longrightarrow> valid_utf8 (array_text ts)"
  by (induction ts rule: array_text.induct) (simp_all add: valid_utf8_append valid_utf8_Cons)

lemma valid_object_text: "\<forall>(k, t) \<in> set ts. is_str k \<and> valid_utf8 t \<Longrightarrow> valid_utf8 (object_text ts)"
  by (induction ts rule: object_text.induct) (simp_all add: valid_utf8_append valid_utf8_Cons valid_string_text)

lemma valid_number_text: "valid_utf8 (number_text n)"
proof (cases n)
  case (PosInt w)
  then show ?thesis
    using is_str_show_int [of "int (unat w)"] by (simp add: is_str_def show_int_def)
next
  case (NegInt w)
  then show ?thesis
    using is_str_show_int [of "sint w"] by (simp add: is_str_def)
qed simp

lemma valid_json_text: "json_ok v \<Longrightarrow> valid_utf8 (json_text v)"
proof (induction v)
  case (JArray vs)
  then show ?case
    by (simp add: valid_utf8_Cons valid_array_text list_all_iff)
next
  case (JObject m)
  have "valid_utf8 (json_text v)" if "(k, v) \<in> set m" for k v
  proof (rule JObject.IH)
    show "(k, v) \<in> set m" by (rule that)
    show "v \<in> Basic_BNFs.snds (k, v)" by simp
    show "json_ok v" using JObject.prems that by (auto simp: list_all_iff)
  qed
  then have "\<forall>(k, t) \<in> set (map (\<lambda>(k, v). (k, json_text v)) m). is_str k \<and> valid_utf8 t"
    using JObject.prems by (auto simp: list_all_iff)
  then show ?case
    by (simp add: valid_utf8_Cons valid_object_text)
qed (simp_all add: valid_number_text valid_string_text valid_utf8_ascii char_byte_def)

lemma json_text_not_Nil: "json_ok v \<Longrightarrow> json_text v \<noteq> []"
  using json_text_start [of v] by (simp add: starts_value_def)

lemma json_decode_text:
  assumes "json_ok v"
  shows "json_decode (json_text v) = Some (Inr v)"
  using from_str_text [OF assms] valid_json_text [OF assms] json_text_not_Nil [OF assms]
  by (simp add: json_decode_def from_utf8_def)

section \<open>Properties\<close>

text \<open>
  C21. The tolerant parser reads back the compact JSON text of every value with integer numbers, UTF-8 strings
  and distinct keys.
\<close>
theorem json_round_trip: "json_ok v \<Longrightarrow> from_str (bytes_str (json_text v)) = Some (Inr v)"
  by (rule from_str_text)

definition sample_json :: json where
  "sample_json = JObject [(''code'', JNumber (PosInt 105)), (''n'', JNumber (NegInt (- 7))),
     (''s'', JString [CHR 0x22, CHR 0x0A, CHR ''x'']), (''l'', JArray [JNull, JBool True])]"

theorem json_round_trip_witness:
  "json_ok sample_json \<and> from_str (bytes_str (json_text sample_json)) = Some (Inr sample_json)"
proof -
  have "json_ok sample_json"
    by code_simp
  then show ?thesis
    using json_round_trip by blast
qed

end
