(* ===== verification/Remoting_Command.thy ===== *)
theory Remoting_Command
  imports Binary_Header Json_Text
begin

text \<open>
  Commands and their frames: \<open>src/rust/src/remoting/protocol/remoting_command.rs\<close>, with the language codes of
  \<open>codes.rs\<close> and \<open>RemotingSerializable::encode\<close> of \<open>serialize.rs\<close>. The process-wide request counter is passed
  as a state, the environment variables as a function, and the printers of \<open>serde_json\<close> (\<open>to_vec\<close> and
  \<open>to_string\<close>) are parameters.
\<close>

section \<open>Language codes\<close>

definition LANG_JAVA :: i32 where "LANG_JAVA = 0"
definition LANG_CPP :: i32 where "LANG_CPP = 1"
definition LANG_DOTNET :: i32 where "LANG_DOTNET = 2"
definition LANG_PYTHON :: i32 where "LANG_PYTHON = 3"
definition LANG_DELPHI :: i32 where "LANG_DELPHI = 4"
definition LANG_ERLANG :: i32 where "LANG_ERLANG = 5"
definition LANG_RUBY :: i32 where "LANG_RUBY = 6"
definition LANG_OTHER :: i32 where "LANG_OTHER = 7"
definition LANG_HTTP :: i32 where "LANG_HTTP = 8"
definition LANG_GO :: i32 where "LANG_GO = 9"
definition LANG_PHP :: i32 where "LANG_PHP = 10"
definition LANG_OMS :: i32 where "LANG_OMS = 11"
definition LANG_RUST :: i32 where "LANG_RUST = 12"
definition LANG_NODE_JS :: i32 where "LANG_NODE_JS = 13"

lemmas lang_defs =
  LANG_JAVA_def LANG_CPP_def LANG_DOTNET_def LANG_PYTHON_def LANG_DELPHI_def LANG_ERLANG_def LANG_RUBY_def
  LANG_OTHER_def LANG_HTTP_def LANG_GO_def LANG_PHP_def LANG_OMS_def LANG_RUST_def LANG_NODE_JS_def

definition language_value_of :: "i32 \<Rightarrow> string option" where
  "language_value_of code =
     (let c = code AND 0xFF in
      if c = LANG_JAVA then Some ''JAVA''
      else if c = LANG_CPP then Some ''CPP''
      else if c = LANG_DOTNET then Some ''DOTNET''
      else if c = LANG_PYTHON then Some ''PYTHON''
      else if c = LANG_DELPHI then Some ''DELPHI''
      else if c = LANG_ERLANG then Some ''ERLANG''
      else if c = LANG_RUBY then Some ''RUBY''
      else if c = LANG_OTHER then Some ''OTHER''
      else if c = LANG_HTTP then Some ''HTTP''
      else if c = LANG_GO then Some ''GO''
      else if c = LANG_PHP then Some ''PHP''
      else if c = LANG_OMS then Some ''OMS''
      else if c = LANG_RUST then Some ''RUST''
      else if c = LANG_NODE_JS then Some ''NODE_JS''
      else None)"

definition name_to_code :: "string \<Rightarrow> i32" where
  "name_to_code name =
     (let n = map ascii_upper name in
      if n = ''JAVA'' then LANG_JAVA
      else if n = ''CPP'' then LANG_CPP
      else if n = ''DOTNET'' then LANG_DOTNET
      else if n = ''PYTHON'' then LANG_PYTHON
      else if n = ''DELPHI'' then LANG_DELPHI
      else if n = ''ERLANG'' then LANG_ERLANG
      else if n = ''RUBY'' then LANG_RUBY
      else if n = ''HTTP'' then LANG_HTTP
      else if n = ''GO'' then LANG_GO
      else if n = ''PHP'' then LANG_PHP
      else if n = ''OMS'' then LANG_OMS
      else if n = ''RUST'' then LANG_RUST
      else if n = ''NODEJS'' \<or> n = ''NODE_JS'' then LANG_NODE_JS
      else LANG_OTHER)"

section \<open>Making commands\<close>

definition REMOTING_VERSION_KEY :: string where
  "REMOTING_VERSION_KEY = ''rocketmq.remoting.version''"

definition CURRENT_VERSION :: i32 where "CURRENT_VERSION = 515"

text \<open>\<open>fetch_add\<close> wraps around.\<close>

definition next_opaque :: "i32 \<Rightarrow> i32 \<times> i32" where
  "next_opaque request_id = (request_id, request_id + 1)"

type_synonym env = "string \<Rightarrow> string option"

definition command_new :: "env \<Rightarrow> i32 \<Rightarrow> remoting_command \<times> i32" where
  "command_new env request_id =
     (let (opaque, request_id) = next_opaque request_id in
      (\<lparr>c_code = 0, c_language = LANG_RUST, c_version = 0, c_opaque = opaque, c_flag = 0, c_remark = None,
        c_serialize_type = serialize_type_from_env env, c_body = None, c_ext_fields = ext_new,
        c_custom_header = None\<rparr>, request_id))"

definition set_cmd_version :: "env \<Rightarrow> remoting_command \<Rightarrow> remoting_command" where
  "set_cmd_version env cmd =
     (let raw = (case env REMOTING_VERSION_KEY of Some v \<Rightarrow> Some v | None \<Rightarrow> env ''ROCKETMQ_REMOTING_VERSION'')
      in cmd\<lparr>c_version := (case Option.bind raw (\<lambda>v. parse_i32 (str_trim v)) of
            Some v \<Rightarrow> v | None \<Rightarrow> CURRENT_VERSION)\<rparr>)"

definition RPC_TYPE :: nat where "RPC_TYPE = 0"
definition RPC_ONEWAY :: nat where "RPC_ONEWAY = 1"

definition mark_response_type :: "remoting_command \<Rightarrow> remoting_command" where
  "mark_response_type cmd = cmd\<lparr>c_flag := c_flag cmd OR push_bit RPC_TYPE 1\<rparr>"

definition is_response_type :: "remoting_command \<Rightarrow> bool" where
  "is_response_type cmd \<longleftrightarrow> c_flag cmd AND push_bit RPC_TYPE 1 \<noteq> 0"

definition mark_oneway_rpc :: "remoting_command \<Rightarrow> remoting_command" where
  "mark_oneway_rpc cmd = cmd\<lparr>c_flag := c_flag cmd OR push_bit RPC_ONEWAY 1\<rparr>"

definition is_oneway_rpc :: "remoting_command \<Rightarrow> bool" where
  "is_oneway_rpc cmd \<longleftrightarrow> c_flag cmd AND push_bit RPC_ONEWAY 1 \<noteq> 0"

definition command_type :: "remoting_command \<Rightarrow> string" where
  "command_type cmd = (if is_response_type cmd then ''RESPONSE_COMMAND'' else ''REQUEST_COMMAND'')"

definition create_request_command ::
  "env \<Rightarrow> i32 \<Rightarrow> (ext_fields \<Rightarrow> ext_fields) option \<Rightarrow> i32 \<Rightarrow> remoting_command \<times> i32" where
  "create_request_command env code header request_id =
     (let (cmd, request_id) = command_new env request_id in
      (set_cmd_version env (cmd\<lparr>c_code := code, c_custom_header := header\<rparr>), request_id))"

definition create_response_command_with_header ::
  "env \<Rightarrow> i32 \<Rightarrow> (ext_fields \<Rightarrow> ext_fields) option \<Rightarrow> i32 \<Rightarrow> remoting_command \<times> i32" where
  "create_response_command_with_header env code header request_id =
     (let (cmd, request_id) = command_new env request_id in
      (set_cmd_version env (mark_response_type (cmd\<lparr>c_code := code, c_custom_header := header\<rparr>)), request_id))"

definition create_response :: "env \<Rightarrow> i32 \<Rightarrow> string option \<Rightarrow> i32 \<Rightarrow> remoting_command \<times> i32" where
  "create_response env code remark request_id =
     (let (cmd, request_id) = command_new env request_id in
      (set_cmd_version env (mark_response_type (cmd\<lparr>c_code := code, c_remark := remark\<rparr>)), request_id))"

definition build_error_response :: "env \<Rightarrow> i32 \<Rightarrow> string \<Rightarrow> i32 \<Rightarrow> remoting_command \<times> i32" where
  "build_error_response env code remark request_id = create_response env code (Some remark) request_id"

definition add_ext_field :: "string \<Rightarrow> string \<Rightarrow> remoting_command \<Rightarrow> remoting_command" where
  "add_ext_field key value cmd = cmd\<lparr>c_ext_fields := ext_insert key value (c_ext_fields cmd)\<rparr>"

definition get_ext_field :: "remoting_command \<Rightarrow> string \<Rightarrow> string option" where
  "get_ext_field cmd key = ext_get (c_ext_fields cmd) key"

definition make_custom_header_to_net :: "remoting_command \<Rightarrow> remoting_command" where
  "make_custom_header_to_net cmd = (case c_custom_header cmd of
     None \<Rightarrow> cmd
   | Some to_ext_fields \<Rightarrow>
       cmd\<lparr>c_ext_fields := fold (\<lambda>(k, v). ext_insert k v) (to_ext_fields ext_new) (c_ext_fields cmd)\<rparr>)"

definition decode_ext_field :: "(string \<Rightarrow> 'a option) \<Rightarrow> remoting_command \<Rightarrow> string \<Rightarrow> 'a option result" where
  "decode_ext_field parse cmd key = (case ext_get (c_ext_fields cmd) key of
     None \<Rightarrow> Inr None
   | Some raw \<Rightarrow> (case parse raw of
       None \<Rightarrow> fail (Decode (''extField '' @ key @ ''='' @ str_debug raw @ '' invalid: ''))
     | Some v \<Rightarrow> Inr (Some v)))"

section \<open>The JSON header\<close>

definition json_of_i32 :: "i32 \<Rightarrow> json" where
  "json_of_i32 v = JNumber (number_of_i64 (scast v))"

definition to_json_value :: "remoting_command \<Rightarrow> json" where
  "to_json_value cmd =
     (let m = json_insert ''code'' (json_of_i32 (c_code cmd)) [];
          m = json_insert ''language'' (json_of_i32 (c_language cmd)) m;
          m = json_insert ''version'' (json_of_i32 (c_version cmd)) m;
          m = json_insert ''opaque'' (json_of_i32 (c_opaque cmd)) m;
          m = json_insert ''flag'' (json_of_i32 (c_flag cmd)) m;
          m = (case c_remark cmd of None \<Rightarrow> m | Some remark \<Rightarrow> json_insert ''remark'' (JString remark) m);
          m = (if c_ext_fields cmd = [] then m else json_insert ''extFields'' (ext_to_json (c_ext_fields cmd)) m)
      in JObject m)"

definition json_encode :: "(json \<Rightarrow> bytes option) \<Rightarrow> json \<Rightarrow> bytes" where
  "json_encode to_vec value =
     (if value = JNull then [] else (case to_vec value of None \<Rightarrow> [] | Some bs \<Rightarrow> bs))"

definition number_as_i32 :: "json \<Rightarrow> i32 option" where
  "number_as_i32 value = (case value of
     JNumber n \<Rightarrow> (case number_as_i64 n of
        Some v \<Rightarrow> Some (ucast v)
      | None \<Rightarrow> Some (f64_as_i32 (number_as_f64 n)))
   | JString s \<Rightarrow> parse_i32 (str_trim s)
   | _ \<Rightarrow> None)"

definition json_i32 :: "json \<Rightarrow> string \<Rightarrow> i32 \<Rightarrow> i32" where
  "json_i32 value key dflt =
     (case Option.bind (json_get value key) number_as_i32 of None \<Rightarrow> dflt | Some v \<Rightarrow> v)"

definition json_language :: "json \<Rightarrow> i32" where
  "json_language value = (case json_get value ''language'' of
     Some (JString s) \<Rightarrow> name_to_code s
   | Some v \<Rightarrow> (case number_as_i32 v of Some n \<Rightarrow> n | None \<Rightarrow> LANG_RUST)
   | None \<Rightarrow> LANG_RUST)"

section \<open>Frames\<close>

definition header_encode :: "(json \<Rightarrow> bytes option) \<Rightarrow> remoting_command \<Rightarrow> bytes \<times> remoting_command" where
  "header_encode to_vec cmd =
     (let cmd = make_custom_header_to_net cmd in
      (if c_serialize_type cmd = SERIALIZE_ROCKETMQ then rocket_mq_protocol_encode cmd
       else json_encode to_vec (to_json_value cmd), cmd))"

definition body_bytes :: "remoting_command \<Rightarrow> bytes" where
  "body_bytes cmd = (case c_body cmd of None \<Rightarrow> [] | Some b \<Rightarrow> b)"

definition command_encode :: "(json \<Rightarrow> bytes option) \<Rightarrow> remoting_command \<Rightarrow> bytes \<times> remoting_command" where
  "command_encode to_vec cmd =
     (let (header_data, cmd) = header_encode to_vec cmd;
          header_len = length header_data;
          total_len = 4 + header_len + length (body_bytes cmd);
          out = to_be_bytes (of_nat total_len :: i32);
          out = out @ to_be_bytes (mark_protocol_type (of_nat header_len) (c_serialize_type cmd));
          out = out @ header_data
      in (out @ body_bytes cmd, cmd))"

definition encode_header ::
  "(json \<Rightarrow> bytes option) \<Rightarrow> remoting_command \<Rightarrow> nat \<Rightarrow> bytes \<times> remoting_command" where
  "encode_header to_vec cmd body_length =
     (let (header_data, cmd) = header_encode to_vec cmd;
          header_len = length header_data;
          total_len = 4 + header_len + body_length;
          out = to_be_bytes (of_nat total_len :: i32);
          out = out @ to_be_bytes (mark_protocol_type (of_nat header_len) (c_serialize_type cmd))
      in (out @ header_data, cmd))"

text \<open>The frame up to the construction of the command: header format, header bytes, and the rest as body.\<close>

definition reader_frame :: "(i32 \<times> bytes \<times> bytes option) reader_m" where
  "reader_frame =
     r_bind reader_i32 (\<lambda>total_length r.
     if of_nat (length (r_data r)) - 4 <s total_length
     then fail (RemotingCommand (''decode error, bad total length: '' @ show_signed total_length))
     else r_bind reader_i32 (\<lambda>ori_header_len r.
       let header_length = header_length_of ori_header_len in
       if of_nat (reader_remaining r) <s header_length
       then fail (RemotingCommand (''decode error, bad header length: '' @ show_signed header_length))
       else r_bind (reader_bytes (as_usize header_length)) (\<lambda>header_data r.
         let rest = drop (r_pos r) (r_data r) in
         Inr ((protocol_type_of ori_header_len, header_data, if rest = [] then None else Some rest), r)) r) r)"

definition command_decode ::
  "(json \<Rightarrow> string) \<Rightarrow> env \<Rightarrow> bytes \<Rightarrow> i32 \<Rightarrow> (remoting_command result \<times> i32) option" where
  "command_decode to_string env data request_id = (case run_reader reader_frame data of
     Inl e \<Rightarrow> Some (Inl e, request_id)
   | Inr (protocol_type, header_data, body) \<Rightarrow>
       (let (cmd, request_id) = command_new env request_id;
            cmd = cmd\<lparr>c_code := 0, c_opaque := - 1, c_remark := None, c_flag := 0, c_version := 0,
                      c_body := body, c_ext_fields := ext_new\<rparr>
        in if protocol_type = SERIALIZE_ROCKETMQ then
             (case rocket_mq_protocol_decode header_data of
                Inl e \<Rightarrow> Some (Inl e, request_id)
              | Inr header \<Rightarrow> Some (Inr (cmd\<lparr>c_code := h_code header, c_language := h_language header,
                    c_version := h_version header, c_opaque := h_opaque header, c_flag := h_flag header,
                    c_remark := h_remark header, c_ext_fields := h_ext_fields header,
                    c_serialize_type := protocol_type\<rparr>), request_id))
           else
             (case json_decode header_data of
                None \<Rightarrow> None
              | Some (Inl e) \<Rightarrow> Some (Inl e, request_id)
              | Some (Inr value) \<Rightarrow>
                  Some (Inr (cmd\<lparr>c_code := json_i32 value ''code'' 0, c_language := json_language value,
                    c_version := json_i32 value ''version'' 0, c_opaque := json_i32 value ''opaque'' (- 1),
                    c_flag := json_i32 value ''flag'' 0,
                    c_remark := Option.bind (json_get value ''remark'') json_as_str,
                    c_ext_fields := (case json_get value ''extFields'' of
                       Some ext \<Rightarrow> ext_from_json to_string ext | None \<Rightarrow> c_ext_fields cmd),
                    c_serialize_type := protocol_type\<rparr>), request_id))))"

section \<open>What a frame carries\<close>

text \<open>The command the peer sees: the custom header has become extension fields, an empty body is no body.\<close>

definition received :: "remoting_command \<Rightarrow> remoting_command" where
  "received cmd = cmd\<lparr>c_custom_header := None,
     c_body := (if body_bytes cmd = [] then None else Some (body_bytes cmd))\<rparr>"

definition narrowed :: "remoting_command \<Rightarrow> remoting_command" where
  "narrowed cmd = cmd\<lparr>c_code := c_code cmd AND 0xFFFF, c_language := c_language cmd AND 0xFF,
     c_version := c_version cmd AND 0xFFFF, c_remark := nonempty_str (c_remark cmd),
     c_ext_fields := carried (c_ext_fields cmd)\<rparr>"

lemma header_encode_state [simp]: "snd (header_encode to_vec cmd) = make_custom_header_to_net cmd"
  by (simp add: header_encode_def Let_def)

lemma make_custom_header_idle [simp]:
  "c_serialize_type (make_custom_header_to_net cmd) = c_serialize_type cmd"
  "body_bytes (make_custom_header_to_net cmd) = body_bytes cmd"
  by (simp_all add: make_custom_header_to_net_def body_bytes_def split: option.split)

lemma command_encode_bytes:
  assumes "header_encode to_vec cmd = (h, cmd')"
  shows "command_encode to_vec cmd =
    (to_be_bytes (of_nat (4 + length h + length (body_bytes cmd)) :: i32)
     @ to_be_bytes (mark_protocol_type (of_nat (length h)) (c_serialize_type cmd)) @ h @ body_bytes cmd, cmd')"
proof -
  have "cmd' = make_custom_header_to_net cmd"
    using header_encode_state [of to_vec cmd] assms by simp
  then show ?thesis
    by (simp add: command_encode_def assms Let_def)
qed

lemma reader_frame_step:
  fixes N M L :: i32
  assumes "\<not> of_nat (8 + length (h @ body)) - 4 <s N" and "header_length_of M = L"
    and "\<not> of_nat (length (h @ body)) <s L" and "as_usize L = length h"
  shows "run_reader reader_frame (to_be_bytes N @ to_be_bytes M @ h @ body) =
    Inr (protocol_type_of M, h, if body = [] then None else Some body)"
  using assms(1,3) unfolding run_reader_at reader_frame_def
  by (simp add: fi32.bind_dec_enc assms(2,4) reader_bytes_def r_bind_take Let_def)

lemma reader_frame_at:
  fixes h body :: bytes and t :: i32
  assumes "length h < 2 ^ 24" and "4 + length h + length body < 2 ^ 31"
  shows "run_reader reader_frame (to_be_bytes (of_nat (4 + length h + length body) :: i32)
      @ to_be_bytes (mark_protocol_type (of_nat (length h)) t) @ h @ body) =
    Inr (t AND 0xFF, h, if body = [] then None else Some body)"
proof -
  let ?n = "4 + length h + length body"
  have "\<not> of_nat (8 + length (h @ body)) - 4 <s (of_nat ?n :: i32)"
    by (simp add: word_sless_alt add.assoc)
  moreover have "header_length_of (mark_protocol_type (of_nat (length h)) t) = of_nat (length h)"
    using assms(1) by (simp add: length_word length_word_value)
  moreover have "\<not> (of_nat (length (h @ body)) :: i32) <s of_nat (length h)"
    using assms sint_of_nat_small [of "length h + length body", where ?'a = 32]
      sint_of_nat_small [of "length h", where ?'a = 32]
    by (simp add: word_sless_alt)
  moreover have "as_usize (of_nat (length h) :: i32) = length h"
    using assms(1) by (simp add: as_usize_of_nat)
  ultimately show ?thesis
    unfolding length_word(1) [symmetric, of t "of_nat (length h)"] by (rule reader_frame_step)
qed

lemma binary_decode_frame:
  assumes "c_serialize_type cmd = SERIALIZE_ROCKETMQ" and "header_ok (make_custom_header_to_net cmd)"
    and "command_encode to_vec cmd = (raw, cmd')" and "length raw < 2 ^ 24"
  shows "command_decode to_string env raw ctr = Some (Inr (narrowed (received cmd')), ctr + 1)"
proof -
  define h where "h = rocket_mq_protocol_encode (make_custom_header_to_net cmd)"
  have enc: "header_encode to_vec cmd = (h, make_custom_header_to_net cmd)"
    using assms(1) by (simp add: header_encode_def Let_def h_def)
  have cmd': "cmd' = make_custom_header_to_net cmd"
    and raw: "raw = to_be_bytes (of_nat (4 + length h + length (body_bytes cmd)) :: i32)
      @ to_be_bytes (mark_protocol_type (of_nat (length h)) SERIALIZE_ROCKETMQ) @ h @ body_bytes cmd"
    using assms(1,3) command_encode_bytes [OF enc] by simp_all
  have len: "length h < 2 ^ 24" "4 + length h + length (body_bytes cmd) < 2 ^ 31"
    using assms(4) raw by simp_all
  have ty: "SERIALIZE_ROCKETMQ AND 0xFF = SERIALIZE_ROCKETMQ"
    by (simp add: SERIALIZE_ROCKETMQ_def)
  have dec: "rocket_mq_protocol_decode h = Inr (header_view cmd')"
    unfolding h_def cmd' by (rule protocol_decode_encode [OF assms(2)])
  have "c_serialize_type cmd' = SERIALIZE_ROCKETMQ" "body_bytes cmd' = body_bytes cmd"
    using assms(1) by (simp_all add: cmd')
  then show ?thesis
    unfolding command_decode_def raw reader_frame_at [OF len] ty
    by (simp add: dec command_new_def next_opaque_def header_view_def narrowed_def received_def)
qed

section \<open>The JSON header reads back\<close>

definition json_header_ok :: "remoting_command \<Rightarrow> bool" where
  "json_header_ok cmd \<longleftrightarrow> (case c_remark cmd of None \<Rightarrow> True | Some r \<Rightarrow> is_str r)
     \<and> ext_inv (c_ext_fields cmd) \<and> list_all (\<lambda>(k, v). is_str k \<and> is_str v) (c_ext_fields cmd)"

lemma to_json_value_entries:
  "to_json_value cmd = JObject
     ([(''code'', json_of_i32 (c_code cmd)), (''language'', json_of_i32 (c_language cmd)),
       (''version'', json_of_i32 (c_version cmd)), (''opaque'', json_of_i32 (c_opaque cmd)),
       (''flag'', json_of_i32 (c_flag cmd))]
      @ (case c_remark cmd of None \<Rightarrow> [] | Some r \<Rightarrow> [(''remark'', JString r)])
      @ (if c_ext_fields cmd = [] then [] else [(''extFields'', ext_to_json (c_ext_fields cmd))]))"
  by (simp add: to_json_value_def split: option.split)

lemma json_ok_i32 [simp]: "json_ok (json_of_i32 v)"
  by (simp add: json_of_i32_def number_of_i64_def)

lemma json_ok_ext:
  assumes "ext_inv m" and "list_all (\<lambda>(k, v). is_str k \<and> is_str v) m"
  shows "json_ok (ext_to_json m)"
proof -
  have keys: "map (fst \<circ> (\<lambda>(k, v). (k, JString v))) m = map fst m"
    by auto
  show ?thesis
    using assms by (simp add: ext_to_json_entries ext_inv_def keys) (auto simp: list_all_iff)
qed

lemma json_ok_command: "json_header_ok cmd \<Longrightarrow> json_ok (to_json_value cmd)"
  by (auto simp: to_json_value_entries json_header_ok_def json_ok_ext is_str_Cons_ascii char_byte_def
      split: option.split)

lemma number_of_i64_back [simp]: "number_as_i64 (number_of_i64 w) = Some w"
proof -
  have "unat w < 2 ^ 63" if "0 \<le> sint w"
  proof -
    have "sint w < 2 ^ 63"
      using sint_lt [of w] by simp
    moreover have "int (unat w) = sint w"
      using that \<open>sint w < 2 ^ 63\<close> uint_sint [of w] by (simp add: take_bit_int_eq_self)
    ultimately have "int (unat w) < int (2 ^ 63)"
      by (simp only: of_nat_power of_nat_numeral)
    then show ?thesis by (simp only: of_nat_less_iff)
  qed
  then show ?thesis
    by (auto simp: number_of_i64_def word_sless_alt)
qed

lemma number_as_json_i32 [simp]: "number_as_i32 (json_of_i32 v) = Some v"
proof -
  have "ucast (scast v :: i64) = v"
    by (rule bit_word_eqI) (auto simp: bit_simps)
  then show ?thesis
    by (simp add: number_as_i32_def json_of_i32_def)
qed

lemma json_language_i32:
  assumes "json_get value ''language'' = Some (json_of_i32 v)"
  shows "json_language value = v"
proof -
  obtain n where "json_of_i32 v = JNumber n" "number_as_i32 (JNumber n) = Some v"
    using number_as_json_i32 [of v] by (auto simp: json_of_i32_def)
  with assms show ?thesis by (simp add: json_language_def)
qed

lemma json_fields:
  "json_i32 (to_json_value cmd) ''code'' d = c_code cmd"
  "json_language (to_json_value cmd) = c_language cmd"
  "json_i32 (to_json_value cmd) ''version'' d = c_version cmd"
  "json_i32 (to_json_value cmd) ''opaque'' d = c_opaque cmd"
  "json_i32 (to_json_value cmd) ''flag'' d = c_flag cmd"
  "Option.bind (json_get (to_json_value cmd) ''remark'') json_as_str = c_remark cmd"
  "json_get (to_json_value cmd) ''extFields'' =
     (if c_ext_fields cmd = [] then None else Some (ext_to_json (c_ext_fields cmd)))"
  by (simp_all add: to_json_value_entries json_i32_def json_language_i32 split: option.split)

lemma json_decode_frame:
  assumes "c_serialize_type cmd = SERIALIZE_JSON" and "json_header_ok (make_custom_header_to_net cmd)"
    and "\<And>v. json_ok v \<Longrightarrow> to_vec v = Some (json_text v)"
    and "command_encode to_vec cmd = (raw, cmd')" and "length raw < 2 ^ 24"
  shows "command_decode to_string env raw ctr = Some (Inr (received cmd'), ctr + 1)"
proof -
  define h where "h = json_text (to_json_value (make_custom_header_to_net cmd))"
  have ok: "json_ok (to_json_value (make_custom_header_to_net cmd))"
    by (rule json_ok_command [OF assms(2)])
  have enc: "header_encode to_vec cmd = (h, make_custom_header_to_net cmd)"
    using assms(1) assms(3) [OF ok]
    by (simp add: header_encode_def Let_def h_def json_encode_def SERIALIZE_JSON_def SERIALIZE_ROCKETMQ_def
        to_json_value_entries)
  have cmd': "cmd' = make_custom_header_to_net cmd"
    and raw: "raw = to_be_bytes (of_nat (4 + length h + length (body_bytes cmd)) :: i32)
      @ to_be_bytes (mark_protocol_type (of_nat (length h)) SERIALIZE_JSON) @ h @ body_bytes cmd"
    using assms(1,4) command_encode_bytes [OF enc] by simp_all
  have len: "length h < 2 ^ 24" "4 + length h + length (body_bytes cmd) < 2 ^ 31"
    using assms(5) raw by simp_all
  have ty: "SERIALIZE_JSON AND 0xFF = SERIALIZE_JSON" "SERIALIZE_JSON \<noteq> SERIALIZE_ROCKETMQ"
    by (simp_all add: SERIALIZE_JSON_def SERIALIZE_ROCKETMQ_def)
  have dec: "json_decode h = Some (Inr (to_json_value cmd'))"
    using json_decode_text [OF ok] by (simp add: h_def cmd')
  have ext: "(case json_get (to_json_value cmd') ''extFields'' of
      Some ext \<Rightarrow> ext_from_json to_string ext | None \<Rightarrow> ext_new) = c_ext_fields cmd'"
    using assms(2) ext_from_to_json [of "c_ext_fields cmd'" to_string]
    by (simp add: json_fields cmd' json_header_ok_def ext_new_def)
  have "c_serialize_type cmd' = SERIALIZE_JSON" "body_bytes cmd' = body_bytes cmd"
    using assms(1) by (simp_all add: cmd')
  then show ?thesis
    unfolding command_decode_def raw reader_frame_at [OF len] ty
    using ext by (cases "json_get (to_json_value cmd') ''extFields''")
      (simp_all add: dec ty command_new_def next_opaque_def received_def json_fields(1-6))
qed

section \<open>Decoding always returns\<close>

lemma command_decode_returns: "command_decode to_string env data ctr \<noteq> None"
proof -
  have "\<exists>v. json_decode h = Some v" for h
    using from_str_returns by (auto simp: json_decode_def returns_def split: option.split)
  then have "json_decode h = Some (the (json_decode h))" for h
    by (metis option.sel)
  then show ?thesis
    unfolding command_decode_def Let_def
    by (auto split: sum.splits prod.splits option.splits) (metis option.distinct(1))+
qed

section \<open>Properties\<close>

text \<open>
  C1. A command sent with the binary header is received as it was sent, up to what the format can carry: the
  custom header has become extension fields, 16 bits of the code and the version and 8 of the language remain,
  and a remark, a body or an extension field that is empty is absent.
\<close>
theorem binary_command_round_trip:
  assumes "c_serialize_type cmd = SERIALIZE_ROCKETMQ" and "header_ok (make_custom_header_to_net cmd)"
    and "command_encode to_vec cmd = (raw, cmd')" and "length raw < 2 ^ 24"
  shows "command_decode to_string env raw ctr = Some (Inr (narrowed (received cmd')), ctr + 1)"
  by (rule binary_decode_frame [OF assms])

definition sample_command :: remoting_command where
  "sample_command = (fst (create_request_command (\<lambda>_. None) 105 (Some (ext_insert ''topic'' ''T'')) 7))
     \<lparr>c_serialize_type := SERIALIZE_ROCKETMQ, c_body := Some [1, 2]\<rparr>"

lemma sample_command_net: "make_custom_header_to_net sample_command =
    sample_command\<lparr>c_ext_fields := [(''topic'', ''T'')]\<rparr>"
  by (simp add: sample_command_def create_request_command_def command_new_def next_opaque_def
      set_cmd_version_def make_custom_header_to_net_def ext_new_def)

lemma sample_command_ok: "header_ok (make_custom_header_to_net sample_command)"
  unfolding sample_command_net
  by (simp add: header_ok_def sample_command_def create_request_command_def command_new_def next_opaque_def
      set_cmd_version_def remark_ok_def ext_inv_def entry_ok_def entry_bytes_def string_field_def
      is_str_Cons_ascii char_byte_def)

lemma sample_command_raw:
  "\<exists>raw. command_encode to_vec sample_command = (raw, sample_command\<lparr>c_ext_fields := [(''topic'', ''T'')]\<rparr>)
     \<and> length raw < 2 ^ 24"
proof -
  have enc: "header_encode to_vec sample_command =
      (rocket_mq_protocol_encode (make_custom_header_to_net sample_command), make_custom_header_to_net sample_command)"
    by (simp add: header_encode_def sample_command_def Let_def)
  have "length (rocket_mq_protocol_encode (make_custom_header_to_net sample_command)) < 100"
    unfolding encode_length sample_command_net
    by (simp add: cal_total_len_def map_serialize_entries sample_command_def create_request_command_def
        command_new_def next_opaque_def set_cmd_version_def entry_bytes_def string_field_def)
  moreover have "length (body_bytes sample_command) = 2"
    by (simp add: body_bytes_def sample_command_def)
  ultimately show ?thesis
    by (simp add: command_encode_bytes [OF enc] sample_command_net)
qed

theorem binary_command_round_trip_witness:
  "\<exists>raw. command_encode (\<lambda>_. None) sample_command = (raw, sample_command\<lparr>c_ext_fields := [(''topic'', ''T'')]\<rparr>)
     \<and> command_decode (\<lambda>_. []) (\<lambda>_. None) raw 8 =
         Some (Inr (narrowed (received (sample_command\<lparr>c_ext_fields := [(''topic'', ''T'')]\<rparr>))), 9)"
proof -
  obtain raw where raw: "command_encode (\<lambda>_. None) sample_command =
      (raw, sample_command\<lparr>c_ext_fields := [(''topic'', ''T'')]\<rparr>)" "length raw < 2 ^ 24"
    using sample_command_raw by blast
  have "c_serialize_type sample_command = SERIALIZE_ROCKETMQ"
    by (simp add: sample_command_def)
  from binary_command_round_trip [OF this sample_command_ok raw, of "\<lambda>_. []" "\<lambda>_. None" 8] raw(1)
  show ?thesis by simp
qed

text \<open>
  C2. A command sent with the JSON header is received exactly as it was sent, when \<open>serde_json\<close> prints the
  compact text of a value: the custom header has become extension fields and an empty body is absent.
\<close>
theorem json_command_round_trip:
  assumes "c_serialize_type cmd = SERIALIZE_JSON" and "json_header_ok (make_custom_header_to_net cmd)"
    and "\<And>v. json_ok v \<Longrightarrow> to_vec v = Some (json_text v)"
    and "command_encode to_vec cmd = (raw, cmd')" and "length raw < 2 ^ 24"
  shows "command_decode to_string env raw ctr = Some (Inr (received cmd'), ctr + 1)"
  by (rule json_decode_frame [OF assms])

definition sample_json_command :: remoting_command where
  "sample_json_command = \<lparr>c_code = 10, c_language = LANG_RUST, c_version = 515, c_opaque = - 3, c_flag = 1,
     c_remark = Some ''ok'', c_serialize_type = SERIALIZE_JSON, c_body = None,
     c_ext_fields = [(''k'', [])], c_custom_header = None\<rparr>"

lemma sample_json_header: "header_encode to_vec sample_json_command =
    (json_encode to_vec (to_json_value sample_json_command), sample_json_command)"
  by (simp add: header_encode_def sample_json_command_def make_custom_header_to_net_def SERIALIZE_JSON_def
      SERIALIZE_ROCKETMQ_def Let_def)

lemma sample_json_length: "length (json_text (to_json_value sample_json_command)) < 200"
  by code_simp

theorem json_command_round_trip_witness:
  "command_decode (\<lambda>_. []) (\<lambda>_. None) (fst (command_encode (\<lambda>v. Some (json_text v)) sample_json_command)) 0 =
     Some (Inr sample_json_command, 1)"
proof -
  let ?to_vec = "\<lambda>v. Some (json_text v)"
  have raw: "command_encode ?to_vec sample_json_command =
      (fst (command_encode ?to_vec sample_json_command), sample_json_command)"
    by (simp add: command_encode_bytes [OF sample_json_header])
  have len: "length (fst (command_encode ?to_vec sample_json_command)) < 2 ^ 24"
    using sample_json_length
    by (simp add: command_encode_bytes [OF sample_json_header] json_encode_def body_bytes_def)
      (simp add: sample_json_command_def)
  have ok: "json_header_ok (make_custom_header_to_net sample_json_command)"
    by (simp add: sample_json_command_def make_custom_header_to_net_def json_header_ok_def ext_inv_def
        is_str_Cons_ascii char_byte_def)
  have "c_serialize_type sample_json_command = SERIALIZE_JSON"
      "received sample_json_command = sample_json_command"
    by (simp_all add: sample_json_command_def received_def body_bytes_def)
  then show ?thesis
    using json_command_round_trip [OF _ ok _ raw len, of "\<lambda>_. []" "\<lambda>_. None" 0] by simp
qed

text \<open>
  A frame written in two parts, the header announcing the length of the body and then the body, is the frame
  written in one.
\<close>
theorem encode_header_then_body:
  "fst (encode_header to_vec cmd (length (body_bytes cmd))) @ body_bytes cmd = fst (command_encode to_vec cmd)
     \<and> snd (encode_header to_vec cmd n) = snd (command_encode to_vec cmd)"
proof -
  obtain h where "header_encode to_vec cmd = (h, make_custom_header_to_net cmd)"
    by (metis header_encode_state prod.collapse)
  then show ?thesis
    by (simp add: encode_header_def command_encode_def Let_def)
qed

text \<open>
  Decoding a frame returns, with a command or an error, on every byte string.
\<close>
theorem command_decode_terminates: "\<exists>r. command_decode to_string env data ctr = Some r"
  using command_decode_returns by blast

text \<open>
  The binary header decoder never panics, and the length the encoder announces for its buffer is the length
  it writes, so the assertion at its end holds.
\<close>
theorem binary_header_safe:
  "no_panic (rocket_mq_protocol_decode header)
     \<and> length (rocket_mq_protocol_encode cmd) = cal_total_len (c_remark cmd) (map_serialize (c_ext_fields cmd))"
  by (simp add: protocol_decode_no_panic encode_length)

definition hostile_header :: bytes where
  "hostile_header = str_bytes ''{'' @ [QUOTE] @ str_bytes ''remark'' @ [QUOTE] @ str_bytes '':'' @ str_bytes truncated_pair"

definition hostile_frame :: bytes where
  "hostile_frame = to_be_bytes (23 :: i32) @ to_be_bytes (19 :: i32) @ hostile_header"


fun take_opaques :: "nat \<Rightarrow> i32 \<Rightarrow> i32 list" where
  "take_opaques 0 request_id = []"
| "take_opaques (Suc n) request_id =
     (let (opaque, request_id) = next_opaque request_id in opaque # take_opaques n request_id)"

lemma take_opaques_nth: "take_opaques n c = map (\<lambda>i. c + of_nat i) [0..<n]"
proof (induction n arbitrary: c)
  case (Suc n)
  then show ?case
    by (simp add: next_opaque_def upt_conv_Cons map_Suc_upt [symmetric] ac_simps del: upt_Suc)
qed simp

text \<open>
  Request ids wrap around but do not repeat: any \<open>2 ^ 32\<close> successive commands have pairwise different ids,
  and the next one has the id of the first again.
\<close>
theorem opaque_distinct:
  "(distinct (take_opaques n c) \<longleftrightarrow> n \<le> 2 ^ 32) \<and> c + of_nat (2 ^ 32) = (c :: i32)"
proof -
  have inj: "inj_on (\<lambda>i. c + of_nat i :: i32) {0..<n}" if "n \<le> 2 ^ 32"
  proof (rule inj_onI)
    fix i j
    assume "i \<in> {0..<n}" "j \<in> {0..<n}" "c + of_nat i = c + (of_nat j :: i32)"
    then have "unat (of_nat i :: i32) = unat (of_nat j :: i32)" "i < 2 ^ 32" "j < 2 ^ 32"
      using that by auto
    then show "i = j" by (simp add: unat_of_nat)
  qed
  have wrap: "(of_nat (2 ^ 32) :: i32) = 0"
    by simp
  have "\<not> inj_on (\<lambda>i. c + of_nat i :: i32) {0..<n}" if "2 ^ 32 < n"
  proof
    assume "inj_on (\<lambda>i. c + of_nat i :: i32) {0..<n}"
    then have "(2 :: nat) ^ 32 = 0"
      using that wrap by (elim inj_onD) auto
    then show False by simp
  qed
  then show ?thesis
    using inj wrap by (auto simp: take_opaques_nth distinct_map simp flip: not_less)
qed

end
