(* ===== verification/Consistent_Hash.thy ===== *)
theory Consistent_Hash
  imports Rmq_Error
begin

text \<open>
  The consistent-hash ring of \<open>src/rust/src/common/consistent_hash.rs\<close> with its MD5 routine. The ring, a
  \<open>BTreeMap\<close> from hash to virtual node, is the list of its entries in ascending key order; a node is its key,
  since the only implementation of \<open>Node\<close> is \<open>ClientNode\<close> and \<open>shared_node_of\<close> rebuilds every node from its
  key. The hash function is an argument, as it is in the code.
\<close>

section \<open>MD5\<close>

definition MD5_SHIFTS :: "nat list" where
  "MD5_SHIFTS =
    [7, 12, 17, 22, 7, 12, 17, 22, 7, 12, 17, 22, 7, 12, 17, 22,
     5, 9, 14, 20, 5, 9, 14, 20, 5, 9, 14, 20, 5, 9, 14, 20,
     4, 11, 16, 23, 4, 11, 16, 23, 4, 11, 16, 23, 4, 11, 16, 23,
     6, 10, 15, 21, 6, 10, 15, 21, 6, 10, 15, 21, 6, 10, 15, 21]"

definition MD5_K :: "u32 list" where
  "MD5_K =
    [0xd76aa478, 0xe8c7b756, 0x242070db, 0xc1bdceee,
     0xf57c0faf, 0x4787c62a, 0xa8304613, 0xfd469501,
     0x698098d8, 0x8b44f7af, 0xffff5bb1, 0x895cd7be,
     0x6b901122, 0xfd987193, 0xa679438e, 0x49b40821,
     0xf61e2562, 0xc040b340, 0x265e5a51, 0xe9b6c7aa,
     0xd62f105d, 0x02441453, 0xd8a1e681, 0xe7d3fbc8,
     0x21e1cde6, 0xc33707d6, 0xf4d50d87, 0x455a14ed,
     0xa9e3e905, 0xfcefa3f8, 0x676f02d9, 0x8d2a4c8a,
     0xfffa3942, 0x8771f681, 0x6d9d6122, 0xfde5380c,
     0xa4beea44, 0x4bdecfa9, 0xf6bb4b60, 0xbebfbc70,
     0x289b7ec6, 0xeaa127fa, 0xd4ef3085, 0x04881d05,
     0xd9d4d039, 0xe6db99e5, 0x1fa27cf8, 0xc4ac5665,
     0xf4292244, 0x432aff97, 0xab9423a7, 0xfc93a039,
     0x655b59c3, 0x8f0ccc92, 0xffeff47d, 0x85845dd1,
     0x6fa87e4f, 0xfe2ce6e0, 0xa3014314, 0x4e0811a1,
     0xf7537e82, 0xbd3af235, 0x2ad7d2bb, 0xeb86d391]"

definition rotate_left :: "u32 \<Rightarrow> nat \<Rightarrow> u32" where
  "rotate_left x n = push_bit n x OR drop_bit (32 - n) x"

type_synonym md5_state = "u32 \<times> u32 \<times> u32 \<times> u32"

definition md5_f_g :: "nat \<Rightarrow> u32 \<Rightarrow> u32 \<Rightarrow> u32 \<Rightarrow> u32 \<times> nat" where
  "md5_f_g i b c d =
     (if i \<le> 15 then ((b AND c) OR (NOT b AND d), i)
      else if i \<le> 31 then ((d AND b) OR (NOT d AND c), (5 * i + 1) mod 16)
      else if i \<le> 47 then (b XOR c XOR d, (3 * i + 5) mod 16)
      else (c XOR (b OR NOT d), (7 * i) mod 16))"

definition md5_round :: "u32 list \<Rightarrow> nat \<Rightarrow> md5_state \<Rightarrow> md5_state" where
  "md5_round words i s =
     (let (a, b, c, d) = s;
          (f, g) = md5_f_g i b c d;
          nxt = f + a + MD5_K ! i + words ! g
      in (d, b + rotate_left nxt (MD5_SHIFTS ! i), b, c))"

definition md5_words :: "bytes \<Rightarrow> u32 list" where
  "md5_words block = map (\<lambda>i. let at = i * 4 in
     from_be_bytes [block ! (at + 3), block ! (at + 2), block ! (at + 1), block ! at]) [0..<16]"

definition md5_block :: "bytes \<Rightarrow> md5_state \<Rightarrow> md5_state" where
  "md5_block block state =
     (let words = md5_words block;
          (a, b, c, d) = fold (md5_round words) [0..<64] state;
          (s0, s1, s2, s3) = state
      in (s0 + a, s1 + b, s2 + c, s3 + d))"

text \<open>The number of zero bytes the padding loop pushes before the length is \<open>56\<close> modulo \<open>64\<close>.\<close>

function md5_zeros :: "bytes \<Rightarrow> bytes" where
  "md5_zeros padded = (if length padded mod 64 = 56 then padded else md5_zeros (padded @ [0]))"
  by pat_completeness auto
termination
  by (relation "measure (\<lambda>p. if length p mod 64 \<le> 56 then 56 - length p mod 64 else 120 - length p mod 64)")
    (auto simp: mod_Suc)

declare md5_zeros.simps [simp del]

definition md5_pad :: "bytes \<Rightarrow> bytes" where
  "md5_pad input =
     (let bit_len = (of_nat (length input) :: u64) * 8
      in md5_zeros (input @ [0x80]) @ rev (to_be_bytes bit_len))"

function chunks :: "nat \<Rightarrow> 'a list \<Rightarrow> 'a list list" where
  "chunks n xs = (if xs = [] \<or> n = 0 then [] else take n xs # chunks n (drop n xs))"
  by pat_completeness auto
termination
  by (relation "measure (\<lambda>(_, xs). length xs)") auto

declare chunks.simps [simp del]

definition md5 :: "bytes \<Rightarrow> bytes" where
  "md5 input =
     (let (a, b, c, d) = fold md5_block (chunks 64 (md5_pad input))
            (0x67452301, 0xefcdab89, 0x98badcfe, 0x10325476)
      in rev (to_be_bytes a) @ rev (to_be_bytes b) @ rev (to_be_bytes c) @ rev (to_be_bytes d))"

definition md5_hash :: "string \<Rightarrow> i64" where
  "md5_hash key = foldl (\<lambda>value b. push_bit 8 value OR ucast b) 0 (take 4 (md5 (str_bytes key)))"

lemma md5_zeros_length: "length (md5_zeros p) mod 64 = 56"
  by (induction p rule: md5_zeros.induct) (subst md5_zeros.simps, simp)

lemma md5_pad_blocks: "length (md5_pad input) mod 64 = 0"
  using md5_zeros_length [of "input @ [0x80]"]
  by (simp add: md5_pad_def Let_def mod_add_left_eq [symmetric])

lemma chunks_length: "n dvd length xs \<Longrightarrow> c \<in> set (chunks n xs) \<Longrightarrow> length c = n"
proof (induction n xs rule: chunks.induct)
  case (1 n xs)
  show ?case
  proof (cases "xs = [] \<or> n = 0")
    case True
    with 1 show ?thesis by (simp add: chunks.simps [of n xs])
  next
    case False
    then have "n \<le> length xs"
      using "1.prems"(1) by (simp add: dvd_imp_le)
    moreover have "n dvd length (drop n xs)"
      using "1.prems"(1) by simp
    ultimately show ?thesis
      using "1.IH" [OF False] "1.prems"(2) False by (subst (asm) chunks.simps) auto
  qed
qed

section \<open>The ring\<close>

record virtual_node =
  vn_physical :: string
  vn_replica_index :: i32

definition vn_key :: "virtual_node \<Rightarrow> string" where
  "vn_key v = vn_physical v @ ''-'' @ show_signed (vn_replica_index v)"

definition is_virtual_node_of :: "virtual_node \<Rightarrow> string \<Rightarrow> bool" where
  "is_virtual_node_of v p_node \<longleftrightarrow> vn_physical v = p_node"

type_synonym ring = "(i64 \<times> virtual_node) list"

text \<open>\<open>BTreeMap::insert\<close>: an entry with the same key is overwritten.\<close>

fun ring_insert :: "i64 \<Rightarrow> virtual_node \<Rightarrow> ring \<Rightarrow> ring" where
  "ring_insert h v [] = [(h, v)]"
| "ring_insert h v ((k, w) # r) =
     (if h = k then (h, v) # r else if h <s k then (h, v) # (k, w) # r else (k, w) # ring_insert h v r)"

definition get_existing_replicas :: "string \<Rightarrow> ring \<Rightarrow> i32" where
  "get_existing_replicas p_node ring =
     of_nat (length (filter (\<lambda>(_, v). is_virtual_node_of v p_node) ring))"

definition add_node :: "(string \<Rightarrow> i64) \<Rightarrow> string \<Rightarrow> i32 \<Rightarrow> ring \<Rightarrow> ring result" where
  "add_node hash p_node v_node_count ring =
     (if v_node_count <s 0
      then fail (client_err (''illegal virtual node counts :'' @ show_signed v_node_count))
      else let existing_replicas = get_existing_replicas p_node ring in
        Inr (fold (\<lambda>i ring.
               let v_node = \<lparr>vn_physical = p_node, vn_replica_index = of_nat i + existing_replicas\<rparr>
               in ring_insert (hash (vn_key v_node)) v_node ring)
             [0..<as_usize v_node_count] ring))"

definition remove_node :: "string \<Rightarrow> ring \<Rightarrow> ring" where
  "remove_node p_node ring =
     (let dead = map fst (filter (\<lambda>(_, v). is_virtual_node_of v p_node) ring)
      in fold (\<lambda>h ring. filter (\<lambda>(k, _). k \<noteq> h) ring) dead ring)"

definition route_node :: "(string \<Rightarrow> i64) \<Rightarrow> ring \<Rightarrow> string \<Rightarrow> string option" where
  "route_node hash ring object_key =
     (if ring = [] then None
      else let h = hash object_key in
        (case find (\<lambda>(k, _). h \<le>s k) ring of
           Some (_, v) \<Rightarrow> Some (vn_physical v)
         | None \<Rightarrow> (case ring of [] \<Rightarrow> None | (_, v) # _ \<Rightarrow> Some (vn_physical v))))"

fun router_with_hash_function :: "(string \<Rightarrow> i64) \<Rightarrow> string list \<Rightarrow> i32 \<Rightarrow> ring \<Rightarrow> ring result" where
  "router_with_hash_function hash [] v_node_count ring = Inr ring"
| "router_with_hash_function hash (p_node # p_nodes) v_node_count ring =
     bind_result (add_node hash p_node v_node_count ring)
       (router_with_hash_function hash p_nodes v_node_count)"

definition router_new :: "string list \<Rightarrow> i32 \<Rightarrow> ring result" where
  "router_new p_nodes v_node_count = router_with_hash_function md5_hash p_nodes v_node_count []"

section \<open>The ring stays sorted\<close>

definition ring_inv :: "ring \<Rightarrow> bool" where
  "ring_inv r \<longleftrightarrow> sorted_wrt (<) (map (\<lambda>e. sint (fst e)) r)"

lemma ring_insert_entries:
  "set (ring_insert h v r) \<subseteq> insert (h, v) (set r)" "(h, v) \<in> set (ring_insert h v r)"
  by (induction h v r rule: ring_insert.induct) auto

lemma ring_insert_inv: "ring_inv r \<Longrightarrow> ring_inv (ring_insert h v r)"
proof (induction h v r rule: ring_insert.induct)
  case (2 h v k w r)
  have "sint k < sint (fst e)" if "e \<in> set (ring_insert h v r)" "h \<noteq> k" "\<not> h <s k" for e
  proof -
    have "sint k < sint h"
      using that by (metis linorder_neqE signed_word_eqI word_sless_alt)
    moreover have "e = (h, v) \<or> e \<in> set r"
      using that(1) ring_insert_entries(1) [of h v r] by auto
    ultimately show ?thesis
      using "2.prems" by (auto simp: ring_inv_def)
  qed
  then show ?case
    using 2 by (auto simp: ring_inv_def word_sless_alt)
qed (simp add: ring_inv_def)

lemma ring_inv_filter: "ring_inv r \<Longrightarrow> ring_inv (filter P r)"
  by (induction r) (auto simp: ring_inv_def)

lemma ring_keys_inj: "ring_inv r \<Longrightarrow> (k, v) \<in> set r \<Longrightarrow> (k, w) \<in> set r \<Longrightarrow> v = w"
  by (induction r) (force simp: ring_inv_def)+

lemma fold_filter: "fold (\<lambda>h. filter (\<lambda>(k, _). k \<noteq> h)) ds r = filter (\<lambda>(k, _). k \<notin> set ds) r"
  by (induction ds arbitrary: r) (auto intro: filter_cong)

lemma remove_node_filter:
  assumes "ring_inv r"
  shows "remove_node p r = filter (\<lambda>(_, v). vn_physical v \<noteq> p) r"
proof -
  have "k \<in> set (map fst (filter (\<lambda>(_, v). is_virtual_node_of v p) r)) \<longleftrightarrow> vn_physical v = p"
    if "(k, v) \<in> set r" for k v
  proof -
    have "k \<in> set (map fst (filter (\<lambda>(_, v). is_virtual_node_of v p) r)) \<longleftrightarrow>
        (\<exists>w. (k, w) \<in> set r \<and> vn_physical w = p)"
      by (auto simp: is_virtual_node_of_def image_iff)
    then show ?thesis
      using ring_keys_inj [OF assms that] that by blast
  qed
  then show ?thesis
    unfolding remove_node_def Let_def fold_filter by (intro filter_cong) auto
qed

definition virtual_nodes :: "string \<Rightarrow> i32 \<Rightarrow> nat list \<Rightarrow> virtual_node list" where
  "virtual_nodes p base is = map (\<lambda>i. \<lparr>vn_physical = p, vn_replica_index = of_nat i + base\<rparr>) is"

definition insert_all :: "(string \<Rightarrow> i64) \<Rightarrow> virtual_node list \<Rightarrow> ring \<Rightarrow> ring" where
  "insert_all hash vs r = fold (\<lambda>v. ring_insert (hash (vn_key v)) v) vs r"

lemma add_node_insert_all:
  "add_node hash p n r = (if n <s 0 then fail (client_err (''illegal virtual node counts :'' @ show_signed n))
     else Inr (insert_all hash (virtual_nodes p (get_existing_replicas p r) [0..<as_usize n]) r))"
  by (simp add: add_node_def insert_all_def virtual_nodes_def Let_def fold_map comp_def)

lemma insert_all_inv: "ring_inv r \<Longrightarrow> ring_inv (insert_all hash vs r)"
  by (induction vs arbitrary: r) (simp_all add: insert_all_def ring_insert_inv)

section \<open>Routing\<close>

text \<open>The owner of a hash: the first entry at or after it, else the first of the ring.\<close>

definition ring_owner :: "i64 \<Rightarrow> ring \<Rightarrow> virtual_node option" where
  "ring_owner h r =
     (if r = [] then None
      else Some (snd (case find (\<lambda>(k, _). h \<le>s k) r of Some e \<Rightarrow> e | None \<Rightarrow> hd r)))"

lemma route_node_owner: "route_node hash r k = map_option vn_physical (ring_owner (hash k) r)"
  by (cases r) (auto simp: route_node_def ring_owner_def Let_def split: option.splits prod.splits)

lemma find_mem: "find P xs = Some x \<Longrightarrow> x \<in> set xs"
  by (induction xs) (auto split: if_splits)

lemma ring_owner_mem: "ring_owner h r = Some v \<Longrightarrow> v \<in> snd ` set r"
  by (auto simp: ring_owner_def split: option.splits if_splits dest!: find_mem)

lemma ring_owner_None [simp]: "ring_owner h r = None \<longleftrightarrow> r = []"
  by (simp add: ring_owner_def)

lemma find_filter_first: "find P xs = Some x \<Longrightarrow> Q x \<Longrightarrow> find P (filter Q xs) = Some x"
  by (induction xs) (auto split: if_splits)

lemma find_filter_none: "find P xs = None \<Longrightarrow> find P (filter Q xs) = None"
  by (induction xs) (auto split: if_splits)

lemma ring_owner_filter:
  assumes "ring_owner h r = Some v" and "vn_physical v \<noteq> p"
  shows "ring_owner h (filter (\<lambda>(_, v). vn_physical v \<noteq> p) r) = Some v"
proof -
  let ?P = "\<lambda>(k, _). h \<le>s k" and ?Q = "\<lambda>(_, v). vn_physical v \<noteq> p"
  have r: "r \<noteq> []" and v: "v = snd (case find ?P r of Some e \<Rightarrow> e | None \<Rightarrow> hd r)"
    using assms(1) by (auto simp: ring_owner_def split: if_splits)
  show ?thesis
  proof (cases "find ?P r")
    case None
    then have "filter ?Q r = hd r # filter ?Q (tl r)"
      using r v assms(2) by (cases r) auto
    moreover have "find ?P (filter ?Q r) = None"
      using None by (rule find_filter_none)
    ultimately show ?thesis
      using v None by (simp add: ring_owner_def)
  next
    case (Some x)
    with v assms(2) have "find ?P (filter ?Q r) = Some x"
      by (intro find_filter_first [OF Some]) auto
    then show ?thesis
      using v Some by (auto simp: ring_owner_def)
  qed
qed

lemma find_ring_insert:
  "find (\<lambda>(k, _). h \<le>s k) (ring_insert g v r) = Some (g, v)
   \<or> find (\<lambda>(k, _). h \<le>s k) (ring_insert g v r) = find (\<lambda>(k, _). h \<le>s k) r"
  by (induction g v r rule: ring_insert.induct) auto

lemma ring_insert_hd: "hd (ring_insert g v r) = (g, v) \<or> r \<noteq> [] \<and> hd (ring_insert g v r) = hd r"
  by (induction g v r rule: ring_insert.induct) auto

lemma ring_insert_not_Nil [simp]: "ring_insert g v r \<noteq> []"
  by (cases "(g, v, r)" rule: ring_insert.cases) auto

lemma ring_owner_insert: "ring_owner h (ring_insert g v r) = Some v \<or> ring_owner h (ring_insert g v r) = ring_owner h r"
  using find_ring_insert [of h g v r] ring_insert_hd [of g v r]
  by (cases "r = []") (auto simp: ring_owner_def split: option.splits)

lemma ring_owner_insert_all:
  "(\<exists>v \<in> set vs. ring_owner h (insert_all hash vs r) = Some v) \<or> ring_owner h (insert_all hash vs r) = ring_owner h r"
proof (induction vs arbitrary: r)
  case Nil
  then show ?case by (simp add: insert_all_def)
next
  case (Cons v vs)
  from Cons.IH [of "ring_insert (hash (vn_key v)) v r"] ring_owner_insert [of h "hash (vn_key v)" v r]
  show ?case by (auto simp: insert_all_def)
qed

text \<open>The nodes that have an entry in the ring.\<close>

definition owners :: "ring \<Rightarrow> string set" where
  "owners r = (\<lambda>e. vn_physical (snd e)) ` set r"

lemma owners_insert: "owners (ring_insert h v r) \<subseteq> insert (vn_physical v) (owners r)"
  using image_mono [OF ring_insert_entries(1), of "\<lambda>e. vn_physical (snd e)" h v r] by (simp add: owners_def)

lemma owners_insert_all: "owners (insert_all hash vs r) \<subseteq> vn_physical ` set vs \<union> owners r"
proof (induction vs arbitrary: r)
  case Nil
  then show ?case by (simp add: insert_all_def)
next
  case (Cons v vs)
  have "owners (insert_all hash (v # vs) r) \<subseteq> vn_physical ` set vs \<union> owners (ring_insert (hash (vn_key v)) v r)"
    using Cons.IH [of "ring_insert (hash (vn_key v)) v r"] by (simp add: insert_all_def)
  then show ?case
    using owners_insert [of "hash (vn_key v)" v r] by auto
qed

lemma ring_owner_owners: "ring_owner h r = Some v \<Longrightarrow> vn_physical v \<in> owners r"
  using ring_owner_mem [of h r v] by (auto simp: owners_def)

lemma insert_all_empty [simp]: "insert_all hash vs r = [] \<longleftrightarrow> vs = [] \<and> r = []"
  by (induction vs arbitrary: r) (simp_all add: insert_all_def)

section \<open>Rings built from a group\<close>

lemma router_ok:
  assumes "\<not> n <s 0" and "ring_inv r"
  shows "\<exists>r'. router_with_hash_function hash ps n r = Inr r' \<and> ring_inv r'
    \<and> owners r' \<subseteq> set ps \<union> owners r
    \<and> (r' = [] \<longleftrightarrow> r = [] \<and> (ps = [] \<or> n = 0))"
  using assms(2)
proof (induction ps arbitrary: r)
  case Nil
  then show ?case by simp
next
  case (Cons p ps)
  let ?vs = "virtual_nodes p (get_existing_replicas p r) [0..<as_usize n]"
  have n: "as_usize n = 0 \<longleftrightarrow> n = 0"
    using assms(1) by (auto simp: as_usize_nonneg word_sless_alt not_less signed_word_eqI)
  have vs: "vn_physical ` set ?vs \<subseteq> {p}"
    by (auto simp: virtual_nodes_def)
  obtain r' where r': "router_with_hash_function hash ps n (insert_all hash ?vs r) = Inr r'" "ring_inv r'"
      "owners r' \<subseteq> set ps \<union> owners (insert_all hash ?vs r)"
      "r' = [] \<longleftrightarrow> insert_all hash ?vs r = [] \<and> (ps = [] \<or> n = 0)"
    using Cons.IH [OF insert_all_inv [OF Cons.prems]] by blast
  moreover have "owners (insert_all hash ?vs r) \<subseteq> insert p (owners r)"
    using owners_insert_all [of hash ?vs r] vs by auto
  moreover have "?vs = [] \<longleftrightarrow> n = 0"
    using n by (simp add: virtual_nodes_def)
  moreover have "router_with_hash_function hash (p # ps) n r = Inr r'"
    using assms(1) r'(1) by (simp add: add_node_insert_all)
  ultimately show ?case
    by (intro exI [of _ r'] conjI) (assumption, assumption, auto)
qed

lemma router_routes:
  assumes "0 <s n" and "ps \<noteq> []" and "router_with_hash_function hash ps n [] = Inr r"
  shows "\<exists>c \<in> set ps. route_node hash r k = Some c"
proof -
  have "\<not> n <s 0" "n \<noteq> 0"
    using assms(1) by (auto simp: word_sless_alt)
  then have r: "owners r \<subseteq> set ps" "r \<noteq> []"
    using router_ok [of n "[]" hash ps] assms(2,3) by (auto simp: ring_inv_def owners_def)
  then obtain v where "ring_owner (hash k) r = Some v"
    using ring_owner_None by (metis option.exhaust)
  with r(1) ring_owner_owners show ?thesis
    by (auto simp: route_node_owner)
qed

section \<open>Properties\<close>

text \<open>
  Taking a consumer out of the ring moves only its own keys: every key that another consumer owned keeps its
  owner, and no key belongs to the removed one.
\<close>
theorem remove_node_stable:
  assumes "ring_inv r"
  shows "route_node hash (remove_node p r) k \<noteq> Some p
    \<and> (route_node hash r k \<noteq> Some p \<longrightarrow> route_node hash (remove_node p r) k = route_node hash r k)"
proof
  let ?r = "filter (\<lambda>(_, v). vn_physical v \<noteq> p) r"
  have r: "remove_node p r = ?r"
    by (rule remove_node_filter [OF assms])
  have "p \<notin> owners ?r"
    by (auto simp: owners_def)
  then show "route_node hash (remove_node p r) k \<noteq> Some p"
    unfolding r route_node_owner by (auto dest: ring_owner_owners)
  show "route_node hash r k \<noteq> Some p \<longrightarrow> route_node hash (remove_node p r) k = route_node hash r k"
  proof (cases "ring_owner (hash k) r")
    case (Some v)
    then show ?thesis
      unfolding r route_node_owner by (auto dest: ring_owner_filter)
  qed (simp add: remove_node_def route_node_owner)
qed

text \<open>A hash that is easy to follow: the sum of the character codes.\<close>

definition sum_hash :: "string \<Rightarrow> i64" where
  "sum_hash s = sum_list (map (\<lambda>c. ucast (char_byte c)) s)"

definition sample_ring :: ring where
  "sample_ring = [(10, \<lparr>vn_physical = ''a'', vn_replica_index = 0\<rparr>), (90, \<lparr>vn_physical = ''b'', vn_replica_index = 0\<rparr>),
     (200, \<lparr>vn_physical = ''a'', vn_replica_index = 1\<rparr>)]"

lemma sample_ring_inv: "ring_inv sample_ring"
  by code_simp

theorem remove_node_stable_witness:
  "route_node sum_hash sample_ring ''A'' = Some ''b''
     \<and> route_node sum_hash (remove_node ''a'' sample_ring) ''A'' = Some ''b''
     \<and> route_node sum_hash sample_ring ''z'' = Some ''a''
     \<and> route_node sum_hash (remove_node ''a'' sample_ring) ''z'' \<noteq> Some ''a''"
proof -
  have "route_node sum_hash sample_ring ''A'' = Some ''b''" "route_node sum_hash sample_ring ''z'' = Some ''a''"
    by code_simp+
  then show ?thesis
    using remove_node_stable [OF sample_ring_inv, of sum_hash "''a''" "''A''"]
      remove_node_stable [OF sample_ring_inv, of sum_hash "''a''" "''z''"] by simp
qed

text \<open>
  Adding a consumer moves keys only to it: every key keeps its owner or goes to the added one, whatever the
  number of its virtual nodes and even if their hashes collide with entries that are there.
\<close>
theorem add_node_stable:
  assumes "add_node hash p n r = Inr r'"
  shows "route_node hash r' k = Some p \<or> route_node hash r' k = route_node hash r k"
proof -
  let ?vs = "virtual_nodes p (get_existing_replicas p r) [0..<as_usize n]"
  have r': "r' = insert_all hash ?vs r"
    using assms by (simp add: add_node_insert_all split: if_splits)
  have "vn_physical v = p" if "v \<in> set ?vs" for v
    using that by (auto simp: virtual_nodes_def)
  then show ?thesis
    using ring_owner_insert_all [of ?vs "hash k" hash r] unfolding r' route_node_owner by auto
qed

theorem add_node_stable_witness:
  "\<exists>r'. add_node sum_hash ''c'' 2 sample_ring = Inr r'
     \<and> (route_node sum_hash r' ''A'' = Some ''c'' \<or> route_node sum_hash r' ''A'' = Some ''b'')"
proof -
  obtain r' where r': "add_node sum_hash ''c'' 2 sample_ring = Inr r'"
    by (simp add: add_node_def word_sless_alt)
  moreover have "route_node sum_hash sample_ring ''A'' = Some ''b''"
    by code_simp
  ultimately show ?thesis
    using add_node_stable [OF r', of "''A''"] by auto
qed

text \<open>
  The MD5 routine gives the digests of the specification's test suite, and every block it reads is complete.
\<close>
theorem md5_test_suite:
  "md5 [] = [0xd4, 0x1d, 0x8c, 0xd9, 0x8f, 0x00, 0xb2, 0x04, 0xe9, 0x80, 0x09, 0x98, 0xec, 0xf8, 0x42, 0x7e]
   \<and> md5 (str_bytes ''abc'') =
     [0x90, 0x01, 0x50, 0x98, 0x3c, 0xd2, 0x4f, 0xb0, 0xd6, 0x96, 0x3f, 0x7d, 0x28, 0xe1, 0x7f, 0x72]
   \<and> list_all (\<lambda>b. length b = 64) (chunks 64 (md5_pad input))"
proof -
  have "md5 [] = [0xd4, 0x1d, 0x8c, 0xd9, 0x8f, 0x00, 0xb2, 0x04, 0xe9, 0x80, 0x09, 0x98, 0xec, 0xf8, 0x42, 0x7e]"
    and "md5 (str_bytes ''abc'') =
      [0x90, 0x01, 0x50, 0x98, 0x3c, 0xd2, 0x4f, 0xb0, 0xd6, 0x96, 0x3f, 0x7d, 0x28, 0xe1, 0x7f, 0x72]"
    by code_simp+
  moreover have "list_all (\<lambda>b. length b = 64) (chunks 64 (md5_pad input))"
    using chunks_length [of 64 "md5_pad input"] md5_pad_blocks [of input]
    by (auto simp: list_all_iff dvd_eq_mod_eq_0)
  ultimately show ?thesis by simp
qed

end
