(* ===== verification/Allocate_Strategy.thy ===== *)
theory Allocate_Strategy
  imports Message Consistent_Hash Util_All "HOL-Library.Multiset"
begin

text \<open>
  The queue allocation strategies of \<open>src/rust/src/client/allocate_strategy.rs\<close>. A strategy is its \<open>allocate\<close>
  method: a function of the group, the consumer, all queues and all consumers. The locale \<open>allocation\<close> is the
  contract a group of consumers relies on, that their shares are a partition of the queues; it is interpreted on
  every strategy that has it. Locks around configuration lists are left out, the list is an argument.
\<close>

section \<open>The common guard\<close>

type_synonym allocate_fn =
  "string \<Rightarrow> string \<Rightarrow> message_queue list \<Rightarrow> string list \<Rightarrow> message_queue list result"

definition check_config :: "string \<Rightarrow> string \<Rightarrow> message_queue list \<Rightarrow> string list \<Rightarrow> nat option" where
  "check_config consumer_group current_cid mq_all cid_all =
     (if current_cid = [] then None
      else if mq_all = [] then None
      else if cid_all = [] then None
      else position (\<lambda>cid. cid = current_cid) cid_all)"

section \<open>AVG\<close>

definition allocate_averagely :: allocate_fn where
  "allocate_averagely consumer_group current_cid mq_all cid_all =
     (case check_config consumer_group current_cid mq_all cid_all of
        None \<Rightarrow> Inr []
      | Some index \<Rightarrow>
          let mq_size = length mq_all;
              cid_size = length cid_all;
              modulo = mq_size mod cid_size;
              average_size = mq_size div cid_size
          in if average_size = 0 then Inr (if index < mq_size then [mq_all ! index] else [])
             else let (start_index, end_index) =
                    (if 0 < modulo \<and> index < modulo
                     then let start = index * (average_size + 1) in (start, start + average_size + 1)
                     else let start = modulo * (average_size + 1) + (index - modulo) * average_size
                          in (start, start + average_size));
                    end_index = min end_index mq_size
                  in if end_index \<le> start_index then Inr []
                     else Inr (take (end_index - start_index) (drop start_index mq_all)))"

section \<open>AVG_BY_CIRCLE\<close>

function step_by :: "nat \<Rightarrow> 'a list \<Rightarrow> 'a list" where
  "step_by n [] = []"
| "step_by n (x # xs) = x # step_by n (drop (n - 1) xs)"
  by pat_completeness auto
termination
  by (relation "measure (\<lambda>(_, xs). length xs)") auto

definition allocate_by_circle :: allocate_fn where
  "allocate_by_circle consumer_group current_cid mq_all cid_all =
     (case check_config consumer_group current_cid mq_all cid_all of
        None \<Rightarrow> Inr []
      | Some index \<Rightarrow> Inr (step_by (length cid_all) (drop index mq_all)))"

section \<open>CONFIG\<close>

definition allocate_by_config :: "message_queue list \<Rightarrow> allocate_fn" where
  "allocate_by_config message_queue_list consumer_group current_cid mq_all cid_all = Inr message_queue_list"

section \<open>CONSISTENT_HASH\<close>

record consistent_hash =
  ch_virtual_node_cnt :: i32
  ch_custom_hash_function :: "(string \<Rightarrow> i64) option"

definition consistent_hash_with ::
  "i32 \<Rightarrow> (string \<Rightarrow> i64) option \<Rightarrow> consistent_hash result" where
  "consistent_hash_with virtual_node_cnt custom_hash_function =
     (if virtual_node_cnt <s 0
      then fail (client_err (''illegal virtualNodeCnt :'' @ show_signed virtual_node_cnt))
      else Inr \<lparr>ch_virtual_node_cnt = virtual_node_cnt, ch_custom_hash_function = custom_hash_function\<rparr>)"

definition consistent_hash_default :: consistent_hash where
  "consistent_hash_default = \<lparr>ch_virtual_node_cnt = 10, ch_custom_hash_function = None\<rparr>"

definition allocate_consistent_hash :: "consistent_hash \<Rightarrow> allocate_fn" where
  "allocate_consistent_hash s consumer_group current_cid mq_all cid_all =
     (if check_config consumer_group current_cid mq_all cid_all = None then Inr []
      else let hash = (case ch_custom_hash_function s of Some f \<Rightarrow> f | None \<Rightarrow> md5_hash) in
        bind_result
          (case ch_custom_hash_function s of
             Some f \<Rightarrow> router_with_hash_function f cid_all (ch_virtual_node_cnt s) []
           | None \<Rightarrow> router_new cid_all (ch_virtual_node_cnt s))
          (\<lambda>router. Inr (filter (\<lambda>mq. case route_node hash router (to_java_string mq) of
              Some node \<Rightarrow> node = current_cid | None \<Rightarrow> False) mq_all)))"

section \<open>MACHINE_ROOM\<close>

text \<open>\<open>while parts.last().is_some_and(is_empty) { parts.pop() }\<close>\<close>

definition split_dropping_trailing_empty :: "string \<Rightarrow> char \<Rightarrow> string list" where
  "split_dropping_trailing_empty s sep =
     (let parts = str_split sep s in
      if length parts = 1 then parts else rev (dropWhile (\<lambda>p. p = []) (rev parts)))"

definition in_rooms :: "string set \<Rightarrow> message_queue \<Rightarrow> bool" where
  "in_rooms rooms mq =
     (let temp = split_dropping_trailing_empty (mq_broker_name mq) (CHR ''@'')
      in length temp = 2 \<and> temp ! 0 \<in> rooms)"

text \<open>The slice and the index panic when they are out of range.\<close>

definition allocate_by_machine_room :: "string set \<Rightarrow> allocate_fn" where
  "allocate_by_machine_room consumeridcs consumer_group current_cid mq_all cid_all =
     (case check_config consumer_group current_cid mq_all cid_all of
        None \<Rightarrow> Inr []
      | Some current_index \<Rightarrow>
          let premq_all = filter (in_rooms consumeridcs) mq_all;
              cid_size = length cid_all;
              modulo = length premq_all div cid_size;
              rem = length premq_all mod cid_size;
              start_index = modulo * current_index;
              end_index = start_index + modulo
          in if length premq_all < end_index then Inl (Panic ''slice out of range'')
             else let result = take modulo (drop start_index premq_all)
                  in if current_index < rem
                     then (if length premq_all \<le> current_index + modulo * cid_size
                           then Inl (Panic ''index out of bounds'')
                           else Inr (result @ [premq_all ! (current_index + modulo * cid_size)]))
                     else Inr result)"

section \<open>MACHINE_ROOM_NEARBY\<close>

text \<open>The resolver's two methods are arguments. A \<open>BTreeMap\<close> from room to list is its entries in key order.\<close>

fun room_push :: "string \<Rightarrow> 'a \<Rightarrow> (string \<times> 'a list) list \<Rightarrow> (string \<times> 'a list) list" where
  "room_push room x [] = [(room, [x])]"
| "room_push room x ((r, xs) # m) =
     (if room = r then (r, xs @ [x]) # m
      else if room < r then (room, [x]) # (r, xs) # m
      else (r, xs) # room_push room x m)"

fun group_rooms ::
  "('a \<Rightarrow> string) \<Rightarrow> ('a \<Rightarrow> string) \<Rightarrow> 'a list \<Rightarrow> (string \<times> 'a list) list \<Rightarrow> (string \<times> 'a list) list result" where
  "group_rooms room_of msg [] m = Inr m"
| "group_rooms room_of msg (x # xs) m =
     (if room_of x = [] then fail (client_err (msg x))
      else group_rooms room_of msg xs (room_push (room_of x) x m))"

fun allocate_rooms ::
  "allocate_fn \<Rightarrow> string \<Rightarrow> string \<Rightarrow> string list \<Rightarrow> (string \<times> string list) list
    \<Rightarrow> (string \<times> message_queue list) list \<Rightarrow> message_queue list \<Rightarrow> message_queue list result" where
  "allocate_rooms inner consumer_group cid cid_all mr_2_c [] acc = Inr acc"
| "allocate_rooms inner consumer_group cid cid_all mr_2_c ((room, mqs) # m) acc =
     (if map_of mr_2_c room = None
      then bind_result (inner consumer_group cid mqs cid_all)
             (\<lambda>qs. allocate_rooms inner consumer_group cid cid_all mr_2_c m (acc @ qs))
      else allocate_rooms inner consumer_group cid cid_all mr_2_c m acc)"

definition no_room_for_mq :: "message_queue \<Rightarrow> string" where
  "no_room_for_mq mq = ''Machine room is null for mq '' @ to_java_string mq"

definition no_room_for_cid :: "string \<Rightarrow> string" where
  "no_room_for_cid cid = ''Machine room is null for consumer id '' @ cid"

definition allocate_nearby ::
  "(message_queue \<Rightarrow> string) \<Rightarrow> (string \<Rightarrow> string) \<Rightarrow> allocate_fn \<Rightarrow> allocate_fn" where
  "allocate_nearby broker_deploy_in consumer_deploy_in inner consumer_group current_cid mq_all cid_all =
     (if check_config consumer_group current_cid mq_all cid_all = None then Inr []
      else
        bind_result (group_rooms broker_deploy_in no_room_for_mq mq_all []) (\<lambda>mr_2_mq.
        bind_result (group_rooms consumer_deploy_in no_room_for_cid cid_all []) (\<lambda>mr_2_c.
        let current_machine_room = consumer_deploy_in current_cid;
            mq_in_this_machine_room = map_of mr_2_mq current_machine_room;
            mr_2_mq = filter (\<lambda>(r, _). r \<noteq> current_machine_room) mr_2_mq;
            consumer_in_this_machine_room =
              (case map_of mr_2_c current_machine_room of Some cs \<Rightarrow> cs | None \<Rightarrow> [])
        in bind_result
             (case mq_in_this_machine_room of
                Some mqs \<Rightarrow> if mqs = [] then Inr []
                            else inner consumer_group current_cid mqs consumer_in_this_machine_room
              | None \<Rightarrow> Inr [])
             (allocate_rooms inner consumer_group current_cid cid_all mr_2_c mr_2_mq))))"

section \<open>The contract of a group\<close>

text \<open>A group of consumers: distinct ids that are not empty.\<close>

definition consumer_ids :: "string list \<Rightarrow> bool" where
  "consumer_ids cids \<longleftrightarrow> cids \<noteq> [] \<and> distinct cids \<and> [] \<notin> set cids"

definition share :: "message_queue list result \<Rightarrow> message_queue list" where
  "share r = (case r of Inr qs \<Rightarrow> qs | Inl _ \<Rightarrow> [])"

lemma share_simps [simp]: "share (Inr qs) = qs" "share (Inl e) = []"
  by (simp_all add: share_def)

text \<open>\<open>part\<close> selects the queues that take part in the allocation.\<close>

locale allocation =
  fixes alloc :: allocate_fn
    and part :: "message_queue list \<Rightarrow> message_queue list"
  assumes alloc_total: "consumer_ids cids \<Longrightarrow> c \<in> set cids \<Longrightarrow> \<exists>qs. alloc g c mqs cids = Inr qs"
    and alloc_partition:
      "consumer_ids cids \<Longrightarrow> (\<Sum>c\<in>set cids. mset (share (alloc g c mqs cids))) = mset (part mqs)"
begin

lemma alloc_subset:
  assumes "consumer_ids cids" and "c \<in> set cids"
  shows "mset (share (alloc g c mqs cids)) \<subseteq># mset (part mqs)"
proof -
  have "mset (share (alloc g c mqs cids)) \<subseteq># (\<Sum>c\<in>set cids. mset (share (alloc g c mqs cids)))"
    using assms(2) by (simp add: sum.remove)
  then show ?thesis
    using alloc_partition [OF assms(1)] by simp
qed

lemma alloc_owner:
  assumes "consumer_ids cids" and "q \<in> set (part mqs)"
  shows "\<exists>c \<in> set cids. q \<in> set (share (alloc g c mqs cids))"
proof -
  have "q \<in># (\<Sum>c\<in>set cids. mset (share (alloc g c mqs cids)))"
    using assms alloc_partition [OF assms(1), of g mqs] by simp
  then show ?thesis by (auto simp: set_mset_sum)
qed

lemma alloc_disjoint:
  assumes "consumer_ids cids" and "distinct (part mqs)" and "c \<in> set cids" and "d \<in> set cids" and "c \<noteq> d"
  shows "set (share (alloc g c mqs cids)) \<inter> set (share (alloc g d mqs cids)) = {}"
proof (rule ccontr)
  let ?s = "\<lambda>c. mset (share (alloc g c mqs cids))"
  assume "\<not> ?thesis"
  then obtain q where "q \<in># ?s c" "q \<in># ?s d"
    by auto
  then have q: "1 \<le> count (?s c) q" "1 \<le> count (?s d) q"
    by (simp_all add: Suc_le_eq)
  have "sum ?s (set cids) = ?s c + (?s d + sum ?s (set cids - {c} - {d}))"
    using assms(3-5) by (simp add: sum.remove [of _ c] sum.remove [of _ d])
  then have "count (sum ?s (set cids)) q = count (?s c) q + (count (?s d) q + count (sum ?s (set cids - {c} - {d})) q)"
    by (simp only: count_union)
  with q have "2 \<le> count (sum ?s (set cids)) q"
    by linarith
  moreover have "count (mset (part mqs)) q \<le> 1"
    using assms(2) by (simp add: distinct_count_atmost_1)
  ultimately show False
    using alloc_partition [OF assms(1), of g mqs] by simp
qed

lemma alloc_unique_owner:
  assumes "consumer_ids cids" and "distinct (part mqs)" and "q \<in> set (part mqs)"
  shows "\<exists>!c. c \<in> set cids \<and> q \<in> set (share (alloc g c mqs cids))"
  using alloc_owner [OF assms(1,3)] alloc_disjoint [OF assms(1,2)] by blast

end

lemma check_config_index:
  assumes "consumer_ids cids" and "i < length cids" and "mqs \<noteq> []"
  shows "check_config g (cids ! i) mqs cids = Some i"
proof -
  have "cids ! i \<noteq> []" "cids \<noteq> []" "distinct cids"
    using assms by (auto simp: consumer_ids_def in_set_conv_nth)
  then show ?thesis
    using assms position_nth [of cids i] by (simp add: check_config_def)
qed

lemma check_config_empty [simp]: "check_config g c [] cids = None"
  by (simp add: check_config_def)

lemma sum_over_ids:
  fixes f :: "string \<Rightarrow> 'a :: comm_monoid_add"
  assumes "consumer_ids cids"
  shows "(\<Sum>c\<in>set cids. f c) = (\<Sum>i<length cids. f (cids ! i))"
  using assms by (simp add: consumer_ids_def sum.distinct_set_conv_list sum_list_sum_nth atLeast0LessThan)

section \<open>AVG is a partition into ranges\<close>

definition avg_start :: "nat \<Rightarrow> nat \<Rightarrow> nat \<Rightarrow> nat" where
  "avg_start m n i = i * (m div n) + min i (m mod n)"

lemma avg_start_mono: "avg_start m n i \<le> avg_start m n (Suc i)"
  by (simp add: avg_start_def)

lemma avg_start_end: "0 < n \<Longrightarrow> avg_start m n n = m"
  by (simp add: avg_start_def min_def mult.commute) (metis div_mult_mod_eq mod_less_divisor leD mult.commute)

lemma avg_start_bound: "0 < n \<Longrightarrow> i \<le> n \<Longrightarrow> avg_start m n i \<le> m"
  using lift_Suc_mono_le [of "avg_start m n" i n] avg_start_mono avg_start_end [of n m] by simp

lemma allocate_averagely_range:
  assumes "consumer_ids cids" and "i < length cids" and "n = length cids" and "m = length mqs"
  shows "allocate_averagely g (cids ! i) mqs cids =
    Inr (take (avg_start m n (Suc i) - avg_start m n i) (drop (avg_start m n i) mqs))"
proof (cases "mqs = []")
  case True
  then show ?thesis by (simp add: allocate_averagely_def)
next
  case False
  note idx = check_config_index [OF assms(1,2) False, of g]
  have n: "0 < n" "i < n"
    using assms(2,3) by auto
  show ?thesis
  proof (cases "m div n = 0")
    case True
    then have "m < n" and mod: "m mod n = m"
      using n by (auto simp: div_eq_0_iff)
    then show ?thesis
      using True idx assms(3,4)
      by (auto simp: allocate_averagely_def avg_start_def Let_def min_def Suc_le_eq
          Cons_nth_drop_Suc [symmetric])
  next
    case avg: False
    have le: "avg_start m n (Suc i) \<le> m"
      using avg_start_bound [of n "Suc i" m] n by simp
    show ?thesis
    proof (cases "i < m mod n")
      case True
      then have "avg_start m n i = i * (m div n + 1)" "avg_start m n (Suc i) = i * (m div n + 1) + m div n + 1"
        by (simp_all add: avg_start_def)
      then show ?thesis
        using True idx avg le assms(3,4) by (auto simp: allocate_averagely_def Let_def min_def)
    next
      case ge: False
      then have "avg_start m n i = m mod n * (m div n + 1) + (i - m mod n) * (m div n)"
          "avg_start m n (Suc i) = avg_start m n i + m div n"
        by (simp_all add: avg_start_def min_def diff_mult_distrib)
      then show ?thesis
        using ge idx avg le assms(3,4) by (auto simp: allocate_averagely_def Let_def min_def)
    qed
  qed
qed

lemma concat_ranges:
  assumes "\<And>i. f i \<le> f (Suc i)" and "f 0 = 0" and "f k \<le> length xs"
  shows "concat (map (\<lambda>i. take (f (Suc i) - f i) (drop (f i) xs)) [0..<k]) = take (f k) xs"
  using assms(3)
proof (induction k)
  case 0
  then show ?case using assms(2) by simp
next
  case (Suc k)
  have "take (f k) xs @ take (f (Suc k) - f k) (drop (f k) xs) = take (f (Suc k)) xs"
    using assms(1) [of k] by (metis le_add_diff_inverse take_add)
  then show ?case
    using Suc assms(1) [of k] by simp
qed

lemma averagely_shares:
  assumes "consumer_ids cids"
  shows "concat (map (\<lambda>c. share (allocate_averagely g c mqs cids)) cids) = mqs"
proof -
  let ?f = "avg_start (length mqs) (length cids)"
  have "map (\<lambda>c. share (allocate_averagely g c mqs cids)) cids =
      map (\<lambda>i. take (?f (Suc i) - ?f i) (drop (?f i) mqs)) [0..<length cids]"
    by (rule nth_equalityI) (simp_all add: allocate_averagely_range [OF assms])
  moreover have "0 < length cids"
    using assms by (simp add: consumer_ids_def)
  ultimately show ?thesis
    using concat_ranges [of ?f "length cids" mqs] avg_start_mono avg_start_end
    by (simp add: avg_start_def)
qed

lemma mset_concat_ids:
  assumes "consumer_ids cids"
  shows "(\<Sum>c\<in>set cids. mset (f c)) = mset (concat (map f cids))"
proof -
  have "(\<Sum>c\<in>set cids. mset (f c)) = sum_list (map (\<lambda>c. mset (f c)) cids)"
    using assms by (simp add: consumer_ids_def sum.distinct_set_conv_list)
  then show ?thesis by (simp add: mset_concat comp_def)
qed

interpretation avg: allocation allocate_averagely "\<lambda>mqs. mqs"
proof
  fix cids c g mqs
  assume ids: "consumer_ids cids"
  show "(\<Sum>c\<in>set cids. mset (share (allocate_averagely g c mqs cids))) = mset mqs"
    by (simp add: mset_concat_ids [OF ids] averagely_shares [OF ids])
  assume "c \<in> set cids"
  then show "\<exists>qs. allocate_averagely g c mqs cids = Inr qs"
    using allocate_averagely_range [OF ids] by (auto simp: in_set_conv_nth)
qed

section \<open>AVG_BY_CIRCLE is a partition\<close>

lemma mset_take_sum: "(\<Sum>i<k. if i < length xs then {# xs ! i #} else {#}) = mset (take k xs)"
proof (induction k)
  case (Suc k)
  then show ?case by (cases "k < length xs") (simp_all add: take_Suc_conv_app_nth)
qed simp

lemma step_by_drop:
  assumes "0 < k"
  shows "mset (step_by k (drop i xs)) =
    (if i < length xs then {# xs ! i #} else {#}) + mset (step_by k (drop i (drop k xs)))"
proof (cases "i < length xs")
  case True
  then have "drop i xs = xs ! i # drop (Suc i) xs"
    by (simp add: Cons_nth_drop_Suc)
  then show ?thesis
    using True assms by (simp add: add.commute)
qed simp

lemma step_by_partition: "0 < k \<Longrightarrow> (\<Sum>i<k. mset (step_by k (drop i xs))) = mset xs"
proof (induction "length xs" arbitrary: xs rule: less_induct)
  case less
  show ?case
  proof (cases "xs = []")
    case False
    with less have "(\<Sum>i<k. mset (step_by k (drop i (drop k xs)))) = mset (drop k xs)"
      by (intro less.hyps) simp_all
    moreover have "(\<Sum>i<k. mset (step_by k (drop i xs))) =
        mset (take k xs) + (\<Sum>i<k. mset (step_by k (drop i (drop k xs))))"
      unfolding mset_take_sum [symmetric] sum.distrib [symmetric]
      by (rule sum.cong [OF refl step_by_drop [OF less.prems]])
    ultimately show ?thesis
      by (metis append_take_drop_id mset_append)
  qed simp
qed

interpretation circle: allocation allocate_by_circle "\<lambda>mqs. mqs"
proof
  fix cids c g mqs
  assume ids: "consumer_ids cids"
  show "(\<Sum>c\<in>set cids. mset (share (allocate_by_circle g c mqs cids))) = mset mqs"
  proof (cases "mqs = []")
    case False
    have "(\<Sum>c\<in>set cids. mset (share (allocate_by_circle g c mqs cids))) =
        (\<Sum>i<length cids. mset (step_by (length cids) (drop i mqs)))"
      unfolding sum_over_ids [OF ids]
      by (rule sum.cong) (simp_all add: allocate_by_circle_def check_config_index [OF ids _ False])
    then show ?thesis
      using ids step_by_partition [of "length cids" mqs] by (simp add: consumer_ids_def)
  qed (simp add: allocate_by_circle_def)
  show "\<exists>qs. allocate_by_circle g c mqs cids = Inr qs"
    by (simp add: allocate_by_circle_def split: option.split)
qed

section \<open>CONSISTENT_HASH is a partition\<close>

lemma mset_filter_partition:
  assumes "finite R" and "f ` set xs \<subseteq> R"
  shows "(\<Sum>r\<in>R. {# x \<in># mset xs. f x = r #}) = mset xs"
  using assms(2)
proof (induction xs)
  case (Cons x xs)
  have "(\<Sum>r\<in>R. {# y \<in># mset (x # xs). f y = r #}) =
      (\<Sum>r\<in>R. (if f x = r then {#x#} else {#}) + {# y \<in># mset xs. f y = r #})"
    by (rule sum.cong) auto
  then show ?case
    using Cons assms(1) by (simp add: sum.distrib sum.delta)
qed simp

lemma consistent_hash_shares:
  assumes "0 <s ch_virtual_node_cnt s" and "consumer_ids cids" and "mqs \<noteq> []"
  obtains owner where "\<And>q. owner q \<in> set cids"
    and "\<And>g c. c \<in> set cids \<Longrightarrow> allocate_consistent_hash s g c mqs cids = Inr (filter (\<lambda>q. owner q = c) mqs)"
proof -
  define hash where "hash = (case ch_custom_hash_function s of Some f \<Rightarrow> f | None \<Rightarrow> md5_hash)"
  have ne: "cids \<noteq> []"
    using assms(2) by (simp add: consumer_ids_def)
  have n: "\<not> ch_virtual_node_cnt s <s 0"
    using assms(1) by (simp add: word_sless_alt)
  obtain r where r: "router_with_hash_function hash cids (ch_virtual_node_cnt s) [] = Inr r"
    using router_ok [OF n, of "[]" hash cids] by (auto simp: ring_inv_def)
  define owner where "owner q = the (route_node hash r (to_java_string q))" for q
  have route: "route_node hash r (to_java_string q) = Some (owner q)" "owner q \<in> set cids" for q
    using router_routes [OF assms(1) ne r, of "to_java_string q"] by (auto simp: owner_def)
  show thesis
  proof (rule that [OF route(2)])
    fix g c
    assume "c \<in> set cids"
    then obtain i where "i < length cids" "cids ! i = c"
      by (auto simp: in_set_conv_nth)
    then have "check_config g c mqs cids \<noteq> None"
      using check_config_index [OF assms(2) _ assms(3)] by auto
    moreover have "(case ch_custom_hash_function s of
        Some f \<Rightarrow> router_with_hash_function f cids (ch_virtual_node_cnt s) []
      | None \<Rightarrow> router_new cids (ch_virtual_node_cnt s)) = Inr r"
      using r by (simp add: hash_def router_new_def split: option.splits)
    ultimately show "allocate_consistent_hash s g c mqs cids = Inr (filter (\<lambda>q. owner q = c) mqs)"
      by (auto simp: allocate_consistent_hash_def route simp flip: hash_def)
  qed
qed

locale hash_strategy =
  fixes s :: consistent_hash
  assumes some_virtual_nodes: "0 <s ch_virtual_node_cnt s"

sublocale hash_strategy \<subseteq> allocation "allocate_consistent_hash s" "\<lambda>mqs. mqs"
proof
  fix cids c g mqs
  assume ids: "consumer_ids cids"
  show "(\<Sum>c\<in>set cids. mset (share (allocate_consistent_hash s g c mqs cids))) = mset mqs"
  proof (cases "mqs = []")
    case False
    from some_virtual_nodes ids False show ?thesis
      by (rule consistent_hash_shares) (simp add: mset_filter_partition image_subset_iff)
  qed (simp add: allocate_consistent_hash_def)
  assume "c \<in> set cids"
  show "\<exists>qs. allocate_consistent_hash s g c mqs cids = Inr qs"
  proof (cases "mqs = []")
    case False
    from some_virtual_nodes ids False show ?thesis
      by (rule consistent_hash_shares) (use \<open>c \<in> set cids\<close> in auto)
  qed (simp add: allocate_consistent_hash_def)
qed

context hash_strategy
begin

lemmas hash_partition = alloc_partition
lemmas hash_owner = alloc_unique_owner

end

interpretation default_hash: hash_strategy consistent_hash_default
  by unfold_locales (simp add: consistent_hash_default_def word_sless_alt)

section \<open>MACHINE_ROOM is a partition of the queues in the rooms\<close>

lemma machine_room_share:
  assumes "consumer_ids cids" and "i < length cids" and "mqs \<noteq> []"
    and "P = filter (in_rooms rooms) mqs" and "n = length cids" and "m = length P div n"
  shows "allocate_by_machine_room rooms g (cids ! i) mqs cids =
    Inr (take m (drop (m * i) P) @ (if i < length P mod n then [P ! (i + m * n)] else []))"
proof -
  have i: "Suc i \<le> n"
    using assms(2,5) by simp
  have len: "length P = m * n + length P mod n"
    using assms(6) by simp
  have "m * i + m \<le> m * n"
    using i by (metis mult_Suc_right mult_le_mono2 add.commute)
  then have "\<not> length P < m * i + m"
    using len by linarith
  moreover have "\<not> length P \<le> i + m * n" if "i < length P mod n"
    using that len by linarith
  ultimately show ?thesis
    using check_config_index [OF assms(1-3), of g] assms(4-6)
    by (simp add: allocate_by_machine_room_def Let_def)
qed

lemma mset_concat_upt: "mset (concat (map f [0..<n])) = (\<Sum>i<n. mset (f i))"
  by (induction n) simp_all

lemma mset_tail_sum:
  assumes "length P = k + r" and "r \<le> n"
  shows "(\<Sum>i<n. mset (if i < r then [P ! (i + k)] else [])) = mset (drop k P)"
proof -
  have "(\<Sum>i<n. mset (if i < r then [P ! (i + k)] else [])) =
      (\<Sum>i<n. if i < length (drop k P) then {# drop k P ! i #} else {#})"
    using assms(1) by (intro sum.cong) (auto simp: add.commute)
  also have "\<dots> = mset (take n (drop k P))"
    by (rule mset_take_sum)
  finally show ?thesis
    using assms by simp
qed

interpretation machine_room: allocation "allocate_by_machine_room rooms" "filter (in_rooms rooms)"
  for rooms
proof
  fix cids c g mqs
  assume ids: "consumer_ids cids"
  let ?P = "filter (in_rooms rooms) mqs" and ?n = "length cids"
  let ?m = "length ?P div ?n" and ?r = "length ?P mod ?n"
  show "(\<Sum>c\<in>set cids. mset (share (allocate_by_machine_room rooms g c mqs cids))) = mset ?P"
  proof (cases "mqs = []")
    case False
    have len: "length ?P = ?m * ?n + ?r"
      by simp
    have r: "?r \<le> ?n"
      using ids by (simp add: consumer_ids_def)
    have "(\<Sum>c\<in>set cids. mset (share (allocate_by_machine_room rooms g c mqs cids))) =
        (\<Sum>i<?n. mset (take ?m (drop (?m * i) ?P)) + mset (if i < ?r then [?P ! (i + ?m * ?n)] else []))"
      unfolding sum_over_ids [OF ids]
      by (intro sum.cong) (simp_all add: machine_room_share [OF ids _ False refl refl refl])
    also have "\<dots> = (\<Sum>i<?n. mset (take ?m (drop (?m * i) ?P))) + mset (drop (?m * ?n) ?P)"
      by (simp only: sum.distrib mset_tail_sum [OF len r])
    also have "(\<Sum>i<?n. mset (take ?m (drop (?m * i) ?P))) = mset (take (?m * ?n) ?P)"
      using concat_ranges [of "\<lambda>i. ?m * i" ?n ?P] len by (simp flip: mset_concat_upt)
    finally show ?thesis
      by (metis append_take_drop_id mset_append)
  qed (simp add: allocate_by_machine_room_def)
  assume "c \<in> set cids"
  then show "\<exists>qs. allocate_by_machine_room rooms g c mqs cids = Inr qs"
    by (cases "mqs = []") (auto simp: in_set_conv_nth machine_room_share [OF ids _ _ refl refl refl]
        allocate_by_machine_room_def [of _ _ _ "[]"])
qed

section \<open>MACHINE_ROOM_NEARBY over a partition is a partition\<close>

definition in_room :: "('a \<Rightarrow> string) \<Rightarrow> 'a list \<Rightarrow> string \<Rightarrow> 'a list" where
  "in_room room_of xs r = filter (\<lambda>x. room_of x = r) xs"

definition rooms_inv :: "(string \<times> 'a list) list \<Rightarrow> bool" where
  "rooms_inv m \<longleftrightarrow> sorted_wrt (<) (map fst m)"

lemma room_push_keys: "fst ` set (room_push r x m) = insert r (fst ` set m)"
  by (induction r x m rule: room_push.induct) auto

lemma room_push_inv: "rooms_inv m \<Longrightarrow> rooms_inv (room_push r x m)"
proof (induction r x m rule: room_push.induct)
  case (2 room x r xs m)
  have "r < k" if "k \<in> fst ` set (room_push room x m)" "room \<noteq> r" "\<not> room < r" for k
    using that 2 by (auto simp: room_push_keys rooms_inv_def)
  then show ?case
    using 2 by (auto simp: rooms_inv_def)
qed (simp add: rooms_inv_def)

lemma room_push_lookup:
  "rooms_inv m \<Longrightarrow> map_of (room_push r x m) =
     (map_of m)(r \<mapsto> (case map_of m r of None \<Rightarrow> [x] | Some xs \<Rightarrow> xs @ [x]))"
proof (induction r x m rule: room_push.induct)
  case (2 room x r xs m)
  have "map_of m room = None" if "room < r"
    using 2 that by (auto simp: rooms_inv_def map_of_eq_None_iff)
  then show ?case
    using 2 by (auto simp: rooms_inv_def fun_eq_iff)
qed simp

lemma group_rooms_ok:
  assumes "\<forall>x \<in> set xs. room_of x \<noteq> []" and "rooms_inv m"
    and "\<And>r. map_of m r = (if in_room room_of ys r = [] then None else Some (in_room room_of ys r))"
  shows "\<exists>m'. group_rooms room_of msg xs m = Inr m' \<and> rooms_inv m'
    \<and> (\<forall>r. map_of m' r = (if in_room room_of (ys @ xs) r = [] then None else Some (in_room room_of (ys @ xs) r)))"
  using assms
proof (induction xs arbitrary: m ys)
  case Nil
  then show ?case by simp
next
  case (Cons x xs)
  have "\<exists>m'. group_rooms room_of msg xs (room_push (room_of x) x m) = Inr m' \<and> rooms_inv m'
      \<and> (\<forall>r. map_of m' r = (if in_room room_of ((ys @ [x]) @ xs) r = [] then None
           else Some (in_room room_of ((ys @ [x]) @ xs) r)))"
    using Cons.prems by (intro Cons.IH) (auto simp: room_push_inv room_push_lookup in_room_def)
  then show ?case
    using Cons.prems(1) by (auto simp only: group_rooms.simps append.assoc append_Cons append_Nil list.set_intros if_False)
qed

lemma allocate_rooms_concat:
  assumes "\<And>mqs. \<exists>qs. inner g c mqs cids = Inr qs"
  shows "allocate_rooms inner g c cids mc m acc =
    Inr (acc @ concat (map (\<lambda>(r, mqs). share (inner g c mqs cids)) (filter (\<lambda>(r, _). map_of mc r = None) m)))"
proof (induction m arbitrary: acc)
  case (Cons rm m)
  obtain r mqs where rm: "rm = (r, mqs)"
    by fastforce
  obtain qs where "inner g c mqs cids = Inr qs"
    using assms by blast
  then show ?case
    using Cons by (simp add: rm)
qed simp

text \<open>The share of one consumer: its part of its own room, then of every room without consumers.\<close>

definition nearby_share ::
  "(message_queue \<Rightarrow> string) \<Rightarrow> (string \<Rightarrow> string) \<Rightarrow> (string \<Rightarrow> message_queue list \<Rightarrow> string list \<Rightarrow> message_queue list)
    \<Rightarrow> message_queue list \<Rightarrow> string list \<Rightarrow> string \<Rightarrow> message_queue multiset" where
  "nearby_share bd cd inner mqs cids c =
     mset (inner c (in_room bd mqs (cd c)) (in_room cd cids (cd c)))
     + (\<Sum>r \<in> bd ` set mqs - cd ` set cids. mset (inner c (in_room bd mqs r) cids))"

lemma in_room_Nil [simp]: "in_room f xs r = [] \<longleftrightarrow> r \<notin> f ` set xs"
  by (auto simp: in_room_def filter_empty_conv)

lemma consumer_ids_in_room:
  "consumer_ids cids \<Longrightarrow> c \<in> set cids \<Longrightarrow> consumer_ids (in_room cd cids (cd c)) \<and> c \<in> set (in_room cd cids (cd c))"
  by (auto simp: consumer_ids_def in_room_def filter_empty_conv)

lemma rooms_table:
  assumes "rooms_inv m" and "\<And>r. map_of m r = (if in_room f xs r = [] then None else Some (in_room f xs r))"
  obtains ks where "distinct ks" and "set ks = f ` set xs" and "m = map (\<lambda>r. (r, in_room f xs r)) ks"
proof
  show d: "distinct (map fst m)"
    using assms(1) by (simp add: rooms_inv_def strict_sorted_iff)
  have "r \<in> set (map fst m) \<longleftrightarrow> r \<in> f ` set xs" for r
    using assms(2) [of r] map_of_eq_None_iff [of m r] by (auto split: if_splits)
  then show "set (map fst m) = f ` set xs"
    by blast
  have "M = in_room f xs r" if "(r, M) \<in> set m" for r M
    using assms(2) [of r] map_of_is_SomeI [OF d that] by (auto split: if_splits)
  then show "m = map (\<lambda>r. (r, in_room f xs r)) (map fst m)"
    by (auto intro!: map_idI [symmetric] simp: comp_def)
qed

lemma mset_concat_filter:
  "distinct ks \<Longrightarrow> mset (concat (map f (filter P ks))) = (\<Sum>k \<in> {k \<in> set ks. P k}. mset (f k))"
proof (induction ks)
  case (Cons a ks)
  have "{k \<in> set (a # ks). P k} = (if P a then insert a {k \<in> set ks. P k} else {k \<in> set ks. P k})"
    by auto
  with Cons show ?case by simp
qed simp

context allocation
begin

lemma alloc_empty:
  assumes "consumer_ids cids" and "c \<in> set cids" and "part [] = []"
  shows "share (alloc g c [] cids) = []"
  using alloc_subset [OF assms(1,2), of g "[]"] assms(3) by simp

lemma alloc_share: "consumer_ids cids \<Longrightarrow> c \<in> set cids \<Longrightarrow> alloc g c mqs cids = Inr (share (alloc g c mqs cids))"
  using alloc_total [of cids c g mqs] by auto

lemma nearby_result:
  assumes ids: "consumer_ids cids" and c: "c \<in> set cids" and mqs: "mqs \<noteq> []"
    and bd: "\<forall>q \<in> set mqs. bd q \<noteq> []" and cd: "\<forall>c \<in> set cids. cd c \<noteq> []" and nil: "part [] = []"
  shows "\<exists>qs. allocate_nearby bd cd alloc g c mqs cids = Inr qs
    \<and> mset qs = nearby_share bd cd (\<lambda>c m cs. share (alloc g c m cs)) mqs cids c"
proof -
  obtain i where "i < length cids" "cids ! i = c"
    using c by (auto simp: in_set_conv_nth)
  then have guard: "check_config g c mqs cids \<noteq> None"
    using check_config_index [OF ids _ mqs] by auto
  obtain mm where mm: "group_rooms bd no_room_for_mq mqs [] = Inr mm"
      "rooms_inv mm" "\<And>r. map_of mm r = (if in_room bd mqs r = [] then None else Some (in_room bd mqs r))"
    using group_rooms_ok [of mqs bd "[]" "[]" no_room_for_mq] bd
    by (auto simp: rooms_inv_def)
  obtain mc where mc: "group_rooms cd no_room_for_cid cids [] = Inr mc"
      "rooms_inv mc" "\<And>r. map_of mc r = (if in_room cd cids r = [] then None else Some (in_room cd cids r))"
    using group_rooms_ok [of cids cd "[]" "[]" no_room_for_cid] cd
    by (auto simp: rooms_inv_def)
  obtain ks where ks: "distinct ks" "set ks = bd ` set mqs" "mm = map (\<lambda>r. (r, in_room bd mqs r)) ks"
    using rooms_table [OF mm(2,3)] by blast
  note room = consumer_ids_in_room [OF ids c, of cd]
  let ?own = "share (alloc g c (in_room bd mqs (cd c)) (in_room cd cids (cd c)))"
  have cd_c: "map_of mc (cd c) = Some (in_room cd cids (cd c))"
    using c by (auto simp: mc(3))
  have own: "(case map_of mm (cd c) of
      Some ms \<Rightarrow> if ms = [] then Inr [] else alloc g c ms (in_room cd cids (cd c)) | None \<Rightarrow> Inr []) = Inr ?own"
    using alloc_share [of "in_room cd cids (cd c)" c g "in_room bd mqs (cd c)"] room
      alloc_empty [of "in_room cd cids (cd c)" c g] nil
    by (cases "in_room bd mqs (cd c) = []") (auto simp: mm(3) simp del: in_room_Nil)
  let ?P = "\<lambda>r. r \<noteq> cd c \<and> map_of mc r = None"
  have rest: "filter (\<lambda>(r, _). map_of mc r = None) (filter (\<lambda>(r, _). r \<noteq> cd c) mm) =
      map (\<lambda>r. (r, in_room bd mqs r)) (filter ?P ks)"
    by (simp add: ks(3) filter_map comp_def conj_commute)
  have keys: "{r \<in> set ks. ?P r} = bd ` set mqs - cd ` set cids"
    using c by (auto simp: ks(2) mc(3) split: if_splits)
  have "mset (concat (map (\<lambda>r. share (alloc g c (in_room bd mqs r) cids)) (filter ?P ks))) =
      (\<Sum>r \<in> bd ` set mqs - cd ` set cids. mset (share (alloc g c (in_room bd mqs r) cids)))"
    by (simp only: mset_concat_filter [OF ks(1)] keys)
  moreover have "allocate_nearby bd cd alloc g c mqs cids =
      Inr (?own @ concat (map (\<lambda>r. share (alloc g c (in_room bd mqs r) cids)) (filter ?P ks)))"
    unfolding allocate_nearby_def if_not_P [OF guard] mm(1) mc(1) Let_def bind_result_simps cd_c
      option.case own
    using alloc_total [OF ids c] by (simp add: allocate_rooms_concat rest comp_def del: filter_filter)
  ultimately show ?thesis
    by (simp add: nearby_share_def)
qed

lemma nearby_partition:
  assumes ids: "consumer_ids cids"
    and bd: "\<forall>q \<in> set mqs. bd q \<noteq> []" and cd: "\<forall>c \<in> set cids. cd c \<noteq> []" and full: "\<And>m. part m = m"
  shows "(\<Sum>c\<in>set cids. mset (share (allocate_nearby bd cd alloc g c mqs cids))) = mset mqs"
proof (cases "mqs = []")
  case True
  then show ?thesis by (simp add: allocate_nearby_def)
next
  case False
  let ?f = "\<lambda>c m cs. share (alloc g c m cs)"
  let ?M = "\<lambda>r. mset (in_room bd mqs r)"
  have "(\<Sum>c\<in>set cids. mset (share (allocate_nearby bd cd alloc g c mqs cids))) =
      (\<Sum>c\<in>set cids. nearby_share bd cd ?f mqs cids c)"
  proof (rule sum.cong [OF refl])
    fix c
    assume "c \<in> set cids"
    from nearby_result [OF ids this False bd cd full, of g]
    show "mset (share (allocate_nearby bd cd alloc g c mqs cids)) = nearby_share bd cd ?f mqs cids c"
      by auto
  qed
  also have "\<dots> = (\<Sum>c\<in>set cids. mset (?f c (in_room bd mqs (cd c)) (in_room cd cids (cd c))))
      + (\<Sum>r \<in> bd ` set mqs - cd ` set cids. \<Sum>c\<in>set cids. mset (?f c (in_room bd mqs r) cids))"
    unfolding nearby_share_def sum.distrib by (subst sum.swap) (rule refl)
  also have "(\<Sum>c\<in>set cids. mset (?f c (in_room bd mqs (cd c)) (in_room cd cids (cd c)))) =
      (\<Sum>r \<in> cd ` set cids. \<Sum>c\<in>{c \<in> set cids. cd c = r}. mset (?f c (in_room bd mqs r) (in_room cd cids r)))"
    by (subst sum.group [symmetric, of _ "cd ` set cids" cd]) (auto intro!: sum.cong)
  also have "\<dots> = (\<Sum>r \<in> cd ` set cids. ?M r)"
  proof (rule sum.cong [OF refl])
    fix r
    assume "r \<in> cd ` set cids"
    then have "consumer_ids (in_room cd cids r)"
      using consumer_ids_in_room [OF ids] by auto
    from alloc_partition [OF this, of g "in_room bd mqs r"]
    show "(\<Sum>c\<in>{c \<in> set cids. cd c = r}. mset (?f c (in_room bd mqs r) (in_room cd cids r))) = ?M r"
      by (simp add: full in_room_def)
  qed
  also have "(\<Sum>r \<in> bd ` set mqs - cd ` set cids. \<Sum>c\<in>set cids. mset (?f c (in_room bd mqs r) cids)) =
      (\<Sum>r \<in> bd ` set mqs - cd ` set cids. ?M r)"
    by (simp add: alloc_partition [OF ids] full)
  also have "(\<Sum>r \<in> cd ` set cids. ?M r) + \<dots> = (\<Sum>r \<in> cd ` set cids \<union> (bd ` set mqs - cd ` set cids). ?M r)"
    by (rule sum.union_disjoint [symmetric]) auto
  also have "\<dots> = mset mqs"
    using mset_filter_partition [of "cd ` set cids \<union> (bd ` set mqs - cd ` set cids)" bd mqs]
    by (auto simp: in_room_def)
  finally show ?thesis .
qed

end

section \<open>Properties\<close>

text \<open>
  C28. The average strategy cuts the queues into consecutive ranges: the shares of a group, in the order of its
  consumers, are together the list of all queues, and their sizes differ by at most one.
\<close>
theorem averagely_partition:
  assumes "consumer_ids cids"
  shows "concat (map (\<lambda>c. share (allocate_averagely g c mqs cids)) cids) = mqs
    \<and> list_all (\<lambda>c. length (share (allocate_averagely g c mqs cids)) \<in>
        {length mqs div length cids, length mqs div length cids + 1}) cids"
proof -
  let ?m = "length mqs" and ?n = "length cids"
  have "length (share (allocate_averagely g (cids ! i) mqs cids)) \<in> {?m div ?n, ?m div ?n + 1}" if "i < ?n" for i
  proof -
    have "avg_start ?m ?n (Suc i) \<le> ?m"
      using that by (intro avg_start_bound) auto
    then have "length (share (allocate_averagely g (cids ! i) mqs cids)) =
        avg_start ?m ?n (Suc i) - avg_start ?m ?n i"
      using avg_start_mono [of ?m ?n i] by (simp add: allocate_averagely_range [OF assms that refl refl])
    then show ?thesis
      by (auto simp: avg_start_def min_def)
  qed
  then show ?thesis
    using averagely_shares [OF assms] by (auto simp: list_all_length)
qed

definition sample_queues :: "message_queue list" where
  "sample_queues = map (\<lambda>i. MessageQueue ''t'' ''r1@b'' (of_nat i)) [0..<5]"

definition sample_ids :: "string list" where
  "sample_ids = [''c0'', ''c1'']"

lemma sample_ids_ok: "consumer_ids sample_ids"
  by (simp add: consumer_ids_def sample_ids_def)

theorem averagely_partition_witness:
  "share (allocate_averagely ''g'' ''c0'' sample_queues sample_ids)
     @ share (allocate_averagely ''g'' ''c1'' sample_queues sample_ids) = sample_queues"
  using averagely_partition [OF sample_ids_ok, of "''g''" sample_queues] by (simp add: sample_ids_def)

lemma no_virtual_nodes:
  assumes "consumer_ids cids" and "\<not> 0 <s n"
  shows "share (allocate_consistent_hash \<lparr>ch_virtual_node_cnt = n, ch_custom_hash_function = f\<rparr> g c mqs cids) = []"
proof -
  have empty: "router_with_hash_function h cids n [] = Inr []" if "n = 0" for h
    using router_ok [of n "[]" h cids] that by (auto simp: ring_inv_def word_sless_alt)
  have err: "isl (router_with_hash_function h cids n [])" if "n <s 0" for h
    using that assms(1) by (cases cids) (simp_all add: consumer_ids_def add_node_def)
  have "n = 0 \<or> n <s 0"
    using assms(2) by (metis linorder_neqE signed_word_eqI sint_0 word_sless_alt)
  then show ?thesis
    using empty [of md5_hash] empty [of "the f"] err [of md5_hash] err [of "the f"]
    by (cases f) (auto simp: allocate_consistent_hash_def router_new_def route_node_def isl_def)
qed

lemma some_nodes_strategy:
  "0 <s n \<Longrightarrow> hash_strategy \<lparr>ch_virtual_node_cnt = n, ch_custom_hash_function = f\<rparr>"
  by unfold_locales simp

lemma hash_unique_owner:
  assumes "0 <s n" and "consumer_ids cids" and "distinct mqs" and "q \<in> set mqs"
  shows "\<exists>!c. c \<in> set cids \<and> q \<in> set (share (allocate_consistent_hash
     \<lparr>ch_virtual_node_cnt = n, ch_custom_hash_function = f\<rparr> g c mqs cids))"
  by (rule hash_strategy.hash_owner [OF some_nodes_strategy [OF assms(1)] assms(2-4)])

text \<open>
  C29. Under the circular strategy, and under the consistent-hash strategy with at least one virtual node per consumer and
  any hash function, every queue of a topic without repetitions goes to exactly one consumer of the group. With no virtual
  node the ring is empty and it goes to nobody.
\<close>
theorem unique_owner:
  assumes "consumer_ids cids" and "distinct mqs" and "q \<in> set mqs"
  shows "(\<exists>!c. c \<in> set cids \<and> q \<in> set (share (allocate_by_circle g c mqs cids)))
    \<and> (if 0 <s n
       then \<exists>!c. c \<in> set cids \<and> q \<in> set (share (allocate_consistent_hash
              \<lparr>ch_virtual_node_cnt = n, ch_custom_hash_function = f\<rparr> g c mqs cids))
       else \<nexists>c. c \<in> set cids \<and> q \<in> set (share (allocate_consistent_hash
              \<lparr>ch_virtual_node_cnt = n, ch_custom_hash_function = f\<rparr> g c mqs cids)))"
  using circle.alloc_unique_owner [OF assms] hash_unique_owner [OF _ assms] no_virtual_nodes [OF assms(1)] by simp

theorem unique_owner_witness:
  "\<exists>!c. c \<in> set sample_ids \<and> sample_queues ! 3 \<in> set (share (allocate_consistent_hash
     \<lparr>ch_virtual_node_cnt = 3, ch_custom_hash_function = None\<rparr> ''g'' c sample_queues sample_ids))"
proof -
  have "distinct sample_queues" "sample_queues ! 3 \<in> set sample_queues"
    by code_simp+
  then show ?thesis
    using unique_owner [OF sample_ids_ok, of sample_queues "sample_queues ! 3" "''g''" 3 None]
    by (simp add: word_sless_alt)
qed

text \<open>
  A consistent-hash strategy with at least one virtual node per consumer partitions the queues whatever the
  hash function; with none the ring is empty and nobody gets a queue.
\<close>
theorem consistent_hash_partition:
  assumes "consumer_ids cids"
  shows "(\<Sum>c\<in>set cids. mset (share (allocate_consistent_hash \<lparr>ch_virtual_node_cnt = n, ch_custom_hash_function = f\<rparr> g c mqs cids))) =
    (if 0 <s n then mset mqs else {#})"
proof (cases "0 <s n")
  case True
  from hash_strategy.hash_partition [OF some_nodes_strategy [OF this] assms] True show ?thesis by simp
next
  case False
  then show ?thesis
    using no_virtual_nodes [OF assms] by simp
qed

theorem consistent_hash_partition_witness:
  "(\<Sum>c\<in>set sample_ids. mset (share (allocate_consistent_hash
      \<lparr>ch_virtual_node_cnt = 3, ch_custom_hash_function = Some sum_hash\<rparr> ''g'' c sample_queues sample_ids))) =
    mset sample_queues"
  using consistent_hash_partition [OF sample_ids_ok, of 3 "Some sum_hash" "''g''" sample_queues]
  by (simp add: word_sless_alt)

text \<open>
  The machine-room strategy partitions exactly the queues whose broker lies in a configured room, and neither
  its slice nor its index is out of range.
\<close>
theorem machine_room_partition:
  assumes "consumer_ids cids"
  shows "(\<Sum>c\<in>set cids. mset (share (allocate_by_machine_room rooms g c mqs cids))) = mset (filter (in_rooms rooms) mqs)
    \<and> list_all (\<lambda>c. no_panic (allocate_by_machine_room rooms g c mqs cids)) cids"
proof -
  have "no_panic (allocate_by_machine_room rooms g c mqs cids)" if "c \<in> set cids" for c
    using machine_room.alloc_total [OF assms that, of rooms g mqs] by auto
  then show ?thesis
    using machine_room.alloc_partition [OF assms, of rooms g mqs] by (simp add: list_all_iff)
qed

theorem machine_room_partition_witness:
  "mset (share (allocate_by_machine_room {''r1''} ''g'' ''c0'' sample_queues sample_ids))
     + mset (share (allocate_by_machine_room {''r1''} ''g'' ''c1'' sample_queues sample_ids)) = mset sample_queues"
proof -
  have "filter (in_rooms {''r1''}) sample_queues = sample_queues"
    by code_simp
  then show ?thesis
    using machine_room_partition [OF sample_ids_ok, of "{''r1''}" "''g''" sample_queues]
    by (simp add: sample_ids_def)
qed

text \<open>
  The nearby proxy over the average strategy loses no queue and hands none out twice, also the queues of rooms
  without consumers, when the resolver knows every room.
\<close>
theorem nearby_averagely_partition:
  assumes "consumer_ids cids"
    and "list_all (\<lambda>q. broker_deploy_in q \<noteq> []) mqs" and "list_all (\<lambda>c. consumer_deploy_in c \<noteq> []) cids"
  shows "(\<Sum>c\<in>set cids. mset (share (allocate_nearby broker_deploy_in consumer_deploy_in allocate_averagely g c mqs cids))) =
    mset mqs"
  using assms by (intro avg.nearby_partition) (simp_all add: list_all_iff)

theorem nearby_averagely_partition_witness:
  "mset (share (allocate_nearby mq_broker_name (\<lambda>c. c) allocate_averagely ''g'' ''c0'' sample_queues sample_ids))
     + mset (share (allocate_nearby mq_broker_name (\<lambda>c. c) allocate_averagely ''g'' ''c1'' sample_queues sample_ids)) =
   mset sample_queues"
proof -
  have "list_all (\<lambda>q. mq_broker_name q \<noteq> []) sample_queues" "list_all (\<lambda>c. c \<noteq> []) sample_ids"
    by code_simp+
  from nearby_averagely_partition [OF sample_ids_ok this, of "''g''"] show ?thesis
    by (simp add: sample_ids_def)
qed

end
