(* ===== verification/Backpressure.thy ===== *)
theory Backpressure
  imports Message
begin

text \<open>
  The fair semaphore of \<open>src/rust/src/client/backpressure.rs\<close>. The operations under the mutex are functions on the
  state; \<open>sem_step\<close> is the interleaving of the tasks that run \<open>try_acquire\<close>, \<open>release\<close> and \<open>set_total_permits\<close>:
  one rule per stretch of code between two points where another task can run. A ticket number is a \<open>nat\<close>, since
  \<open>2 ^ 64\<close> tickets are never drawn; permits keep their width. The clock is left open: a task that sleeps may run
  out of budget at any moment.
\<close>

section \<open>The state and its operations\<close>

record sem_state =
  s_total :: i64
  s_free :: i64
  s_queue :: "nat list"

record fair_semaphore =
  f_state :: sem_state
  f_next_id :: nat

definition semaphore_new :: "i64 \<Rightarrow> fair_semaphore" where
  "semaphore_new permits =
     \<lparr>f_state = \<lparr>s_total = permits, s_free = permits, s_queue = []\<rparr>, f_next_id = 1\<rparr>"

text \<open>
  A ticket is drawn and queued in two steps, the first atomic and the second under the lock, so tickets can enter the
  queue in another order than they were drawn.
\<close>

definition ticket_new :: "fair_semaphore \<Rightarrow> nat \<times> fair_semaphore" where
  "ticket_new sem = (f_next_id sem, sem\<lparr>f_next_id := f_next_id sem + 1\<rparr>)"

definition ticket_queue :: "nat \<Rightarrow> fair_semaphore \<Rightarrow> fair_semaphore" where
  "ticket_queue ticket sem = (let st = f_state sem in sem\<lparr>f_state := st\<lparr>s_queue := s_queue st @ [ticket]\<rparr>\<rparr>)"

definition grant_if_head :: "nat \<Rightarrow> i64 \<Rightarrow> fair_semaphore \<Rightarrow> bool \<times> fair_semaphore" where
  "grant_if_head ticket permits sem =
     (let st = f_state sem;
          at_head = (case s_queue st of [] \<Rightarrow> False | pending # _ \<Rightarrow> pending = ticket)
      in if at_head \<and> permits \<le>s s_free st
         then (True, sem\<lparr>f_state := st\<lparr>s_queue := tl (s_queue st), s_free := s_free st - permits\<rparr>\<rparr>)
         else (False, sem))"

text \<open>The first component tells whether the waiters are notified.\<close>

definition release_permits :: "i64 \<Rightarrow> fair_semaphore \<Rightarrow> bool \<times> fair_semaphore" where
  "release_permits permits sem =
     (if permits \<le>s 0 then (False, sem)
      else let st = f_state sem in (True, sem\<lparr>f_state := st\<lparr>s_free := s_free st + permits\<rparr>\<rparr>))"

definition set_total_permits :: "i64 \<Rightarrow> fair_semaphore \<Rightarrow> bool \<times> fair_semaphore" where
  "set_total_permits new_total sem =
     (let st = f_state sem
      in (True, sem\<lparr>f_state := st\<lparr>s_free := s_free st + (new_total - s_total st), s_total := new_total\<rparr>\<rparr>))"

definition ticket_drop :: "nat \<Rightarrow> fair_semaphore \<Rightarrow> bool \<times> fair_semaphore" where
  "ticket_drop ticket sem =
     (let st = f_state sem
      in if ticket \<in> set (s_queue st)
         then (True, sem\<lparr>f_state := st\<lparr>s_queue := remove1 ticket (s_queue st)\<rparr>\<rparr>)
         else (False, sem))"

definition available_permits :: "fair_semaphore \<Rightarrow> i64" where
  "available_permits sem = s_free (f_state sem)"

definition waiting_count :: "fair_semaphore \<Rightarrow> nat" where
  "waiting_count sem = length (s_queue (f_state sem))"

definition MIN_ASYNC_SEND_NUM :: i64 where "MIN_ASYNC_SEND_NUM = 10"
definition MIN_ASYNC_SEND_SIZE :: i64 where "MIN_ASYNC_SEND_SIZE = 1024 * 1024"

definition back_pressure_permits :: "i64 \<Rightarrow> i64 \<Rightarrow> i64" where
  "back_pressure_permits configured least = (if least <s configured then configured else least)"

text \<open>What an asynchronous send asks for, in \<open>client/producer.rs\<close>: its length in bytes, at least 1.\<close>

definition back_pressure_msg_len :: "'a message_scheme \<Rightarrow> i64" where
  "back_pressure_msg_len msg =
     (let len = length (get_body msg)
      in if len = 0 then 1 else if len < 2 ^ 63 then of_nat len else 2 ^ 63 - 1)"

definition saturating_add :: "i64 \<Rightarrow> i64 \<Rightarrow> i64" where
  "saturating_add a b = word_of_int (max (- (2 ^ 63)) (min (2 ^ 63 - 1) (sint a + sint b)))"

definition batch_back_pressure_msg_len :: "message list \<Rightarrow> i64" where
  "batch_back_pressure_msg_len msgs =
     (let n = fold (\<lambda>msg n. saturating_add n (back_pressure_msg_len msg)) msgs 0
      in if n = 0 then 1 else n)"

section \<open>Tasks\<close>

text \<open>
  Where a task inside \<open>try_acquire\<close> stands: at the top of its loop, with its wake-up credential registered, or
  asleep on it. The flag of the last two says whether the credential has been notified.
\<close>

datatype phase = Start | Enabled bool | Asleep bool

text \<open>\<open>y_drawn\<close> are the tickets that are drawn and not yet queued; \<open>y_notify\<close> counts the \<open>notify_waiters\<close> calls that follow an update already made; \<open>y_held\<close> are the permits handed
  out and not yet released. A send asks for a positive number of permits (lemma \<open>back_pressure_msg_len_pos\<close>) and
  releases what it was granted.\<close>

record sem_system =
  y_sem :: fair_semaphore
  y_drawn :: "nat \<rightharpoonup> i64"
  y_tasks :: "nat \<rightharpoonup> i64 \<times> phase"
  y_notify :: nat
  y_held :: "i64 list"

fun notified :: "phase \<Rightarrow> phase" where
  "notified Start = Start"
| "notified (Enabled _) = Enabled True"
| "notified (Asleep _) = Asleep True"

definition notify_waiters :: "(nat \<rightharpoonup> i64 \<times> phase) \<Rightarrow> (nat \<rightharpoonup> i64 \<times> phase)" where
  "notify_waiters tasks = (\<lambda>i. map_option (\<lambda>(p, ph). (p, notified ph)) (tasks i))"

definition notify_if :: "bool \<Rightarrow> nat \<Rightarrow> nat" where
  "notify_if b n = (if b then n + 1 else n)"

inductive sem_step :: "sem_system \<Rightarrow> sem_system \<Rightarrow> bool" where
  draw: "0 <s permits \<Longrightarrow> ticket_new (y_sem s) = (ticket, sem) \<Longrightarrow>
    sem_step s (s\<lparr>y_sem := sem, y_drawn := (y_drawn s)(ticket \<mapsto> permits)\<rparr>)"
| arrive: "y_drawn s ticket = Some permits \<Longrightarrow>
    sem_step s (s\<lparr>y_sem := ticket_queue ticket (y_sem s), y_drawn := (y_drawn s)(ticket := None),
      y_tasks := (y_tasks s)(ticket \<mapsto> (permits, Start))\<rparr>)"
| enable: "y_tasks s ticket = Some (permits, Start) \<Longrightarrow>
    sem_step s (s\<lparr>y_tasks := (y_tasks s)(ticket \<mapsto> (permits, Enabled False))\<rparr>)"
| granted: "y_tasks s ticket = Some (permits, Enabled n) \<Longrightarrow> grant_if_head ticket permits (y_sem s) = (True, sem) \<Longrightarrow>
    sem_step s (s\<lparr>y_sem := sem, y_tasks := (y_tasks s)(ticket := None), y_notify := y_notify s + 1,
      y_held := permits # y_held s\<rparr>)"
| refused: "y_tasks s ticket = Some (permits, Enabled n) \<Longrightarrow> grant_if_head ticket permits (y_sem s) = (False, sem) \<Longrightarrow>
    sem_step s (s\<lparr>y_sem := sem, y_tasks := (y_tasks s)(ticket \<mapsto> (permits, Asleep n))\<rparr>)"
| wake: "y_tasks s ticket = Some (permits, Asleep True) \<Longrightarrow>
    sem_step s (s\<lparr>y_tasks := (y_tasks s)(ticket \<mapsto> (permits, Start))\<rparr>)"
| give_up: "y_tasks s ticket = Some (permits, Asleep n) \<Longrightarrow> ticket_drop ticket (y_sem s) = (removed, sem) \<Longrightarrow>
    sem_step s (s\<lparr>y_sem := sem, y_tasks := (y_tasks s)(ticket := None), y_notify := notify_if removed (y_notify s)\<rparr>)"
| notify: "0 < y_notify s \<Longrightarrow>
    sem_step s (s\<lparr>y_tasks := notify_waiters (y_tasks s), y_notify := y_notify s - 1\<rparr>)"
| release: "permits \<in> set (y_held s) \<Longrightarrow> release_permits permits (y_sem s) = (b, sem) \<Longrightarrow>
    sem_step s (s\<lparr>y_sem := sem, y_notify := notify_if b (y_notify s), y_held := remove1 permits (y_held s)\<rparr>)"
| resize: "set_total_permits new_total (y_sem s) = (b, sem) \<Longrightarrow>
    sem_step s (s\<lparr>y_sem := sem, y_notify := notify_if b (y_notify s)\<rparr>)"

definition sem_init :: "i64 \<Rightarrow> sem_system" where
  "sem_init permits = \<lparr>y_sem = semaphore_new permits, y_drawn = Map.empty, y_tasks = Map.empty, y_notify = 0, y_held = []\<rparr>"

abbreviation sem_reach :: "i64 \<Rightarrow> sem_system \<Rightarrow> bool" where
  "sem_reach permits s \<equiv> sem_step\<^sup>*\<^sup>* (sem_init permits) s"

section \<open>Invariants\<close>

definition sem_queue :: "sem_system \<Rightarrow> nat list" where
  "sem_queue s = s_queue (f_state (y_sem s))"

definition sem_free :: "sem_system \<Rightarrow> i64" where
  "sem_free s = s_free (f_state (y_sem s))"

text \<open>The queue holds the tickets of the waiting tasks, each once.\<close>

definition queue_inv :: "sem_system \<Rightarrow> bool" where
  "queue_inv s \<longleftrightarrow> dom (y_tasks s) = set (sem_queue s) \<and> distinct (sem_queue s)
     \<and> dom (y_drawn s) \<inter> set (sem_queue s) = {}
     \<and> (\<forall>i \<in> set (sem_queue s) \<union> dom (y_drawn s). i < f_next_id (y_sem s))"

text \<open>A head that sleeps without having been notified could not take its permits, unless a notification is due.\<close>

definition wakeup_inv :: "sem_system \<Rightarrow> bool" where
  "wakeup_inv s \<longleftrightarrow> (0 < y_notify s \<or> (\<forall>ticket q p. sem_queue s = ticket # q \<longrightarrow>
     y_tasks s ticket = Some (p, Asleep False) \<longrightarrow> sem_free s <s p))"

definition balance_inv :: "sem_system \<Rightarrow> bool" where
  "balance_inv s \<longleftrightarrow> sem_free s + sum_list (y_held s) = s_total (f_state (y_sem s))"

text \<open>Requested and held permits are positive.\<close>

definition held_pos :: "sem_system \<Rightarrow> bool" where
  "held_pos s \<longleftrightarrow> (\<forall>p \<in> set (y_held s). 0 <s p) \<and> (\<forall>i p ph. y_tasks s i = Some (p, ph) \<longrightarrow> 0 <s p)
     \<and> (\<forall>i p. y_drawn s i = Some p \<longrightarrow> 0 <s p)"

lemmas sem_defs = ticket_new_def ticket_queue_def grant_if_head_def release_permits_def set_total_permits_def ticket_drop_def
  sem_queue_def sem_free_def Let_def

lemma queue_inv_step: "sem_step s t \<Longrightarrow> queue_inv s \<Longrightarrow> queue_inv t"
proof (induction rule: sem_step.induct)
  case (draw permits s ticket sem)
  then show ?case by (auto simp: queue_inv_def sem_defs less_Suc_eq)
next
  case (arrive s ticket permits)
  then show ?case by (auto simp: queue_inv_def sem_defs dom_def)
next
  case (granted s ticket permits n sem)
  then show ?case
    by (auto simp: queue_inv_def sem_defs split: list.splits if_splits)
next
  case (give_up s ticket permits n removed sem)
  then show ?case
    by (auto simp: queue_inv_def sem_defs split: if_splits)
next
  case (release permits s b sem)
  then show ?case by (auto simp: queue_inv_def sem_defs split: if_splits)
next
  case (notify s)
  then show ?case by (auto simp: queue_inv_def sem_defs notify_waiters_def dom_def)
qed (auto simp: queue_inv_def sem_defs split: if_splits)

lemma wakeup_inv_step: "sem_step s t \<Longrightarrow> queue_inv s \<Longrightarrow> wakeup_inv s \<Longrightarrow> wakeup_inv t"
proof (induction rule: sem_step.induct)
  case (arrive s ticket permits)
  then have "ticket \<notin> set (sem_queue s)"
    by (auto simp: queue_inv_def)
  with arrive show ?case
    by (cases "sem_queue s") (auto simp: wakeup_inv_def sem_defs)
next
  case (refused s ticket permits n sem)
  then show ?case
    by (auto simp: wakeup_inv_def sem_defs word_sless_alt word_sle_eq split: list.splits if_splits)
next
  case (give_up s ticket permits n removed sem)
  then show ?case
    by (auto simp: wakeup_inv_def queue_inv_def sem_defs notify_if_def split: if_splits)
next
  case (notify s)
  have "notify_waiters (y_tasks s) i \<noteq> Some (p, Asleep False)" for i p
  proof -
    have "notified ph \<noteq> Asleep False" for ph
      by (cases ph) auto
    then show ?thesis by (auto simp: notify_waiters_def)
  qed
  then show ?case by (auto simp: wakeup_inv_def sem_defs)
next
  case (release permits s b sem)
  then show ?case
    by (auto simp: wakeup_inv_def sem_defs notify_if_def split: if_splits)
qed (auto simp: wakeup_inv_def sem_defs notify_if_def split: if_splits)

lemma sum_list_remove1: "p \<in> set ps \<Longrightarrow> sum_list (remove1 p ps) = sum_list ps - (p :: i64)"
  by (induction ps) auto

lemma balance_inv_step: "sem_step s t \<Longrightarrow> held_pos s \<Longrightarrow> balance_inv s \<Longrightarrow> balance_inv t"
proof (induction rule: sem_step.induct)
  case (granted s ticket permits n sem)
  then show ?case
    by (auto simp: balance_inv_def sem_defs algebra_simps split: list.splits if_splits)
next
  case (give_up s ticket permits n removed sem)
  then show ?case by (auto simp: balance_inv_def sem_defs split: if_splits)
next
  case (release permits s b sem)
  then have "0 <s permits"
    by (simp add: held_pos_def)
  with release show ?case
    by (auto simp: balance_inv_def sem_defs sum_list_remove1 word_sless_alt word_sle_eq split: if_splits)
qed (auto simp: balance_inv_def sem_defs algebra_simps split: if_splits)

lemma held_pos_step: "sem_step s t \<Longrightarrow> held_pos s \<Longrightarrow> held_pos t"
proof (induction rule: sem_step.induct)
  case (notify s)
  then show ?case by (auto simp: held_pos_def notify_waiters_def)
next
  case (release permits s b sem)
  then show ?case by (auto simp: held_pos_def dest: set_mp [OF set_remove1_subset])
qed (auto simp: held_pos_def)

definition sem_inv :: "sem_system \<Rightarrow> bool" where
  "sem_inv s \<longleftrightarrow> queue_inv s \<and> wakeup_inv s \<and> held_pos s \<and> balance_inv s"

lemma sem_inv_init: "sem_inv (sem_init permits)"
  by (simp add: sem_inv_def queue_inv_def wakeup_inv_def held_pos_def balance_inv_def sem_init_def
      semaphore_new_def sem_defs)

lemma sem_inv_reach: "sem_reach permits s \<Longrightarrow> sem_inv s"
proof (induction rule: rtranclp_induct)
  case base
  then show ?case by (rule sem_inv_init)
next
  case (step s t)
  then show ?case
    unfolding sem_inv_def
    using queue_inv_step wakeup_inv_step held_pos_step balance_inv_step by blast
qed

section \<open>A fixed capacity is never exceeded\<close>

lemma back_pressure_msg_len_pos: "0 <s back_pressure_msg_len msg"
  by (auto simp: back_pressure_msg_len_def Let_def word_sless_alt sint_of_nat_small)

text \<open>Steps that do not change the capacity.\<close>

definition fixed_step :: "sem_system \<Rightarrow> sem_system \<Rightarrow> bool" where
  "fixed_step s t \<longleftrightarrow> sem_step s t \<and> s_total (f_state (y_sem t)) = s_total (f_state (y_sem s))"

definition capacity_inv :: "sem_system \<Rightarrow> bool" where
  "capacity_inv s \<longleftrightarrow> held_pos s \<and> 0 \<le> sint (sem_free s)
     \<and> sint (sem_free s) + sum_list (map sint (y_held s)) = sint (s_total (f_state (y_sem s)))"

lemma sum_list_sint_remove1:
  "p \<in> set ps \<Longrightarrow> sum_list (map sint (remove1 p ps)) = sum_list (map sint ps) - sint (p :: i64)"
  by (induction ps) auto

lemma capacity_inv_step:
  assumes "fixed_step s t" and inv: "capacity_inv s"
  shows "capacity_inv t"
proof -
  have step: "sem_step s t" and fixed: "s_total (f_state (y_sem t)) = s_total (f_state (y_sem s))"
    using assms(1) by (simp_all add: fixed_step_def)
  have pos: "held_pos t"
    using held_pos_step [OF step] inv by (simp add: capacity_inv_def)
  have sum_pos: "0 \<le> sum_list (map sint (remove1 p (y_held s)))" for p
    using inv by (intro sum_list_nonneg)
      (auto simp: capacity_inv_def held_pos_def word_sless_alt dest!: set_mp [OF set_remove1_subset] bspec)
  from step fixed show ?thesis
  proof (cases rule: sem_step.cases)
    case (granted ticket permits n sem)
    then have "sem_free t = sem_free s - permits" "sint permits \<le> sint (sem_free s)" "0 < sint permits"
      using inv by (auto simp: sem_defs capacity_inv_def held_pos_def word_sle_eq word_sless_alt
          split: list.splits if_splits)
    moreover have "sint (sem_free s - permits) = sint (sem_free s) - sint permits"
      using calculation sint_range_64 [of "sem_free s"] by (intro sint_diff_64) linarith+
    ultimately show ?thesis
      using inv pos fixed granted(1) by (simp add: capacity_inv_def)
  next
    case (release permits b sem)
    then have "0 < sint permits"
      using inv by (auto simp: capacity_inv_def held_pos_def word_sless_alt)
    then have free: "sem_free t = sem_free s + permits"
      using release by (auto simp: sem_defs word_sle_eq split: if_splits)
    have "sint (sem_free s) + sint permits \<le> sint (s_total (f_state (y_sem s)))"
      using inv release(2) sum_pos [of permits] by (simp add: capacity_inv_def sum_list_sint_remove1)
    then have "sint (sem_free s + permits) = sint (sem_free s) + sint permits"
      using \<open>0 < sint permits\<close> inv sint_range_64 [of "s_total (f_state (y_sem s))"]
      by (intro sint_add_64) (auto simp: capacity_inv_def)
    then show ?thesis
      using inv pos fixed release \<open>0 < sint permits\<close> free
      by (simp add: capacity_inv_def sum_list_sint_remove1)
  qed (use inv pos in \<open>auto simp: capacity_inv_def sem_defs notify_waiters_def split: if_splits\<close>)
qed

lemma capacity_inv_init: "0 \<le>s permits \<Longrightarrow> capacity_inv (sem_init permits)"
  by (simp add: capacity_inv_def held_pos_def sem_init_def semaphore_new_def sem_defs word_sle_eq)

lemma capacity_inv_reach:
  "0 \<le>s permits \<Longrightarrow> fixed_step\<^sup>*\<^sup>* (sem_init permits) s \<Longrightarrow> capacity_inv s"
  by (erule rtranclp_induct) (auto intro: capacity_inv_init capacity_inv_step)

section \<open>The head gets its permits\<close>

text \<open>
  What the task at the head does by itself, and the delivery of a notification that is due. The rank of a task falls with
  each of these until it has its permits.
\<close>

inductive own_step :: "nat \<Rightarrow> sem_system \<Rightarrow> sem_system \<Rightarrow> bool" for ticket where
  own_enable: "y_tasks s ticket = Some (permits, Start) \<Longrightarrow>
    own_step ticket s (s\<lparr>y_tasks := (y_tasks s)(ticket \<mapsto> (permits, Enabled False))\<rparr>)"
| own_granted: "y_tasks s ticket = Some (permits, Enabled n) \<Longrightarrow> grant_if_head ticket permits (y_sem s) = (True, sem) \<Longrightarrow>
    own_step ticket s (s\<lparr>y_sem := sem, y_tasks := (y_tasks s)(ticket := None), y_notify := y_notify s + 1,
      y_held := permits # y_held s\<rparr>)"
| own_refused: "y_tasks s ticket = Some (permits, Enabled n) \<Longrightarrow> grant_if_head ticket permits (y_sem s) = (False, sem) \<Longrightarrow>
    own_step ticket s (s\<lparr>y_sem := sem, y_tasks := (y_tasks s)(ticket \<mapsto> (permits, Asleep n))\<rparr>)"
| own_wake: "y_tasks s ticket = Some (permits, Asleep True) \<Longrightarrow>
    own_step ticket s (s\<lparr>y_tasks := (y_tasks s)(ticket \<mapsto> (permits, Start))\<rparr>)"

definition notify_step :: "sem_system \<Rightarrow> sem_system \<Rightarrow> bool" where
  "notify_step s t \<longleftrightarrow> 0 < y_notify s \<and> t = s\<lparr>y_tasks := notify_waiters (y_tasks s), y_notify := y_notify s - 1\<rparr>"

lemma own_is_step: "own_step ticket s t \<Longrightarrow> sem_step s t"
  by (auto intro: sem_step.intros elim!: own_step.cases)

lemma notify_is_step: "notify_step s t \<Longrightarrow> sem_step s t"
  unfolding notify_step_def by (metis sem_step.notify)

fun phase_rank :: "phase \<Rightarrow> nat" where
  "phase_rank (Enabled _) = 1"
| "phase_rank Start = 2"
| "phase_rank (Asleep b) = (if b then 3 else 4)"

lemma notified_rank: "phase_rank (notified ph) \<le> phase_rank ph"
  by (cases ph) auto

text \<open>The task stands at the head with enough permits free.\<close>

definition can_be_served :: "nat \<Rightarrow> i64 \<Rightarrow> phase \<Rightarrow> sem_system \<Rightarrow> bool" where
  "can_be_served ticket p ph s \<longleftrightarrow> (\<exists>q. sem_queue s = ticket # q) \<and> y_tasks s ticket = Some (p, ph) \<and> p \<le>s sem_free s"

definition served :: "nat \<Rightarrow> i64 \<Rightarrow> sem_system \<Rightarrow> sem_system \<Rightarrow> bool" where
  "served ticket p s t \<longleftrightarrow> y_tasks s ticket \<noteq> None \<and> y_tasks t ticket = None \<and> y_held t = p # y_held s"

definition gave_up :: "nat \<Rightarrow> sem_system \<Rightarrow> sem_system \<Rightarrow> bool" where
  "gave_up ticket s t \<longleftrightarrow> y_tasks s ticket \<noteq> None \<and> y_tasks t ticket = None \<and> y_held t = y_held s"

text \<open>Nobody can take that away: whatever step is made next, the task is served, gives up, or is still at the head with
  enough permits free and as close to them as before.\<close>

lemma can_be_served_stable:
  assumes "fixed_step s t" and "capacity_inv s" and "queue_inv s" and "can_be_served ticket p ph s"
  shows "served ticket p s t \<or> gave_up ticket s t \<or> (\<exists>ph'. can_be_served ticket p ph' t \<and> phase_rank ph' \<le> phase_rank ph)"
proof -
  have step: "sem_step s t" and fixed: "s_total (f_state (y_sem t)) = s_total (f_state (y_sem s))"
    using assms(1) by (simp_all add: fixed_step_def)
  obtain q where head: "sem_queue s = ticket # q" "y_tasks s ticket = Some (p, ph)" "p \<le>s sem_free s"
    using assms(4) by (auto simp: can_be_served_def)
  have front: "ticket \<notin> set q"
    using assms(3) head(1) by (simp add: queue_inv_def)
  from step fixed show ?thesis
  proof (cases rule: sem_step.cases)
    case (draw permits i sem)
    then show ?thesis using head by (auto simp: can_be_served_def sem_defs)
  next
    case (arrive i permits)
    then have "i \<noteq> ticket"
      using assms(3) head(1) by (auto simp: queue_inv_def)
    then show ?thesis using arrive head by (auto simp: can_be_served_def sem_defs)
  next
    case (enable i permits)
    then show ?thesis using head by (cases "i = ticket") (auto simp: can_be_served_def sem_defs)
  next
    case (granted i permits n sem)
    then have "i = ticket"
      using head(1) by (auto simp: sem_defs split: if_splits)
    then show ?thesis using granted head by (auto simp: served_def)
  next
    case (refused i permits n sem)
    then have "i \<noteq> ticket"
      using head by (auto simp: sem_defs split: if_splits)
    then show ?thesis using refused head by (auto simp: can_be_served_def sem_defs split: if_splits)
  next
    case (wake i permits)
    then show ?thesis using head by (cases "i = ticket") (auto simp: can_be_served_def sem_defs)
  next
    case (give_up i permits n removed sem)
    then show ?thesis using head front
      by (cases "i = ticket") (auto simp: gave_up_def can_be_served_def sem_defs split: if_splits)
  next
    case notify
    then show ?thesis using head notified_rank [of ph]
      by (auto simp: can_be_served_def sem_defs notify_waiters_def)
  next
    case (release permits b sem)
    have "capacity_inv t"
      by (rule capacity_inv_step [OF assms(1,2)])
    then have "sem_free t = sem_free s + permits \<and> sint (sem_free s) \<le> sint (sem_free t) \<or> sem_free t = sem_free s"
      using assms(2) release fixed
      by (auto simp: capacity_inv_def held_pos_def word_sless_alt sum_list_sint_remove1 sem_defs split: if_splits)
    then have "p \<le>s sem_free t"
      using head(3) by (auto simp: word_sle_eq)
    then show ?thesis using release head by (auto simp: can_be_served_def sem_defs split: if_splits)
  next
    case (resize new_total b sem)
    then show ?thesis using head fixed by (auto simp: can_be_served_def sem_defs)
  qed
qed

lemma own_enabled:
  assumes "can_be_served ticket p ph s" and "ph \<noteq> Asleep False"
  shows "\<exists>t. own_step ticket s t"
proof (cases ph)
  case Start
  then show ?thesis using assms by (auto simp: can_be_served_def intro: own_enable)
next
  case (Enabled n)
  then show ?thesis using assms
    by (cases "grant_if_head ticket p (y_sem s)"; cases "fst (grant_if_head ticket p (y_sem s))")
      (auto simp: can_be_served_def intro: own_granted own_refused)
next
  case (Asleep n)
  then show ?thesis using assms by (cases n) (auto simp: can_be_served_def intro: own_wake)
qed

lemma own_step_falls:
  assumes "own_step ticket s t" and "can_be_served ticket p ph s"
  shows "served ticket p s t \<or> (\<exists>ph'. can_be_served ticket p ph' t \<and> phase_rank ph' < phase_rank ph)"
  using assms
  by (cases rule: own_step.cases) (auto simp: can_be_served_def served_def sem_defs split: if_splits)

lemma notify_step_falls:
  assumes "notify_step s t" and "can_be_served ticket p (Asleep False) s"
  shows "can_be_served ticket p (Asleep True) t"
  using assms by (auto simp: notify_step_def can_be_served_def sem_defs notify_waiters_def)

lemma notify_enabled:
  assumes "wakeup_inv s" and "can_be_served ticket p (Asleep False) s"
  shows "\<exists>t. notify_step s t"
  using assms by (auto simp: wakeup_inv_def can_be_served_def notify_step_def word_sless_alt word_sle_eq)

text \<open>A step of a kind is weakly fair in a run if it is not left undone while it stays possible.\<close>

definition weakly_fair :: "(sem_system \<Rightarrow> sem_system \<Rightarrow> bool) \<Rightarrow> (nat \<Rightarrow> sem_system) \<Rightarrow> bool" where
  "weakly_fair step run \<longleftrightarrow> (\<forall>i. \<exists>j \<ge> i. step (run j) (run (Suc j)) \<or> (\<nexists>t. step (run j) t))"

lemma fair_rank_falls:
  assumes fair: "weakly_fair (own_step ticket) run" "weakly_fair notify_step run"
    and stay: "\<And>j. i \<le> j \<Longrightarrow> \<exists>ph'. can_be_served ticket p ph' (run j) \<and> phase_rank ph' \<le> phase_rank ph"
    and wake: "\<And>j. wakeup_inv (run j)"
    and unserved: "\<And>j. i \<le> j \<Longrightarrow> \<not> served ticket p (run j) (run (Suc j))"
  shows "\<exists>j \<ge> i. \<exists>ph'. can_be_served ticket p ph' (run j) \<and> phase_rank ph' < phase_rank ph"
proof (rule ccontr)
  assume "\<not> ?thesis"
  then have same: "\<exists>ph'. can_be_served ticket p ph' (run j) \<and> phase_rank ph' = phase_rank ph" if "i \<le> j" for j
    using stay [OF that] that by (meson le_neq_implies_less)
  show False
  proof (cases "ph = Asleep False")
    case True
    have asleep: "can_be_served ticket p (Asleep False) (run j)" if ij: "i \<le> j" for j
    proof -
      obtain ph' where "can_be_served ticket p ph' (run j)" "phase_rank ph' = 4"
        using same [OF ij] True by auto
      then show ?thesis by (cases ph') (auto split: if_splits)
    qed
    obtain j where j: "i \<le> j" "notify_step (run j) (run (Suc j))"
      using fair(2) notify_enabled [OF wake asleep] unfolding weakly_fair_def by meson
    then have "can_be_served ticket p (Asleep True) (run (Suc j))"
      using notify_step_falls asleep by blast
    then show False
      using asleep [of "Suc j"] j(1) by (simp add: can_be_served_def)
  next
    case False
    have "\<exists>t. own_step ticket (run j) t" if ij: "i \<le> j" for j
    proof -
      obtain ph' where ph': "can_be_served ticket p ph' (run j)" "phase_rank ph' = phase_rank ph"
        using same [OF ij] by blast
      then have "ph' \<noteq> Asleep False"
        using False by (cases ph; cases "ph = Asleep True") (auto split: if_splits)
      then show ?thesis using own_enabled ph'(1) by blast
    qed
    then obtain j where j: "i \<le> j" "own_step ticket (run j) (run (Suc j))"
      using fair(1) unfolding weakly_fair_def by meson
    obtain ph' where ph': "can_be_served ticket p ph' (run j)" "phase_rank ph' = phase_rank ph"
      using same [OF j(1)] by blast
    obtain ph'' where "can_be_served ticket p ph'' (run (Suc j))" "phase_rank ph'' < phase_rank ph'"
      using own_step_falls [OF j(2) ph'(1)] unserved [OF j(1)] by blast
    then show False
      using same [of "Suc j"] j(1) ph'(2) by (auto simp: can_be_served_def)
  qed
qed

section \<open>Properties\<close>

text \<open>
  C26. No wake-up is lost: in every reachable state in which no notification is due, a waiter that sleeps
  un-notified at the head of the queue asks for more permits than are free.
\<close>
theorem no_lost_wakeup:
  assumes "sem_reach permits s" and "y_notify s = 0" and "sem_queue s = ticket # q"
    and "y_tasks s ticket = Some (p, Asleep False)"
  shows "sem_free s <s p"
  using sem_inv_reach [OF assms(1)] assms(2-4) by (auto simp: sem_inv_def wakeup_inv_def)

text \<open>One task that holds ticket 1 and asks for some permits where there is one.\<close>

definition one_task :: "i64 \<Rightarrow> nat list \<Rightarrow> (nat \<rightharpoonup> i64) \<Rightarrow> (nat \<rightharpoonup> i64 \<times> phase) \<Rightarrow> nat \<Rightarrow> i64 list \<Rightarrow> sem_system" where
  "one_task free queue drawn tasks notify held =
     \<lparr>y_sem = \<lparr>f_state = \<lparr>s_total = 1, s_free = free, s_queue = queue\<rparr>, f_next_id = 2\<rparr>,
      y_drawn = drawn, y_tasks = tasks, y_notify = notify, y_held = held\<rparr>"

lemma one_task_starts:
  assumes "0 <s p"
  shows "fixed_step (sem_init 1) (one_task 1 [] [1 \<mapsto> p] Map.empty 0 [])"
    and "fixed_step (one_task 1 [] [1 \<mapsto> p] Map.empty 0 []) (one_task 1 [1] Map.empty [1 \<mapsto> (p, Start)] 0 [])"
    and "fixed_step (one_task 1 [1] Map.empty [1 \<mapsto> (p, Start)] 0 []) (one_task 1 [1] Map.empty [1 \<mapsto> (p, Enabled False)] 0 [])"
proof -
  show "fixed_step (sem_init 1) (one_task 1 [] [1 \<mapsto> p] Map.empty 0 [])"
    using sem_step.draw [OF assms, of "sem_init 1" 1]
    by (simp add: fixed_step_def one_task_def sem_init_def semaphore_new_def ticket_new_def numeral_2_eq_2)
  show "fixed_step (one_task 1 [] [1 \<mapsto> p] Map.empty 0 []) (one_task 1 [1] Map.empty [1 \<mapsto> (p, Start)] 0 [])"
    using sem_step.arrive [of "one_task 1 [] [1 \<mapsto> p] Map.empty 0 []" 1 p]
    by (simp add: fixed_step_def one_task_def ticket_queue_def)
  show "fixed_step (one_task 1 [1] Map.empty [1 \<mapsto> (p, Start)] 0 []) (one_task 1 [1] Map.empty [1 \<mapsto> (p, Enabled False)] 0 [])"
    using sem_step.enable [of "one_task 1 [1] Map.empty [1 \<mapsto> (p, Start)] 0 []" 1 p]
    by (simp add: fixed_step_def one_task_def)
qed

definition sample_system :: sem_system where
  "sample_system = one_task 1 [1] Map.empty [1 \<mapsto> (5, Asleep False)] 0 []"

lemma sample_reach: "sem_reach 1 sample_system"
proof -
  have "sem_step (one_task 1 [1] Map.empty [1 \<mapsto> (5, Enabled False)] 0 []) sample_system"
    using sem_step.refused [of "one_task 1 [1] Map.empty [1 \<mapsto> (5, Enabled False)] 0 []" 1 5 False]
    by (simp add: grant_if_head_def sample_system_def one_task_def word_sle_eq)
  moreover have "0 <s (5 :: i64)"
    by (simp add: word_sless_alt)
  ultimately show ?thesis
    using one_task_starts [of 5] unfolding fixed_step_def
    by (meson rtranclp.rtrancl_into_rtrancl rtranclp.rtrancl_refl)
qed

theorem no_lost_wakeup_witness: "sem_free sample_system <s 5"
  using no_lost_wakeup [OF sample_reach, of 1 "[]" 5] by (simp add: sample_system_def one_task_def sem_queue_def)

text \<open>
  C27. The head of the queue gets its permits. In every run with a fixed capacity, from the moment that a task stands at
  the head and the free permits suffice for it, it is served, unless its budget runs out; others may arrive, release, time
  out and wake in between. All that is asked of the scheduler is that the task itself and a notification that is due are not
  put off for ever.
\<close>
theorem head_is_served:
  assumes "run 0 = sem_init permits" and "0 \<le>s permits" and "\<forall>i. fixed_step (run i) (run (Suc i))"
    and "weakly_fair (own_step ticket) run" and "weakly_fair notify_step run"
    and "sem_queue (run k) = ticket # q" and "y_tasks (run k) ticket = Some (p, ph)" and "p \<le>s sem_free (run k)"
  shows "\<exists>j \<ge> k. served ticket p (run j) (run (Suc j)) \<or> gave_up ticket (run j) (run (Suc j))"
proof (rule ccontr)
  assume "\<not> ?thesis"
  then have never: "\<not> served ticket p (run j) (run (Suc j))" "\<not> gave_up ticket (run j) (run (Suc j))" if "k \<le> j" for j
    using that by blast+
  have reach: "fixed_step\<^sup>*\<^sup>* (sem_init permits) (run i)" for i
    using assms(1,3) by (induction i) (auto intro: rtranclp.rtrancl_into_rtrancl)
  have "sem_reach permits (run i)" for i
    using reach [of i] by (rule rtranclp_mono [THEN predicate2D, rotated]) (auto simp: fixed_step_def)
  then have inv: "queue_inv (run i)" "wakeup_inv (run i)" "capacity_inv (run i)" for i
    using sem_inv_reach capacity_inv_reach [OF assms(2) reach] by (auto simp: sem_inv_def)
  have stay: "\<exists>ph'. can_be_served ticket p ph' (run j) \<and> phase_rank ph' \<le> phase_rank ph"
    if "k \<le> i" "can_be_served ticket p ph (run i)" "i \<le> j" for i j ph
    using that(3)
  proof (induction rule: dec_induct)
    case base
    then show ?case using that(2) by blast
  next
    case (step j)
    then obtain ph' where ph': "can_be_served ticket p ph' (run j)" "phase_rank ph' \<le> phase_rank ph" by blast
    then show ?case
      using can_be_served_stable [OF assms(3) [THEN spec] inv(3,1) ph'(1)] never [of j] that(1) step(1) by (meson le_trans)
  qed
  have "False" if "k \<le> i" "can_be_served ticket p ph (run i)" for i ph
    using that
  proof (induction "phase_rank ph" arbitrary: i ph rule: less_induct)
    case less
    obtain j ph' where "i \<le> j" "can_be_served ticket p ph' (run j)" "phase_rank ph' < phase_rank ph"
      using fair_rank_falls [OF assms(4,5) stay [OF less(2,3)] inv(2) never(1)] less(2) by (meson le_trans)
    then show False using less(1) less(2) by (meson le_trans)
  qed
  then show False
    using assms(6-8) by (auto simp: can_be_served_def)
qed

text \<open>A run in which the task is served; afterwards the capacity is set to what it is, over and over.\<close>

definition sample_run :: "nat \<Rightarrow> sem_system" where
  "sample_run n =
     (if n = 0 then sem_init 1
      else if n = 1 then one_task 1 [] [1 \<mapsto> 1] Map.empty 0 []
      else if n = 2 then one_task 1 [1] Map.empty [1 \<mapsto> (1, Start)] 0 []
      else if n = 3 then one_task 1 [1] Map.empty [1 \<mapsto> (1, Enabled False)] 0 []
      else one_task 0 [] Map.empty Map.empty (if even n then 1 else 0) [1])"

lemma sample_run_later:
  assumes "4 \<le> n"
  shows "sample_run n = one_task 0 [] Map.empty Map.empty (if even n then 1 else 0) [1]"
  using assms by (simp add: sample_run_def)

lemma sample_run_steps: "fixed_step (sample_run i) (sample_run (Suc i))"
proof -
  have pos: "0 <s (1 :: i64)"
    by (simp add: word_sless_alt)
  have grant: "fixed_step (sample_run 3) (sample_run 4)"
    using sem_step.granted [of "one_task 1 [1] Map.empty [1 \<mapsto> (1, Enabled False)] 0 []" 1 1 False]
    by (simp add: fixed_step_def sample_run_def one_task_def grant_if_head_def)
  have notify: "fixed_step (one_task 0 [] Map.empty Map.empty 1 [1]) (one_task 0 [] Map.empty Map.empty 0 [1])"
    using sem_step.notify [of "one_task 0 [] Map.empty Map.empty 1 [1]"]
    by (simp add: fixed_step_def one_task_def notify_waiters_def)
  have resize: "fixed_step (one_task 0 [] Map.empty Map.empty 0 [1]) (one_task 0 [] Map.empty Map.empty 1 [1])"
    using sem_step.resize [of 1 "one_task 0 [] Map.empty Map.empty 0 [1]"]
    by (simp add: fixed_step_def one_task_def set_total_permits_def notify_if_def Let_def)
  consider "i = 0" | "i = 1" | "i = 2" | "i = 3" | "4 \<le> i"
    by linarith
  then show ?thesis
  proof cases
    case 5
    then show ?thesis using notify resize by (simp add: sample_run_later)
  qed (use one_task_starts [OF pos] grant in \<open>simp_all add: sample_run_def numeral_eq_Suc\<close>)
qed

lemma sample_run_fair: "weakly_fair (own_step 1) sample_run" "weakly_fair notify_step sample_run"
proof -
  have "\<not> own_step 1 (one_task 0 [] Map.empty Map.empty n [1]) t" for n t
    by (auto simp: one_task_def elim!: own_step.cases)
  then have "\<nexists>t. own_step 1 (sample_run (i + 4)) t" for i
    by (simp add: sample_run_later)
  then show "weakly_fair (own_step 1) sample_run"
    unfolding weakly_fair_def by (metis le_add1)
  have "\<nexists>t. notify_step (one_task 0 [] Map.empty Map.empty 0 [1]) t"
    by (simp add: notify_step_def one_task_def)
  then have "\<nexists>t. notify_step (sample_run (2 * i + 5)) t" for i
    by (simp add: sample_run_later)
  moreover have "i \<le> 2 * i + 5" for i :: nat
    by simp
  ultimately show "weakly_fair notify_step sample_run"
    unfolding weakly_fair_def by blast
qed

theorem head_is_served_witness:
  "\<exists>j \<ge> 2. served 1 1 (sample_run j) (sample_run (Suc j)) \<or> gave_up 1 (sample_run j) (sample_run (Suc j))"
proof -
  have "sample_run 0 = sem_init 1" "0 \<le>s (1 :: i64)" "sem_queue (sample_run 2) = [1]"
      "y_tasks (sample_run 2) 1 = Some (1, Start)" "1 \<le>s sem_free (sample_run 2)"
    by (simp_all add: sample_run_def one_task_def sem_queue_def sem_free_def word_sle_eq)
  then show ?thesis
    using head_is_served [of sample_run 1 1 2 "[]" 1 Start] sample_run_steps sample_run_fair by blast
qed

text \<open>
  No waiter and no permit is lost: in every reachable state the queue holds
  exactly the waiting tasks, each once, and the free and the held permits add up to the capacity.
\<close>
theorem fair_and_balanced:
  assumes "sem_reach permits s"
  shows "dom (y_tasks s) = set (sem_queue s) \<and> distinct (sem_queue s)
    \<and> sem_free s + sum_list (y_held s) = s_total (f_state (y_sem s))"
  using sem_inv_reach [OF assms] by (simp add: sem_inv_def queue_inv_def balance_inv_def)

theorem fair_and_balanced_witness:
  "dom (y_tasks sample_system) = set (sem_queue sample_system)
     \<and> sem_free sample_system + sum_list (y_held sample_system) = s_total (f_state (y_sem sample_system))"
  using fair_and_balanced [OF sample_reach] by simp

text \<open>
  While the capacity is not changed the permits handed out never exceed it, and the free permits never become
  negative, with no wrap-around anywhere.
\<close>
theorem never_over_capacity:
  assumes "0 \<le>s permits" and "fixed_step\<^sup>*\<^sup>* (sem_init permits) s"
  shows "sum_list (map sint (y_held s)) \<le> sint (s_total (f_state (y_sem s))) \<and> 0 \<le> sint (sem_free s)"
  using capacity_inv_reach [OF assms] by (simp add: capacity_inv_def)

theorem never_over_capacity_witness:
  "sum_list (map sint (y_held (one_task 1 [] [1 \<mapsto> 1] Map.empty 0 []))) \<le> 1"
proof -
  have "fixed_step\<^sup>*\<^sup>* (sem_init 1) (one_task 1 [] [1 \<mapsto> 1] Map.empty 0 [])"
    using one_task_starts(1) [of 1] by (simp add: word_sless_alt r_into_rtranclp)
  then show ?thesis
    using never_over_capacity [of 1 "one_task 1 [] [1 \<mapsto> 1] Map.empty 0 []"] by (simp add: word_sle_eq one_task_def)
qed

end
