(* ===== verification/Latency.thy ===== *)
theory Latency
  imports Message
begin

text \<open>
  Latency fault tolerance, \<open>src/rust/src/client/latency.rs\<close>, and the queue rotation it works on,
  \<open>TopicPublishInfo\<close> in \<open>src/rust/src/client/mq_client.rs\<close>. The locale \<open>publish_info\<close> is the trait of that name:
  what a selection with filters promises; it is interpreted on the rotation, and the choice made by the fault
  strategy is proved inside it. The clock reading is an argument of the operations that read it.
\<close>

section \<open>Fault items\<close>

record fault_item =
  fi_name :: string
  fi_current_latency :: i64
  fi_start_timestamp :: i64
  fi_check_stamp :: i64
  fi_reachable_flag :: bool

definition fault_item_new :: "string \<Rightarrow> fault_item" where
  "fault_item_new name = \<lparr>fi_name = name, fi_current_latency = 0, fi_start_timestamp = 0, fi_check_stamp = 0,
     fi_reachable_flag = True\<rparr>"

definition update_not_available_duration :: "i64 \<Rightarrow> i64 \<Rightarrow> fault_item \<Rightarrow> fault_item" where
  "update_not_available_duration not_available_duration now_millis item =
     (if 0 <s not_available_duration \<and> fi_start_timestamp item <s now_millis + not_available_duration
      then item\<lparr>fi_start_timestamp := now_millis + not_available_duration\<rparr> else item)"

definition item_available :: "fault_item \<Rightarrow> i64 \<Rightarrow> bool" where
  "item_available item now_millis \<longleftrightarrow> fi_start_timestamp item \<le>s now_millis"

type_synonym fault_table = "string \<rightharpoonup> fault_item"

definition table_update_fault_item ::
  "i64 \<Rightarrow> string \<Rightarrow> i64 \<Rightarrow> i64 \<Rightarrow> bool \<Rightarrow> fault_table \<Rightarrow> fault_table" where
  "table_update_fault_item now name current_latency not_available_duration reachable table =
     (let item = (case table name of Some i \<Rightarrow> i | None \<Rightarrow> fault_item_new name);
          item = item\<lparr>fi_current_latency := current_latency\<rparr>;
          item = update_not_available_duration not_available_duration now item
      in table(name \<mapsto> item\<lparr>fi_reachable_flag := reachable\<rparr>))"

definition is_available :: "fault_table \<Rightarrow> i64 \<Rightarrow> string \<Rightarrow> bool" where
  "is_available table now name = (case table name of Some item \<Rightarrow> item_available item now | None \<Rightarrow> True)"

definition is_reachable :: "fault_table \<Rightarrow> string \<Rightarrow> bool" where
  "is_reachable table name = (case table name of Some item \<Rightarrow> fi_reachable_flag item | None \<Rightarrow> True)"

definition fault_remove :: "string \<Rightarrow> fault_table \<Rightarrow> fault_table" where
  "fault_remove name table = table(name := None)"

text \<open>
  One entry of a detection round. The names that are due are collected first, in the order of the hash table,
  which is open; the round is a fold over that list.
\<close>

definition detect_one ::
  "(string \<Rightarrow> string option) \<Rightarrow> (string \<Rightarrow> string \<Rightarrow> i64 \<Rightarrow> bool) \<Rightarrow> i64 \<Rightarrow> i64 \<Rightarrow> i64 \<Rightarrow> string \<Rightarrow> fault_table \<Rightarrow> fault_table" where
  "detect_one resolve detect detect_timeout detect_interval now name table = (case table name of
     None \<Rightarrow> table
   | Some item \<Rightarrow>
       if fi_check_stamp item \<le>s now then
         let table = table(name \<mapsto> item\<lparr>fi_check_stamp := now + detect_interval\<rparr>) in
         (case resolve name of
            None \<Rightarrow> fault_remove name table
          | Some endpoint \<Rightarrow>
              if detect name endpoint detect_timeout then
                (case table name of
                   Some item \<Rightarrow> table(name \<mapsto> item\<lparr>fi_reachable_flag := True\<rparr>) | None \<Rightarrow> table)
              else table)
       else table)"

definition detect_by_one_round ::
  "(string \<Rightarrow> string option) \<Rightarrow> (string \<Rightarrow> string \<Rightarrow> i64 \<Rightarrow> bool) \<Rightarrow> i64 \<Rightarrow> i64 \<Rightarrow> i64 \<Rightarrow> string list \<Rightarrow> fault_table \<Rightarrow> fault_table" where
  "detect_by_one_round resolve detect detect_timeout detect_interval now due table =
     fold (detect_one resolve detect detect_timeout detect_interval now) due table"

definition due_names :: "fault_table \<Rightarrow> i64 \<Rightarrow> string list \<Rightarrow> bool" where
  "due_names table now due \<longleftrightarrow> distinct due \<and>
     set due = {name. case table name of Some item \<Rightarrow> fi_check_stamp item \<le>s now | None \<Rightarrow> False}"

section \<open>The strategy's tables\<close>

definition LATENCY_MAX :: "i64 list" where
  "LATENCY_MAX = [50, 100, 550, 1800, 3000, 5000, 15000]"

definition NOT_AVAILABLE_DURATION :: "i64 list" where
  "NOT_AVAILABLE_DURATION = [0, 0, 2000, 5000, 6000, 10000, 30000]"

definition ISOLATION_LATENCY :: i64 where "ISOLATION_LATENCY = 10000"

record mq_fault_strategy =
  st_enable :: bool
  st_table :: fault_table
  st_latency_max :: "i64 list"
  st_not_available_duration :: "i64 list"

definition fault_strategy_new :: "bool \<Rightarrow> mq_fault_strategy" where
  "fault_strategy_new enable = \<lparr>st_enable = enable, st_table = Map.empty, st_latency_max = LATENCY_MAX,
     st_not_available_duration = NOT_AVAILABLE_DURATION\<rparr>"

definition compute_not_available_duration :: "mq_fault_strategy \<Rightarrow> i64 \<Rightarrow> i64" where
  "compute_not_available_duration s current_latency =
     (case find (\<lambda>i. st_latency_max s ! i \<le>s current_latency) (rev [0..<length (st_latency_max s)]) of
        Some i \<Rightarrow> if i < length (st_not_available_duration s) then st_not_available_duration s ! i else 0
      | None \<Rightarrow> 0)"

definition update_fault_item :: "i64 \<Rightarrow> string \<Rightarrow> i64 \<Rightarrow> bool \<Rightarrow> bool \<Rightarrow> mq_fault_strategy \<Rightarrow> mq_fault_strategy" where
  "update_fault_item now broker_name current_latency isolation reachable s =
     (if \<not> st_enable s then s
      else let latency = (if isolation then ISOLATION_LATENCY else current_latency);
               duration = compute_not_available_duration s latency
           in s\<lparr>st_table := table_update_fault_item now broker_name current_latency duration reachable (st_table s)\<rparr>)"

definition available_filter :: "mq_fault_strategy \<Rightarrow> i64 \<Rightarrow> message_queue \<Rightarrow> bool" where
  "available_filter s now mq = is_available (st_table s) now (mq_broker_name mq)"

definition reachable_filter :: "mq_fault_strategy \<Rightarrow> message_queue \<Rightarrow> bool" where
  "reachable_filter s mq = is_reachable (st_table s) (mq_broker_name mq)"

definition broker_filter :: "string option \<Rightarrow> message_queue \<Rightarrow> bool" where
  "broker_filter last_broker_name mq =
     (case last_broker_name of None \<Rightarrow> True | Some lb \<Rightarrow> mq_broker_name mq \<noteq> lb)"

section \<open>Selecting a queue\<close>

text \<open>The publish info is reached through its two methods, which update its state.\<close>

type_synonym 'p select_fn =
  "(message_queue \<Rightarrow> bool) list \<Rightarrow> 'p \<Rightarrow> message_queue option result \<times> 'p"

definition select_unfiltered :: "'p select_fn \<Rightarrow> 'p \<Rightarrow> message_queue result \<times> 'p" where
  "select_unfiltered select p = (case select [] p of
     (Inl e, p) \<Rightarrow> (Inl e, p)
   | (Inr (Some mq), p) \<Rightarrow> (Inr mq, p)
   | (Inr None, p) \<Rightarrow> (fail (client_err ''no message queue for publish info''), p))"

text \<open>\<open>if let Some(mq) = select(filters)? { return Ok(mq) }\<close>, and go on otherwise.\<close>

definition select_or ::
  "'p select_fn \<Rightarrow> (message_queue \<Rightarrow> bool) list \<Rightarrow> ('p \<Rightarrow> message_queue result \<times> 'p) \<Rightarrow> 'p \<Rightarrow> message_queue result \<times> 'p" where
  "select_or select filters rest p = (case select filters p of
     (Inl e, p) \<Rightarrow> (Inl e, p)
   | (Inr (Some mq), p) \<Rightarrow> (Inr mq, p)
   | (Inr None, p) \<Rightarrow> rest p)"

definition strategy_select ::
  "('p \<Rightarrow> 'p) \<Rightarrow> 'p select_fn \<Rightarrow> i64 \<Rightarrow> mq_fault_strategy \<Rightarrow> string option \<Rightarrow> bool \<Rightarrow> 'p \<Rightarrow> message_queue result \<times> 'p" where
  "strategy_select reset select now s last_broker_name reset_index p =
     (if st_enable s then
        select_or select [available_filter s now, broker_filter last_broker_name]
          (select_or select [reachable_filter s, broker_filter last_broker_name] (select_unfiltered select))
          (if reset_index then reset p else p)
      else select_or select [broker_filter last_broker_name] (select_unfiltered select) p)"

section \<open>The rotation\<close>

record publish_state =
  ps_order_topic :: bool
  ps_msg_queue_list :: "message_queue list"
  ps_index :: i64

definition ring_index :: "i64 \<Rightarrow> nat \<Rightarrow> nat" where
  "ring_index index len = nat (sint index mod int len)"

definition publish_ok :: "publish_state \<Rightarrow> bool" where
  "publish_ok st \<longleftrightarrow> ps_msg_queue_list st \<noteq> []"

definition reset_index :: "publish_state \<Rightarrow> publish_state" where
  "reset_index st = st\<lparr>ps_index := 0\<rparr>"

definition next_queue :: "publish_state \<Rightarrow> message_queue \<times> publish_state" where
  "next_queue st =
     (ps_msg_queue_list st ! ring_index (ps_index st) (length (ps_msg_queue_list st)), st\<lparr>ps_index := ps_index st + 1\<rparr>)"

fun select_loop :: "nat \<Rightarrow> (message_queue \<Rightarrow> bool) list \<Rightarrow> publish_state \<Rightarrow> message_queue option \<times> publish_state" where
  "select_loop 0 filters st = (None, st)"
| "select_loop (Suc k) filters st =
     (let (mq, st) = next_queue st in
      if list_all (\<lambda>f. f mq) filters then (Some mq, st) else select_loop k filters st)"

definition select_one_message_queue :: "publish_state select_fn" where
  "select_one_message_queue filters st =
     (let n = length (ps_msg_queue_list st) in
      if n = 0 then (fail (client_err ''no message queue for publish info''), st)
      else if filters = [] then (let (mq, st) = next_queue st in (Inr (Some mq), st))
      else (let (r, st) = select_loop n filters st in (Inr r, st)))"

section \<open>The trait's contract\<close>

text \<open>\<open>queues\<close> are the queues of a publish info, \<open>ok\<close> the states in which its cursor is far enough from overflow
  for \<open>k\<close> more rounds.\<close>

locale publish_info =
  fixes reset :: "'p \<Rightarrow> 'p"
    and select :: "'p select_fn"
    and queues :: "'p \<Rightarrow> message_queue list"
    and ok :: "nat \<Rightarrow> 'p \<Rightarrow> bool"
  assumes queues_reset: "queues (reset p) = queues p"
    and ok_reset: "ok (Suc k) p \<Longrightarrow> ok (Suc k) (reset p)"
    and queues_select: "queues (snd (select fs p)) = queues p"
    and ok_select: "ok (Suc k) p \<Longrightarrow> ok k (snd (select fs p))"
    and select_empty: "queues p = [] \<Longrightarrow> \<exists>e. fst (select fs p) = Inl e"
    and select_some: "ok (Suc k) p \<Longrightarrow> queues p \<noteq> [] \<Longrightarrow> q \<in> set (queues p) \<Longrightarrow> list_all (\<lambda>f. f q) fs \<Longrightarrow>
      \<exists>mq \<in> set (queues p). fst (select fs p) = Inr (Some mq) \<and> list_all (\<lambda>f. f mq) fs"
    and select_none: "ok (Suc k) p \<Longrightarrow> queues p \<noteq> [] \<Longrightarrow> \<forall>q \<in> set (queues p). \<not> list_all (\<lambda>f. f q) fs \<Longrightarrow>
      fst (select fs p) = Inr None"
begin

text \<open>A tier: the first queue that passes, or the rest with the state the search left behind.\<close>

lemma select_or_cases:
  assumes "ok (Suc k) p" and "queues p \<noteq> []"
  shows "(\<exists>q \<in> set (queues p). list_all (\<lambda>f. f q) fs) \<Longrightarrow>
      \<exists>mq \<in> set (queues p). fst (select_or select fs rest p) = Inr mq \<and> list_all (\<lambda>f. f mq) fs"
    and "\<not> (\<exists>q \<in> set (queues p). list_all (\<lambda>f. f q) fs) \<Longrightarrow>
      \<exists>p'. queues p' = queues p \<and> ok k p' \<and> select_or select fs rest p = rest p'"
proof -
  assume "\<exists>q \<in> set (queues p). list_all (\<lambda>f. f q) fs"
  then obtain mq where "mq \<in> set (queues p)" "fst (select fs p) = Inr (Some mq)" "list_all (\<lambda>f. f mq) fs"
    using select_some [OF assms] by blast
  then show "\<exists>mq \<in> set (queues p). fst (select_or select fs rest p) = Inr mq \<and> list_all (\<lambda>f. f mq) fs"
    by (cases "select fs p") (auto simp: select_or_def)
next
  assume "\<not> (\<exists>q \<in> set (queues p). list_all (\<lambda>f. f q) fs)"
  then have "fst (select fs p) = Inr None"
    using select_none [OF assms] by blast
  then show "\<exists>p'. queues p' = queues p \<and> ok k p' \<and> select_or select fs rest p = rest p'"
    using queues_select [of fs p] ok_select [OF assms(1), of fs]
    by (intro exI [of _ "snd (select fs p)"]) (cases "select fs p", simp add: select_or_def)
qed

lemma select_unfiltered_ok:
  assumes "ok (Suc k) p" and "queues p \<noteq> []"
  shows "\<exists>mq \<in> set (queues p). fst (select_unfiltered select p) = Inr mq"
proof -
  obtain q where "q \<in> set (queues p)"
    using assms(2) by (meson last_in_set)
  then obtain mq where "mq \<in> set (queues p)" "fst (select [] p) = Inr (Some mq)"
    using select_some [OF assms, of q "[]"] by auto
  then show ?thesis
    by (cases "select [] p") (auto simp: select_unfiltered_def)
qed

text \<open>The tiers in order: available and not the last broker, reachable and not the last broker, anything.\<close>

lemma strategy_tiers:
  assumes "ok 3 p" and "queues p \<noteq> []" and "st_enable s"
  shows "\<exists>mq \<in> set (queues p). fst (strategy_select reset select now s lb ri p) = Inr mq
    \<and> ((\<exists>q \<in> set (queues p). available_filter s now q \<and> broker_filter lb q) \<longrightarrow>
        available_filter s now mq \<and> broker_filter lb mq)
    \<and> ((\<exists>q \<in> set (queues p). reachable_filter s q \<and> broker_filter lb q) \<longrightarrow>
        available_filter s now mq \<and> broker_filter lb mq \<or> reachable_filter s mq \<and> broker_filter lb mq)"
proof -
  define p0 where "p0 = (if ri then reset p else p)"
  have ok3: "ok (Suc (Suc (Suc 0))) p"
    using assms(1) by (simp add: numeral_3_eq_3)
  then have p0: "ok (Suc (Suc (Suc 0))) p0" "queues p0 = queues p" "queues p0 \<noteq> []"
    using assms(2) ok_reset [OF ok3] by (simp_all add: p0_def queues_reset)
  let ?a = "[available_filter s now, broker_filter lb]" and ?r = "[reachable_filter s, broker_filter lb]"
  have sel: "strategy_select reset select now s lb ri p =
      select_or select ?a (select_or select ?r (select_unfiltered select)) p0"
    using assms(3) by (simp add: strategy_select_def p0_def)
  show ?thesis
  proof (cases "\<exists>q \<in> set (queues p0). list_all (\<lambda>f. f q) ?a")
    case True
    from select_or_cases(1) [OF p0(1,3) True] show ?thesis
      unfolding sel using p0(2) by fastforce
  next
    case noa: False
    obtain p1 where p1: "queues p1 = queues p" "ok (Suc (Suc 0)) p1" "queues p1 \<noteq> []"
        "strategy_select reset select now s lb ri p = select_or select ?r (select_unfiltered select) p1"
      unfolding sel using select_or_cases(2) [OF p0(1,3) noa] p0 by metis
    show ?thesis
    proof (cases "\<exists>q \<in> set (queues p1). list_all (\<lambda>f. f q) ?r")
      case True
      from select_or_cases(1) [OF p1(2,3) True] noa show ?thesis
        unfolding p1(4) using p0(2) p1(1) by fastforce
    next
      case nor: False
      obtain p2 where p2: "queues p2 = queues p" "ok (Suc 0) p2" "queues p2 \<noteq> []"
          "strategy_select reset select now s lb ri p = select_unfiltered select p2"
        unfolding p1(4) using select_or_cases(2) [OF p1(2,3) nor] p1 by metis
      from select_unfiltered_ok [OF p2(2,3)] noa nor show ?thesis
        unfolding p2(4) using p0(2) p1(1) p2(1) by fastforce
    qed
  qed
qed

end

section \<open>The rotation satisfies it\<close>

definition cursor_ok :: "nat \<Rightarrow> publish_state \<Rightarrow> bool" where
  "cursor_ok k st \<longleftrightarrow> max 0 (sint (ps_index st)) + int (k * length (ps_msg_queue_list st)) < 2 ^ 63"

lemma cursor_bound:
  assumes "cursor_ok (Suc k) st"
  shows "max 0 (sint (ps_index st)) + int (length (ps_msg_queue_list st)) < 2 ^ 63"
proof -
  have "int (length (ps_msg_queue_list st)) \<le> int (Suc k * length (ps_msg_queue_list st))"
    by simp
  then show ?thesis
    using assms unfolding cursor_ok_def by linarith
qed

text \<open>The queue the cursor points to after \<open>i\<close> more steps.\<close>

definition queue_at :: "publish_state \<Rightarrow> nat \<Rightarrow> message_queue" where
  "queue_at st i = ps_msg_queue_list st ! ring_index (ps_index st + of_nat i) (length (ps_msg_queue_list st))"

lemma select_loop_find:
  "fst (select_loop k fs st) = find (\<lambda>mq. list_all (\<lambda>f. f mq) fs) (map (queue_at st) [0..<k])
   \<and> (\<exists>j \<le> k. snd (select_loop k fs st) = st\<lparr>ps_index := ps_index st + of_nat j\<rparr>)"
proof (induction k arbitrary: st)
  case 0
  then show ?case by (auto intro!: exI [of _ 0])
next
  case (Suc k)
  let ?st = "st\<lparr>ps_index := ps_index st + 1\<rparr>"
  have "queue_at ?st i = queue_at st (Suc i)" for i
    by (simp add: queue_at_def ac_simps)
  then have "map (queue_at st) [0..<Suc k] = queue_at st 0 # map (queue_at ?st) [0..<k]"
    by (simp add: upt_conv_Cons map_Suc_upt [symmetric] del: upt_Suc)
  moreover have nq: "next_queue st = (queue_at st 0, ?st)"
    by (simp add: next_queue_def queue_at_def)
  moreover obtain j where "j \<le> k" "snd (select_loop k fs ?st) = ?st\<lparr>ps_index := ps_index ?st + of_nat j\<rparr>"
    using Suc by blast
  moreover have "\<exists>j \<le> Suc k. ?st = st\<lparr>ps_index := ps_index st + of_nat j\<rparr>"
    by (rule exI [of _ 1]) simp
  ultimately show ?case
    using Suc [of ?st] by (auto simp: ac_simps intro!: exI [of _ "Suc j"])
qed

lemma ring_index_less: "0 < n \<Longrightarrow> ring_index i n < n"
  by (simp add: ring_index_def nat_less_iff)

lemma ring_index_add:
  assumes "max 0 (sint i) + int n < 2 ^ 63" and "j \<le> n"
  shows "ring_index (i + of_nat j) n = nat ((sint i + int j) mod int n)"
proof -
  have j: "sint (of_nat j :: i64) = int j"
    using assms by (intro sint_of_nat_small) (simp add: zless_nat_eq_int_zless [symmetric])
  have "sint (i + of_nat j) = sint i + int j"
    using assms sint_range_64(1) [of i] j by (subst sint_add_64) linarith+
  then show ?thesis by (simp add: ring_index_def)
qed

lemma queue_at_covers:
  assumes "cursor_ok (Suc k) st" and "q \<in> set (ps_msg_queue_list st)"
  shows "q \<in> queue_at st ` {0..<length (ps_msg_queue_list st)}"
proof -
  let ?n = "length (ps_msg_queue_list st)" and ?i = "sint (ps_index st)"
  obtain r where r: "r < ?n" "q = ps_msg_queue_list st ! r"
    using assms(2) by (auto simp: in_set_conv_nth)
  define j where "j = nat ((int r - ?i) mod int ?n)"
  have n: "0 < int ?n" "max 0 ?i + int ?n < 2 ^ 63"
    using cursor_bound [OF assms(1)] r(1) by auto
  have j: "j < ?n" "int j = (int r - ?i) mod int ?n"
    using n(1) by (simp_all add: j_def nat_less_iff)
  have "(?i + int j) mod int ?n = int r"
    unfolding j(2) using r(1) by (simp add: mod_simps)
  then have "queue_at st j = q"
    using ring_index_add [OF n(2), of j] j(1) r(2) by (simp add: queue_at_def)
  then show ?thesis
    using j(1) by auto
qed

lemma queue_at_mem: "ps_msg_queue_list st \<noteq> [] \<Longrightarrow> queue_at st i \<in> set (ps_msg_queue_list st)"
  by (simp add: queue_at_def ring_index_less)

lemma select_one_state:
  "\<exists>j \<le> length (ps_msg_queue_list st). snd (select_one_message_queue fs st) = st\<lparr>ps_index := ps_index st + of_nat j\<rparr>"
proof (cases "ps_msg_queue_list st = [] \<or> fs = []")
  case True
  then show ?thesis
    by (cases "ps_msg_queue_list st")
      (auto simp: select_one_message_queue_def next_queue_def intro!: exI [of _ 0] exI [of _ 1])
next
  case False
  then show ?thesis
    using select_loop_find [of "length (ps_msg_queue_list st)" fs st]
    by (auto simp: select_one_message_queue_def split: prod.splits)
qed

lemma find_exists: "x \<in> set xs \<Longrightarrow> P x \<Longrightarrow> \<exists>y. find P xs = Some y \<and> y \<in> set xs \<and> P y"
  by (induction xs) auto

interpretation rotation: publish_info reset_index select_one_message_queue ps_msg_queue_list cursor_ok
proof
  fix p :: publish_state and fs k q
  show "ps_msg_queue_list (reset_index p) = ps_msg_queue_list p"
    by (simp add: reset_index_def)
  show "cursor_ok (Suc k) p \<Longrightarrow> cursor_ok (Suc k) (reset_index p)"
    by (simp add: cursor_ok_def reset_index_def)
  obtain j where j: "j \<le> length (ps_msg_queue_list p)"
      "snd (select_one_message_queue fs p) = p\<lparr>ps_index := ps_index p + of_nat j\<rparr>"
    using select_one_state by blast
  show "ps_msg_queue_list (snd (select_one_message_queue fs p)) = ps_msg_queue_list p"
    by (simp add: j(2))
  show "cursor_ok k (snd (select_one_message_queue fs p))" if "cursor_ok (Suc k) p"
  proof -
    have "int j < 2 ^ 63"
      using cursor_bound [OF that] j(1) by linarith
    then have "sint (of_nat j :: i64) = int j"
      by (intro sint_of_nat_small) simp
    then have "sint (ps_index p + of_nat j) = sint (ps_index p) + int j"
      using cursor_bound [OF that] j(1) sint_range_64(1) [of "ps_index p"]
      by (subst sint_add_64) linarith+
    then show ?thesis
      using that j by (auto simp: cursor_ok_def)
  qed
  show "\<exists>e. fst (select_one_message_queue fs p) = Inl e" if "ps_msg_queue_list p = []"
    using that by (simp add: select_one_message_queue_def)
  assume ok: "cursor_ok (Suc k) p" and ne: "ps_msg_queue_list p \<noteq> []"
  let ?P = "\<lambda>mq. list_all (\<lambda>f. f mq) fs"
  have search: "fst (select_one_message_queue fs p) =
      Inr (find ?P (map (queue_at p) [0..<length (ps_msg_queue_list p)]))" if "fs \<noteq> []"
    using that ne select_loop_find [of "length (ps_msg_queue_list p)" fs p]
    by (auto simp: select_one_message_queue_def split: prod.splits)
  show "\<exists>mq \<in> set (ps_msg_queue_list p). fst (select_one_message_queue fs p) = Inr (Some mq) \<and> ?P mq"
    if "q \<in> set (ps_msg_queue_list p)" "?P q"
  proof (cases "fs = []")
    case True
    then show ?thesis
      using ne queue_at_mem [OF ne, of 0] by (simp add: select_one_message_queue_def next_queue_def queue_at_def)
  next
    case False
    have "q \<in> set (map (queue_at p) [0..<length (ps_msg_queue_list p)])"
      using queue_at_covers [OF ok that(1)] by simp
    from find_exists [of q _ ?P, OF this that(2)] search [OF False] show ?thesis
      using queue_at_mem [OF ne] by auto
  qed
  show "fst (select_one_message_queue fs p) = Inr None" if "\<forall>q \<in> set (ps_msg_queue_list p). \<not> ?P q"
  proof -
    have "fs \<noteq> []"
      using that ne by (cases "ps_msg_queue_list p") auto
    then show ?thesis
      using search that queue_at_mem [OF ne] by (auto simp: find_None_iff)
  qed
qed

section \<open>Isolation windows and detection rounds\<close>

lemma default_durations:
  assumes "st_latency_max s = LATENCY_MAX" and "st_not_available_duration s = NOT_AVAILABLE_DURATION"
  shows "compute_not_available_duration s l =
    (if 15000 \<le>s l then 30000 else if 5000 \<le>s l then 10000 else if 3000 \<le>s l then 6000
     else if 1800 \<le>s l then 5000 else if 550 \<le>s l then 2000 else 0)"
proof -
  have "rev [0..<7] = [6, 5, 4, 3, 2, 1, 0 :: nat]"
    by code_simp
  then show ?thesis
    unfolding compute_not_available_duration_def assms
    by (simp add: LATENCY_MAX_def NOT_AVAILABLE_DURATION_def)
qed

lemma update_item_window:
  assumes "0 <s d" and "sint now + sint d < 2 ^ 63" and "0 \<le> sint now"
  shows "sint now + sint d \<le> sint (fi_start_timestamp (update_not_available_duration d now item))
    \<and> sint (fi_start_timestamp item) \<le> sint (fi_start_timestamp (update_not_available_duration d now item))"
proof -
  have "sint (now + d) = sint now + sint d"
    using assms by (intro sint_add_64) (auto simp: word_sless_alt)
  then show ?thesis
    using assms(1) by (auto simp: update_not_available_duration_def word_sless_alt)
qed

lemma detect_one_other: "name \<noteq> n \<Longrightarrow> detect_one r d t i now n table name = table name"
  by (simp add: detect_one_def fault_remove_def Let_def split: option.split)

lemma detect_one_local:
  "table name = table' name \<Longrightarrow> detect_one r d t i now name table name = detect_one r d t i now name table' name"
  by (simp add: detect_one_def fault_remove_def Let_def split: option.split)

lemma detect_round_pointwise:
  "distinct due \<Longrightarrow> detect_by_one_round r d t i now due table name =
     (if name \<in> set due then detect_one r d t i now name table name else table name)"
proof (induction due arbitrary: table)
  case Nil
  then show ?case by (simp add: detect_by_one_round_def)
next
  case (Cons n due)
  have round: "detect_by_one_round r d t i now (n # due) table =
      detect_by_one_round r d t i now due (detect_one r d t i now n table)"
    by (simp add: detect_by_one_round_def)
  show ?case
  proof (cases "name = n")
    case True
    then show ?thesis using Cons by (simp add: round)
  next
    case False
    then show ?thesis
      using Cons detect_one_local [of "detect_one r d t i now n table" name table] detect_one_other [OF False]
      by (simp add: round)
  qed
qed

lemma rotation_order:
  assumes "cursor_ok 1 st" and "ps_msg_queue_list st \<noteq> []"
  shows "map (queue_at st) [0..<length (ps_msg_queue_list st)] =
    rotate (ring_index (ps_index st) (length (ps_msg_queue_list st))) (ps_msg_queue_list st)"
proof (rule nth_equalityI)
  let ?n = "length (ps_msg_queue_list st)" and ?i = "sint (ps_index st)"
  show "length (map (queue_at st) [0..<?n]) = length (rotate (ring_index (ps_index st) ?n) (ps_msg_queue_list st))"
    by simp
  fix j
  assume "j < length (map (queue_at st) [0..<?n])"
  then have j: "j < ?n"
    by simp
  have "int (nat (?i mod int ?n)) = ?i mod int ?n"
    using assms(2) by simp
  then have "nat ((?i + int j) mod int ?n) = (ring_index (ps_index st) ?n + j) mod ?n"
    unfolding ring_index_def by (metis mod_add_left_eq nat_int of_nat_add zmod_int)
  then show "map (queue_at st) [0..<?n] ! j = rotate (ring_index (ps_index st) ?n) (ps_msg_queue_list st) ! j"
    using j ring_index_add [of "ps_index st" ?n j] cursor_bound [of 0 st] assms(1)
    by (simp add: queue_at_def nth_rotate)
qed

fun select_times :: "nat \<Rightarrow> publish_state \<Rightarrow> message_queue option result list" where
  "select_times 0 st = []"
| "select_times (Suc k) st = (let (r, st) = select_one_message_queue [] st in r # select_times k st)"

lemma select_times_queue_at:
  "ps_msg_queue_list st \<noteq> [] \<Longrightarrow> select_times k st = map (\<lambda>i. Inr (Some (queue_at st i))) [0..<k]"
proof (induction k arbitrary: st)
  case (Suc k)
  let ?st = "st\<lparr>ps_index := ps_index st + 1\<rparr>"
  have shift: "queue_at ?st i = queue_at st (Suc i)" for i
    by (simp add: queue_at_def ac_simps)
  have "select_one_message_queue [] st = (Inr (Some (queue_at st 0)), ?st)"
    using Suc.prems by (simp add: select_one_message_queue_def next_queue_def queue_at_def)
  then show ?case
    using Suc.IH [of ?st] Suc.prems shift
    by (simp add: upt_conv_Cons map_Suc_upt [symmetric] comp_def del: upt_Suc)
qed simp

section \<open>Properties\<close>

text \<open>
  With fault tolerance on, a topic with queues always gets one, and the choice keeps the tiers: a queue on an
  available broker other than the last one if there is any, else one on a reachable broker other than the last one
  if there is any, else any queue.
\<close>
theorem fault_strategy_tiers:
  assumes "st_enable s" and "cursor_ok 3 p" and "ps_msg_queue_list p \<noteq> []"
  shows "\<exists>mq \<in> set (ps_msg_queue_list p).
      fst (strategy_select reset_index select_one_message_queue now s lb ri p) = Inr mq
    \<and> ((\<exists>q \<in> set (ps_msg_queue_list p). available_filter s now q \<and> broker_filter lb q) \<longrightarrow>
        available_filter s now mq \<and> broker_filter lb mq)
    \<and> ((\<exists>q \<in> set (ps_msg_queue_list p). reachable_filter s q \<and> broker_filter lb q) \<longrightarrow>
        available_filter s now mq \<and> broker_filter lb mq \<or> reachable_filter s mq \<and> broker_filter lb mq)"
  by (rule rotation.strategy_tiers [OF assms(2,3,1)])

definition sample_publish :: publish_state where
  "sample_publish = \<lparr>ps_order_topic = False,
     ps_msg_queue_list = [MessageQueue ''t'' ''a'' 0, MessageQueue ''t'' ''b'' 0], ps_index = 0\<rparr>"

lemma sample_publish_ok: "cursor_ok 3 sample_publish" "ps_msg_queue_list sample_publish \<noteq> []"
  by (simp_all add: cursor_ok_def sample_publish_def)

theorem fault_strategy_tiers_witness:
  "\<exists>mq \<in> set (ps_msg_queue_list sample_publish).
     fst (strategy_select reset_index select_one_message_queue 0 (fault_strategy_new True) (Some ''a'') False sample_publish)
       = Inr mq \<and> mq_broker_name mq \<noteq> ''a''"
proof -
  have en: "st_enable (fault_strategy_new True)"
    by (simp add: fault_strategy_new_def)
  have "\<exists>q \<in> set (ps_msg_queue_list sample_publish).
      available_filter (fault_strategy_new True) 0 q \<and> broker_filter (Some ''a'') q"
    by (simp add: sample_publish_def available_filter_def is_available_def fault_strategy_new_def broker_filter_def)
  with fault_strategy_tiers [OF en sample_publish_ok, of 0 "Some ''a''" False] show ?thesis
    by (auto simp: broker_filter_def)
qed

text \<open>
  Unfiltered selection is a rotation: as many successive selections as there are queues return every queue
  exactly once, in the order of the list from the cursor on, whatever the sign of the cursor.
\<close>
theorem round_robin:
  assumes "cursor_ok 1 st" and "ps_msg_queue_list st \<noteq> []"
  shows "select_times (length (ps_msg_queue_list st)) st =
    map (\<lambda>mq. Inr (Some mq))
      (rotate (ring_index (ps_index st) (length (ps_msg_queue_list st))) (ps_msg_queue_list st))"
  using rotation_order [OF assms] select_times_queue_at [OF assms(2)]
  by (metis (no_types, lifting) map_map comp_def map_cong)

theorem round_robin_witness:
  "select_times 2 (sample_publish\<lparr>ps_index := - 1\<rparr>) =
     [Inr (Some (MessageQueue ''t'' ''b'' 0)), Inr (Some (MessageQueue ''t'' ''a'' 0))]"
proof -
  have ok: "cursor_ok 1 (sample_publish\<lparr>ps_index := - 1\<rparr>)" "ps_msg_queue_list (sample_publish\<lparr>ps_index := - 1\<rparr>) \<noteq> []"
    by (simp_all add: cursor_ok_def sample_publish_def)
  have len: "length (ps_msg_queue_list (sample_publish\<lparr>ps_index := - 1\<rparr>)) = 2" and "ring_index (- 1) 2 = 1"
    by (simp_all add: sample_publish_def ring_index_def)
  then have "map (\<lambda>mq. Inr (Some mq)) (rotate (ring_index (ps_index (sample_publish\<lparr>ps_index := - 1\<rparr>)) 2)
      (ps_msg_queue_list (sample_publish\<lparr>ps_index := - 1\<rparr>))) =
    [Inr (Some (MessageQueue ''t'' ''b'' 0)), Inr (Some (MessageQueue ''t'' ''a'' 0))]"
    by (simp add: sample_publish_def)
  with round_robin [OF ok, unfolded len] show ?thesis by simp
qed

text \<open>
  A broker reported with isolation stays unavailable for the next ten seconds whatever was known of it before,
  an earlier and longer isolation is not shortened, and no other broker is touched.
\<close>
theorem isolation_window:
  assumes "st_enable s" and "st_latency_max s = LATENCY_MAX" and "st_not_available_duration s = NOT_AVAILABLE_DURATION"
    and "0 \<le> sint now" and "sint now + 10000 < 2 ^ 63" and "s' = update_fault_item now b latency True r s"
  shows "(sint t < sint now + 10000 \<longrightarrow> \<not> is_available (st_table s') t b)
    \<and> (\<not> is_available (st_table s) t b \<longrightarrow> \<not> is_available (st_table s') t b)
    \<and> (b' \<noteq> b \<longrightarrow> st_table s' b' = st_table s b')"
proof -
  let ?old = "(case st_table s b of Some i \<Rightarrow> i | None \<Rightarrow> fault_item_new b)\<lparr>fi_current_latency := latency\<rparr>"
  have "compute_not_available_duration s ISOLATION_LATENCY = 10000"
    by (simp add: default_durations [OF assms(2,3)] ISOLATION_LATENCY_def word_sle_eq)
  then have s': "st_table s' = (st_table s)(b \<mapsto>
      (update_not_available_duration 10000 now ?old)\<lparr>fi_reachable_flag := r\<rparr>)"
    using assms(1,6) by (simp add: update_fault_item_def table_update_fault_item_def Let_def)
  have w: "sint now + 10000 \<le> sint (fi_start_timestamp (update_not_available_duration 10000 now ?old))"
      "sint (fi_start_timestamp ?old) \<le> sint (fi_start_timestamp (update_not_available_duration 10000 now ?old))"
    using update_item_window [of 10000 now ?old] assms(4,5) by (auto simp: word_sless_alt)
  have "sint t < sint (fi_start_timestamp ?old)" if "\<not> is_available (st_table s) t b"
    using that by (auto simp: is_available_def item_available_def word_sle_eq split: option.splits)
  then show ?thesis
    using w by (auto simp: s' is_available_def item_available_def word_sle_eq)
qed

theorem isolation_window_witness:
  "\<not> is_available (st_table (update_fault_item 1000 ''b'' 3 True False (fault_strategy_new True))) 10999 ''b''"
proof -
  have "st_enable (fault_strategy_new True)" "st_latency_max (fault_strategy_new True) = LATENCY_MAX"
      "st_not_available_duration (fault_strategy_new True) = NOT_AVAILABLE_DURATION"
    by (simp_all add: fault_strategy_new_def)
  from isolation_window [OF this _ _ refl, of 1000 10999 "''b''"] show ?thesis by simp
qed

text \<open>
  A detection round does not depend on the order in which the hash table yields the brokers that are due.
\<close>
theorem detect_round_order:
  assumes "due_names table now due" and "due_names table now due'"
  shows "detect_by_one_round resolve detect timeout interval now due table =
    detect_by_one_round resolve detect timeout interval now due' table"
  using assms by (auto simp: due_names_def fun_eq_iff detect_round_pointwise)

theorem detect_round_order_witness:
  "detect_by_one_round (\<lambda>_. None) (\<lambda>_ _ _. True) 1 1 5 [''a'', ''b'']
      [''a'' \<mapsto> fault_item_new ''a'', ''b'' \<mapsto> fault_item_new ''b''] =
   detect_by_one_round (\<lambda>_. None) (\<lambda>_ _ _. True) 1 1 5 [''b'', ''a'']
      [''a'' \<mapsto> fault_item_new ''a'', ''b'' \<mapsto> fault_item_new ''b'']"
proof (rule detect_round_order)
  show "due_names [''a'' \<mapsto> fault_item_new ''a'', ''b'' \<mapsto> fault_item_new ''b''] 5 [''a'', ''b'']"
    and "due_names [''a'' \<mapsto> fault_item_new ''a'', ''b'' \<mapsto> fault_item_new ''b''] 5 [''b'', ''a'']"
    by (auto simp: due_names_def fault_item_new_def word_sle_eq split: if_splits)
qed

end
