(* ===== verification/Namespace_Util.thy ===== *)
theory Namespace_Util
  imports Mix_All
begin

text \<open>
  The namespace prefixes of \<open>src/rust/src/remoting/protocol/namespace_util.rs\<close>: a name is sent as
  \<open>namespace%name\<close> and shown without the prefix, and the \<open>%RETRY%\<close> and \<open>%DLQ%\<close> prefixes stay outside. The lemmas
  show that wrapping is undone by stripping, that it is done once only, and that the namespace is read back.
\<close>

section \<open>Operations\<close>

definition NAMESPACE_SEPARATOR :: char where "NAMESPACE_SEPARATOR = CHR ''%''"

definition with_out_retry_and_dlq :: "string \<Rightarrow> string" where
  "with_out_retry_and_dlq resource =
     (if resource = [] then []
      else case reset_retry_and_dlq_topic (Some resource) of Some t \<Rightarrow> t | None \<Rightarrow> [])"

definition ns_is_retry_topic :: "string \<Rightarrow> bool" where
  "ns_is_retry_topic resource = is_retry_topic (Some resource)"

definition ns_is_dlq_topic :: "string \<Rightarrow> bool" where
  "ns_is_dlq_topic resource = is_dlq_topic (Some resource)"

definition is_system_resource :: "string \<Rightarrow> bool" where
  "is_system_resource resource =
     (if resource = [] then False else is_sys_topic (Some resource) \<or> is_sys_consumer_group (Some resource))"

definition is_already_with_namespace :: "string \<Rightarrow> string \<Rightarrow> bool" where
  "is_already_with_namespace resource namespace =
     (if namespace = [] \<or> resource = [] \<or> is_system_resource resource then False
      else starts_with (with_out_retry_and_dlq resource) (namespace @ [NAMESPACE_SEPARATOR]))"

text \<open>The prefix that both directions put back: the second test overwrites the first.\<close>

definition outer_prefix :: "string \<Rightarrow> string" where
  "outer_prefix resource =
     (let pre = (if ns_is_retry_topic resource then RETRY_GROUP_TOPIC_PREFIX else [])
      in if ns_is_dlq_topic resource then DLQ_GROUP_TOPIC_PREFIX else pre)"

definition strip_prefix :: "string \<Rightarrow> string" where
  "strip_prefix resource =
     (let plain = with_out_retry_and_dlq resource in
      case str_find NAMESPACE_SEPARATOR plain of
        Some index \<Rightarrow> if 0 < index then outer_prefix resource @ drop (index + 1) plain else resource
      | None \<Rightarrow> resource)"

definition without_namespace :: "string \<Rightarrow> string \<Rightarrow> string" where
  "without_namespace resource namespace =
     (if resource = [] then resource
      else if namespace = [] \<and> is_system_resource resource then resource
      else if namespace \<noteq> [] \<and> \<not> starts_with (with_out_retry_and_dlq resource) (namespace @ [NAMESPACE_SEPARATOR])
      then resource
      else strip_prefix resource)"

definition wrap_namespace :: "string \<Rightarrow> string \<Rightarrow> string" where
  "wrap_namespace namespace resource =
     (if namespace = [] \<or> resource = [] then resource
      else if is_system_resource resource \<or> is_already_with_namespace resource namespace then resource
      else outer_prefix resource @ namespace @ [NAMESPACE_SEPARATOR] @ with_out_retry_and_dlq resource)"

definition wrap_namespace_and_retry :: "string \<Rightarrow> string \<Rightarrow> string" where
  "wrap_namespace_and_retry namespace consumer_group =
     (if consumer_group = [] then consumer_group
      else RETRY_GROUP_TOPIC_PREFIX @ wrap_namespace namespace consumer_group)"

definition get_namespace_from_resource :: "string \<Rightarrow> string" where
  "get_namespace_from_resource resource =
     (if resource = [] \<or> is_system_resource resource then []
      else let plain = with_out_retry_and_dlq resource in
        case str_find NAMESPACE_SEPARATOR plain of
          Some index \<Rightarrow> if 0 < index then take index plain else []
        | None \<Rightarrow> [])"

section \<open>Names in two parts\<close>

lemmas prefix_defs = RETRY_GROUP_TOPIC_PREFIX_def DLQ_GROUP_TOPIC_PREFIX_def MIX_SYSTEM_TOPIC_PREFIX_def
  CID_RMQ_SYS_PREFIX_def NAMESPACE_SEPARATOR_def

lemmas name_defs = ns_is_retry_topic_def ns_is_dlq_topic_def is_retry_topic_def is_dlq_topic_def is_sys_topic_def
  is_sys_consumer_group_def is_system_resource_def

text \<open>A name is its outer prefix and the rest.\<close>

lemma outer_prefix_cases: "outer_prefix r \<in> {[], RETRY_GROUP_TOPIC_PREFIX, DLQ_GROUP_TOPIC_PREFIX}"
  by (simp add: outer_prefix_def Let_def)

lemma prefix_parts: "outer_prefix r @ with_out_retry_and_dlq r = r"
proof -
  consider (retry) d where "r = RETRY_GROUP_TOPIC_PREFIX @ d" | (dlq) d where "r = DLQ_GROUP_TOPIC_PREFIX @ d"
    | (plain) "\<not> starts_with r RETRY_GROUP_TOPIC_PREFIX" "\<not> starts_with r DLQ_GROUP_TOPIC_PREFIX"
    using starts_withE by blast
  then show ?thesis
    by cases (simp_all add: outer_prefix_def with_out_retry_and_dlq_def reset_retry_and_dlq_topic_def name_defs
        prefix_defs)
qed

text \<open>A rest that does not begin with a separator is found again behind each of the prefixes.\<close>

lemma wrapped_parts:
  assumes "pre \<in> {[], RETRY_GROUP_TOPIC_PREFIX, DLQ_GROUP_TOPIC_PREFIX}" and "c \<noteq> NAMESPACE_SEPARATOR"
  shows "outer_prefix (pre @ c # s) = pre" "with_out_retry_and_dlq (pre @ c # s) = c # s"
  using assms
  by (auto simp: outer_prefix_def with_out_retry_and_dlq_def reset_retry_and_dlq_topic_def name_defs Let_def prefix_defs)

lemma wrapped_system:
  assumes "pre \<in> {[], RETRY_GROUP_TOPIC_PREFIX, DLQ_GROUP_TOPIC_PREFIX}"
  shows "is_system_resource (pre @ ns @ NAMESPACE_SEPARATOR # s) \<longleftrightarrow> pre = [] \<and> is_system_resource ns"
proof -
  have "starts_with (ns @ NAMESPACE_SEPARATOR # s) p = starts_with ns p"
    if "p \<in> {MIX_SYSTEM_TOPIC_PREFIX, CID_RMQ_SYS_PREFIX}" for p
    using that by (intro starts_with_before) (auto simp: prefix_defs)
  then have "is_system_resource (ns @ NAMESPACE_SEPARATOR # s) = is_system_resource ns"
    by (auto simp: name_defs) (auto simp: prefix_defs)
  with assms show ?thesis
    by (auto simp: name_defs prefix_defs)
qed

text \<open>The wrapped name, as its three parts.\<close>

lemma wrapped:
  assumes "ns \<noteq> []" and "NAMESPACE_SEPARATOR \<notin> set ns" and "w = outer_prefix r @ ns @ NAMESPACE_SEPARATOR # plain"
  shows "w \<noteq> []" "outer_prefix w = outer_prefix r" "with_out_retry_and_dlq w = ns @ NAMESPACE_SEPARATOR # plain"
    "is_system_resource w \<longleftrightarrow> outer_prefix r = [] \<and> is_system_resource ns"
proof -
  obtain c s where c: "ns = c # s" "c \<noteq> NAMESPACE_SEPARATOR"
    using assms(1,2) by (cases ns) auto
  show "w \<noteq> []" "outer_prefix w = outer_prefix r" "with_out_retry_and_dlq w = ns @ NAMESPACE_SEPARATOR # plain"
    using wrapped_parts [OF outer_prefix_cases c(2), of r "s @ NAMESPACE_SEPARATOR # plain"] c(1)
    by (simp_all add: assms(3))
  show "is_system_resource w \<longleftrightarrow> outer_prefix r = [] \<and> is_system_resource ns"
    unfolding assms(3) by (rule wrapped_system [OF outer_prefix_cases])
qed

lemma wrap_idempotent:
  assumes "NAMESPACE_SEPARATOR \<notin> set ns"
  shows "wrap_namespace ns (wrap_namespace ns r) = wrap_namespace ns r"
proof (cases "wrap_namespace ns r = r")
  case True
  then show ?thesis by simp
next
  case False
  then have ns: "ns \<noteq> []" and w: "wrap_namespace ns r = outer_prefix r @ ns @ NAMESPACE_SEPARATOR # with_out_retry_and_dlq r"
    by (auto simp: wrap_namespace_def split: if_splits)
  have "is_system_resource (wrap_namespace ns r) \<or> is_already_with_namespace (wrap_namespace ns r) ns"
    using wrapped [OF ns assms w] ns starts_with_append [of "ns @ [NAMESPACE_SEPARATOR]"]
    by (simp add: is_already_with_namespace_def)
  then show ?thesis
    by (subst (1) wrap_namespace_def) simp
qed

section \<open>Properties\<close>

text \<open>
  For a namespace without a separator, wrapping a name is done once only; a name that was wrapped is stripped back to
  what it was, retry and dead letter prefixes included; and the namespace is read from the wrapped name, unless it makes
  the name look like a system resource.
\<close>
theorem namespace_round_trip:
  assumes "ns \<noteq> []" and "NAMESPACE_SEPARATOR \<notin> set ns"
  shows "wrap_namespace ns (wrap_namespace ns r) = wrap_namespace ns r
    \<and> (\<not> is_already_with_namespace r ns \<and> \<not> is_system_resource r \<longrightarrow>
         without_namespace (wrap_namespace ns r) ns = r
       \<and> (r \<noteq> [] \<and> \<not> is_system_resource ns \<longrightarrow> get_namespace_from_resource (wrap_namespace ns r) = ns))"
proof (cases "r = [] \<or> is_already_with_namespace r ns \<or> is_system_resource r")
  case True
  then show ?thesis
    using wrap_idempotent [OF assms(2)] by (auto simp: wrap_namespace_def without_namespace_def)
next
  case False
  then have w: "wrap_namespace ns r = outer_prefix r @ ns @ NAMESPACE_SEPARATOR # with_out_retry_and_dlq r"
    using assms(1) by (simp add: wrap_namespace_def)
  note p = wrapped [OF assms w]
  have "starts_with (with_out_retry_and_dlq (wrap_namespace ns r)) (ns @ [NAMESPACE_SEPARATOR])"
    using starts_with_append [of "ns @ [NAMESPACE_SEPARATOR]"] by (simp add: p)
  moreover have "strip_prefix (wrap_namespace ns r) = r"
    using assms by (simp add: strip_prefix_def p str_find_append prefix_parts)
  moreover have "get_namespace_from_resource (wrap_namespace ns r) = ns" if "\<not> is_system_resource ns"
    using assms that by (simp add: get_namespace_from_resource_def p str_find_append)
  ultimately show ?thesis
    using p(1) assms(1) wrap_idempotent [OF assms(2)] by (simp add: without_namespace_def)
qed

theorem namespace_round_trip_witness:
  "wrap_namespace ''MQ_INST'' ''%RETRY%GID'' = ''%RETRY%MQ_INST%GID''
     \<and> without_namespace (wrap_namespace ''MQ_INST'' ''%RETRY%GID'') ''MQ_INST'' = ''%RETRY%GID''
     \<and> get_namespace_from_resource (wrap_namespace ''MQ_INST'' ''%RETRY%GID'') = ''MQ_INST''"
proof -
  have "''MQ_INST'' \<noteq> []" and "NAMESPACE_SEPARATOR \<notin> set ''MQ_INST''"
    and "\<not> is_already_with_namespace ''%RETRY%GID'' ''MQ_INST'' \<and> \<not> is_system_resource ''%RETRY%GID''"
    and "\<not> is_system_resource ''MQ_INST''"
    and "wrap_namespace ''MQ_INST'' ''%RETRY%GID'' = ''%RETRY%MQ_INST%GID''"
    by code_simp+
  with namespace_round_trip [of "''MQ_INST''" "''%RETRY%GID''"] show ?thesis by simp
qed

end
