(* ===== verification/Extra_Info.thy ===== *)
theory Extra_Info
  imports Mix_All
begin

text \<open>
  The ticket of a popped message and the offset tables of a pop response
  (\<open>src/rust/src/remoting/protocol/extra_info.rs\<close>). The ticket (CK string) is a line of space separated segments;
  a table is a list of groups \<open>flag queue value\<close> separated by semicolons. The three table parsers of the source run
  one loop with three readers of the third segment; the locale \<open>info_table\<close> states what the reader must undo, and
  its lemma is the round trip of a table.
\<close>

section \<open>Retry topics\<close>

definition KEY_SEPARATOR :: char where "KEY_SEPARATOR = CHR '' ''"
definition QUEUE_SEPARATOR :: char where "QUEUE_SEPARATOR = CHR '';''"
definition OFFSET_SEPARATOR :: char where "OFFSET_SEPARATOR = CHR '',''"
definition NORMAL_TOPIC :: string where "NORMAL_TOPIC = ''0''"
definition RETRY_TOPIC :: string where "RETRY_TOPIC = ''1''"
definition RETRY_TOPIC_V2 :: string where "RETRY_TOPIC_V2 = ''2''"
definition QUEUE_OFFSET :: string where "QUEUE_OFFSET = ''qo''"
definition POP_ORDER_REVIVE_QUEUE :: i32 where "POP_ORDER_REVIVE_QUEUE = 999"
definition POP_RETRY_SEPARATOR_V1 :: char where "POP_RETRY_SEPARATOR_V1 = CHR ''_''"
definition POP_RETRY_SEPARATOR_V2 :: char where "POP_RETRY_SEPARATOR_V2 = CHR ''+''"

definition build_pop_retry_topic_v1 :: "string \<Rightarrow> string \<Rightarrow> string" where
  "build_pop_retry_topic_v1 topic cid = RETRY_GROUP_TOPIC_PREFIX @ cid @ [POP_RETRY_SEPARATOR_V1] @ topic"

definition build_pop_retry_topic_v2 :: "string \<Rightarrow> string \<Rightarrow> string" where
  "build_pop_retry_topic_v2 topic cid = RETRY_GROUP_TOPIC_PREFIX @ cid @ [POP_RETRY_SEPARATOR_V2] @ topic"

definition build_pop_retry_topic :: "string \<Rightarrow> string \<Rightarrow> bool \<Rightarrow> string" where
  "build_pop_retry_topic topic cid enable_retry_v2 =
     (if enable_retry_v2 then build_pop_retry_topic_v2 topic cid else build_pop_retry_topic_v1 topic cid)"

definition is_pop_retry_topic_v2 :: "string option \<Rightarrow> bool" where
  "is_pop_retry_topic_v2 retry_topic = (case retry_topic of
     None \<Rightarrow> False
   | Some t \<Rightarrow> t \<noteq> [] \<and> starts_with t RETRY_GROUP_TOPIC_PREFIX \<and> POP_RETRY_SEPARATOR_V2 \<in> set t)"

definition str_strip_prefix :: "string \<Rightarrow> string \<Rightarrow> string option" where
  "str_strip_prefix s p = (if starts_with s p then Some (drop (length p) s) else None)"

text \<open>The loop over the two separators.\<close>

fun strip_retry_head :: "string \<Rightarrow> string \<Rightarrow> char list \<Rightarrow> string" where
  "strip_retry_head topic hd_part [] = topic"
| "strip_retry_head topic hd_part (separator # separators) =
     (case str_strip_prefix topic (hd_part @ [separator]) of
        Some rest \<Rightarrow> if rest \<noteq> [] then rest else strip_retry_head topic hd_part separators
      | None \<Rightarrow> strip_retry_head topic hd_part separators)"

definition parse_pop_normal_topic :: "string \<Rightarrow> string \<Rightarrow> string" where
  "parse_pop_normal_topic topic cid =
     (if topic = [] \<or> cid = [] \<or> \<not> starts_with topic RETRY_GROUP_TOPIC_PREFIX then topic
      else strip_retry_head topic (RETRY_GROUP_TOPIC_PREFIX @ cid) [POP_RETRY_SEPARATOR_V2, POP_RETRY_SEPARATOR_V1])"

definition retry_of_topic :: "string \<Rightarrow> string" where
  "retry_of_topic topic =
     (if is_pop_retry_topic_v2 (Some topic) then RETRY_TOPIC_V2
      else if starts_with topic RETRY_GROUP_TOPIC_PREFIX then RETRY_TOPIC
      else NORMAL_TOPIC)"

definition get_real_topic :: "string \<Rightarrow> string \<Rightarrow> string \<Rightarrow> string result" where
  "get_real_topic topic cid retry =
     (if retry = NORMAL_TOPIC then Inr topic
      else if retry = RETRY_TOPIC then Inr (build_pop_retry_topic_v1 topic cid)
      else if retry = RETRY_TOPIC_V2 then Inr (build_pop_retry_topic_v2 topic cid)
      else fail (Decode ''getRetry fail, format is wrong''))"

section \<open>The ticket\<close>

definition split_drop_trailing :: "string \<Rightarrow> char \<Rightarrow> string list" where
  "split_drop_trailing value sep = rev (dropWhile (\<lambda>p. p = []) (rev (str_split sep value)))"

definition split_extra_info :: "string \<Rightarrow> string list result" where
  "split_extra_info extra_info = Inr (split_drop_trailing extra_info KEY_SEPARATOR)"

definition require :: "string list \<Rightarrow> nat \<Rightarrow> string \<Rightarrow> unit result" where
  "require segments need what =
     (if length segments < need
      then fail (Decode (what @ '' fail, extraInfoStrs length '' @ show_nat (length segments)))
      else Inr ())"

definition segment_as :: "string list \<Rightarrow> nat \<Rightarrow> nat \<Rightarrow> string \<Rightarrow> i64 result" where
  "segment_as segments index need what =
     bind_result (require segments need what) (\<lambda>_.
       if length segments \<le> index then Inl (Panic ''index out of bounds'')
       else let raw = segments ! index in
         ok_or (parse_i64 (str_trim raw))
           (Decode (what @ '' fail, extraInfoStrs['' @ show_nat index @ '']='' @ str_debug raw @ '' is not a number'')))"

definition get_ck_queue_offset :: "string list \<Rightarrow> i64 result" where
  "get_ck_queue_offset segments = segment_as segments 0 1 ''getCkQueueOffset''"

definition get_pop_time :: "string list \<Rightarrow> i64 result" where
  "get_pop_time segments = segment_as segments 1 2 ''getPopTime''"

definition get_invisible_time :: "string list \<Rightarrow> i64 result" where
  "get_invisible_time segments = segment_as segments 2 3 ''getInvisibleTime''"

definition get_revive_qid :: "string list \<Rightarrow> i32 result" where
  "get_revive_qid segments = bind_result (segment_as segments 3 4 ''getReviveQid'') (\<lambda>v. Inr (ucast v))"

definition get_retry :: "string list \<Rightarrow> string result" where
  "get_retry segments = bind_result (require segments 5 ''getRetry'') (\<lambda>_. Inr (segments ! 4))"

definition ck_broker_name :: "string list \<Rightarrow> string result" where
  "ck_broker_name segments = bind_result (require segments 6 ''getBrokerName'') (\<lambda>_. Inr (segments ! 5))"

definition ck_queue_id :: "string list \<Rightarrow> i32 result" where
  "ck_queue_id segments = bind_result (segment_as segments 6 7 ''getQueueId'') (\<lambda>v. Inr (ucast v))"

definition get_queue_offset :: "string list \<Rightarrow> i64 result" where
  "get_queue_offset segments = segment_as segments 7 8 ''getQueueOffset''"

definition is_order :: "string list \<Rightarrow> bool result" where
  "is_order segments = bind_result (get_revive_qid segments) (\<lambda>q. Inr (q = POP_ORDER_REVIVE_QUEUE))"

definition build_extra_info ::
  "i64 \<Rightarrow> i64 \<Rightarrow> i64 \<Rightarrow> i32 \<Rightarrow> string \<Rightarrow> string \<Rightarrow> i32 \<Rightarrow> i64 option \<Rightarrow> string" where
  "build_extra_info ck_queue_offset pop_time invisible_time revive_qid topic broker_name queue_id msg_queue_offset =
     (let parts = [show_signed ck_queue_offset, show_signed pop_time, show_signed invisible_time,
            show_signed revive_qid, retry_of_topic topic, broker_name, show_signed queue_id];
          parts = (case msg_queue_offset of Some offset \<Rightarrow> parts @ [show_signed offset] | None \<Rightarrow> parts)
      in str_join [KEY_SEPARATOR] parts)"

section \<open>The tables\<close>

definition append_queue_segment :: "string \<Rightarrow> string list \<Rightarrow> string" where
  "append_queue_segment out segments =
     (if out \<noteq> [] then out @ [QUEUE_SEPARATOR] else out) @ str_join [KEY_SEPARATOR] segments"

definition get_queue_offset_key_value_key :: "i64 \<Rightarrow> i64 \<Rightarrow> string" where
  "get_queue_offset_key_value_key queue_id queue_offset =
     QUEUE_OFFSET @ show_signed queue_id @ ''%'' @ show_signed queue_offset"

definition build_start_offset_info :: "string \<Rightarrow> string \<Rightarrow> i32 \<Rightarrow> i64 \<Rightarrow> string" where
  "build_start_offset_info out topic queue_id start_offset =
     append_queue_segment out [retry_of_topic topic, show_signed queue_id, show_signed start_offset]"

definition build_queue_id_order_count_info :: "string \<Rightarrow> string \<Rightarrow> i32 \<Rightarrow> i32 \<Rightarrow> string" where
  "build_queue_id_order_count_info out topic queue_id order_count =
     append_queue_segment out [retry_of_topic topic, show_signed queue_id, show_signed order_count]"

definition build_queue_offset_order_count_info :: "string \<Rightarrow> string \<Rightarrow> i64 \<Rightarrow> i64 \<Rightarrow> i32 \<Rightarrow> string" where
  "build_queue_offset_order_count_info out topic queue_id queue_offset order_count =
     append_queue_segment out
       [retry_of_topic topic, get_queue_offset_key_value_key queue_id queue_offset, show_signed order_count]"

definition build_msg_offset_info :: "string \<Rightarrow> string \<Rightarrow> i32 \<Rightarrow> i64 list \<Rightarrow> string" where
  "build_msg_offset_info out topic queue_id msg_offsets =
     (let joined = str_join [OFFSET_SEPARATOR] (map show_signed msg_offsets)
      in append_queue_segment out [retry_of_topic topic, show_signed queue_id, joined])"

definition split_queue_segments :: "string \<Rightarrow> string list" where
  "split_queue_segments value =
     (if QUEUE_SEPARATOR \<in> set value then split_drop_trailing value QUEUE_SEPARATOR else [value])"

definition one_segment :: "string \<Rightarrow> string \<Rightarrow> string \<Rightarrow> (string \<times> 'v) list \<Rightarrow> (string \<times> string) result" where
  "one_segment one raw what out =
     (let parts = str_split KEY_SEPARATOR one in
      if length parts \<noteq> 3 then fail (Decode (''parse '' @ what @ '' error, '' @ raw))
      else let key = parts ! 0 @ ''@'' @ parts ! 1 in
        if list_ex (\<lambda>(k, _). k = key) out
        then fail (Decode (''parse '' @ what @ '' error, duplicate, '' @ raw))
        else Inr (key, parts ! 2))"

text \<open>The loop of the three parsers, over the reader of the third segment.\<close>

fun parse_groups ::
  "(string \<Rightarrow> 'v result) \<Rightarrow> string \<Rightarrow> string \<Rightarrow> string list \<Rightarrow> (string \<times> 'v) list \<Rightarrow> (string \<times> 'v) list result" where
  "parse_groups third_value raw what [] out = Inr out"
| "parse_groups third_value raw what (one # ones) out =
     bind_result (one_segment one raw what out) (\<lambda>(key, third).
       bind_result (third_value third) (\<lambda>value. parse_groups third_value raw what ones (out @ [(key, value)])))"

definition parse_info ::
  "(string \<Rightarrow> 'v result) \<Rightarrow> string \<Rightarrow> string option \<Rightarrow> (string \<times> 'v) list option result" where
  "parse_info third_value what info = (case info of
     None \<Rightarrow> Inr None
   | Some raw \<Rightarrow>
       if raw = [] then Inr None
       else bind_result (parse_groups third_value raw what (split_queue_segments raw) []) (\<lambda>out. Inr (Some out)))"

definition read_start_offset :: "string \<Rightarrow> i64 result" where
  "read_start_offset third = ok_or (parse_i64 (str_trim third))
     (Decode (''parse startOffsetInfo error, '' @ str_debug third @ '' is not a long''))"

definition parse_start_offset_info :: "string option \<Rightarrow> (string \<times> i64) list option result" where
  "parse_start_offset_info = parse_info read_start_offset ''startOffsetInfo''"

fun read_offsets :: "string list \<Rightarrow> i64 list result" where
  "read_offsets [] = Inr []"
| "read_offsets (item # items) =
     bind_result (ok_or (parse_i64 (str_trim item))
         (Decode (''parse msgOffsetInfo error, '' @ str_debug item @ '' is not a long'')))
       (\<lambda>value. bind_result (read_offsets items) (\<lambda>offsets. Inr (value # offsets)))"

definition read_msg_offsets :: "string \<Rightarrow> i64 list result" where
  "read_msg_offsets third = read_offsets (split_drop_trailing third OFFSET_SEPARATOR)"

definition parse_msg_offset_info :: "string option \<Rightarrow> (string \<times> i64 list) list option result" where
  "parse_msg_offset_info = parse_info read_msg_offsets ''msgOffsetInfo''"

definition read_order_count :: "string \<Rightarrow> i32 result" where
  "read_order_count third = ok_or (parse_i32 (str_trim third))
     (Decode (''parse orderCountInfo error, '' @ str_debug third @ '' is not an int''))"

definition parse_order_count_info :: "string option \<Rightarrow> (string \<times> i32) list option result" where
  "parse_order_count_info = parse_info read_order_count ''orderCountInfo''"

definition get_start_offset_info_map_key :: "string \<Rightarrow> i64 \<Rightarrow> string" where
  "get_start_offset_info_map_key topic key = retry_of_topic topic @ ''@'' @ show_signed key"

definition get_queue_offset_map_key :: "string \<Rightarrow> i64 \<Rightarrow> i64 \<Rightarrow> string" where
  "get_queue_offset_map_key topic queue_id queue_offset =
     retry_of_topic topic @ ''@'' @ get_queue_offset_key_value_key queue_id queue_offset"

section \<open>Segments are read back\<close>

lemma split_drop_trailing_join:
  assumes "ps \<noteq> []" and "List.last ps \<noteq> []" and "\<forall>p \<in> set ps. c \<notin> set p"
  shows "split_drop_trailing (str_join [c] ps) c = ps"
proof -
  have "rev (dropWhile (\<lambda>p. p = []) (rev ps)) = ps"
    using assms(1,2) by (cases ps rule: rev_cases) auto
  with assms show ?thesis by (simp add: split_drop_trailing_def str_split_join)
qed

lemma retry_of_topic_cases: "retry_of_topic topic \<in> {NORMAL_TOPIC, RETRY_TOPIC, RETRY_TOPIC_V2}"
  by (simp add: retry_of_topic_def)

lemma retry_of_topic_free: "c \<notin> set ''012'' \<Longrightarrow> c \<notin> set (retry_of_topic topic)"
  using retry_of_topic_cases [of topic] by (auto simp: NORMAL_TOPIC_def RETRY_TOPIC_def RETRY_TOPIC_V2_def)

lemmas separator_defs = KEY_SEPARATOR_def QUEUE_SEPARATOR_def OFFSET_SEPARATOR_def

lemma separators_free [simp]:
  "KEY_SEPARATOR \<notin> set (show_int i)" "QUEUE_SEPARATOR \<notin> set (show_int i)" "OFFSET_SEPARATOR \<notin> set (show_int i)"
  "KEY_SEPARATOR \<notin> set (retry_of_topic topic)" "QUEUE_SEPARATOR \<notin> set (retry_of_topic topic)"
  by (auto simp: separator_defs show_int_free retry_of_topic_free)

definition ticket_segments ::
  "i64 \<Rightarrow> i64 \<Rightarrow> i64 \<Rightarrow> i32 \<Rightarrow> string \<Rightarrow> string \<Rightarrow> i32 \<Rightarrow> i64 option \<Rightarrow> string list" where
  "ticket_segments ck pop hide revive topic broker q off =
     [show_signed ck, show_signed pop, show_signed hide, show_signed revive, retry_of_topic topic, broker, show_signed q]
       @ (case off of None \<Rightarrow> [] | Some v \<Rightarrow> [show_signed v])"

lemma split_ticket:
  assumes "KEY_SEPARATOR \<notin> set broker"
  shows "split_extra_info (build_extra_info ck pop hide revive topic broker q off) =
    Inr (ticket_segments ck pop hide revive topic broker q off)"
proof -
  let ?ps = "ticket_segments ck pop hide revive topic broker q off"
  have "build_extra_info ck pop hide revive topic broker q off = str_join [KEY_SEPARATOR] ?ps"
    by (simp add: build_extra_info_def ticket_segments_def split: option.split)
  moreover have "?ps \<noteq> []" "List.last ?ps \<noteq> []" "\<forall>p \<in> set ?ps. KEY_SEPARATOR \<notin> set p"
    using assms by (auto simp: ticket_segments_def split: option.splits)
  ultimately show ?thesis
    by (simp add: split_extra_info_def split_drop_trailing_join)
qed

section \<open>Tables are read back\<close>

definition queue_group :: "('v \<Rightarrow> string) \<Rightarrow> string \<times> string \<times> 'v \<Rightarrow> string" where
  "queue_group show_third e = (case e of (flag, q, v) \<Rightarrow> str_join [KEY_SEPARATOR] [flag, q, show_third v])"

definition group_key :: "string \<times> string \<times> 'v \<Rightarrow> string" where
  "group_key e = (case e of (flag, q, _) \<Rightarrow> flag @ ''@'' @ q)"

definition group_ok :: "string \<times> string \<times> 'v \<Rightarrow> bool" where
  "group_ok e \<longleftrightarrow> (case e of (flag, q, _) \<Rightarrow> KEY_SEPARATOR \<notin> set (flag @ q) \<and> QUEUE_SEPARATOR \<notin> set (flag @ q))"

definition table_text :: "('v \<Rightarrow> string) \<Rightarrow> (string \<times> string \<times> 'v) list \<Rightarrow> string" where
  "table_text show_third es =
     fold (\<lambda>e out. append_queue_segment out [fst e, fst (snd e), show_third (snd (snd e))]) es []"

definition table_rows :: "(string \<times> string \<times> 'v) list \<Rightarrow> (string \<times> 'v) list" where
  "table_rows es = map (\<lambda>e. (group_key e, snd (snd e))) es"

text \<open>The rows of a table of queues, under the key that looks them up.\<close>

definition queue_row :: "string \<times> i32 \<times> 'v \<Rightarrow> string \<times> string \<times> 'v" where
  "queue_row e = (case e of (topic, q, v) \<Rightarrow> (retry_of_topic topic, show_signed q, v))"

definition queue_key :: "string \<times> i32 \<times> 'v \<Rightarrow> string" where
  "queue_key e = (case e of (topic, q, _) \<Rightarrow> get_start_offset_info_map_key topic (scast q))"

lemma queue_row_key: "group_key (queue_row e) = queue_key e"
  by (cases e) (simp add: group_key_def queue_row_def queue_key_def get_start_offset_info_map_key_def sint_widen)

lemma queue_row_ok: "group_ok (queue_row e)"
  by (cases e) (simp add: group_ok_def queue_row_def)

lemma queue_row_parts [simp]:
  "fst (queue_row e) = retry_of_topic (fst e)" "fst (snd (queue_row e)) = show_signed (fst (snd e))"
  "snd (snd (queue_row e)) = snd (snd e)"
  by (cases e; simp add: queue_row_def)+

lemma queue_group_not_Nil [simp]: "queue_group show_third e \<noteq> []"
  by (auto simp: queue_group_def split: prod.splits)

lemma append_group:
  "append_queue_segment out [fst e, fst (snd e), show_third (snd (snd e))] =
     (if out \<noteq> [] then out @ [QUEUE_SEPARATOR] else out) @ queue_group show_third e"
  by (cases e) (simp add: append_queue_segment_def queue_group_def)

lemma fold_append_groups:
  "out \<noteq> [] \<Longrightarrow>
     fold (\<lambda>e out. (if out \<noteq> [] then out @ [QUEUE_SEPARATOR] else out) @ queue_group show_third e) es out =
     out @ concat (map (\<lambda>p. QUEUE_SEPARATOR # p) (map (queue_group show_third) es))"
  by (induction es arbitrary: out) simp_all

lemma table_text_join:
  "table_text show_third es = str_join [QUEUE_SEPARATOR] (map (queue_group show_third) es)"
  by (cases es) (simp_all add: table_text_def append_group fold_append_groups str_join_Cons)

locale info_table =
  fixes show_third :: "'v \<Rightarrow> string" and read_third :: "string \<Rightarrow> 'v result"
  assumes read_back: "read_third (show_third v) = Inr v"
    and third_free: "KEY_SEPARATOR \<notin> set (show_third v)" "QUEUE_SEPARATOR \<notin> set (show_third v)"
begin

lemma split_table:
  assumes "es \<noteq> []" and "\<forall>e \<in> set es. group_ok e"
  shows "split_queue_segments (table_text show_third es) = map (queue_group show_third) es"
proof -
  let ?gs = "map (queue_group show_third) es"
  have free: "\<forall>g \<in> set ?gs. QUEUE_SEPARATOR \<notin> set g"
    using assms(2) third_free by (auto simp: queue_group_def group_ok_def separator_defs)
  show ?thesis
  proof (cases "QUEUE_SEPARATOR \<in> set (table_text show_third es)")
    case True
    then show ?thesis
      using assms(1) free split_drop_trailing_join [of ?gs QUEUE_SEPARATOR]
      by (simp add: split_queue_segments_def table_text_join last_map)
  next
    case False
    obtain e es' where es: "es = e # es'"
      using assms(1) by (cases es) auto
    with False have "es' = []"
      by (cases es') (auto simp: table_text_join)
    with es False show ?thesis
      by (simp add: split_queue_segments_def table_text_join)
  qed
qed

lemma one_segment_group:
  assumes "group_ok e"
  shows "one_segment (queue_group show_third e) raw what out =
    (if group_key e \<in> set (map fst out) then fail (Decode (''parse '' @ what @ '' error, duplicate, '' @ raw))
     else Inr (group_key e, show_third (snd (snd e))))"
proof -
  obtain flag q v where e: "e = (flag, q, v)"
    by (cases e) auto
  have "str_split KEY_SEPARATOR (queue_group show_third e) = [flag, q, show_third v]"
    using assms third_free unfolding queue_group_def e prod.case
    by (intro str_split_join) (auto simp: group_ok_def)
  moreover have "list_ex (\<lambda>(k, _). k = group_key e) out \<longleftrightarrow> group_key e \<in> set (map fst out)"
    by (force simp: list_ex_iff)
  ultimately show ?thesis
    by (simp add: one_segment_def e group_key_def)
qed

lemma parse_table_groups:
  assumes "\<forall>e \<in> set es. group_ok e"
  shows "parse_groups read_third raw what (map (queue_group show_third) es) out =
    (if distinct (map group_key es) \<and> set (map group_key es) \<inter> set (map fst out) = {}
     then Inr (out @ table_rows es)
     else fail (Decode (''parse '' @ what @ '' error, duplicate, '' @ raw)))"
  using assms
proof (induction es arbitrary: out)
  case Nil
  then show ?case by (simp add: table_rows_def)
next
  case (Cons e es)
  then show ?case
    by (simp add: one_segment_group read_back table_rows_def)
qed

lemma table_round_trip:
  assumes "\<forall>e \<in> set es. group_ok e"
  shows "parse_info read_third what (Some (table_text show_third es)) =
    (if es = [] then Inr None
     else if distinct (map group_key es) then Inr (Some (table_rows es))
     else fail (Decode (''parse '' @ what @ '' error, duplicate, '' @ table_text show_third es)))"
proof (cases "es = []")
  case True
  then show ?thesis by (simp add: parse_info_def table_text_def)
next
  case False
  then have "table_text show_third es \<noteq> []"
    by (cases es) (simp_all add: table_text_join str_join_Cons)
  with False show ?thesis
    using parse_table_groups [OF assms, where out = "[]"] by (simp add: parse_info_def split_table assms)
qed

lemma queue_table_round_trip:
  "parse_info read_third what (Some (table_text show_third (map queue_row es))) =
    (if es = [] then Inr None
     else if distinct (map queue_key es) then Inr (Some (map (\<lambda>e. (queue_key e, snd (snd e))) es))
     else fail (Decode (''parse '' @ what @ '' error, duplicate, '' @ table_text show_third (map queue_row es))))"
  using table_round_trip [of "map queue_row es" what]
  by (simp add: queue_row_ok queue_row_key table_rows_def comp_def)

end

interpretation start_table: info_table show_signed read_start_offset
  by unfold_locales (simp_all add: read_start_offset_def)

interpretation order_table: info_table show_signed read_order_count
  by unfold_locales (simp_all add: read_order_count_def)

lemma read_offsets_show: "read_offsets (map show_signed vs) = Inr vs"
  by (induction vs) simp_all

lemma split_offsets:
  "split_drop_trailing (str_join [OFFSET_SEPARATOR] (map show_signed (vs :: i64 list))) OFFSET_SEPARATOR =
     map show_signed vs"
proof (cases "vs = []")
  case True
  then show ?thesis by (simp add: split_drop_trailing_def)
next
  case False
  then show ?thesis
    by (intro split_drop_trailing_join) (auto simp: last_map)
qed

interpretation msg_table: info_table "\<lambda>vs. str_join [OFFSET_SEPARATOR] (map show_signed vs)" read_msg_offsets
proof unfold_locales
  fix vs :: "i64 list"
  show "read_msg_offsets (str_join [OFFSET_SEPARATOR] (map show_signed vs)) = Inr vs"
    by (simp add: read_msg_offsets_def split_offsets read_offsets_show)
  have "KEY_SEPARATOR \<notin> set [OFFSET_SEPARATOR]" "QUEUE_SEPARATOR \<notin> set [OFFSET_SEPARATOR]"
    by (simp_all add: separator_defs)
  then show "KEY_SEPARATOR \<notin> set (str_join [OFFSET_SEPARATOR] (map show_signed vs))"
    and "QUEUE_SEPARATOR \<notin> set (str_join [OFFSET_SEPARATOR] (map show_signed vs))"
    by (simp_all add: str_join_free)
qed

text \<open>The texts that successive calls of the builders write.\<close>

definition start_offset_text :: "(string \<times> i32 \<times> i64) list \<Rightarrow> string" where
  "start_offset_text es = fold (\<lambda>(topic, q, v) out. build_start_offset_info out topic q v) es []"

definition msg_offset_text :: "(string \<times> i32 \<times> i64 list) list \<Rightarrow> string" where
  "msg_offset_text ms = fold (\<lambda>(topic, q, vs) out. build_msg_offset_info out topic q vs) ms []"

lemma start_offset_text_row: "start_offset_text es = table_text show_signed (map queue_row es)"
  unfolding start_offset_text_def table_text_def fold_map
  by (rule fold_cong) (auto simp: build_start_offset_info_def)

lemma msg_offset_text_row:
  "msg_offset_text ms = table_text (\<lambda>vs. str_join [OFFSET_SEPARATOR] (map show_signed vs)) (map queue_row ms)"
  unfolding msg_offset_text_def table_text_def fold_map
  by (rule fold_cong) (auto simp: build_msg_offset_info_def)

section \<open>Retry topics are resolved\<close>

lemma strip_prefix_simps [simp]:
  "str_strip_prefix (p @ s) p = Some s" "x \<noteq> y \<Longrightarrow> str_strip_prefix (p @ x # s) (p @ [y]) = None"
  by (simp_all add: str_strip_prefix_def) (simp add: starts_with_def)

lemma strip_built_topic:
  assumes "topic \<noteq> []" and "cid \<noteq> []"
  shows "parse_pop_normal_topic (build_pop_retry_topic topic cid v2) cid = topic"
proof -
  let ?h = "RETRY_GROUP_TOPIC_PREFIX @ cid"
  have parts: "build_pop_retry_topic topic cid v2 =
      ?h @ (if v2 then POP_RETRY_SEPARATOR_V2 else POP_RETRY_SEPARATOR_V1) # topic"
    by (simp add: build_pop_retry_topic_def build_pop_retry_topic_v1_def build_pop_retry_topic_v2_def)
  have same: "str_strip_prefix (?h @ c # topic) (?h @ [c]) = Some topic" for c
    using strip_prefix_simps(1) [of "?h @ [c]" topic] by simp
  have other: "str_strip_prefix (?h @ POP_RETRY_SEPARATOR_V1 # topic) (?h @ [POP_RETRY_SEPARATOR_V2]) = None"
    by (rule strip_prefix_simps(2)) (simp add: POP_RETRY_SEPARATOR_V1_def POP_RETRY_SEPARATOR_V2_def)
  have "starts_with (?h @ s) RETRY_GROUP_TOPIC_PREFIX" for s
    using starts_with_append [of RETRY_GROUP_TOPIC_PREFIX "cid @ s"] by simp
  then show ?thesis
    using assms same other unfolding parts by (cases v2) (simp_all add: parse_pop_normal_topic_def)
qed

lemma retry_flag_of_built_topic:
  assumes "v2 \<or> POP_RETRY_SEPARATOR_V2 \<notin> set (cid @ topic)"
  shows "retry_of_topic (build_pop_retry_topic topic cid v2) = (if v2 then RETRY_TOPIC_V2 else RETRY_TOPIC)"
  using assms
  by (auto simp: retry_of_topic_def is_pop_retry_topic_v2_def build_pop_retry_topic_def build_pop_retry_topic_v1_def
      build_pop_retry_topic_v2_def RETRY_GROUP_TOPIC_PREFIX_def POP_RETRY_SEPARATOR_V1_def POP_RETRY_SEPARATOR_V2_def)

section \<open>Properties\<close>

text \<open>
  Every field of a ticket is read back from its text, for a broker name without spaces: the offsets and times, the
  queue numbers at their width, the retry flag and, where it was written, the message offset.
\<close>
theorem pop_ticket_round_trip:
  assumes "KEY_SEPARATOR \<notin> set broker"
  shows "\<exists>segments. split_extra_info (build_extra_info ck pop hide revive topic broker q off) = Inr segments
    \<and> get_ck_queue_offset segments = Inr ck \<and> get_pop_time segments = Inr pop \<and> get_invisible_time segments = Inr hide
    \<and> get_revive_qid segments = Inr revive \<and> get_retry segments = Inr (retry_of_topic topic)
    \<and> ck_broker_name segments = Inr broker \<and> ck_queue_id segments = Inr q
    \<and> get_queue_offset segments = (case off of Some v \<Rightarrow> Inr v
        | None \<Rightarrow> fail (Decode ''getQueueOffset fail, extraInfoStrs length 7''))
    \<and> is_order segments = Inr (revive = POP_ORDER_REVIVE_QUEUE)"
proof -
  let ?s = "ticket_segments ck pop hide revive topic broker q off"
  have show_7: "show_nat 7 = ''7''"
    by code_simp
  have "get_ck_queue_offset ?s = Inr ck" "get_pop_time ?s = Inr pop" "get_invisible_time ?s = Inr hide"
      "get_revive_qid ?s = Inr revive" "get_retry ?s = Inr (retry_of_topic topic)" "ck_broker_name ?s = Inr broker"
      "ck_queue_id ?s = Inr q"
    by (simp_all add: get_ck_queue_offset_def get_pop_time_def get_invisible_time_def get_revive_qid_def get_retry_def
        ck_broker_name_def ck_queue_id_def segment_as_def require_def ticket_segments_def parse_i64_show_i32 narrow_i32
        numeral_eq_Suc)
  moreover have "get_queue_offset ?s = (case off of Some v \<Rightarrow> Inr v
      | None \<Rightarrow> fail (Decode ''getQueueOffset fail, extraInfoStrs length 7''))"
  proof (cases off)
    case None
    then have "length ?s = 7"
      by (simp add: ticket_segments_def)
    with None show ?thesis
      by (simp add: get_queue_offset_def segment_as_def require_def show_7)
  next
    case (Some v)
    then show ?thesis
      by (simp add: get_queue_offset_def segment_as_def require_def ticket_segments_def nth_append)
  qed
  ultimately show ?thesis
    using split_ticket [OF assms] by (simp add: is_order_def)
qed

theorem pop_ticket_round_trip_witness:
  "\<exists>segments. split_extra_info (build_extra_info 12345 1700000000000 60000 999 ''%RETRY%g+t'' ''broker-a'' 3 (Some 67890)) =
     Inr segments \<and> get_queue_offset segments = Inr 67890 \<and> is_order segments = Inr True"
proof -
  have "KEY_SEPARATOR \<notin> set ''broker-a''"
    by code_simp
  from pop_ticket_round_trip [OF this, of 12345 1700000000000 60000 999 "''%RETRY%g+t''" 3 "Some 67890"]
  show ?thesis by (auto simp: POP_ORDER_REVIVE_QUEUE_def)
qed

text \<open>
  The offset tables of a pop response are read back row by row under the keys that look them up, the offsets of a
  queue in order; a table in which a key occurs twice is an error, and one without rows is no table.
\<close>
theorem pop_tables_round_trip:
  "parse_start_offset_info (Some (start_offset_text es)) =
     (if es = [] then Inr None
      else if distinct (map queue_key es) then Inr (Some (map (\<lambda>e. (queue_key e, snd (snd e))) es))
      else fail (Decode (''parse startOffsetInfo error, duplicate, '' @ start_offset_text es)))
   \<and> parse_msg_offset_info (Some (msg_offset_text ms)) =
     (if ms = [] then Inr None
      else if distinct (map queue_key ms) then Inr (Some (map (\<lambda>e. (queue_key e, snd (snd e))) ms))
      else fail (Decode (''parse msgOffsetInfo error, duplicate, '' @ msg_offset_text ms)))"
  using start_table.queue_table_round_trip [of "''startOffsetInfo''" es]
    msg_table.queue_table_round_trip [of "''msgOffsetInfo''" ms]
  by (simp add: parse_start_offset_info_def parse_msg_offset_info_def start_offset_text_row msg_offset_text_row)

text \<open>
  A retry topic of either version is resolved to the business topic it was built from; its flag rebuilds the retry
  topic, where a version-1 name has no plus sign that would make it look like version 2.
\<close>
theorem pop_retry_topic_round_trip:
  assumes "topic \<noteq> []" and "cid \<noteq> []"
  shows "parse_pop_normal_topic (build_pop_retry_topic topic cid v2) cid = topic
    \<and> (v2 \<or> POP_RETRY_SEPARATOR_V2 \<notin> set (cid @ topic) \<longrightarrow>
        get_real_topic topic cid (retry_of_topic (build_pop_retry_topic topic cid v2)) =
          Inr (build_pop_retry_topic topic cid v2))"
proof -
  have "get_real_topic topic cid (if v2 then RETRY_TOPIC_V2 else RETRY_TOPIC) = Inr (build_pop_retry_topic topic cid v2)"
    by (simp add: get_real_topic_def build_pop_retry_topic_def NORMAL_TOPIC_def RETRY_TOPIC_def RETRY_TOPIC_V2_def)
  then show ?thesis
    using strip_built_topic [OF assms] retry_flag_of_built_topic by metis
qed

theorem pop_retry_topic_round_trip_witness:
  "parse_pop_normal_topic (build_pop_retry_topic ''a_b'' ''g'' False) ''g'' = ''a_b''"
  using pop_retry_topic_round_trip [of "''a_b''" "''g''" False] by simp

end
