(* ===== verification/Validators.thy ===== *)
theory Validators
  imports Message
begin

text \<open>
  The name rules of \<open>src/rust/src/common/topic_validator.rs\<close> and the checks of
  \<open>src/rust/src/client/validators.rs\<close> that a message passes before it is sent. The lemmas say exactly which
  names and messages pass. The file separator of the platform is an argument.
\<close>

section \<open>Name rules\<close>

definition TOPIC_MAX_LENGTH :: i32 where "TOPIC_MAX_LENGTH = 127"
definition GROUP_MAX_LENGTH :: i32 where "GROUP_MAX_LENGTH = 120"
definition VALID_CHAR_PATTERN :: string where "VALID_CHAR_PATTERN = ''^[%|a-zA-Z0-9_-]+$''"

definition AUTO_CREATE_TOPIC_KEY_TOPIC :: string where "AUTO_CREATE_TOPIC_KEY_TOPIC = ''TBW102''"
definition RMQ_SYS_SCHEDULE_TOPIC :: string where "RMQ_SYS_SCHEDULE_TOPIC = ''SCHEDULE_TOPIC_XXXX''"
definition RMQ_SYS_BENCHMARK_TOPIC :: string where "RMQ_SYS_BENCHMARK_TOPIC = ''BenchmarkTest''"
definition RMQ_SYS_TRANS_HALF_TOPIC :: string where "RMQ_SYS_TRANS_HALF_TOPIC = ''RMQ_SYS_TRANS_HALF_TOPIC''"
definition RMQ_SYS_ROCKSDB_TRANS_HALF_TOPIC :: string where
  "RMQ_SYS_ROCKSDB_TRANS_HALF_TOPIC = ''RMQ_SYS_ROCKSDB_TRANS_HALF_TOPIC''"
definition RMQ_SYS_TRACE_TOPIC :: string where "RMQ_SYS_TRACE_TOPIC = ''RMQ_SYS_TRACE_TOPIC''"
definition RMQ_SYS_TRANS_OP_HALF_TOPIC :: string where "RMQ_SYS_TRANS_OP_HALF_TOPIC = ''RMQ_SYS_TRANS_OP_HALF_TOPIC''"
definition RMQ_SYS_ROCKSDB_TRANS_OP_HALF_TOPIC :: string where
  "RMQ_SYS_ROCKSDB_TRANS_OP_HALF_TOPIC = ''RMQ_SYS_ROCKSDB_TRANS_OP_HALF_TOPIC''"
definition RMQ_SYS_TRANS_CHECK_MAX_TIME_TOPIC :: string where
  "RMQ_SYS_TRANS_CHECK_MAX_TIME_TOPIC = ''TRANS_CHECK_MAX_TIME_TOPIC''"
definition RMQ_SYS_SELF_TEST_TOPIC :: string where "RMQ_SYS_SELF_TEST_TOPIC = ''SELF_TEST_TOPIC''"
definition RMQ_SYS_OFFSET_MOVED_EVENT :: string where "RMQ_SYS_OFFSET_MOVED_EVENT = ''OFFSET_MOVED_EVENT''"
definition RMQ_SYS_ROCKSDB_OFFSET_TOPIC :: string where "RMQ_SYS_ROCKSDB_OFFSET_TOPIC = ''CHECKPOINT_TOPIC''"
definition SYSTEM_TOPIC_PREFIX :: string where "SYSTEM_TOPIC_PREFIX = ''rmq_sys_''"

definition not_allowed_send_topic_set :: "string list" where
  "not_allowed_send_topic_set =
     [RMQ_SYS_SCHEDULE_TOPIC, RMQ_SYS_TRANS_HALF_TOPIC, RMQ_SYS_TRANS_OP_HALF_TOPIC, RMQ_SYS_TRANS_CHECK_MAX_TIME_TOPIC,
      RMQ_SYS_SELF_TEST_TOPIC, RMQ_SYS_OFFSET_MOVED_EVENT, RMQ_SYS_ROCKSDB_TRANS_HALF_TOPIC,
      RMQ_SYS_ROCKSDB_TRANS_OP_HALF_TOPIC]"

definition system_topic_set :: "string list" where
  "system_topic_set =
     [AUTO_CREATE_TOPIC_KEY_TOPIC, RMQ_SYS_SCHEDULE_TOPIC, RMQ_SYS_BENCHMARK_TOPIC, RMQ_SYS_TRANS_HALF_TOPIC,
      RMQ_SYS_TRACE_TOPIC, RMQ_SYS_TRANS_OP_HALF_TOPIC, RMQ_SYS_TRANS_CHECK_MAX_TIME_TOPIC, RMQ_SYS_SELF_TEST_TOPIC,
      RMQ_SYS_OFFSET_MOVED_EVENT, RMQ_SYS_ROCKSDB_OFFSET_TOPIC, RMQ_SYS_ROCKSDB_TRANS_HALF_TOPIC,
      RMQ_SYS_ROCKSDB_TRANS_OP_HALF_TOPIC]"

definition is_ascii_alphanumeric :: "u8 \<Rightarrow> bool" where
  "is_ascii_alphanumeric b \<longleftrightarrow> 0x30 \<le> b \<and> b \<le> 0x39 \<or> 0x41 \<le> b \<and> b \<le> 0x5A \<or> 0x61 \<le> b \<and> b \<le> 0x7A"

definition allowed_char :: "u8 \<Rightarrow> bool" where
  "allowed_char b \<longleftrightarrow> is_ascii_alphanumeric b \<or> b \<in> set (str_bytes ''%-_|'')"

definition is_topic_or_group_illegal :: "string \<Rightarrow> bool" where
  "is_topic_or_group_illegal name \<longleftrightarrow> list_ex (\<lambda>b. 0x80 \<le> b \<or> \<not> allowed_char b) (str_bytes name)"

definition is_system_topic :: "string \<Rightarrow> bool" where
  "is_system_topic topic \<longleftrightarrow> topic \<in> set system_topic_set \<or> starts_with topic SYSTEM_TOPIC_PREFIX"

definition is_not_allowed_send_topic :: "string \<Rightarrow> bool" where
  "is_not_allowed_send_topic topic \<longleftrightarrow> topic \<in> set not_allowed_send_topic_set"

section \<open>Checks before sending\<close>

definition MESSAGE_ILLEGAL :: i32 where "MESSAGE_ILLEGAL = 13"

definition check_group :: "string \<Rightarrow> unit result" where
  "check_group name =
     (if is_blank (Some name) then fail (client_err ''the specified group is blank'')
      else if as_usize GROUP_MAX_LENGTH < length (str_chars name)
      then fail (client_err (''the specified group['' @ name @ ''] is longer than group max length: ''
             @ show_signed GROUP_MAX_LENGTH @ ''.''))
      else if is_topic_or_group_illegal name
      then fail (client_err (''the specified group['' @ name @ ''] contains illegal characters, allowing only ''
             @ VALID_CHAR_PATTERN))
      else Inr ())"

definition check_topic :: "string \<Rightarrow> unit result" where
  "check_topic topic =
     (if is_blank (Some topic) then fail (client_err ''The specified topic is blank'')
      else if as_usize TOPIC_MAX_LENGTH < length (str_chars topic)
      then fail (client_err (''The specified topic is longer than topic max length '' @ show_signed TOPIC_MAX_LENGTH @ ''.''))
      else if is_topic_or_group_illegal topic
      then fail (client_err (''The specified topic['' @ topic @ ''] contains illegal characters, allowing only ''
             @ VALID_CHAR_PATTERN))
      else Inr ())"

definition check_system_topic :: "string \<Rightarrow> unit result" where
  "check_system_topic topic =
     (if is_system_topic topic then fail (client_err (''The topic['' @ topic @ ''] is conflict with system topic.''))
      else Inr ())"

definition check_not_allowed_send_topic :: "string \<Rightarrow> unit result" where
  "check_not_allowed_send_topic topic =
     (if is_not_allowed_send_topic topic
      then fail (client_err (''Sending message to topic['' @ topic @ ''] is forbidden.''))
      else Inr ())"

definition check_body :: "bytes option \<Rightarrow> i32 \<Rightarrow> unit result" where
  "check_body body max_message_size = (case body of
     None \<Rightarrow> fail (client_err_with_code MESSAGE_ILLEGAL ''the message body is null'')
   | Some b \<Rightarrow>
       if b = [] then fail (client_err_with_code MESSAGE_ILLEGAL ''the message body length is zero'')
       else if as_usize max_message_size < length b
       then fail (client_err_with_code MESSAGE_ILLEGAL
              (''the message body size over max value, MAX: '' @ show_signed max_message_size))
       else Inr ())"

definition check_lmq_path :: "char \<Rightarrow> string option \<Rightarrow> unit result" where
  "check_lmq_path file_separator lmq_path = (case lmq_path of
     Some p \<Rightarrow>
       if p \<noteq> [] \<and> file_separator \<in> set p
       then fail (client_err_with_code MESSAGE_ILLEGAL
              (''INNER_MULTI_DISPATCH '' @ p @ '' can not contains '' @ [file_separator] @ '' character''))
       else Inr ()
   | None \<Rightarrow> Inr ())"

definition check_message :: "char \<Rightarrow> message \<Rightarrow> i32 \<Rightarrow> unit result" where
  "check_message file_separator msg max_message_size =
     bind_result (check_topic (m_topic msg)) (\<lambda>_.
     bind_result (check_not_allowed_send_topic (m_topic msg)) (\<lambda>_.
     bind_result (check_body (m_body msg) max_message_size) (\<lambda>_.
       check_lmq_path file_separator (get_property msg PROPERTY_INNER_MULTI_DISPATCH))))"

section \<open>Which names pass\<close>

lemma allowed_char_ascii: "allowed_char b \<Longrightarrow> b < 0x80 \<and> [b] \<notin> set white_space"
proof -
  assume "allowed_char b"
  then have "unat b < 128 \<and> 32 < unat b"
    by (auto simp: allowed_char_def is_ascii_alphanumeric_def char_byte_def word_le_nat_alt)
  then show ?thesis
    by (auto simp: white_space_def word_less_nat_alt)
qed

lemma legal_name: "\<not> is_topic_or_group_illegal name \<longleftrightarrow> (\<forall>c \<in> set name. allowed_char (char_byte c))"
  using allowed_char_ascii by (auto simp: is_topic_or_group_illegal_def list_ex_iff str_bytes_def linorder_not_le)

lemma legal_name_length:
  assumes "\<forall>c \<in> set name. allowed_char (char_byte c)"
  shows "length (str_chars name) = length name" "str_trim name = name"
proof -
  have "length (utf8_chunks (str_bytes name)) = length name"
    using assms allowed_char_ascii by (subst utf8_chunks_ascii) (auto simp: str_bytes_def)
  then show "length (str_chars name) = length name"
    by (simp add: str_chars_def)
  show "str_trim name = name"
    using assms allowed_char_ascii by (intro str_trim_id) auto
qed

lemma check_topic_ok:
  "check_topic topic = Inr () \<longleftrightarrow>
     topic \<noteq> [] \<and> length topic \<le> 127 \<and> (\<forall>c \<in> set topic. allowed_char (char_byte c))"
proof -
  have "as_usize TOPIC_MAX_LENGTH = 127"
    by (simp add: TOPIC_MAX_LENGTH_def as_usize_def)
  then show ?thesis
    using legal_name_length [of topic] legal_name [of topic]
    by (auto simp: check_topic_def is_blank_def)
qed

lemma check_group_ok:
  "check_group name = Inr () \<longleftrightarrow>
     name \<noteq> [] \<and> length name \<le> 120 \<and> (\<forall>c \<in> set name. allowed_char (char_byte c))"
proof -
  have "as_usize GROUP_MAX_LENGTH = 120"
    by (simp add: GROUP_MAX_LENGTH_def as_usize_def)
  then show ?thesis
    using legal_name_length [of name] legal_name [of name]
    by (auto simp: check_group_def is_blank_def)
qed

lemma check_body_cases:
  "check_body body limit = Inr () \<longleftrightarrow> (\<exists>b. body = Some b \<and> b \<noteq> [] \<and> length b \<le> as_usize limit)"
  "check_body body limit \<noteq> Inr () \<Longrightarrow> \<exists>e. check_body body limit = fail e \<and> response_code e = Some MESSAGE_ILLEGAL"
  by (auto simp: check_body_def client_err_with_code_def split: option.splits if_splits)

lemma check_lmq_path_cases:
  "check_lmq_path sep p = Inr () \<longleftrightarrow> (\<forall>q. p = Some q \<longrightarrow> sep \<notin> set q)"
  "check_lmq_path sep p \<noteq> Inr () \<Longrightarrow> \<exists>e. check_lmq_path sep p = fail e \<and> response_code e = Some MESSAGE_ILLEGAL"
  by (auto simp: check_lmq_path_def client_err_with_code_def split: option.splits if_splits)

lemma check_send_topic_ok: "check_not_allowed_send_topic t = Inr () \<longleftrightarrow> t \<notin> set not_allowed_send_topic_set"
  by (simp add: check_not_allowed_send_topic_def is_not_allowed_send_topic_def)

section \<open>Properties\<close>

text \<open>
  Exactly these messages pass the checks before sending: the topic has 1 to 127 characters of the allowed set and is not
  one of the broker's own, the body is present, not empty and within the limit, and a multi-queue path has no file
  separator. A refused body or path is reported with the code of an illegal message.
\<close>
theorem check_message_accepts:
  "(check_message sep msg limit = Inr () \<longleftrightarrow>
     m_topic msg \<noteq> [] \<and> length (m_topic msg) \<le> 127 \<and> (\<forall>c \<in> set (m_topic msg). allowed_char (char_byte c))
     \<and> m_topic msg \<notin> set not_allowed_send_topic_set
     \<and> (\<exists>b. m_body msg = Some b \<and> b \<noteq> [] \<and> length b \<le> as_usize limit)
     \<and> (\<forall>p. get_property msg PROPERTY_INNER_MULTI_DISPATCH = Some p \<longrightarrow> sep \<notin> set p))
   \<and> (check_topic (m_topic msg) = Inr () \<and> m_topic msg \<notin> set not_allowed_send_topic_set
        \<and> check_message sep msg limit \<noteq> Inr () \<longrightarrow>
      (\<exists>e. check_message sep msg limit = fail e \<and> response_code e = Some MESSAGE_ILLEGAL))"
proof -
  let ?path = "check_lmq_path sep (get_property msg PROPERTY_INNER_MULTI_DISPATCH)"
  have "\<exists>e. check_message sep msg limit = fail e \<and> response_code e = Some MESSAGE_ILLEGAL"
    if "check_topic (m_topic msg) = Inr ()" "m_topic msg \<notin> set not_allowed_send_topic_set"
      "check_message sep msg limit \<noteq> Inr ()"
  proof -
    have m: "check_message sep msg limit = bind_result (check_body (m_body msg) limit) (\<lambda>_. ?path)"
      using that(1,2) check_send_topic_ok [of "m_topic msg"] by (simp add: check_message_def)
    show ?thesis
    proof (cases "check_body (m_body msg) limit = Inr ()")
      case True
      with m that(3) show ?thesis by (auto dest: check_lmq_path_cases(2))
    next
      case False
      with m show ?thesis using check_body_cases(2) by fastforce
    qed
  qed
  then show ?thesis
    using check_topic_ok [of "m_topic msg"] check_body_cases(1) [of "m_body msg" limit] check_lmq_path_cases(1)
      check_send_topic_ok
    by (auto simp: check_message_def bind_result_Inr)
qed

theorem check_message_accepts_witness:
  "check_message (CHR ''/'') (message_new ''TopicTest'' (Some [1, 2])) 4194304 = Inr ()
   \<and> (\<exists>e. check_message (CHR ''/'') (message_new ''TopicTest'' None) 4194304 = fail e
        \<and> response_code e = Some MESSAGE_ILLEGAL)"
proof
  have "check_topic ''TopicTest'' = Inr ()" and allowed: "\<forall>c \<in> set ''TopicTest''. allowed_char (char_byte c)"
    and send: "''TopicTest'' \<notin> set not_allowed_send_topic_set"
    by code_simp+
  then show "\<exists>e. check_message (CHR ''/'') (message_new ''TopicTest'' None) 4194304 = fail e
      \<and> response_code e = Some MESSAGE_ILLEGAL"
    using check_message_accepts [of "CHR ''/''" "message_new ''TopicTest'' None" 4194304]
    by (simp add: message_new_def)
  have "as_usize (4194304 :: i32) = 4194304"
    by (simp add: as_usize_def)
  then show "check_message (CHR ''/'') (message_new ''TopicTest'' (Some [1, 2])) 4194304 = Inr ()"
    using check_message_accepts [of "CHR ''/''" "message_new ''TopicTest'' (Some [1, 2])" 4194304] allowed send
    by (simp add: message_new_def get_property_def ext_get_def ext_new_def)
qed

end
