(* ===== verification/Json_Fields.thy ===== *)
theory Json_Fields
  imports Remoting_Command
begin

text \<open>
  The field readers and builders of \<open>src/rust/src/remoting/protocol/admin_body.rs\<close> on which the response bodies are
  built. The locale \<open>json_codec\<close> is the contract of a body: what its writer builds is a value that the compact
  text determines, and its reader gives back what was written. From it follows the round trip over the wire.
\<close>

section \<open>Readers\<close>

definition jfield :: "json \<Rightarrow> string \<Rightarrow> json option" where
  "jfield value key = (case json_get value key of Some v \<Rightarrow> if v = JNull then None else Some v | None \<Rightarrow> None)"

definition text_of :: "(json \<Rightarrow> string) \<Rightarrow> json \<Rightarrow> string" where
  "text_of to_string v = (case v of JString s \<Rightarrow> s | other \<Rightarrow> to_string other)"

definition jstring :: "(json \<Rightarrow> string) \<Rightarrow> json \<Rightarrow> string \<Rightarrow> string option" where
  "jstring to_string value key = map_option (text_of to_string) (jfield value key)"

definition jstring_or :: "(json \<Rightarrow> string) \<Rightarrow> json \<Rightarrow> string \<Rightarrow> string \<Rightarrow> string" where
  "jstring_or to_string value key dflt = (case jstring to_string value key of Some s \<Rightarrow> s | None \<Rightarrow> dflt)"

text \<open>\<open>f as i64\<close>: truncated and saturated.\<close>

definition f64_as_i64 :: "f64 \<Rightarrow> i64" where
  "f64_as_i64 v =
     (let t = (if 0 \<le> f_exp v then int (f_mant v) * 2 ^ nat (f_exp v)
               else int (f_mant v div 2 ^ nat (- f_exp v)));
          t = (if f_neg v then - t else t)
      in word_of_int (max (- (2 ^ 63)) (min (2 ^ 63 - 1) t)))"

definition jlong :: "json \<Rightarrow> string \<Rightarrow> i64 \<Rightarrow> i64" where
  "jlong value key dflt = (case jfield value key of
     Some (JNumber n) \<Rightarrow> (case number_as_i64 n of Some v \<Rightarrow> v | None \<Rightarrow> f64_as_i64 (number_as_f64 n))
   | Some (JString s) \<Rightarrow> (case parse_i64 (str_trim s) of Some v \<Rightarrow> v | None \<Rightarrow> dflt)
   | Some (JBool b) \<Rightarrow> if b then 1 else 0
   | _ \<Rightarrow> dflt)"

definition jint :: "json \<Rightarrow> string \<Rightarrow> i32 \<Rightarrow> i32" where
  "jint value key dflt = ucast (jlong value key (scast dflt))"

definition jboolean :: "json \<Rightarrow> string \<Rightarrow> bool \<Rightarrow> bool" where
  "jboolean value key dflt = (case jfield value key of
     Some (JBool b) \<Rightarrow> b
   | Some (JString s) \<Rightarrow>
       (let t = map ascii_lower (str_trim s) in
        if t = ''true'' \<or> t = ''1'' then True
        else if t = ''false'' \<or> t = ''0'' then False
        else dflt)
   | Some (JNumber n) \<Rightarrow> f_mant (number_as_f64 n) \<noteq> 0
   | _ \<Rightarrow> dflt)"

definition jentries :: "json \<Rightarrow> string \<Rightarrow> json_map result" where
  "jentries value key = (case jfield value key of
     None \<Rightarrow> Inr []
   | Some (JObject m) \<Rightarrow> Inr m
   | Some _ \<Rightarrow> fail (Decode (''field '' @ key @ '' is not a json object'')))"

definition jarray :: "json \<Rightarrow> string \<Rightarrow> json list result" where
  "jarray value key = (case jfield value key of
     None \<Rightarrow> Inr []
   | Some (JArray items) \<Rightarrow> Inr items
   | Some _ \<Rightarrow> fail (Decode (''field '' @ key @ '' is not a json array'')))"

text \<open>The slice of the text for the error message panics inside a character.\<close>

definition compact :: "(json \<Rightarrow> string) \<Rightarrow> json \<Rightarrow> string result" where
  "compact to_string value =
     (let txt = to_string value in
      if 120 < length txt then
        (if is_char_boundary (str_bytes txt) 120 then Inr (take 120 txt @ ''...'')
         else Inl (Panic ''byte index 120 is not a char boundary''))
      else Inr txt)"

definition expect_object :: "(json \<Rightarrow> string) \<Rightarrow> json \<Rightarrow> string \<Rightarrow> unit result" where
  "expect_object to_string value what = (case value of
     JObject _ \<Rightarrow> Inr ()
   | _ \<Rightarrow> bind_result (compact to_string value)
       (\<lambda>t. fail (Decode (what @ '' body is not a json object: '' @ t))))"

definition json_object :: "(string \<times> json) list \<Rightarrow> json" where
  "json_object pairs = JObject (fold (\<lambda>(k, v). json_insert k v) pairs [])"

text \<open>A loop over the items of a field that stops at the first error.\<close>

fun map_result :: "('a \<Rightarrow> 'b result) \<Rightarrow> 'a list \<Rightarrow> 'b list result" where
  "map_result f [] = Inr []"
| "map_result f (x # xs) = bind_result (f x) (\<lambda>y. bind_result (map_result f xs) (\<lambda>ys. Inr (y # ys)))"

text \<open>\<open>decode\<close> of a body type: the JSON value, then its fields.\<close>

definition body_decode :: "(json \<Rightarrow> 'a result) \<Rightarrow> bytes \<Rightarrow> 'a fueled" where
  "body_decode from_json data = (case json_decode data of
     None \<Rightarrow> None
   | Some (Inl e) \<Rightarrow> Some (Inl e)
   | Some (Inr v) \<Rightarrow> Some (from_json v))"

section \<open>What was built is read\<close>

lemma fold_json_insert:
  "distinct (map fst acc @ map fst m) \<Longrightarrow> fold (\<lambda>(k, v). json_insert k v) m acc = acc @ m"
proof (induction m arbitrary: acc)
  case Nil
  then show ?case by simp
next
  case (Cons kv m)
  then have "json_insert (fst kv) (snd kv) acc = acc @ [kv]"
    by (subst json_insert_fresh) auto
  with Cons.IH [of "acc @ [kv]"] Cons.prems show ?case
    by (cases kv) simp
qed

lemma json_object_distinct: "distinct (map fst pairs) \<Longrightarrow> json_object pairs = JObject pairs"
  by (simp add: json_object_def fold_json_insert)

lemma map_result_ok: "\<forall>x \<in> set xs. f (g x) = Inr x \<Longrightarrow> map_result f (map g xs) = Inr xs"
  by (induction xs) auto

lemma jfield_object: "jfield (JObject m) key = (case map_of m key of Some v \<Rightarrow> if v = JNull then None else Some v | None \<Rightarrow> None)"
  by (simp add: jfield_def)

lemma json_of_i32_not_null [simp]: "json_of_i32 v \<noteq> JNull"
  by (simp add: json_of_i32_def)

lemma number_of_i64_ok [simp]: "number_ok (number_of_i64 w)"
  by (simp add: number_of_i64_def)

lemma json_of_i32_ok [simp]: "json_ok (json_of_i32 v)"
  by (simp add: json_of_i32_def)

lemma jstring_field [simp]: "jfield v key = Some (JString s) \<Longrightarrow> jstring ts v key = Some s"
  by (simp add: jstring_def text_of_def)

lemma jstring_or_field [simp]: "jfield v key = Some (JString s) \<Longrightarrow> jstring_or ts v key d = s"
  by (simp add: jstring_or_def)

lemma jlong_field [simp]: "jfield v key = Some (JNumber (number_of_i64 w)) \<Longrightarrow> jlong v key d = w"
  by (simp add: jlong_def)

lemma jint_field [simp]: "jfield v key = Some (json_of_i32 w) \<Longrightarrow> jint v key d = w"
  by (simp add: jint_def json_of_i32_def narrow_i32)

lemma jboolean_field [simp]: "jfield v key = Some (JBool b) \<Longrightarrow> jboolean v key d = b"
  by (simp add: jboolean_def)

lemma jentries_field [simp]: "jfield v key = Some (JObject m) \<Longrightarrow> jentries v key = Inr m"
  by (simp add: jentries_def)

lemma jarray_field [simp]: "jfield v key = Some (JArray vs) \<Longrightarrow> jarray v key = Inr vs"
  by (simp add: jarray_def)

lemma expect_object_object [simp]: "expect_object ts (JObject m) what = Inr ()"
  by (simp add: expect_object_def)

lemma is_str_plain: "list_all (\<lambda>c. char_byte c < 0x80) s \<Longrightarrow> is_str s"
  by (rule is_str_ascii) (simp add: list_all_iff)

section \<open>The contract of a body\<close>

locale json_codec =
  fixes to_json :: "'a \<Rightarrow> json" and from_json :: "(json \<Rightarrow> string) \<Rightarrow> json \<Rightarrow> 'a result" and ok :: "'a \<Rightarrow> bool"
  assumes to_json_ok: "ok x \<Longrightarrow> json_ok (to_json x)"
    and to_json_not_null: "to_json x \<noteq> JNull"
    and from_to_json: "ok x \<Longrightarrow> from_json to_string (to_json x) = Inr x"
begin

lemma wire_round_trip:
  assumes "ok x" and "\<And>v. json_ok v \<Longrightarrow> to_vec v = Some (json_text v)"
  shows "body_decode (from_json to_string) (json_encode to_vec (to_json x)) = Some (Inr x)"
proof -
  have "json_encode to_vec (to_json x) = json_text (to_json x)"
    using assms to_json_ok to_json_not_null by (simp add: json_encode_def)
  then show ?thesis
    using json_decode_text [OF to_json_ok [OF assms(1)]] from_to_json [OF assms(1)] by (simp add: body_decode_def)
qed

lemma wire_injective:
  assumes "ok x" and "ok y" and "json_text (to_json x) = json_text (to_json y)"
  shows "x = y"
  using wire_round_trip [OF assms(1), of "\<lambda>v. Some (json_text v)"]
    wire_round_trip [OF assms(2), of "\<lambda>v. Some (json_text v)"] assms(3) to_json_not_null
  by (simp add: json_encode_def)

lemma list_round_trip:
  "list_all ok xs \<Longrightarrow> map_result (from_json to_string) (map to_json xs) = Inr xs"
  by (intro map_result_ok) (simp add: list_all_iff from_to_json)

end

end
