(* ===== verification/Route.thy ===== *)
theory Route
  imports Json_Fields Mix_All Sys_Flag "HOL-Library.Product_Lexorder"
begin

text \<open>
  The route of a topic, \<open>src/rust/src/remoting/protocol/route.rs\<close>: queue and broker data, their JSON form, the queues a
  route gives to senders and receivers, and the test whether a route has changed. The three types satisfy the contract
  of a body. A \<open>MessageQueueKey\<close> has the fields of a \<open>MessageQueue\<close> and is modelled by it. The index that picks a
  slave at random is an argument.
\<close>

section \<open>Data\<close>

record queue_data =
  qd_broker_name :: string
  qd_read_queue_nums :: i32
  qd_write_queue_nums :: i32
  qd_perm :: i32
  qd_topic_sys_flag :: i32

record broker_data =
  bd_cluster :: string
  bd_broker_name :: string
  bd_broker_addrs :: "(i64 \<times> string) list"
  bd_zone_name :: string
  bd_enable_acting_master :: bool

record topic_route_data =
  rd_order_topic_conf :: "string option"
  rd_queue_datas :: "queue_data list"
  rd_broker_datas :: "broker_data list"
  rd_filter_server_table :: "(string \<times> string list) list"
  rd_topic_queue_mapping_by_broker :: "(string \<times> json) list option"

definition MASTER_ID :: i64 where "MASTER_ID = 0"

definition queue_data_to_json :: "queue_data \<Rightarrow> json" where
  "queue_data_to_json q = json_object
     [(''brokerName'', JString (qd_broker_name q)), (''readQueueNums'', json_of_i32 (qd_read_queue_nums q)),
      (''writeQueueNums'', json_of_i32 (qd_write_queue_nums q)), (''perm'', json_of_i32 (qd_perm q)),
      (''topicSysFlag'', json_of_i32 (qd_topic_sys_flag q))]"

definition queue_data_from_json :: "(json \<Rightarrow> string) \<Rightarrow> json \<Rightarrow> queue_data result" where
  "queue_data_from_json to_string value =
     bind_result (expect_object to_string value ''QueueData'') (\<lambda>_. Inr
       \<lparr>qd_broker_name = jstring_or to_string value ''brokerName'' [], qd_read_queue_nums = jint value ''readQueueNums'' 0,
        qd_write_queue_nums = jint value ''writeQueueNums'' 0, qd_perm = jint value ''perm'' 0,
        qd_topic_sys_flag = jint value ''topicSysFlag'' 0\<rparr>)"

definition select_broker_addr :: "nat \<Rightarrow> broker_data \<Rightarrow> string option" where
  "select_broker_addr random_index b = (case find (\<lambda>(i, _). i = MASTER_ID) (bd_broker_addrs b) of
     Some (_, addr) \<Rightarrow> Some addr
   | None \<Rightarrow> if random_index < length (bd_broker_addrs b) then Some (snd (bd_broker_addrs b ! random_index)) else None)"

definition broker_data_to_json :: "broker_data \<Rightarrow> json" where
  "broker_data_to_json b = json_object
     [(''cluster'', JString (bd_cluster b)), (''brokerName'', JString (bd_broker_name b)),
      (''brokerAddrs'', JObject (fold (\<lambda>(i, addr). json_insert (show_signed i) (JString addr)) (bd_broker_addrs b) [])),
      (''zoneName'', JString (bd_zone_name b)), (''enableActingMaster'', JBool (bd_enable_acting_master b))]"

text \<open>A key that is not a number is skipped.\<close>

fun read_addrs :: "(json \<Rightarrow> string) \<Rightarrow> json_map \<Rightarrow> (i64 \<times> string) list" where
  "read_addrs to_string [] = []"
| "read_addrs to_string ((k, v) # m) = (case parse_i64 (str_trim k) of
     Some i \<Rightarrow> (i, text_of to_string v) # read_addrs to_string m
   | None \<Rightarrow> read_addrs to_string m)"

definition broker_data_from_json :: "(json \<Rightarrow> string) \<Rightarrow> json \<Rightarrow> broker_data result" where
  "broker_data_from_json to_string value =
     bind_result (expect_object to_string value ''BrokerData'') (\<lambda>_.
     bind_result (jentries value ''brokerAddrs'') (\<lambda>entries. Inr
       \<lparr>bd_cluster = jstring_or to_string value ''cluster'' [], bd_broker_name = jstring_or to_string value ''brokerName'' [],
        bd_broker_addrs = read_addrs to_string entries, bd_zone_name = jstring_or to_string value ''zoneName'' [],
        bd_enable_acting_master = jboolean value ''enableActingMaster'' False\<rparr>))"

text \<open>\<open>PartialEq\<close> of broker data: the zone and the acting master are not compared.\<close>

definition broker_data_eq :: "broker_data \<Rightarrow> broker_data \<Rightarrow> bool" where
  "broker_data_eq a b \<longleftrightarrow> bd_cluster a = bd_cluster b \<and> bd_broker_name a = bd_broker_name b
     \<and> bd_broker_addrs a = bd_broker_addrs b"

definition encode_string_list_map :: "(string \<times> string list) list \<Rightarrow> json" where
  "encode_string_list_map table =
     JObject (fold (\<lambda>(addr, servers). json_insert addr (JArray (map JString servers))) table [])"

definition route_to_json :: "topic_route_data \<Rightarrow> json" where
  "route_to_json r =
     (let pairs =
        [(''orderTopicConf'', case rd_order_topic_conf r of Some v \<Rightarrow> JString v | None \<Rightarrow> JNull),
         (''queueDatas'', JArray (map queue_data_to_json (rd_queue_datas r))),
         (''brokerDatas'', JArray (map broker_data_to_json (rd_broker_datas r))),
         (''filterServerTable'', encode_string_list_map (rd_filter_server_table r))];
          pairs = (case rd_topic_queue_mapping_by_broker r of
             Some mapping \<Rightarrow>
               pairs @ [(''topicQueueMappingByBroker'', JObject (fold (\<lambda>(k, v). json_insert k v) mapping []))]
           | None \<Rightarrow> pairs)
      in json_object pairs)"

definition read_servers :: "(json \<Rightarrow> string) \<Rightarrow> string \<times> json \<Rightarrow> (string \<times> string list) result" where
  "read_servers to_string kv = (case snd kv of
     JArray items \<Rightarrow> Inr (fst kv, map (text_of to_string) items)
   | _ \<Rightarrow> fail (Decode ''filterServerTable is not a json array''))"

definition read_mapping :: "json \<Rightarrow> json_map option result" where
  "read_mapping value = (case jfield value ''topicQueueMappingByBroker'' of
     None \<Rightarrow> Inr None
   | Some (JObject m) \<Rightarrow> Inr (Some m)
   | Some _ \<Rightarrow> fail (Decode ''topicQueueMappingByBroker is not a json object''))"

definition route_from_json :: "(json \<Rightarrow> string) \<Rightarrow> json \<Rightarrow> topic_route_data result" where
  "route_from_json to_string value =
     bind_result (expect_object to_string value ''TopicRouteData'') (\<lambda>_.
     bind_result (jarray value ''queueDatas'') (\<lambda>qitems.
     bind_result (map_result (queue_data_from_json to_string) qitems) (\<lambda>queue_datas.
     bind_result (jarray value ''brokerDatas'') (\<lambda>bitems.
     bind_result (map_result (broker_data_from_json to_string) bitems) (\<lambda>broker_datas.
     bind_result (jentries value ''filterServerTable'') (\<lambda>entries.
     bind_result (map_result (read_servers to_string) entries) (\<lambda>filter_server_table.
     bind_result (read_mapping value) (\<lambda>mapping. Inr
       \<lparr>rd_order_topic_conf = jstring to_string value ''orderTopicConf'', rd_queue_datas = queue_datas,
        rd_broker_datas = broker_datas, rd_filter_server_table = filter_server_table,
        rd_topic_queue_mapping_by_broker = mapping\<rparr>))))))))"

definition broker_data_decode :: "(json \<Rightarrow> string) \<Rightarrow> bytes \<Rightarrow> broker_data fueled" where
  "broker_data_decode to_string = body_decode (broker_data_from_json to_string)"

definition broker_data_encode :: "(json \<Rightarrow> bytes option) \<Rightarrow> broker_data \<Rightarrow> bytes" where
  "broker_data_encode to_vec b = json_encode to_vec (broker_data_to_json b)"

definition route_encode :: "(json \<Rightarrow> bytes option) \<Rightarrow> topic_route_data \<Rightarrow> bytes" where
  "route_encode to_vec r = json_encode to_vec (route_to_json r)"

definition route_decode :: "(json \<Rightarrow> string) \<Rightarrow> bytes \<Rightarrow> topic_route_data fueled" where
  "route_decode to_string = body_decode (route_from_json to_string)"

section \<open>Queues of a route\<close>

text \<open>The range \<open>0..n\<close> of a signed count.\<close>

definition queue_ids :: "i32 \<Rightarrow> i32 list" where
  "queue_ids n = map of_nat [0..<nat (sint n)]"

definition has_master :: "topic_route_data \<Rightarrow> queue_data \<Rightarrow> bool" where
  "has_master r qd = (case find (\<lambda>bd. bd_broker_name bd = qd_broker_name qd) (rd_broker_datas r) of
     None \<Rightarrow> False
   | Some bd \<Rightarrow> list_ex (\<lambda>(i, _). i = MASTER_ID) (bd_broker_addrs bd))"

definition get_all_message_queue :: "topic_route_data \<Rightarrow> string \<Rightarrow> message_queue list" where
  "get_all_message_queue r topic = concat (map (\<lambda>qd.
     if \<not> check_perm (qd_perm qd) PERM_WRITE then []
     else if \<not> has_master r qd then []
     else map (MessageQueue topic (qd_broker_name qd)) (queue_ids (qd_write_queue_nums qd))) (rd_queue_datas r))"

definition get_all_subscribe_message_queue :: "topic_route_data \<Rightarrow> string \<Rightarrow> message_queue list" where
  "get_all_subscribe_message_queue r topic = concat (map (\<lambda>qd.
     if \<not> check_perm (qd_perm qd) PERM_READ then []
     else map (MessageQueue topic (qd_broker_name qd)) (queue_ids (qd_read_queue_nums qd))) (rd_queue_datas r))"

section \<open>Has the route changed\<close>

definition queue_sort_key :: "queue_data \<Rightarrow> string \<times> int \<times> int \<times> int" where
  "queue_sort_key q = (qd_broker_name q, sint (qd_read_queue_nums q), sint (qd_write_queue_nums q), sint (qd_perm q))"

definition sort_queues :: "queue_data list \<Rightarrow> queue_data list" where
  "sort_queues qs = sort_key queue_sort_key qs"

definition sort_brokers :: "broker_data list \<Rightarrow> broker_data list" where
  "sort_brokers bs = sort_key bd_broker_name bs"

definition topic_route_data_changed :: "topic_route_data \<Rightarrow> topic_route_data option \<Rightarrow> bool" where
  "topic_route_data_changed r old = (case old of
     None \<Rightarrow> True
   | Some old \<Rightarrow> \<not> (sort_queues (rd_queue_datas r) = sort_queues (rd_queue_datas old)
       \<and> list_all2 broker_data_eq (sort_brokers (rd_broker_datas r)) (sort_brokers (rd_broker_datas old))))"

section \<open>The types satisfy the contract of a body\<close>

definition queue_data_ok :: "queue_data \<Rightarrow> bool" where
  "queue_data_ok q \<longleftrightarrow> is_str (qd_broker_name q)"

definition broker_data_ok :: "broker_data \<Rightarrow> bool" where
  "broker_data_ok b \<longleftrightarrow> is_str (bd_cluster b) \<and> is_str (bd_broker_name b) \<and> is_str (bd_zone_name b)
     \<and> distinct (map fst (bd_broker_addrs b)) \<and> list_all (\<lambda>(_, addr). is_str addr) (bd_broker_addrs b)"

definition route_ok :: "topic_route_data \<Rightarrow> bool" where
  "route_ok r \<longleftrightarrow> pred_option is_str (rd_order_topic_conf r) \<and> list_all queue_data_ok (rd_queue_datas r)
     \<and> list_all broker_data_ok (rd_broker_datas r)
     \<and> distinct (map fst (rd_filter_server_table r))
     \<and> list_all (\<lambda>(k, servers). is_str k \<and> list_all is_str servers) (rd_filter_server_table r)
     \<and> pred_option (\<lambda>m. distinct (map fst m) \<and> list_all (\<lambda>(k, v). is_str k \<and> json_ok v) m)
         (rd_topic_queue_mapping_by_broker r)"

lemma queue_data_to_json_object: "queue_data_to_json q = JObject
     [(''brokerName'', JString (qd_broker_name q)), (''readQueueNums'', json_of_i32 (qd_read_queue_nums q)),
      (''writeQueueNums'', json_of_i32 (qd_write_queue_nums q)), (''perm'', json_of_i32 (qd_perm q)),
      (''topicSysFlag'', json_of_i32 (qd_topic_sys_flag q))]"
  unfolding queue_data_to_json_def by (rule json_object_distinct) simp

interpretation queue_body: json_codec queue_data_to_json queue_data_from_json queue_data_ok
proof
  fix q :: queue_data and to_string
  show "json_ok (queue_data_to_json q)" if "queue_data_ok q"
    using that by (simp add: queue_data_to_json_object queue_data_ok_def is_str_plain char_byte_def)
  show "queue_data_to_json q \<noteq> JNull"
    by (simp add: queue_data_to_json_object)
  show "queue_data_from_json to_string (queue_data_to_json q) = Inr q"
    by (simp add: queue_data_from_json_def queue_data_to_json_object jfield_object)
qed

lemma show_signed_inj: "show_signed (a :: 'a::len word) = show_signed b \<Longrightarrow> a = b"
  by (metis option.inject parse_show_signed)

lemma distinct_shown: "distinct (map fst addrs) \<Longrightarrow> distinct (map (\<lambda>x. show_signed (fst x :: i64)) addrs)"
  by (auto simp: distinct_map inj_on_def dest: show_signed_inj)

lemma addrs_json:
  assumes "distinct (map fst addrs)"
  shows "fold (\<lambda>(i :: i64, addr). json_insert (show_signed i) (JString addr)) addrs [] =
    map (\<lambda>(i, addr). (show_signed i, JString addr)) addrs"
  using distinct_shown [OF assms] fold_json_insert [of "[]" "map (\<lambda>(i :: i64, addr). (show_signed i, JString addr)) addrs"]
  by (simp add: fold_map case_prod_beta' comp_def)

lemma read_addrs_json: "read_addrs to_string (map (\<lambda>(i, addr). (show_signed i, JString addr)) addrs) = addrs"
  by (induction addrs) (auto simp: text_of_def)

lemma broker_data_to_json_object:
  "distinct (map fst (bd_broker_addrs b)) \<Longrightarrow> broker_data_to_json b = JObject
     [(''cluster'', JString (bd_cluster b)), (''brokerName'', JString (bd_broker_name b)),
      (''brokerAddrs'', JObject (map (\<lambda>(i, addr). (show_signed i, JString addr)) (bd_broker_addrs b))),
      (''zoneName'', JString (bd_zone_name b)), (''enableActingMaster'', JBool (bd_enable_acting_master b))]"
  unfolding broker_data_to_json_def by (subst json_object_distinct) (simp_all add: addrs_json)

interpretation broker_body: json_codec broker_data_to_json broker_data_from_json broker_data_ok
proof
  fix b :: broker_data and to_string
  show "broker_data_to_json b \<noteq> JNull"
    by (simp add: broker_data_to_json_def json_object_def)
  assume ok: "broker_data_ok b"
  then have obj: "broker_data_to_json b = JObject
     [(''cluster'', JString (bd_cluster b)), (''brokerName'', JString (bd_broker_name b)),
      (''brokerAddrs'', JObject (map (\<lambda>(i, addr). (show_signed i, JString addr)) (bd_broker_addrs b))),
      (''zoneName'', JString (bd_zone_name b)), (''enableActingMaster'', JBool (bd_enable_acting_master b))]"
    by (simp add: broker_data_to_json_object broker_data_ok_def)
  have "distinct (map (\<lambda>x. show_signed (fst x)) (bd_broker_addrs b))"
    using ok by (simp add: broker_data_ok_def distinct_shown)
  then show "json_ok (broker_data_to_json b)"
    using ok by (simp add: obj broker_data_ok_def is_str_plain char_byte_def list_all_iff comp_def case_prod_beta')
  show "broker_data_from_json to_string (broker_data_to_json b) = Inr b"
    by (simp add: broker_data_from_json_def obj jfield_object read_addrs_json)
qed

lemma servers_json:
  "distinct (map fst table) \<Longrightarrow>
     encode_string_list_map table = JObject (map (\<lambda>(k, servers). (k, JArray (map JString servers))) table)"
  using fold_json_insert [of "[]" "map (\<lambda>(k, servers). (k, JArray (map JString servers))) table"]
  by (simp add: encode_string_list_map_def fold_map case_prod_beta' comp_def)

lemma read_servers_json:
  "map_result (read_servers to_string) (map (\<lambda>(k, servers). (k, JArray (map JString servers))) table) = Inr table"
  by (rule map_result_ok) (auto simp: read_servers_def text_of_def comp_def)

definition route_pairs :: "topic_route_data \<Rightarrow> (string \<times> json) list" where
  "route_pairs r =
     [(''orderTopicConf'', case rd_order_topic_conf r of Some v \<Rightarrow> JString v | None \<Rightarrow> JNull),
      (''queueDatas'', JArray (map queue_data_to_json (rd_queue_datas r))),
      (''brokerDatas'', JArray (map broker_data_to_json (rd_broker_datas r))),
      (''filterServerTable'', JObject (map (\<lambda>(k, servers). (k, JArray (map JString servers))) (rd_filter_server_table r)))]
     @ (case rd_topic_queue_mapping_by_broker r of
          Some mapping \<Rightarrow> [(''topicQueueMappingByBroker'', JObject mapping)] | None \<Rightarrow> [])"

lemma route_to_json_object: "route_ok r \<Longrightarrow> route_to_json r = JObject (route_pairs r)"
  using fold_json_insert [of "[]"]
  by (auto simp: route_to_json_def route_pairs_def route_ok_def servers_json json_object_distinct split: option.splits)

interpretation route_body: json_codec route_to_json route_from_json route_ok
proof
  fix r :: topic_route_data and to_string
  show "route_to_json r \<noteq> JNull"
    by (simp add: route_to_json_def json_object_def Let_def)
  assume ok: "route_ok r"
  note obj = route_to_json_object [OF ok]
  have parts: "list_all queue_data_ok (rd_queue_datas r)" "list_all broker_data_ok (rd_broker_datas r)"
    using ok by (simp_all add: route_ok_def)
  then have "list_all json_ok (map queue_data_to_json (rd_queue_datas r))"
      "list_all json_ok (map broker_data_to_json (rd_broker_datas r))"
    using queue_body.to_json_ok broker_body.to_json_ok by (auto simp: list_all_iff)
  then show "json_ok (route_to_json r)"
    using ok unfolding obj
    by (auto simp: route_pairs_def route_ok_def is_str_plain char_byte_def list_all_iff comp_def case_prod_beta'
        split: option.splits) force+
  show "route_from_json to_string (route_to_json r) = Inr r"
    unfolding obj using queue_body.list_round_trip [OF parts(1)] broker_body.list_round_trip [OF parts(2)]
    by (cases "rd_order_topic_conf r"; cases "rd_topic_queue_mapping_by_broker r")
      (simp_all add: route_from_json_def jfield_object route_pairs_def read_servers_json read_mapping_def jstring_def text_of_def)
qed

section \<open>Queues and changes\<close>

lemma sint_queue_id: "k < nat (sint (n :: i32)) \<Longrightarrow> sint (of_nat k :: i32) = int k"
  using sint_lt [of n] by (intro sint_of_nat_small) auto

lemma queue_ids_set: "i \<in> set (queue_ids n) \<longleftrightarrow> 0 \<le> sint i \<and> sint i < sint n"
proof
  assume "i \<in> set (queue_ids n)"
  then obtain k where k: "k < nat (sint n)" "i = of_nat k"
    by (auto simp: queue_ids_def)
  from sint_queue_id [OF k(1)] k(2) have "sint i = int k"
    by simp
  with k(1) show "0 \<le> sint i \<and> sint i < sint n"
    by linarith
next
  assume i: "0 \<le> sint i \<and> sint i < sint n"
  then have k: "nat (sint i) < nat (sint n)"
    by linarith
  have "sint (of_nat (nat (sint i)) :: i32) = sint i"
    using i sint_queue_id [OF k] by linarith
  then have "i = of_nat (nat (sint i))"
    by (metis signed_word_eqI)
  with k show "i \<in> set (queue_ids n)"
    unfolding queue_ids_def set_map set_upt by (intro image_eqI [where x = "nat (sint i)"]) auto
qed

lemma sort_key_unique:
  assumes "distinct (map f xs)" and "distinct (map f ys)" and "set xs = set ys"
  shows "sort_key (f :: 'a \<Rightarrow> 'b::linorder) xs = sort_key f ys"
proof (rule map_sorted_distinct_set_unique [where f = f])
  show "inj_on f (set (sort_key f xs) \<union> set (sort_key f ys))"
    using assms by (simp add: distinct_map)
  have "distinct (map f (sort_key f zs))" if "distinct (map f zs)" for zs
    using that by (simp add: distinct_map)
  then show "distinct (map f (sort_key f xs))" "distinct (map f (sort_key f ys))"
    using assms by blast+
qed (use assms in simp_all)

definition broker_view :: "broker_data \<Rightarrow> string \<times> string \<times> (i64 \<times> string) list" where
  "broker_view b = (bd_broker_name b, bd_cluster b, bd_broker_addrs b)"

lemma broker_eq_view: "broker_data_eq a b \<longleftrightarrow> broker_view a = broker_view b"
  by (auto simp: broker_data_eq_def broker_view_def)

lemma list_all2_broker_eq: "list_all2 broker_data_eq xs ys \<longleftrightarrow> map broker_view xs = map broker_view ys"
  by (auto simp: broker_eq_view list_all2_conv_all_nth list_eq_iff_nth_eq)

lemma insort_views:
  "map broker_view (insort_key bd_broker_name b bs) = insort_key fst (broker_view b) (map broker_view bs)"
  by (induction bs) (simp_all add: broker_view_def)

lemma sort_brokers_views: "map broker_view (sort_brokers bs) = sort_key fst (map broker_view bs)"
  by (induction bs) (simp_all add: sort_brokers_def insort_views)

lemma sorted_eq_iff:
  assumes "distinct (map f xs)" and "distinct (map f ys)"
  shows "sort_key (f :: 'a \<Rightarrow> 'b::linorder) xs = sort_key f ys \<longleftrightarrow> set xs = set ys"
  using sort_key_unique [OF assms] by (metis set_sort)

section \<open>Properties\<close>

text \<open>
  C24. A route sent as a response body is read back as it was, through the compact JSON text: also the difference between
  no queue mapping and an empty one, and the order of the broker addresses.
\<close>
theorem route_round_trip:
  assumes "route_ok r" and "\<And>v. json_ok v \<Longrightarrow> to_vec v = Some (json_text v)"
  shows "route_decode to_string (route_encode to_vec r) = Some (Inr r)"
  unfolding route_decode_def route_encode_def by (rule route_body.wire_round_trip [OF assms])

definition sample_route :: topic_route_data where
  "sample_route = \<lparr>rd_order_topic_conf = None,
     rd_queue_datas = [\<lparr>qd_broker_name = ''a'', qd_read_queue_nums = 4, qd_write_queue_nums = 2, qd_perm = 6, qd_topic_sys_flag = 0\<rparr>,
       \<lparr>qd_broker_name = ''b'', qd_read_queue_nums = 4, qd_write_queue_nums = 4, qd_perm = 4, qd_topic_sys_flag = 0\<rparr>],
     rd_broker_datas = [\<lparr>bd_cluster = ''c'', bd_broker_name = ''a'', bd_broker_addrs = [(1, ''h:2''), (0, ''h:1'')],
       bd_zone_name = [], bd_enable_acting_master = False\<rparr>],
     rd_filter_server_table = [], rd_topic_queue_mapping_by_broker = Some []\<rparr>"

theorem route_round_trip_witness:
  "route_decode (\<lambda>_. []) (route_encode (\<lambda>v. Some (json_text v)) sample_route) = Some (Inr sample_route)"
proof (rule route_round_trip)
  show "route_ok sample_route"
    by (simp add: route_ok_def sample_route_def queue_data_ok_def broker_data_ok_def is_str_plain char_byte_def)
qed simp

text \<open>
  The queues a sender may use are those of writable queue data whose broker has a master, with every number below the
  write count; those of a receiver need only be readable.
\<close>
theorem route_queues:
  "(mq \<in> set (get_all_message_queue r topic) \<longleftrightarrow>
      (\<exists>qd \<in> set (rd_queue_datas r). check_perm (qd_perm qd) PERM_WRITE \<and> has_master r qd
         \<and> mq_topic mq = topic \<and> mq_broker_name mq = qd_broker_name qd
         \<and> 0 \<le> sint (mq_queue_id mq) \<and> sint (mq_queue_id mq) < sint (qd_write_queue_nums qd)))
   \<and> (mq \<in> set (get_all_subscribe_message_queue r topic) \<longleftrightarrow>
      (\<exists>qd \<in> set (rd_queue_datas r). check_perm (qd_perm qd) PERM_READ
         \<and> mq_topic mq = topic \<and> mq_broker_name mq = qd_broker_name qd
         \<and> 0 \<le> sint (mq_queue_id mq) \<and> sint (mq_queue_id mq) < sint (qd_read_queue_nums qd)))"
proof -
  have one: "mq \<in> set (map (MessageQueue topic b) (queue_ids n)) \<longleftrightarrow>
      mq_topic mq = topic \<and> mq_broker_name mq = b \<and> 0 \<le> sint (mq_queue_id mq) \<and> sint (mq_queue_id mq) < sint n" for b n
    using queue_ids_set by (cases mq) auto
  show ?thesis
    unfolding get_all_message_queue_def get_all_subscribe_message_queue_def set_concat
    using one by auto
qed

text \<open>
  The change test does not depend on the order in which queues and brokers are listed, and does not see the zone or
  the acting master of a broker: it compares the set of queue data and the set of broker names, clusters and addresses.
\<close>
theorem route_change_test:
  assumes "distinct (map queue_sort_key (rd_queue_datas r))" and "distinct (map queue_sort_key (rd_queue_datas old))"
    and "distinct (map bd_broker_name (rd_broker_datas r))" and "distinct (map bd_broker_name (rd_broker_datas old))"
  shows "topic_route_data_changed r (Some old) \<longleftrightarrow>
    set (rd_queue_datas r) \<noteq> set (rd_queue_datas old)
    \<or> broker_view ` set (rd_broker_datas r) \<noteq> broker_view ` set (rd_broker_datas old)"
proof -
  have "fst \<circ> broker_view = bd_broker_name"
    by (simp add: broker_view_def fun_eq_iff)
  then have "sort_key fst (map broker_view (rd_broker_datas r)) = sort_key fst (map broker_view (rd_broker_datas old)) \<longleftrightarrow>
      broker_view ` set (rd_broker_datas r) = broker_view ` set (rd_broker_datas old)"
    using assms(3,4) by (subst sorted_eq_iff) simp_all
  then show ?thesis
    using sorted_eq_iff [OF assms(1,2)]
    by (simp add: topic_route_data_changed_def sort_queues_def list_all2_broker_eq sort_brokers_views)
qed

theorem route_change_test_witness:
  "\<not> topic_route_data_changed sample_route (Some (sample_route\<lparr>rd_queue_datas := rev (rd_queue_datas sample_route)\<rparr>))"
proof -
  let ?old = "sample_route\<lparr>rd_queue_datas := rev (rd_queue_datas sample_route)\<rparr>"
  have d: "distinct (map queue_sort_key (rd_queue_datas sample_route))" "distinct (map bd_broker_name (rd_broker_datas sample_route))"
    by code_simp+
  then have "distinct (map queue_sort_key (rd_queue_datas ?old))" "distinct (map bd_broker_name (rd_broker_datas ?old))"
    by (simp_all flip: rev_map)
  from route_change_test [OF d(1) this(1) d(2) this(2)] show ?thesis by simp
qed

text \<open>
  A queue whose system flag alone differs makes the route count as changed: the sorting ignores the flag, the
  comparison of the sorted lists does not.
\<close>
theorem sys_flag_counts_as_change:
  assumes "q \<in> set (rd_queue_datas r)" and "qd_topic_sys_flag q \<noteq> f"
  shows "topic_route_data_changed (r\<lparr>rd_queue_datas := map (\<lambda>q. q\<lparr>qd_topic_sys_flag := f\<rparr>) (rd_queue_datas r)\<rparr>) (Some r)"
proof -
  have "q \<notin> set (map (\<lambda>q. q\<lparr>qd_topic_sys_flag := f\<rparr>) (rd_queue_datas r))"
    using assms(2) by auto
  then have "sort_queues (map (\<lambda>q. q\<lparr>qd_topic_sys_flag := f\<rparr>) (rd_queue_datas r)) \<noteq> sort_queues (rd_queue_datas r)"
    using assms(1) by (metis set_sort sort_queues_def)
  then show ?thesis
    by (simp add: topic_route_data_changed_def)
qed

theorem sys_flag_counts_as_change_witness:
  "topic_route_data_changed
     (sample_route\<lparr>rd_queue_datas := map (\<lambda>q. q\<lparr>qd_topic_sys_flag := 1\<rparr>) (rd_queue_datas sample_route)\<rparr>) (Some sample_route)"
proof (rule sys_flag_counts_as_change)
  show "hd (rd_queue_datas sample_route) \<in> set (rd_queue_datas sample_route)"
    and "qd_topic_sys_flag (hd (rd_queue_datas sample_route)) \<noteq> 1"
    by (simp_all add: sample_route_def)
qed

text \<open>
  A response body that is a JSON string instead of a route, with a character of several bytes across byte 120 of its
  text, makes the decoder panic while it builds the error message.
\<close>
theorem foreign_body_panics:
  "route_decode (\<lambda>v. bytes_str (json_text v)) (json_text (JString (replicate 118 (CHR ''a'') @ [CHR 0xC3, CHR 0xA9]))) =
     Some (Inl (Panic ''byte index 120 is not a char boundary''))"
proof -
  let ?v = "JString (replicate 118 (CHR ''a'') @ [CHR 0xC3, CHR 0xA9])"
  have ok: "json_ok ?v"
    and c: "compact (\<lambda>v. bytes_str (json_text v)) ?v = Inl (Panic ''byte index 120 is not a char boundary'')"
    by code_simp+
  show ?thesis
    unfolding route_decode_def body_decode_def json_decode_text [OF ok]
    using c by (simp add: route_from_json_def expect_object_def)
qed

end
