(* ===== verification/Lite_Buffer.thy ===== *)
theory Lite_Buffer
  imports Backpressure "HOL-Library.AList" "HOL-Library.Multiset"
begin

text \<open>
  The local buffer of the lite pull consumer (\<open>LiteQueueCache\<close>, \<open>LiteBuffer\<close> and the cache gates of
  \<open>src/rust/src/client/pull_consumer.rs\<close>): one queue of messages and, per message queue, the accumulators that the
  gates read. The invariant says that the accumulators are what a scan of the messages would give. A \<open>BTreeMap\<close>
  over queue keys is an association list whose order no operation observes; the one over offsets is kept sorted,
  since its ends are read.
\<close>

section \<open>Accumulators\<close>

definition saturating_sub :: "i64 \<Rightarrow> i64 \<Rightarrow> i64" where
  "saturating_sub a b = word_of_int (max (- (2 ^ 63)) (min (2 ^ 63 - 1) (sint a - sint b)))"

definition mq_key :: "message_queue \<Rightarrow> string" where
  "mq_key mq = mq_topic mq @ mq_broker_name mq @ show_signed (mq_queue_id mq)"

definition cache_key_of_message :: "message_ext \<Rightarrow> string" where
  "cache_key_of_message m =
     m_topic m @ (case x_broker_name m of Some b \<Rightarrow> b | None \<Rightarrow> []) @ show_signed (x_queue_id m)"

definition body_len_i64 :: "message_ext \<Rightarrow> i64" where
  "body_len_i64 m = (if length (get_body m) < 2 ^ 63 then of_nat (length (get_body m)) else 2 ^ 63 - 1)"

definition CACHE_SIZE_GATE_MIB :: i64 where "CACHE_SIZE_GATE_MIB = 1024 * 1024"

record lite_queue_cache =
  lc_count :: nat
  lc_bytes :: i64
  lc_offsets :: "(i64 \<times> nat) list"
  lc_rounds :: "nat list"

definition cache_default :: lite_queue_cache where
  "cache_default = \<lparr>lc_count = 0, lc_bytes = 0, lc_offsets = [], lc_rounds = []\<rparr>"

text \<open>\<open>*offsets.entry(o).or_default() += 1\<close> and the removal of one occurrence.\<close>

fun offsets_add :: "i64 \<Rightarrow> (i64 \<times> nat) list \<Rightarrow> (i64 \<times> nat) list" where
  "offsets_add i [] = [(i, 1)]"
| "offsets_add i ((k, n) # m) =
     (if i = k then (k, n + 1) # m else if i <s k then (i, 1) # (k, n) # m else (k, n) # offsets_add i m)"

fun offsets_remove :: "i64 \<Rightarrow> (i64 \<times> nat) list \<Rightarrow> (i64 \<times> nat) list" where
  "offsets_remove i [] = []"
| "offsets_remove i ((k, n) # m) =
     (if i = k then (if n = 0 then (k, n) # m else if n - 1 = 0 then m else (k, n - 1) # m)
      else (k, n) # offsets_remove i m)"

definition cache_add :: "message_ext \<Rightarrow> lite_queue_cache \<Rightarrow> lite_queue_cache" where
  "cache_add m c = c\<lparr>lc_count := lc_count c + 1, lc_bytes := saturating_add (lc_bytes c) (body_len_i64 m),
     lc_offsets := offsets_add (x_queue_offset m) (lc_offsets c)\<rparr>"

fun take_from_round :: "nat list \<Rightarrow> nat list" where
  "take_from_round [] = []"
| "take_from_round (front # rounds) = (if front - 1 = 0 then rounds else (front - 1) # rounds)"

definition cache_remove :: "message_ext \<Rightarrow> lite_queue_cache \<Rightarrow> lite_queue_cache" where
  "cache_remove m c = c\<lparr>lc_count := lc_count c - 1, lc_bytes := saturating_sub (lc_bytes c) (body_len_i64 m),
     lc_rounds := take_from_round (lc_rounds c), lc_offsets := offsets_remove (x_queue_offset m) (lc_offsets c)\<rparr>"

definition begin_round :: "nat \<Rightarrow> lite_queue_cache \<Rightarrow> lite_queue_cache" where
  "begin_round n c = (if 0 < n then c\<lparr>lc_rounds := lc_rounds c @ [n]\<rparr> else c)"

definition pending_rounds :: "lite_queue_cache \<Rightarrow> nat" where
  "pending_rounds c = length (lc_rounds c)"

definition min_offset :: "lite_queue_cache \<Rightarrow> i64" where
  "min_offset c = (case lc_offsets c of [] \<Rightarrow> 0 | (i, _) # _ \<Rightarrow> i)"

definition max_offset :: "lite_queue_cache \<Rightarrow> i64" where
  "max_offset c = (if lc_offsets c = [] then 0 else fst (List.last (lc_offsets c)))"

definition cache_span :: "lite_queue_cache \<Rightarrow> i64" where
  "cache_span c = max_offset c - min_offset c"

text \<open>Division truncates towards zero.\<close>

definition size_mib :: "lite_queue_cache \<Rightarrow> i64" where
  "size_mib c = (let q = \<bar>sint (lc_bytes c)\<bar> div sint CACHE_SIZE_GATE_MIB
                 in word_of_int (if lc_bytes c <s 0 then - q else q))"

section \<open>The buffer\<close>

record lite_buffer =
  lb_messages :: "message_ext list"
  lb_queues :: "(string \<times> lite_queue_cache) list"

definition buffer_default :: lite_buffer where
  "buffer_default = \<lparr>lb_messages = [], lb_queues = []\<rparr>"

definition pending_pull_rounds :: "lite_buffer \<Rightarrow> nat" where
  "pending_pull_rounds b = sum_list (map (\<lambda>(_, c). pending_rounds c) (lb_queues b))"

definition queue_cache :: "lite_buffer \<Rightarrow> string \<Rightarrow> lite_queue_cache" where
  "queue_cache b key = (case map_of (lb_queues b) key of Some c \<Rightarrow> c | None \<Rightarrow> cache_default)"

text \<open>How many messages of each queue a batch has; the first of them books the round.\<close>

definition round_sizes :: "message_ext list \<Rightarrow> (string \<times> nat) list" where
  "round_sizes msgs = fold (\<lambda>m sizes. let key = cache_key_of_message m in
     AList.update key ((case map_of sizes key of Some n \<Rightarrow> n | None \<Rightarrow> 0) + 1) sizes) msgs []"

fun extend_loop :: "(string \<times> nat) list \<Rightarrow> message_ext list \<Rightarrow> lite_buffer \<Rightarrow> lite_buffer" where
  "extend_loop sizes [] b = b"
| "extend_loop sizes (m # msgs) b =
     (let key = cache_key_of_message m;
          booked = map_of sizes key;
          c = cache_add m (queue_cache b key);
          c = (case booked of Some n \<Rightarrow> begin_round n c | None \<Rightarrow> c)
      in extend_loop (AList.delete key sizes) msgs
           \<lparr>lb_messages = lb_messages b @ [m], lb_queues = AList.update key c (lb_queues b)\<rparr>)"

definition buffer_extend :: "message_ext list \<Rightarrow> lite_buffer \<Rightarrow> lite_buffer" where
  "buffer_extend msgs b = extend_loop (round_sizes msgs) msgs b"

text \<open>A message that leaves is taken off its accumulator; an empty accumulator goes.\<close>

definition leave_queue :: "string \<Rightarrow> message_ext \<Rightarrow> (string \<times> lite_queue_cache) list \<Rightarrow> (string \<times> lite_queue_cache) list" where
  "leave_queue key m queues = (case map_of queues key of
     None \<Rightarrow> queues
   | Some c \<Rightarrow> let c = cache_remove m c
              in if lc_count c = 0 then AList.delete key queues else AList.update key c queues)"

definition drain_prefix :: "nat \<Rightarrow> lite_buffer \<Rightarrow> message_ext list \<times> lite_buffer" where
  "drain_prefix n b =
     (let out = take n (lb_messages b)
      in (out, \<lparr>lb_messages = drop (length out) (lb_messages b),
                lb_queues = fold (\<lambda>m. leave_queue (cache_key_of_message m) m) out (lb_queues b)\<rparr>))"

definition is_this_queue :: "message_queue \<Rightarrow> message_ext \<Rightarrow> bool" where
  "is_this_queue mq m \<longleftrightarrow> m_topic m = mq_topic mq \<and> x_broker_name m = Some (mq_broker_name mq)
     \<and> x_queue_id m = mq_queue_id mq"

definition pruned :: "message_queue \<Rightarrow> i64 \<Rightarrow> message_ext \<Rightarrow> bool" where
  "pruned mq offset m \<longleftrightarrow> is_this_queue mq m \<and> x_queue_offset m <s offset"

text \<open>In the loop of \<open>prune_before\<close> an empty accumulator stays until the end.\<close>

definition prune_queue :: "string \<Rightarrow> message_ext \<Rightarrow> (string \<times> lite_queue_cache) list \<Rightarrow> (string \<times> lite_queue_cache) list" where
  "prune_queue key m queues = (case map_of queues key of
     None \<Rightarrow> queues | Some c \<Rightarrow> AList.update key (cache_remove m c) queues)"

definition prune_before :: "message_queue \<Rightarrow> i64 \<Rightarrow> lite_buffer \<Rightarrow> lite_buffer" where
  "prune_before mq offset b =
     (let key = mq_key mq;
          queues = fold (prune_queue key) (filter (pruned mq offset) (lb_messages b)) (lb_queues b);
          queues = (case map_of queues key of
                      Some c \<Rightarrow> if lc_count c = 0 then AList.delete key queues else queues
                    | None \<Rightarrow> queues)
      in \<lparr>lb_messages = filter (\<lambda>m. \<not> pruned mq offset m) (lb_messages b), lb_queues = queues\<rparr>)"

definition revoke_queue :: "string \<Rightarrow> lite_buffer \<Rightarrow> nat \<times> lite_buffer" where
  "revoke_queue key b =
     (let kept = filter (\<lambda>m. cache_key_of_message m \<noteq> key) (lb_messages b)
      in (length (lb_messages b) - length kept,
          \<lparr>lb_messages = kept, lb_queues = AList.delete key (lb_queues b)\<rparr>))"

section \<open>The gates\<close>

datatype lite_cache_gate = GateAll | GateCount | GateSize | GateSpan

record lite_gate_config =
  gc_pull_batch_size :: i32
  gc_pull_threshold_for_all :: i32
  gc_pull_threshold_for_queue :: i32
  gc_pull_threshold_size_for_queue :: i32
  gc_consume_max_span :: i64

definition i64_of_count :: "nat \<Rightarrow> i64" where
  "i64_of_count n = (if n < 2 ^ 63 then of_nat n else 2 ^ 63 - 1)"

definition saturating_mul :: "i64 \<Rightarrow> i64 \<Rightarrow> i64" where
  "saturating_mul a b = word_of_int (max (- (2 ^ 63)) (min (2 ^ 63 - 1) (sint a * sint b)))"

record lite_gate_counters =
  gk_all :: nat
  gk_queue :: nat
  gk_span :: nat

definition cache_gate :: "lite_gate_config \<Rightarrow> nat \<Rightarrow> lite_queue_cache \<Rightarrow> lite_cache_gate option" where
  "cache_gate cfg rounds c =
     (let batch = (if (1 :: i64) \<le>s scast (gc_pull_batch_size cfg) then scast (gc_pull_batch_size cfg) else 1);
          reserved = saturating_mul (i64_of_count rounds) batch
      in if scast (gc_pull_threshold_for_all cfg) <s reserved then Some GateAll
         else if lc_count c = 0 then None
         else if scast (gc_pull_threshold_for_queue cfg) <s i64_of_count (lc_count c) then Some GateCount
         else if scast (gc_pull_threshold_size_for_queue cfg) <s size_mib c then Some GateSize
         else if gc_consume_max_span cfg <s cache_span c then Some GateSpan
         else None)"

fun count_trip :: "lite_cache_gate \<Rightarrow> lite_gate_counters \<Rightarrow> lite_gate_counters" where
  "count_trip GateAll g = g\<lparr>gk_all := gk_all g + 1\<rparr>"
| "count_trip GateCount g = g\<lparr>gk_queue := gk_queue g + 1\<rparr>"
| "count_trip GateSize g = g\<lparr>gk_queue := gk_queue g + 1\<rparr>"
| "count_trip GateSpan g = g\<lparr>gk_span := gk_span g + 1\<rparr>"

definition lite_cache_flow_control_hit ::
    "lite_gate_config \<Rightarrow> lite_buffer \<Rightarrow> string \<Rightarrow> lite_gate_counters \<Rightarrow> lite_cache_gate option \<times> lite_gate_counters" where
  "lite_cache_flow_control_hit cfg b key g =
     (case cache_gate cfg (pending_pull_rounds b) (queue_cache b key) of
        None \<Rightarrow> (None, g)
      | Some gate \<Rightarrow> (Some gate, count_trip gate g))"

section \<open>Accumulators are what a scan would give\<close>

definition offsets_sorted :: "(i64 \<times> nat) list \<Rightarrow> bool" where
  "offsets_sorted os \<longleftrightarrow> sorted_wrt (\<lambda>a b. sint a < sint b) (map fst os)"

definition multiplicity :: "(i64 \<times> nat) list \<Rightarrow> i64 \<Rightarrow> nat" where
  "multiplicity os i = (case map_of os i of Some n \<Rightarrow> n | None \<Rightarrow> 0)"

definition offsets_ok :: "(i64 \<times> nat) list \<Rightarrow> i64 multiset \<Rightarrow> bool" where
  "offsets_ok os M \<longleftrightarrow> offsets_sorted os \<and> (\<forall>e \<in> set os. 0 < snd e) \<and> (\<forall>i. count M i = multiplicity os i)"

definition bytes_of :: "message_ext multiset \<Rightarrow> nat" where
  "bytes_of M = (\<Sum>m\<in>#M. length (get_body m))"

definition acc_ok :: "lite_queue_cache \<Rightarrow> message_ext multiset \<Rightarrow> bool" where
  "acc_ok c M \<longleftrightarrow> lc_count c = size M \<and> sint (lc_bytes c) = int (bytes_of M)
     \<and> offsets_ok (lc_offsets c) (image_mset x_queue_offset M)"

definition rounds_ok :: "lite_queue_cache \<Rightarrow> nat \<Rightarrow> bool" where
  "rounds_ok c n \<longleftrightarrow> sum_list (lc_rounds c) = n \<and> 0 \<notin> set (lc_rounds c)"

lemma offsets_sorted_simps [simp]:
  "offsets_sorted []"
  "offsets_sorted ((k, n) # m) \<longleftrightarrow> (\<forall>i \<in> fst ` set m. sint k < sint i) \<and> offsets_sorted m"
  by (simp_all add: offsets_sorted_def)

lemma multiplicity_simps [simp]:
  "multiplicity [] i = 0" "multiplicity ((k, n) # m) i = (if i = k then n else multiplicity m i)"
  by (simp_all add: multiplicity_def)

lemma multiplicity_absent: "i \<notin> fst ` set os \<Longrightarrow> multiplicity os i = 0"
  by (simp add: multiplicity_def map_of_eq_None_iff [THEN iffD2])

lemma offsets_add_keys: "fst ` set (offsets_add i os) = insert i (fst ` set os)"
  by (induction i os rule: offsets_add.induct) auto

lemma offsets_remove_keys: "fst ` set (offsets_remove i os) \<subseteq> fst ` set os"
  by (induction i os rule: offsets_remove.induct) auto

lemma not_less_offset: "\<not> i <s k \<Longrightarrow> i \<noteq> k \<Longrightarrow> sint k < sint (i :: i64)"
  by (metis linorder_neqE signed_word_eqI word_sless_alt)

lemma offsets_add_sorted: "offsets_sorted os \<Longrightarrow> offsets_sorted (offsets_add i os)"
proof (induction i os rule: offsets_add.induct)
  case (2 i k n m)
  consider "i = k" | "i \<noteq> k" "i <s k" | "i \<noteq> k" "\<not> i <s k"
    by blast
  then show ?case
  proof cases
    case 2
    then have "sint i < sint k"
      by (simp add: word_sless_alt)
    with 2 \<open>offsets_sorted ((k, n) # m)\<close> show ?thesis
      by simp (metis order_less_trans)
  next
    case 3
    with "2.IH" "2.prems" not_less_offset [of i k] show ?thesis
      by (simp add: offsets_add_keys)
  qed (use "2.prems" in simp)
qed simp

lemma offsets_add_multiplicity:
  "offsets_sorted os \<Longrightarrow> multiplicity (offsets_add i os) j = multiplicity os j + (if j = i then 1 else 0)"
proof (induction i os rule: offsets_add.induct)
  case (2 i k n m)
  have "multiplicity m i = 0" if "i <s k"
    using that "2.prems" by (intro multiplicity_absent) (force simp: word_sless_alt)
  then show ?case
    using 2 by auto
qed simp

lemma offsets_add_pos: "\<forall>e \<in> set os. 0 < snd e \<Longrightarrow> \<forall>e \<in> set (offsets_add i os). 0 < snd e"
  by (induction i os rule: offsets_add.induct) auto

lemma offsets_remove_sorted: "offsets_sorted os \<Longrightarrow> offsets_sorted (offsets_remove i os)"
proof (induction i os rule: offsets_remove.induct)
  case (2 i k n m)
  have "sint k < sint (fst e)" if "e \<in> set (offsets_remove i m)" for e
    using that offsets_remove_keys [of i m] "2.prems" by force
  with 2 show ?case
    by simp
qed simp

lemma offsets_remove_multiplicity:
  "offsets_sorted os \<Longrightarrow> multiplicity (offsets_remove i os) j = multiplicity os j - (if j = i then 1 else 0)"
proof (induction i os rule: offsets_remove.induct)
  case (2 i k n m)
  have "multiplicity m k = 0"
    using "2.prems" by (intro multiplicity_absent) force
  then show ?case
    using 2 by auto
qed simp

lemma offsets_remove_pos: "\<forall>e \<in> set os. 0 < snd e \<Longrightarrow> \<forall>e \<in> set (offsets_remove i os). 0 < snd e"
  by (induction i os rule: offsets_remove.induct) auto

lemma offsets_add_ok: "offsets_ok os M \<Longrightarrow> offsets_ok (offsets_add i os) (add_mset i M)"
  using offsets_add_pos [of os i] by (simp add: offsets_ok_def offsets_add_sorted offsets_add_multiplicity)

lemma offsets_remove_ok:
  assumes "offsets_ok os (add_mset i M)"
  shows "offsets_ok (offsets_remove i os) M"
proof -
  have "count M j = multiplicity (offsets_remove i os) j" for j
  proof -
    have "count (add_mset i M) j = multiplicity os j"
      using assms by (simp add: offsets_ok_def)
    then show ?thesis
      using assms by (auto simp: offsets_ok_def offsets_remove_multiplicity split: if_splits)
  qed
  then show ?thesis
    using assms offsets_remove_pos [of os i] by (simp add: offsets_ok_def offsets_remove_sorted)
qed

lemma sint_sat_64: "- (2 ^ 63) \<le> x \<Longrightarrow> x < 2 ^ 63 \<Longrightarrow> sint (word_of_int (max (- (2 ^ 63)) (min (2 ^ 63 - 1) x)) :: i64) = x"
  using sint_word_of_int_64 [of x] by (simp only: min_def max_def) (simp split: if_splits)

lemma sint_body_len: "length (get_body m) < 2 ^ 63 \<Longrightarrow> sint (body_len_i64 m) = int (length (get_body m))"
  by (simp add: body_len_i64_def sint_of_nat_small)

lemma bytes_of_add [simp]: "bytes_of (add_mset m M) = length (get_body m) + bytes_of M" "bytes_of {#} = 0"
  by (simp_all add: bytes_of_def)

lemma cache_add_ok:
  assumes "acc_ok c M" and "bytes_of (add_mset m M) < 2 ^ 63"
  shows "acc_ok (cache_add m c) (add_mset m M)"
proof -
  have "sint (saturating_add (lc_bytes c) (body_len_i64 m)) = int (bytes_of (add_mset m M))"
    using assms unfolding saturating_add_def by (subst sint_sat_64) (auto simp: acc_ok_def sint_body_len)
  then show ?thesis
    using assms offsets_add_ok by (simp add: acc_ok_def cache_add_def)
qed

lemma cache_remove_ok:
  assumes "acc_ok c (add_mset m M)" and "bytes_of (add_mset m M) < 2 ^ 63"
  shows "acc_ok (cache_remove m c) M"
proof -
  have "sint (saturating_sub (lc_bytes c) (body_len_i64 m)) = int (bytes_of M)"
    using assms unfolding saturating_sub_def by (subst sint_sat_64) (auto simp: acc_ok_def sint_body_len)
  then show ?thesis
    using assms offsets_remove_ok by (simp add: acc_ok_def cache_remove_def)
qed

lemma take_from_round_ok: "rounds_ok c (Suc n) \<Longrightarrow> rounds_ok (cache_remove m c) n"
  by (cases "lc_rounds c") (auto simp: rounds_ok_def cache_remove_def)

lemma begin_round_ok: "rounds_ok c k \<Longrightarrow> 0 < n \<Longrightarrow> rounds_ok (begin_round n c) (k + n)"
  by (simp add: rounds_ok_def begin_round_def)

lemma begin_round_acc [simp]: "acc_ok (begin_round n c) M = acc_ok c M"
  by (simp add: begin_round_def acc_ok_def)

lemma cache_add_rounds [simp]: "rounds_ok (cache_add m c) n = rounds_ok c n"
  by (simp add: rounds_ok_def cache_add_def)

section \<open>The buffer invariant\<close>

definition of_key :: "string \<Rightarrow> message_ext multiset \<Rightarrow> message_ext multiset" where
  "of_key k M = filter_mset (\<lambda>m. cache_key_of_message m = k) M"

definition cache_at :: "(string \<times> lite_queue_cache) list \<Rightarrow> string \<Rightarrow> lite_queue_cache" where
  "cache_at qs k = (case map_of qs k of Some c \<Rightarrow> c | None \<Rightarrow> cache_default)"

text \<open>
  The accumulators \<open>qs\<close> describe the messages \<open>M\<close>; \<open>ex k\<close> messages of the queue \<open>k\<close> are booked in a round and
  not in the buffer yet, and the queues of \<open>E\<close> may have an accumulator without messages.
\<close>

definition tracked :: "string set \<Rightarrow> (string \<Rightarrow> nat) \<Rightarrow> (string \<times> lite_queue_cache) list \<Rightarrow> message_ext multiset \<Rightarrow> bool" where
  "tracked E ex qs M \<longleftrightarrow> (\<forall>k. acc_ok (cache_at qs k) (of_key k M) \<and>
     rounds_ok (cache_at qs k) (size (of_key k M) + ex k) \<and>
     (k \<notin> E \<longrightarrow> of_key k M = {#} \<longrightarrow> map_of qs k = None))"

definition buffer_ok :: "lite_buffer \<Rightarrow> bool" where
  "buffer_ok b \<longleftrightarrow> distinct (map fst (lb_queues b)) \<and> tracked {} (\<lambda>_. 0) (lb_queues b) (mset (lb_messages b))"

lemma of_key_simps [simp]:
  "of_key k {#} = {#}"
  "of_key k (add_mset m M) = (if cache_key_of_message m = k then add_mset m (of_key k M) else of_key k M)"
  by (simp_all add: of_key_def)

lemma bytes_of_key: "bytes_of (of_key k M) \<le> bytes_of M"
  by (induction M) auto

lemma cache_at_update [simp]: "cache_at (AList.update k c qs) j = (if j = k then c else cache_at qs j)"
  by (simp add: cache_at_def AList.update_conv')

lemma cache_at_delete [simp]: "cache_at (AList.delete k qs) j = (if j = k then cache_default else cache_at qs j)"
  by (simp add: cache_at_def AList.delete_conv')

lemma cache_at_None: "map_of qs k = None \<Longrightarrow> cache_at qs k = cache_default"
  and cache_at_Some: "map_of qs k = Some c \<Longrightarrow> cache_at qs k = c"
  by (simp_all add: cache_at_def)

lemma queue_cache_at: "queue_cache b k = cache_at (lb_queues b) k"
  by (simp add: queue_cache_def cache_at_def)

lemma cache_default_ok [simp]:
  "acc_ok cache_default M \<longleftrightarrow> M = {#}" "rounds_ok cache_default n \<longleftrightarrow> n = 0"
  by (auto simp: acc_ok_def rounds_ok_def cache_default_def offsets_ok_def)

lemma tracked_None:
  assumes "tracked E ex qs M" "map_of qs k = None"
  shows "of_key k M = {#}" "ex k = 0"
  using assms by (auto simp: tracked_def cache_at_None dest!: spec [of _ k])

lemma tracked_enter:
  assumes tr: "tracked {} ex qs M" and key: "k = cache_key_of_message m"
    and ex: "\<And>j. j \<noteq> k \<Longrightarrow> ex' j = ex j" and small: "bytes_of (add_mset m M) < 2 ^ 63"
    and rounds: "rounds_ok (f (cache_add m (cache_at qs k))) (Suc (size (of_key k M)) + ex' k)"
    and acc: "\<And>c N. acc_ok (f c) N = acc_ok c N"
  shows "tracked {} ex' (AList.update k (f (cache_add m (cache_at qs k))) qs) (add_mset m M)"
proof -
  have "bytes_of (add_mset m (of_key k M)) < 2 ^ 63"
    using small bytes_of_key [of k M] by simp
  then have "acc_ok (cache_add m (cache_at qs k)) (add_mset m (of_key k M))"
    using tr by (intro cache_add_ok) (auto simp: tracked_def)
  with tr rounds show ?thesis
    by (auto simp: tracked_def key acc ex AList.update_conv')
qed

lemma tracked_other:
  assumes "tracked E ex qs (add_mset m M)" and "k \<noteq> cache_key_of_message m"
  shows "acc_ok (cache_at qs k) (of_key k M)" "rounds_ok (cache_at qs k) (size (of_key k M) + ex k)"
    "k \<notin> E \<Longrightarrow> of_key k M = {#} \<Longrightarrow> map_of qs k = None"
  using assms by (auto simp: tracked_def dest!: spec [of _ k])

lemma tracked_remove:
  assumes tr: "tracked E (\<lambda>_. 0) qs (add_mset m M)" and small: "bytes_of (add_mset m M) < 2 ^ 63"
    and key: "k = cache_key_of_message m"
  obtains c where "map_of qs k = Some c" "acc_ok (cache_remove m c) (of_key k M)"
    "rounds_ok (cache_remove m c) (size (of_key k M))"
proof -
  obtain c where c: "map_of qs k = Some c"
    using tracked_None(1) [OF tr, of k] key by (cases "map_of qs k") auto
  have "bytes_of (add_mset m (of_key k M)) < 2 ^ 63"
    using small bytes_of_key [of k M] by simp
  moreover have "acc_ok c (add_mset m (of_key k M))" "rounds_ok c (Suc (size (of_key k M)))"
    using tr c key by (auto simp: tracked_def cache_at_Some dest!: spec [of _ k])
  ultimately show thesis
    using that c by (simp add: cache_remove_ok take_from_round_ok)
qed

lemma tracked_leave:
  assumes tr: "tracked {} (\<lambda>_. 0) qs (add_mset m M)" and small: "bytes_of (add_mset m M) < 2 ^ 63"
  shows "tracked {} (\<lambda>_. 0) (leave_queue (cache_key_of_message m) m qs) M"
proof -
  let ?k = "cache_key_of_message m"
  obtain c where c: "map_of qs ?k = Some c" and ok: "acc_ok (cache_remove m c) (of_key ?k M)"
      "rounds_ok (cache_remove m c) (size (of_key ?k M))"
    using tracked_remove [OF tr small refl] .
  then have "lc_count (cache_remove m c) = 0 \<longleftrightarrow> of_key ?k M = {#}"
    by (simp add: acc_ok_def)
  with ok c show ?thesis
    using tracked_other [OF tr]
    by (auto simp: tracked_def leave_queue_def Let_def AList.update_conv' AList.delete_conv')
qed

lemma tracked_prune:
  assumes tr: "tracked {k} (\<lambda>_. 0) qs (add_mset m M)" and small: "bytes_of (add_mset m M) < 2 ^ 63"
    and key: "k = cache_key_of_message m"
  shows "tracked {k} (\<lambda>_. 0) (prune_queue k m qs) M"
proof -
  obtain c where "map_of qs k = Some c" "acc_ok (cache_remove m c) (of_key k M)"
      "rounds_ok (cache_remove m c) (size (of_key k M))"
    using tracked_remove [OF tr small key] .
  then show ?thesis
    using tracked_other [OF tr] key by (auto simp: tracked_def prune_queue_def AList.update_conv')
qed

lemma tracked_drain:
  "tracked {} (\<lambda>_. 0) qs (mset out + M) \<Longrightarrow> bytes_of (mset out + M) < 2 ^ 63 \<Longrightarrow>
   tracked {} (\<lambda>_. 0) (fold (\<lambda>m. leave_queue (cache_key_of_message m) m) out qs) M"
proof (induction out arbitrary: qs)
  case (Cons m out)
  then have "tracked {} (\<lambda>_. 0) (leave_queue (cache_key_of_message m) m qs) (mset out + M)"
    by (intro tracked_leave) auto
  then show ?case
    using Cons by simp
qed simp

lemma tracked_prunes:
  "tracked {k} (\<lambda>_. 0) qs (mset out + M) \<Longrightarrow> bytes_of (mset out + M) < 2 ^ 63 \<Longrightarrow>
   \<forall>m \<in> set out. cache_key_of_message m = k \<Longrightarrow> tracked {k} (\<lambda>_. 0) (fold (prune_queue k) out qs) M"
proof (induction out arbitrary: qs)
  case (Cons m out)
  then have "tracked {k} (\<lambda>_. 0) (prune_queue k m qs) (mset out + M)"
    by (intro tracked_prune) auto
  then show ?case
    using Cons by simp
qed simp

lemma distinct_queues:
  "distinct (map fst qs) \<Longrightarrow> distinct (map fst (leave_queue k m qs))"
  "distinct (map fst qs) \<Longrightarrow> distinct (map fst (prune_queue k m qs))"
  by (auto simp: leave_queue_def prune_queue_def Let_def distinct_update distinct_delete split: option.split)

lemma distinct_queues_fold:
  "distinct (map fst qs) \<Longrightarrow> distinct (map fst (fold (\<lambda>m. leave_queue (cache_key_of_message m) m) ms qs))"
  "distinct (map fst qs) \<Longrightarrow> distinct (map fst (fold (prune_queue k) ms qs))"
  by (induction ms arbitrary: qs) (simp_all add: distinct_queues)

lemma mset_filter_split: "mset (filter P xs) + mset (filter (\<lambda>x. \<not> P x) xs) = mset xs"
  by (simp flip: multiset_partition)

lemma bytes_of_union [simp]: "bytes_of (M + N) = bytes_of M + bytes_of N"
  by (simp add: bytes_of_def)

lemma drain_ok:
  assumes "buffer_ok b" and "bytes_of (mset (lb_messages b)) < 2 ^ 63"
  shows "buffer_ok (snd (drain_prefix n b))"
proof -
  have eq: "mset (lb_messages b) = mset (take n (lb_messages b)) + mset (drop n (lb_messages b))"
    by (metis append_take_drop_id mset_append)
  have "tracked {} (\<lambda>_. 0) (fold (\<lambda>m. leave_queue (cache_key_of_message m) m) (take n (lb_messages b)) (lb_queues b))
      (mset (drop n (lb_messages b)))"
    using assms unfolding buffer_ok_def eq by (intro tracked_drain) simp_all
  moreover have "drop (min (length (lb_messages b)) n) (lb_messages b) = drop n (lb_messages b)"
    by (cases "length (lb_messages b) \<le> n") (auto simp: min_def)
  ultimately show ?thesis
    using assms by (simp add: buffer_ok_def drain_prefix_def Let_def distinct_queues_fold)
qed

lemma key_of_this_queue: "is_this_queue mq m \<Longrightarrow> cache_key_of_message m = mq_key mq"
  by (simp add: is_this_queue_def cache_key_of_message_def mq_key_def)

lemma tracked_purge:
  assumes tr: "tracked {k} (\<lambda>_. 0) qs M"
  shows "tracked {} (\<lambda>_. 0) (case map_of qs k of
     Some c \<Rightarrow> if lc_count c = 0 then AList.delete k qs else qs | None \<Rightarrow> qs) M"
proof (cases "map_of qs k")
  case None
  with tr have "of_key j M = {#} \<Longrightarrow> map_of qs j = None" for j
    by (cases "j = k") (auto simp: tracked_def)
  with None tr show ?thesis
    by (auto simp: tracked_def)
next
  case (Some c)
  then have "lc_count c = 0 \<longleftrightarrow> of_key k M = {#}"
    using tr by (auto simp: tracked_def acc_ok_def cache_at_Some dest!: spec [of _ k])
  with Some tr show ?thesis
    by (auto simp: tracked_def AList.delete_conv')
qed

lemma tracked_mono: "tracked {} ex qs M \<Longrightarrow> tracked E ex qs M"
  by (simp add: tracked_def)

lemma prune_ok:
  assumes "buffer_ok b" and "bytes_of (mset (lb_messages b)) < 2 ^ 63"
  shows "buffer_ok (prune_before mq offset b)"
proof -
  let ?out = "filter (pruned mq offset) (lb_messages b)"
  let ?qs = "fold (prune_queue (mq_key mq)) ?out (lb_queues b)"
  have "tracked {mq_key mq} (\<lambda>_. 0) ?qs (mset (filter (\<lambda>m. \<not> pruned mq offset m) (lb_messages b)))"
  proof (rule tracked_prunes)
    show "tracked {mq_key mq} (\<lambda>_. 0) (lb_queues b)
        (mset ?out + mset (filter (\<lambda>m. \<not> pruned mq offset m) (lb_messages b)))"
      using assms(1) unfolding mset_filter_split buffer_ok_def by (blast intro: tracked_mono)
  next
    show "bytes_of (mset ?out + mset (filter (\<lambda>m. \<not> pruned mq offset m) (lb_messages b))) < 2 ^ 63"
      using assms(2) unfolding mset_filter_split .
  qed (simp add: pruned_def key_of_this_queue)
  from tracked_purge [OF this] have "tracked {} (\<lambda>_. 0) (lb_queues (prune_before mq offset b))
      (mset (lb_messages (prune_before mq offset b)))"
    by (simp add: prune_before_def Let_def del: mset_filter)
  moreover have "distinct (map fst ?qs)"
    using assms by (simp add: buffer_ok_def distinct_queues_fold)
  ultimately show ?thesis
    by (auto simp: buffer_ok_def prune_before_def Let_def distinct_delete simp del: mset_filter
        split: option.split)
qed

lemma revoke_ok: "buffer_ok b \<Longrightarrow> buffer_ok (snd (revoke_queue k b))"
proof -
  have *: "of_key j (filter_mset (\<lambda>m. cache_key_of_message m \<noteq> k) M) = (if j = k then {#} else of_key j M)" for j M
    by (induction M) auto
  show "buffer_ok b \<Longrightarrow> ?thesis"
    by (auto simp: buffer_ok_def revoke_queue_def Let_def distinct_delete tracked_def * AList.delete_conv')
qed

lemma round_sizes_fold:
  "map_of (fold (\<lambda>m sizes. let key = cache_key_of_message m in
       AList.update key ((case map_of sizes key of Some n \<Rightarrow> n | None \<Rightarrow> 0) + 1) sizes) ms s) k =
   (if size (of_key k (mset ms)) = 0 then map_of s k
    else Some ((case map_of s k of Some n \<Rightarrow> n | None \<Rightarrow> 0) + size (of_key k (mset ms))))"
  by (induction ms arbitrary: s) (auto simp: Let_def AList.update_conv')

lemma map_of_round_sizes:
  "map_of (round_sizes ms) k = (if of_key k (mset ms) = {#} then None else Some (size (of_key k (mset ms))))"
  unfolding round_sizes_def round_sizes_fold by simp

definition still_booked :: "(string \<times> nat) list \<Rightarrow> message_ext list \<Rightarrow> string \<Rightarrow> nat" where
  "still_booked sizes ms k = (if map_of sizes k = None then size (of_key k (mset ms)) else 0)"

lemma extend_loop_ok:
  assumes "\<And>k n. map_of sizes k = Some n \<Longrightarrow> n = size (of_key k (mset ms)) \<and> 0 < n"
    and "tracked {} (still_booked sizes ms) (lb_queues b) (mset (lb_messages b))"
    and "bytes_of (mset (lb_messages b) + mset ms) < 2 ^ 63"
    and "distinct (map fst (lb_queues b))"
  shows "buffer_ok (extend_loop sizes ms b)"
  using assms
proof (induction ms arbitrary: sizes b)
  case Nil
  then have "still_booked sizes [] = (\<lambda>_. 0)"
    by (auto simp: still_booked_def)
  with Nil show ?case
    by (simp add: buffer_ok_def)
next
  case (Cons m ms)
  let ?k = "cache_key_of_message m"
  let ?M = "mset (lb_messages b)"
  define f where "f = (case map_of sizes ?k of Some n \<Rightarrow> begin_round n | None \<Rightarrow> \<lambda>c. c)"
  let ?qs = "AList.update ?k (f (cache_add m (cache_at (lb_queues b) ?k))) (lb_queues b)"
  have ok: "rounds_ok (cache_at (lb_queues b) ?k) (size (of_key ?k ?M) + still_booked sizes (m # ms) ?k)"
    using Cons.prems(2) by (simp add: tracked_def)
  have "tracked {} (still_booked (AList.delete ?k sizes) ms) ?qs (add_mset m ?M)"
  proof (rule tracked_enter [where ex = "still_booked sizes (m # ms)"])
    show "tracked {} (still_booked sizes (m # ms)) (lb_queues b) ?M"
      by (rule Cons.prems(2))
    show "rounds_ok (f (cache_add m (cache_at (lb_queues b) ?k)))
        (Suc (size (of_key ?k ?M)) + still_booked (AList.delete ?k sizes) ms ?k)"
    proof (cases "map_of sizes ?k")
      case None
      with ok show ?thesis
        by (simp add: f_def still_booked_def AList.delete_conv')
    next
      case (Some n)
      with Cons.prems(1) [of ?k n] have n: "n = Suc (size (of_key ?k (mset ms)))"
        by simp
      show ?thesis
        using ok Some begin_round_ok [of "cache_add m (cache_at (lb_queues b) ?k)" "size (of_key ?k ?M)" n]
        by (simp add: f_def n still_booked_def AList.delete_conv')
    qed
  qed (use Cons.prems in \<open>auto simp: f_def still_booked_def AList.delete_conv' split: option.split\<close>)
  moreover have "n = size (of_key k (mset ms)) \<and> 0 < n" if "map_of (AList.delete ?k sizes) k = Some n" for k n
    using that Cons.prems(1) [of k n] by (auto simp: AList.delete_conv' split: if_splits)
  ultimately have "buffer_ok (extend_loop (AList.delete ?k sizes) ms
      \<lparr>lb_messages = lb_messages b @ [m], lb_queues = ?qs\<rparr>)"
    using Cons.prems by (intro Cons.IH) (simp_all add: distinct_update)
  moreover have "(case map_of sizes ?k of Some n \<Rightarrow> begin_round n (cache_add m (queue_cache b ?k))
      | None \<Rightarrow> cache_add m (queue_cache b ?k)) = f (cache_add m (cache_at (lb_queues b) ?k))"
    by (simp add: f_def queue_cache_at split: option.split)
  ultimately show ?case
    by (simp add: Let_def)
qed

lemma extend_ok:
  assumes "buffer_ok b" and "bytes_of (mset (lb_messages b) + mset ms) < 2 ^ 63"
  shows "buffer_ok (buffer_extend ms b)"
proof -
  have "still_booked (round_sizes ms) ms = (\<lambda>_. 0)"
    by (auto simp: still_booked_def map_of_round_sizes)
  then show ?thesis
    unfolding buffer_extend_def using assms
    by (intro extend_loop_ok) (auto simp: map_of_round_sizes buffer_ok_def nonempty_has_size [symmetric] split: if_splits)
qed

lemma extend_loop_messages: "lb_messages (extend_loop sizes ms b) = lb_messages b @ ms"
  by (induction ms arbitrary: sizes b) (simp_all add: Let_def)

lemma messages_after [simp]:
  "lb_messages (buffer_extend ms b) = lb_messages b @ ms"
  "lb_messages (snd (drain_prefix n b)) = drop n (lb_messages b)"
  "lb_messages (prune_before mq offset b) = filter (\<lambda>m. \<not> pruned mq offset m) (lb_messages b)"
  "lb_messages (snd (revoke_queue k b)) = filter (\<lambda>m. cache_key_of_message m \<noteq> k) (lb_messages b)"
proof -
  show "lb_messages (snd (drain_prefix n b)) = drop n (lb_messages b)"
    by (cases "length (lb_messages b) \<le> n") (auto simp: drain_prefix_def Let_def min_def)
qed (simp_all add: buffer_extend_def extend_loop_messages prune_before_def revoke_queue_def Let_def)

section \<open>Sequences of operations\<close>

datatype lite_op = Extend "message_ext list" | Drain nat | Prune message_queue i64 | Revoke string

fun lite_apply :: "lite_op \<Rightarrow> lite_buffer \<Rightarrow> lite_buffer" where
  "lite_apply (Extend ms) b = buffer_extend ms b"
| "lite_apply (Drain n) b = snd (drain_prefix n b)"
| "lite_apply (Prune mq offset) b = prune_before mq offset b"
| "lite_apply (Revoke key) b = snd (revoke_queue key b)"

fun entered :: "lite_op \<Rightarrow> message_ext list" where
  "entered (Extend ms) = ms"
| "entered _ = []"

abbreviation lite_run :: "lite_op list \<Rightarrow> lite_buffer" where
  "lite_run ops \<equiv> fold lite_apply ops buffer_default"

lemma bytes_of_mono: "M \<subseteq># N \<Longrightarrow> bytes_of M \<le> bytes_of N"
  by (auto simp: subset_mset.le_iff_add)

lemma lite_apply_messages: "mset (lb_messages (lite_apply op b)) \<subseteq># mset (lb_messages b) + mset (entered op)"
  by (cases op) (simp_all add: mset_subset_eq_exists_conv [THEN iffD2, OF exI] flip: mset_append,
      metis append_take_drop_id mset_append mset_subset_eq_add_right)

lemma lite_apply_ok:
  assumes "buffer_ok b" and "bytes_of (mset (lb_messages b) + mset (entered op)) < 2 ^ 63"
  shows "buffer_ok (lite_apply op b)"
  using assms by (cases op) (simp_all add: extend_ok drain_ok prune_ok revoke_ok)

lemma lite_fold_ok:
  "buffer_ok b \<Longrightarrow> bytes_of (mset (lb_messages b) + mset (concat (map entered ops))) < 2 ^ 63 \<Longrightarrow>
   buffer_ok (fold lite_apply ops b) \<and>
   mset (lb_messages (fold lite_apply ops b)) \<subseteq># mset (lb_messages b) + mset (concat (map entered ops))"
proof (induction ops arbitrary: b)
  case (Cons op ops)
  let ?b = "lite_apply op b"
  have sub: "mset (lb_messages ?b) + mset (concat (map entered ops))
      \<subseteq># mset (lb_messages b) + mset (concat (map entered (op # ops)))"
    using lite_apply_messages [of op b] by (simp add: add.assoc [symmetric] subset_mset.add_right_mono)
  have "buffer_ok ?b"
    using Cons.prems by (intro lite_apply_ok) simp_all
  moreover have "bytes_of (mset (lb_messages ?b) + mset (concat (map entered ops))) < 2 ^ 63"
    using bytes_of_mono [OF sub] Cons.prems(2) by linarith
  ultimately have "buffer_ok (fold lite_apply ops ?b) \<and>
      mset (lb_messages (fold lite_apply ops ?b)) \<subseteq># mset (lb_messages ?b) + mset (concat (map entered ops))"
    by (rule Cons.IH)
  with sub show ?case
    by (auto intro: subset_mset.order_trans)
qed simp

lemma lite_run_ok:
  assumes "bytes_of (mset (concat (map entered ops))) < 2 ^ 63"
  shows "buffer_ok (lite_run ops)"
proof -
  have "buffer_ok buffer_default"
    by (simp add: buffer_ok_def buffer_default_def tracked_def cache_at_def)
  then show ?thesis
    using assms lite_fold_ok [of buffer_default ops] by (simp add: buffer_default_def)
qed

section \<open>What a scan would give\<close>

definition queue_messages :: "lite_buffer \<Rightarrow> string \<Rightarrow> message_ext list" where
  "queue_messages b key = filter (\<lambda>m. cache_key_of_message m = key) (lb_messages b)"

definition scanned_bytes :: "message_ext list \<Rightarrow> int" where
  "scanned_bytes ms = sum_list (map (\<lambda>m. int (length (get_body m))) ms)"

definition scanned_offsets :: "message_ext list \<Rightarrow> int set" where
  "scanned_offsets ms = (\<lambda>m. sint (x_queue_offset m)) ` set ms"

lemma offsets_ok_set:
  assumes "offsets_ok os M"
  shows "set_mset M = fst ` set os"
proof -
  have "i \<in># M \<longleftrightarrow> i \<in> fst ` set os" for i
  proof -
    have "i \<in># M \<longleftrightarrow> 0 < multiplicity os i"
      using assms by (simp add: offsets_ok_def flip: count_greater_zero_iff)
    also have "\<dots> \<longleftrightarrow> i \<in> fst ` set os"
      using assms multiplicity_absent [of i os]
      by (force simp: multiplicity_def offsets_ok_def map_of_eq_None_iff dest: map_of_SomeD split: option.splits)
    finally show ?thesis .
  qed
  then show ?thesis
    by blast
qed

lemma sorted_Min: "offsets_sorted os \<Longrightarrow> os \<noteq> [] \<Longrightarrow> Min (sint ` fst ` set os) = sint (fst (hd os))"
  by (cases os) (force intro!: Min_eqI)+

lemma sorted_Max: "offsets_sorted os \<Longrightarrow> os \<noteq> [] \<Longrightarrow> Max (sint ` fst ` set os) = sint (fst (List.last os))"
  by (cases os rule: rev_cases) (force simp: offsets_sorted_def sorted_wrt_append intro!: Max_eqI)+

lemma acc_offsets:
  assumes "acc_ok c M" and "M \<noteq> {#}"
  shows "sint (min_offset c) = Min ((\<lambda>m. sint (x_queue_offset m)) ` set_mset M)"
    and "sint (max_offset c) = Max ((\<lambda>m. sint (x_queue_offset m)) ` set_mset M)"
proof -
  have ok: "offsets_ok (lc_offsets c) (image_mset x_queue_offset M)"
    using assms(1) by (simp add: acc_ok_def)
  from offsets_ok_set [OF this] have set: "x_queue_offset ` set_mset M = fst ` set (lc_offsets c)"
    by simp
  then have img: "(\<lambda>m. sint (x_queue_offset m)) ` set_mset M = sint ` fst ` set (lc_offsets c)"
    by (simp add: image_image flip: set)
  have "lc_offsets c \<noteq> []" "offsets_sorted (lc_offsets c)"
    using set assms(2) ok by (auto simp: offsets_ok_def)
  then show "sint (min_offset c) = Min ((\<lambda>m. sint (x_queue_offset m)) ` set_mset M)"
      and "sint (max_offset c) = Max ((\<lambda>m. sint (x_queue_offset m)) ` set_mset M)"
    unfolding img by (auto simp: sorted_Min sorted_Max min_offset_def max_offset_def neq_Nil_conv)
qed

lemma bytes_of_mset: "int (bytes_of (mset ms)) = scanned_bytes ms"
  by (induction ms) (simp_all add: scanned_bytes_def)

lemma of_key_messages: "of_key k (mset (lb_messages b)) = mset (queue_messages b k)"
  by (simp add: of_key_def queue_messages_def)

lemma buffer_ok_scan:
  assumes "buffer_ok b"
  shows "acc_ok (queue_cache b k) (mset (queue_messages b k))"
    and "rounds_ok (queue_cache b k) (length (queue_messages b k))"
    and "queue_messages b k = [] \<longleftrightarrow> map_of (lb_queues b) k = None"
  using assms by (auto simp: buffer_ok_def tracked_def queue_cache_at cache_at_None
    simp flip: of_key_messages size_mset mset_zero_iff dest!: spec [of _ k])

lemma length_le_sum: "0 \<notin> set xs \<Longrightarrow> length xs \<le> sum_list (xs :: nat list)"
  by (induction xs) auto

text \<open>
  C9. The accumulators never drift from the messages. After any sequence of appended batches, drained polls, seek
  prunings and queue revocations from the empty buffer, as long as fewer than 2^63 body bytes entered, the view of
  every queue has the number of its messages, their body bytes and their lowest and highest offset, its pull rounds
  add up to its messages, and it exists exactly if there is one.
\<close>

theorem accumulators_exact:
  assumes "bytes_of (mset (concat (map entered ops))) < 2 ^ 63"
  shows "let b = lite_run ops; c = queue_cache b k; ms = queue_messages b k in
     lc_count c = length ms \<and> sint (lc_bytes c) = scanned_bytes ms \<and>
     sum_list (lc_rounds c) = length ms \<and> pending_rounds c \<le> length ms \<and>
     (ms = [] \<longleftrightarrow> map_of (lb_queues b) k = None) \<and>
     (ms \<noteq> [] \<longrightarrow> sint (min_offset c) = Min (scanned_offsets ms) \<and> sint (max_offset c) = Max (scanned_offsets ms))"
proof -
  note ok = buffer_ok_scan [OF lite_run_ok [OF assms], of k]
  let ?c = "queue_cache (lite_run ops) k" and ?ms = "queue_messages (lite_run ops) k"
  have "lc_count ?c = length ?ms" "sint (lc_bytes ?c) = scanned_bytes ?ms"
    using ok(1) by (simp_all add: acc_ok_def bytes_of_mset)
  moreover have "sum_list (lc_rounds ?c) = length ?ms" "pending_rounds ?c \<le> length ?ms"
    using ok(2) length_le_sum [of "lc_rounds ?c"] by (auto simp: rounds_ok_def pending_rounds_def)
  moreover have "sint (min_offset ?c) = Min (scanned_offsets ?ms) \<and> sint (max_offset ?c) = Max (scanned_offsets ?ms)"
    if "?ms \<noteq> []"
    using acc_offsets [OF ok(1)] that by (simp add: scanned_offsets_def)
  ultimately show ?thesis
    using ok(3) by (simp add: Let_def)
qed

text \<open>The gates read off the messages themselves, in unbounded integers.\<close>

definition scan_gate :: "lite_gate_config \<Rightarrow> nat \<Rightarrow> message_ext list \<Rightarrow> lite_cache_gate option" where
  "scan_gate cfg rounds ms =
     (if sint (gc_pull_threshold_for_all cfg) < int rounds * max 1 (sint (gc_pull_batch_size cfg)) then Some GateAll
      else if ms = [] then None
      else if sint (gc_pull_threshold_for_queue cfg) < int (length ms) then Some GateCount
      else if sint (gc_pull_threshold_size_for_queue cfg) < scanned_bytes ms div 2 ^ 20 then Some GateSize
      else if sint (gc_consume_max_span cfg) < Max (scanned_offsets ms) - Min (scanned_offsets ms) then Some GateSpan
      else None)"

lemma sint_sat: "sint (word_of_int (max (- (2 ^ 63)) (min (2 ^ 63 - 1) x)) :: i64) = max (- (2 ^ 63)) (min (2 ^ 63 - 1) x)"
  by (rule sint_word_of_int_64) simp_all

lemma i32_bounds: "- (2 ^ 31) \<le> sint (a :: i32)" "sint (a :: i32) < 2 ^ 31"
  using sint_greater_eq [of a] sint_less [of a] by simp_all

lemma sint_i64_of_count: "sint (i64_of_count n) = min (2 ^ 63 - 1) (int n)"
  by (auto simp: i64_of_count_def sint_of_nat_small)

lemma threshold_sat:
  "(scast (a :: i32) :: i64) <s word_of_int (max (- (2 ^ 63)) (min (2 ^ 63 - 1) x)) \<longleftrightarrow> sint a < x"
  using i32_bounds [of a] unfolding word_sless_alt sint_sat by (auto simp: sint_widen)

lemma threshold_count: "(scast (a :: i32) :: i64) <s i64_of_count n \<longleftrightarrow> sint a < int n"
  using i32_bounds [of a] unfolding word_sless_alt sint_i64_of_count by (auto simp: sint_widen)

lemma aggregate_gate:
  "(scast (a :: i32) :: i64) <s saturating_mul (i64_of_count rounds)
     (if (1 :: i64) \<le>s scast (b :: i32) then scast b else 1) \<longleftrightarrow> sint a < int rounds * max 1 (sint b)"
proof -
  have batch: "sint (if (1 :: i64) \<le>s scast b then scast b else (1 :: i64)) = max 1 (sint b)"
    by (auto simp: word_sle_eq sint_widen)
  have "sint a < min (2 ^ 63 - 1) (int rounds) * max 1 (sint b) \<longleftrightarrow> sint a < int rounds * max 1 (sint b)"
  proof (cases "int rounds \<le> 2 ^ 63 - 1")
    case False
    then have "2 ^ 63 - 1 \<le> (2 ^ 63 - 1) * max 1 (sint b)" "2 ^ 63 - 1 \<le> int rounds * max 1 (sint b)"
      using mult_mono [of "2 ^ 63 - 1" "int rounds" 1 "max 1 (sint b)"] by simp_all
    with False i32_bounds [of a] show ?thesis
      by (simp add: min_def)
  qed (simp add: min_def)
  then show ?thesis
    unfolding saturating_mul_def threshold_sat sint_i64_of_count batch .
qed

lemma size_mib_scan:
  assumes "sint (lc_bytes c) = n" "0 \<le> n"
  shows "sint (size_mib c) = n div 2 ^ 20"
proof -
  have "sint CACHE_SIZE_GATE_MIB = 2 ^ 20"
    by (simp add: CACHE_SIZE_GATE_MIB_def)
  moreover have "n div 2 ^ 20 < 2 ^ 63"
    using assms sint_less [of "lc_bytes c"] by simp
  ultimately show ?thesis
    using assms by (simp add: size_mib_def word_sless_alt Let_def pos_imp_zdiv_nonneg_iff sint_word_of_int_64)
qed

lemma span_scan:
  assumes "0 \<le> sint (min_offset c)" "0 \<le> sint (max_offset c)"
  shows "sint (cache_span c) = sint (max_offset c) - sint (min_offset c)"
  unfolding cache_span_def
  using assms sint_less [of "max_offset c"] sint_less [of "min_offset c"] by (intro sint_diff_64) simp_all

lemma gate_by_scan:
  assumes acc: "acc_ok c (mset ms)" and offs: "\<forall>m \<in> set ms. 0 \<le> sint (x_queue_offset m)"
  shows "cache_gate cfg rounds c = scan_gate cfg rounds ms"
proof (cases "ms = []")
  case True
  with acc show ?thesis
    by (simp add: cache_gate_def scan_gate_def Let_def aggregate_gate acc_ok_def)
next
  case False
  have cnt: "lc_count c = length ms" and bytes: "sint (lc_bytes c) = scanned_bytes ms"
    using acc by (simp_all add: acc_ok_def bytes_of_mset)
  have "0 \<le> scanned_bytes ms"
    unfolding bytes_of_mset [symmetric] by simp
  note size = size_mib_scan [OF bytes this]
  have ends: "sint (min_offset c) = Min (scanned_offsets ms)" "sint (max_offset c) = Max (scanned_offsets ms)"
    using acc_offsets [OF acc] False by (simp_all add: scanned_offsets_def)
  have "0 \<le> Min (scanned_offsets ms)" "0 \<le> Max (scanned_offsets ms)"
    using offs False by (auto simp: scanned_offsets_def Max_ge_iff neq_Nil_conv)
  then have "sint (cache_span c) = Max (scanned_offsets ms) - Min (scanned_offsets ms)"
    using span_scan [of c] by (simp add: ends)
  then have "gc_consume_max_span cfg <s cache_span c \<longleftrightarrow>
      sint (gc_consume_max_span cfg) < Max (scanned_offsets ms) - Min (scanned_offsets ms)"
    by (simp add: word_sless_alt)
  moreover have "scast (gc_pull_threshold_size_for_queue cfg) <s size_mib c \<longleftrightarrow>
      sint (gc_pull_threshold_size_for_queue cfg) < scanned_bytes ms div 2 ^ 20"
    by (simp add: word_sless_alt sint_widen size)
  ultimately show ?thesis
    using False by (simp add: cache_gate_def scan_gate_def Let_def aggregate_gate threshold_count cnt)
qed

lemma lite_run_messages:
  assumes "bytes_of (mset (concat (map entered ops))) < 2 ^ 63"
  shows "set (lb_messages (lite_run ops)) \<subseteq> set (concat (map entered ops))"
proof -
  have "mset (lb_messages (lite_run ops)) \<subseteq># mset (concat (map entered ops))"
    using lite_fold_ok [of buffer_default ops] lite_run_ok [of "[]"] assms
    by (simp add: buffer_default_def)
  from set_mset_mono [OF this] show ?thesis
    by simp
qed

section \<open>The pending rounds\<close>

text \<open>
  A reference for the rounds that does not look at the accumulators: the messages that ever entered for a queue, in
  order, each with the number of the operation that brought it.
\<close>

definition entered_of :: "string \<Rightarrow> lite_op \<Rightarrow> nat" where
  "entered_of key op = length (filter (\<lambda>m. cache_key_of_message m = key) (entered op))"

definition round_numbers :: "nat list \<Rightarrow> nat list" where
  "round_numbers sizes = concat (map (\<lambda>(i, n). replicate n i) (enumerate 0 sizes))"

definition latest_rounds :: "lite_op list \<Rightarrow> message_ext list \<Rightarrow> string \<Rightarrow> nat" where
  "latest_rounds ops ms key =
     card (set (take (length (filter (\<lambda>m. cache_key_of_message m = key) ms))
       (rev (round_numbers (map (entered_of key) ops)))))"

definition scanned_rounds :: "lite_op list \<Rightarrow> message_ext list \<Rightarrow> nat" where
  "scanned_rounds ops ms = (\<Sum>key \<in> cache_key_of_message ` set ms. latest_rounds ops ms key)"

text \<open>The rounds of an accumulator are the last ones that were booked, the oldest of them perhaps in part.\<close>

definition booked_last :: "nat list \<Rightarrow> nat list \<Rightarrow> bool" where
  "booked_last rounds sizes \<longleftrightarrow> rounds = [] \<or>
     (\<exists>pre f n rest. rounds = f # rest \<and> filter ((<) 0) sizes = pre @ n # rest \<and> 0 < f \<and> f \<le> n)"

lemma round_numbers_snoc: "round_numbers (sizes @ [n]) = round_numbers sizes @ replicate n (length sizes)"
  by (simp add: round_numbers_def enumerate_append_eq)

lemma round_numbers_bound: "i \<in> set (round_numbers sizes) \<Longrightarrow> i < length sizes"
  by (auto simp: round_numbers_def in_set_enumerate_eq)

lemma booked_last_skip: "booked_last rounds (sizes @ [0]) = booked_last rounds sizes"
  by (simp add: booked_last_def)

lemma booked_last_card:
  "booked_last rounds sizes \<Longrightarrow> card (set (take (sum_list rounds) (rev (round_numbers sizes)))) = length rounds"
proof (induction sizes arbitrary: rounds rule: rev_induct)
  case Nil
  then show ?case
    by (simp add: booked_last_def)
next
  case (snoc n sizes)
  show ?case
  proof (cases "rounds = [] \<or> n = 0")
    case True
    then show ?thesis
      using snoc.IH [of rounds] snoc.prems by (auto simp: booked_last_skip round_numbers_snoc)
  next
    case False
    with snoc.prems obtain pre f k rest where r: "rounds = f # rest"
        "filter ((<) 0) sizes @ [n] = pre @ k # rest" "0 < f" "f \<le> k"
      by (auto simp: booked_last_def)
    show ?thesis
    proof (cases rest rule: rev_cases)
      case Nil
      with r have "f \<le> n"
        by simp
      with Nil r show ?thesis
        by (simp add: round_numbers_snoc)
    next
      case (snoc rest' k')
      with r have k': "k' = n" and "filter ((<) 0) sizes = pre @ k # rest'"
        by (simp_all flip: append_assoc append_Cons)
      with r have "booked_last (f # rest') sizes"
        unfolding booked_last_def by blast
      from snoc.IH [OF this]
      have IH: "card (set (take (f + sum_list rest') (rev (round_numbers sizes)))) = Suc (length rest')"
        by simp
      have "take (f + sum_list rest' + n) (rev (round_numbers (sizes @ [n])))
          = replicate n (length sizes) @ take (f + sum_list rest') (rev (round_numbers sizes))"
        by (simp add: round_numbers_snoc)
      moreover have "length sizes \<notin> set (take (f + sum_list rest') (rev (round_numbers sizes)))"
        using round_numbers_bound by (force dest: in_set_takeD)
      ultimately show ?thesis
        using IH False by (simp add: r(1) snoc k' add.assoc)
    qed
  qed
qed

lemma booked_last_take: "booked_last rounds sizes \<Longrightarrow> booked_last (take_from_round rounds) sizes"
proof -
  assume b: "booked_last rounds sizes"
  show ?thesis
  proof (cases "rounds = []")
    case False
    with b obtain pre f n rest where r: "rounds = f # rest" "filter ((<) 0) sizes = pre @ n # rest" "0 < f" "f \<le> n"
      by (auto simp: booked_last_def)
    show ?thesis
    proof (cases "f - 1 = 0")
      case True
      have "booked_last rest sizes"
      proof (cases rest)
        case (Cons g rest')
        then have "filter ((<) 0) sizes = (pre @ [n]) @ g # rest'"
          using r(2) by simp
        moreover from r(2) Cons have "g \<in> set (filter ((<) 0) sizes)"
          by simp
        then have "0 < g"
          by simp
        ultimately show ?thesis
          unfolding booked_last_def using Cons by blast
      qed (simp add: booked_last_def)
      with True r show ?thesis
        by simp
    next
      case False
      then have "0 < f - 1" "f - 1 \<le> n"
        using r by simp_all
      with r(2) have "booked_last ((f - 1) # rest) sizes"
        unfolding booked_last_def by blast
      with False r(1) show ?thesis
        by simp
    qed
  qed (simp add: booked_last_def)
qed

lemma booked_last_book: "booked_last rounds sizes \<Longrightarrow> 0 < n \<Longrightarrow> booked_last (rounds @ [n]) (sizes @ [n])"
  by (cases rounds) (auto simp: booked_last_def)

lemma booked_last_Nil [simp]: "booked_last [] sizes"
  by (simp add: booked_last_def)

definition booked_queues :: "(string \<times> lite_queue_cache) list \<Rightarrow> (string \<Rightarrow> nat list) \<Rightarrow> bool" where
  "booked_queues qs sizes \<longleftrightarrow> (\<forall>key. booked_last (lc_rounds (cache_at qs key)) (sizes key))"

lemma cache_default_rounds [simp]: "lc_rounds cache_default = []"
  by (simp add: cache_default_def)

lemma rounds_after [simp]:
  "lc_rounds (cache_remove m c) = take_from_round (lc_rounds c)" "lc_rounds (cache_add m c) = lc_rounds c"
  "lc_rounds (begin_round n c) = lc_rounds c @ (if 0 < n then [n] else [])"
  by (simp_all add: cache_remove_def cache_add_def begin_round_def)

lemma booked_queues_leave:
  "booked_queues qs sizes \<Longrightarrow> booked_queues (leave_queue k m qs) sizes"
  "booked_queues qs sizes \<Longrightarrow> booked_queues (prune_queue k m qs) sizes"
  "booked_queues qs sizes \<Longrightarrow> booked_queues (AList.delete k qs) sizes"
  using cache_at_Some [of qs k]
  by (auto simp: booked_queues_def leave_queue_def prune_queue_def Let_def booked_last_take split: option.split)

lemma booked_queues_fold:
  "booked_queues qs sizes \<Longrightarrow> booked_queues (fold (\<lambda>m. leave_queue (cache_key_of_message m) m) ms qs) sizes"
  "booked_queues qs sizes \<Longrightarrow> booked_queues (fold (prune_queue k) ms qs) sizes"
  by (induction ms arbitrary: qs) (simp_all add: booked_queues_leave)

lemma extend_loop_rounds:
  "lc_rounds (cache_at (lb_queues (extend_loop sizes ms b)) key) =
   lc_rounds (cache_at (lb_queues b) key) @
     (case map_of sizes key of
        Some n \<Rightarrow> if 0 < n \<and> key \<in> cache_key_of_message ` set ms then [n] else []
      | None \<Rightarrow> [])"
  by (induction ms arbitrary: sizes b)
     (auto simp: Let_def queue_cache_at AList.delete_conv' split: option.splits)

lemma entered_of_size: "entered_of key op = size (of_key key (mset (entered op)))"
  by (simp add: entered_of_def of_key_def flip: size_mset mset_filter)

lemma buffer_extend_rounds:
  "lc_rounds (cache_at (lb_queues (buffer_extend ms b)) key) =
   lc_rounds (cache_at (lb_queues b) key) @ (if entered_of key (Extend ms) = 0 then [] else [entered_of key (Extend ms)])"
proof (cases "of_key key (mset ms) = {#}")
  case False
  then have "key \<in> cache_key_of_message ` set ms"
    by (auto simp: of_key_def filter_mset_eq_conv filter_empty_conv simp flip: mset_filter)
  with False show ?thesis
    by (simp add: buffer_extend_def extend_loop_rounds map_of_round_sizes entered_of_size nonempty_has_size)
qed (simp add: buffer_extend_def extend_loop_rounds map_of_round_sizes entered_of_size)

lemma lite_apply_booked:
  assumes "booked_queues (lb_queues b) sizes"
  shows "booked_queues (lb_queues (lite_apply op b)) (\<lambda>key. sizes key @ [entered_of key op])"
proof (cases op)
  case (Extend ms)
  with assms show ?thesis
    by (auto simp: booked_queues_def buffer_extend_rounds booked_last_skip booked_last_book)
next
  case (Drain n)
  with assms show ?thesis
    by (simp add: entered_of_def booked_queues_def booked_last_skip drain_prefix_def Let_def
        booked_queues_fold [unfolded booked_queues_def])
next
  case (Prune mq offset)
  from assms have "booked_queues (fold (prune_queue (mq_key mq)) (filter (pruned mq offset) (lb_messages b)) (lb_queues b)) sizes"
    by (rule booked_queues_fold)
  with Prune booked_queues_leave(3) [OF this] show ?thesis
    by (simp add: entered_of_def booked_queues_def booked_last_skip prune_before_def Let_def split: option.split)
next
  case (Revoke key)
  with assms booked_queues_leave(3) [OF assms] show ?thesis
    by (simp add: entered_of_def booked_queues_def booked_last_skip revoke_queue_def Let_def)
qed

lemma lite_run_booked: "booked_queues (lb_queues (lite_run ops)) (\<lambda>key. map (entered_of key) ops)"
proof (induction ops rule: rev_induct)
  case Nil
  show ?case
    by (simp add: booked_queues_def buffer_default_def cache_at_def)
next
  case (snoc op ops)
  from lite_apply_booked [OF this] show ?case
    by simp
qed

lemma queue_rounds_scan:
  assumes "buffer_ok (lite_run ops)"
  shows "pending_rounds (queue_cache (lite_run ops) key) = latest_rounds ops (lb_messages (lite_run ops)) key"
proof -
  have "sum_list (lc_rounds (queue_cache (lite_run ops) key)) = length (queue_messages (lite_run ops) key)"
    using buffer_ok_scan(2) [OF assms, of key] by (simp add: rounds_ok_def)
  moreover have "booked_last (lc_rounds (queue_cache (lite_run ops) key)) (map (entered_of key) ops)"
    using lite_run_booked [of ops] by (simp add: booked_queues_def queue_cache_at)
  ultimately show ?thesis
    using booked_last_card [of "lc_rounds (queue_cache (lite_run ops) key)" "map (entered_of key) ops"]
    by (simp add: latest_rounds_def pending_rounds_def queue_messages_def)
qed

lemma pending_rounds_scan:
  assumes "buffer_ok (lite_run ops)"
  shows "pending_pull_rounds (lite_run ops) = scanned_rounds ops (lb_messages (lite_run ops))"
proof -
  let ?b = "lite_run ops"
  have dist: "distinct (map fst (lb_queues ?b))"
    using assms by (simp add: buffer_ok_def)
  have keys: "fst ` set (lb_queues ?b) = cache_key_of_message ` set (lb_messages ?b)"
  proof -
    have "key \<in> fst ` set (lb_queues ?b) \<longleftrightarrow> key \<in> cache_key_of_message ` set (lb_messages ?b)" for key
      using buffer_ok_scan(3) [OF assms, of key] by (auto simp: queue_messages_def filter_empty_conv map_of_eq_None_iff)
    then show ?thesis
      by blast
  qed
  have "pending_pull_rounds ?b = (\<Sum>key \<leftarrow> map fst (lb_queues ?b). pending_rounds (queue_cache ?b key))"
    using dist unfolding pending_pull_rounds_def map_map
    by (intro arg_cong [where f = sum_list] map_cong) (auto simp: queue_cache_def)
  also have "\<dots> = (\<Sum>key \<in> fst ` set (lb_queues ?b). pending_rounds (queue_cache ?b key))"
    using dist by (simp only: sum_list_distinct_conv_sum_set list.set_map)
  finally show ?thesis
    by (simp only: keys scanned_rounds_def queue_rounds_scan [OF assms])
qed


section \<open>Concrete runs\<close>

definition row_queue :: message_queue where "row_queue = MessageQueue ''T'' ''b'' 0"

definition cached_row :: "i64 \<Rightarrow> message_ext" where
  "cached_row offset = message_ext_new\<lparr>m_topic := ''T'', m_body := Some [1, 2],
     x_broker_name := Some ''b'', x_queue_id := 0, x_queue_offset := offset\<rparr>"

lemma cached_row_simps [simp]:
  "cache_key_of_message (cached_row n) = mq_key row_queue"
  "is_this_queue row_queue (cached_row n)"
  "length (get_body (cached_row n)) = 2" "x_queue_offset (cached_row n) = n"
  by (simp_all add: cached_row_def row_queue_def cache_key_of_message_def mq_key_def is_this_queue_def get_body_def)

theorem accumulators_exact_witness:
  "let ops = [Extend [cached_row 7, cached_row 8, cached_row 9], Drain 1];
       c = queue_cache (lite_run ops) (mq_key row_queue)
   in lc_count c = 2 \<and> sint (lc_bytes c) = 4 \<and> sint (min_offset c) = 8 \<and> sint (max_offset c) = 9"
proof -
  let ?ops = "[Extend [cached_row 7, cached_row 8, cached_row 9], Drain 1]"
  have "bytes_of (mset (concat (map entered ?ops))) < 2 ^ 63"
    by simp
  moreover have "queue_messages (lite_run ?ops) (mq_key row_queue) = [cached_row 8, cached_row 9]"
    by (simp add: queue_messages_def buffer_default_def)
  ultimately show ?thesis
    using accumulators_exact [of ?ops "mq_key row_queue"]
    by (simp only: Let_def) (simp add: scanned_bytes_def scanned_offsets_def)
qed

text \<open>
  The pending rounds can outlive their messages. Offsets 10 to 12 are cached, a seek back to 5 keeps them, a
  second round caches 5 and 6, and a seek to 8 drops these two: they are charged to the first round, so two rounds
  stay booked although only the first one has messages left, and the aggregate gate reserves two batches.
\<close>

theorem rewind_leaves_rounds_pending:
  "let ops = [Extend [cached_row 10, cached_row 11, cached_row 12], Prune row_queue 5,
              Extend [cached_row 5, cached_row 6], Prune row_queue 8]
   in lb_messages (lite_run ops) = [cached_row 10, cached_row 11, cached_row 12]
      \<and> pending_pull_rounds (lite_run ops) = 2"
  by (simp add: pending_pull_rounds_def buffer_extend_def round_sizes_def buffer_default_def Let_def pruned_def
      queue_cache_def cache_default_def begin_round_def cache_add_def cache_remove_def pending_rounds_def
      prune_before_def prune_queue_def)

text \<open>
  Two queues can share a key. The key concatenates the topic, the broker name and the queue id without a
  separator, so queue 11 of \<open>broker-1\<close> and queue 1 of \<open>broker-11\<close> have the same one, and revoking the first drops
  every cached message of the second.
\<close>

theorem key_collision_revokes_other_queue:
  "let a = MessageQueue ''T'' ''broker-1'' 11; b = MessageQueue ''T'' ''broker-11'' 1
   in a \<noteq> b \<and> filter (is_this_queue b) (lb_messages (snd (revoke_queue (mq_key a) buf))) = []"
proof -
  have "mq_key (MessageQueue ''T'' ''broker-1'' 11) = mq_key (MessageQueue ''T'' ''broker-11'' 1)"
    by code_simp
  then show ?thesis
    by (auto simp: Let_def filter_empty_conv key_of_this_queue)
qed

end
