(* ===== verification/Heartbeat.thy ===== *)
theory Heartbeat
  imports Json_Fields Message
begin

text \<open>
  The heartbeat bodies and the tag expressions of \<open>src/rust/src/remoting/protocol/heartbeat.rs\<close>, and the tag filter
  of \<open>src/rust/src/client/consumer.rs\<close> that a subscription drives on the client. The clock is an argument of the
  builders, and the debug text of a JSON value is a parameter of the readers that print it.
\<close>

section \<open>Subscriptions\<close>

definition CONSUME_PASSIVELY :: string where "CONSUME_PASSIVELY = ''CONSUME_PASSIVELY''"
definition CONSUME_ACTIVELY :: string where "CONSUME_ACTIVELY = ''CONSUME_ACTIVELY''"
definition CLUSTERING :: string where "CLUSTERING = ''CLUSTERING''"
definition CONSUME_FROM_LAST_OFFSET :: string where "CONSUME_FROM_LAST_OFFSET = ''CONSUME_FROM_LAST_OFFSET''"
definition EXPRESSION_TAG :: string where "EXPRESSION_TAG = ''TAG''"
definition SUB_ALL :: string where "SUB_ALL = ''*''"

definition is_tag_type :: "string \<Rightarrow> bool" where
  "is_tag_type ty \<longleftrightarrow> ty = [] \<or> ty = EXPRESSION_TAG"

record subscription_data =
  sd_class_filter_mode :: bool
  sd_topic :: string
  sd_sub_string :: string
  sd_tags_set :: "string list"
  sd_code_set :: "i32 list"
  sd_sub_version :: i64
  sd_expression_type :: string

definition subscription_default :: "i64 \<Rightarrow> subscription_data" where
  "subscription_default now_millis = \<lparr>sd_class_filter_mode = False, sd_topic = [], sd_sub_string = [],
     sd_tags_set = [], sd_code_set = [], sd_sub_version = now_millis, sd_expression_type = EXPRESSION_TAG\<rparr>"

definition subscription_new :: "i64 \<Rightarrow> string \<Rightarrow> string \<Rightarrow> subscription_data" where
  "subscription_new now_millis topic sub_string =
     (subscription_default now_millis)\<lparr>sd_topic := topic, sd_sub_string := sub_string\<rparr>"

text \<open>\<open>sort\<close> and \<open>dedup\<close>.\<close>

definition sorted_tags :: "string list \<Rightarrow> string list" where
  "sorted_tags tags = remdups_adj (sort tags)"

definition sorted_codes :: "i32 list \<Rightarrow> i32 list" where
  "sorted_codes codes = remdups_adj (sort_key sint codes)"

definition set_tags :: "string list \<Rightarrow> i32 list \<Rightarrow> subscription_data \<Rightarrow> subscription_data" where
  "set_tags tags codes sub = sub\<lparr>sd_tags_set := sorted_tags tags, sd_code_set := sorted_codes codes\<rparr>"

definition subscription_to_json :: "subscription_data \<Rightarrow> json" where
  "subscription_to_json s = json_object
     [(''classFilterMode'', JBool (sd_class_filter_mode s)),
      (''topic'', JString (sd_topic s)),
      (''subString'', JString (sd_sub_string s)),
      (''tagsSet'', JArray (map JString (sd_tags_set s))),
      (''codeSet'', JArray (map json_of_i32 (sd_code_set s))),
      (''subVersion'', JNumber (number_of_i64 (sd_sub_version s))),
      (''expressionType'', JString (sd_expression_type s))]"

definition read_tag :: "(json \<Rightarrow> string) \<Rightarrow> (json \<Rightarrow> string) \<Rightarrow> json \<Rightarrow> string result" where
  "read_tag debug to_string item = (case item of
     JString s \<Rightarrow> Inr s
   | JNumber _ \<Rightarrow> Inr (to_string item)
   | JBool _ \<Rightarrow> Inr (to_string item)
   | _ \<Rightarrow> fail (Decode (''SubscriptionData.tagsSet item '' @ debug item @ '' is not a string'')))"

definition read_code :: "(json \<Rightarrow> string) \<Rightarrow> json \<Rightarrow> i32 result" where
  "read_code debug item = ok_or
     (case item of
        JNumber n \<Rightarrow> Some (ucast (case number_as_i64 n of Some v \<Rightarrow> v | None \<Rightarrow> f64_as_i64 (number_as_f64 n)))
      | JString s \<Rightarrow> parse_i32 (str_trim s)
      | _ \<Rightarrow> None)
     (Decode (''codeSet item '' @ debug item @ '' is not an int''))"

definition subscription_from_json :: "(json \<Rightarrow> string) \<Rightarrow> (json \<Rightarrow> string) \<Rightarrow> json \<Rightarrow> subscription_data result" where
  "subscription_from_json debug to_string value =
     bind_result (expect_object to_string value ''SubscriptionData'') (\<lambda>_.
     bind_result (jarray value ''tagsSet'') (\<lambda>items.
     bind_result (map_result (read_tag debug to_string) items) (\<lambda>tags.
     bind_result (jarray value ''codeSet'') (\<lambda>items.
     bind_result (map_result (read_code debug) items) (\<lambda>codes. Inr
       \<lparr>sd_class_filter_mode = jboolean value ''classFilterMode'' False,
        sd_topic = jstring_or to_string value ''topic'' [],
        sd_sub_string = jstring_or to_string value ''subString'' [],
        sd_tags_set = sorted_tags tags, sd_code_set = sorted_codes codes,
        sd_sub_version = jlong value ''subVersion'' 0,
        sd_expression_type = jstring_or to_string value ''expressionType'' EXPRESSION_TAG\<rparr>)))))"

section \<open>Tag expressions\<close>

text \<open>\<open>split\<close> on a separator text, from the left and without overlaps.\<close>

function str_split_on :: "string \<Rightarrow> string \<Rightarrow> string list" where
  "str_split_on sep s =
     (if s = [] then [[]]
      else if sep \<noteq> [] \<and> starts_with s sep then [] # str_split_on sep (drop (length sep) s)
      else (hd s # hd (str_split_on sep (tl s))) # tl (str_split_on sep (tl s)))"
  by pat_completeness auto
termination
  by (relation "measure (\<lambda>(_, s). length s)") auto

declare str_split_on.simps [simp del]

text \<open>The trailing empty parts are popped.\<close>

definition drop_trailing_empty :: "string list \<Rightarrow> string list" where
  "drop_trailing_empty parts = rev (dropWhile (\<lambda>p. p = []) (rev parts))"

definition normalise_sub_all :: "subscription_data \<Rightarrow> subscription_data" where
  "normalise_sub_all sub = sub\<lparr>sd_sub_string := SUB_ALL, sd_tags_set := [], sd_code_set := []\<rparr>"

definition build_subscription_data :: "i64 \<Rightarrow> string \<Rightarrow> string option \<Rightarrow> subscription_data result" where
  "build_subscription_data now_millis topic sub_string =
     (let sub = subscription_new now_millis topic (case sub_string of Some s \<Rightarrow> s | None \<Rightarrow> [])
      in case sub_string of
        None \<Rightarrow> Inr (normalise_sub_all sub)
      | Some raw \<Rightarrow>
          if raw = [] \<or> raw = SUB_ALL then Inr (normalise_sub_all sub)
          else let parts = drop_trailing_empty (str_split_on ''||'' raw) in
            if parts = [] then fail (client_err ''subString split error'')
            else let tags = filter (\<lambda>tag. tag \<noteq> []) (map str_trim parts)
              in Inr (set_tags tags (map java_string_hash tags) sub))"

definition filter_api_build :: "i64 \<Rightarrow> string \<Rightarrow> string \<Rightarrow> string option \<Rightarrow> subscription_data result" where
  "filter_api_build now_millis topic sub_string expression_type =
     (case expression_type of
        None \<Rightarrow> build_subscription_data now_millis topic (Some sub_string)
      | Some ty \<Rightarrow>
          if ty = EXPRESSION_TAG
          then bind_result (build_subscription_data now_millis topic (Some sub_string))
                 (\<lambda>sub. Inr (sub\<lparr>sd_expression_type := ty\<rparr>))
          else if sub_string = []
          then fail (client_err (''Expression can't be null! '' @ ty))
          else Inr ((subscription_default now_millis)\<lparr>sd_topic := topic, sd_sub_string := sub_string,
                 sd_expression_type := ty\<rparr>))"

definition get_tags :: "'a message_scheme \<Rightarrow> string option" where
  "get_tags msg = get_property msg PROPERTY_TAGS"

definition client_side_tag_filter :: "subscription_data option \<Rightarrow> message_ext list \<Rightarrow> message_ext list" where
  "client_side_tag_filter sub msgs = (case sub of
     None \<Rightarrow> msgs
   | Some sub \<Rightarrow>
       if msgs = [] \<or> sd_tags_set sub = [] \<or> sd_class_filter_mode sub then msgs
       else filter (\<lambda>m. case get_tags m of Some t \<Rightarrow> t \<in> set (sd_tags_set sub) | None \<Rightarrow> False) msgs)"

section \<open>Heartbeats\<close>

record producer_data =
  pd_group_name :: string

definition producer_to_json :: "producer_data \<Rightarrow> json" where
  "producer_to_json p = json_object [(''groupName'', JString (pd_group_name p))]"

definition producer_from_json :: "(json \<Rightarrow> string) \<Rightarrow> json \<Rightarrow> producer_data result" where
  "producer_from_json to_string value =
     bind_result (expect_object to_string value ''ProducerData'') (\<lambda>_.
       Inr \<lparr>pd_group_name = jstring_or to_string value ''groupName'' []\<rparr>)"

record consumer_data =
  cd_group_name :: string
  cd_consume_type :: string
  cd_message_model :: string
  cd_consume_from_where :: string
  cd_subscription_data_set :: "subscription_data list"
  cd_unit_mode :: bool

definition consumer_data_new :: "string \<Rightarrow> string \<Rightarrow> string \<Rightarrow> string \<Rightarrow> consumer_data" where
  "consumer_data_new group_name consume_type message_model consume_from_where =
     \<lparr>cd_group_name = group_name, cd_consume_type = consume_type, cd_message_model = message_model,
      cd_consume_from_where = consume_from_where, cd_subscription_data_set = [], cd_unit_mode = False\<rparr>"

definition add_subscription_data :: "subscription_data \<Rightarrow> consumer_data \<Rightarrow> consumer_data" where
  "add_subscription_data sub c =
     (if sub \<in> set (cd_subscription_data_set c) then c
      else c\<lparr>cd_subscription_data_set := cd_subscription_data_set c @ [sub]\<rparr>)"

definition consumer_to_json :: "consumer_data \<Rightarrow> json" where
  "consumer_to_json c = json_object
     [(''groupName'', JString (cd_group_name c)),
      (''consumeType'', JString (cd_consume_type c)),
      (''messageModel'', JString (cd_message_model c)),
      (''consumeFromWhere'', JString (cd_consume_from_where c)),
      (''subscriptionDataSet'', JArray (map subscription_to_json (cd_subscription_data_set c))),
      (''unitMode'', JBool (cd_unit_mode c))]"

definition consumer_from_json :: "(json \<Rightarrow> string) \<Rightarrow> (json \<Rightarrow> string) \<Rightarrow> json \<Rightarrow> consumer_data result" where
  "consumer_from_json debug to_string value =
     bind_result (expect_object to_string value ''ConsumerData'') (\<lambda>_.
     bind_result (jarray value ''subscriptionDataSet'') (\<lambda>items.
     bind_result (map_result (subscription_from_json debug to_string) items) (\<lambda>subs. Inr
       \<lparr>cd_group_name = jstring_or to_string value ''groupName'' [],
        cd_consume_type = jstring_or to_string value ''consumeType'' CONSUME_PASSIVELY,
        cd_message_model = jstring_or to_string value ''messageModel'' CLUSTERING,
        cd_consume_from_where = jstring_or to_string value ''consumeFromWhere'' CONSUME_FROM_LAST_OFFSET,
        cd_subscription_data_set = subs, cd_unit_mode = jboolean value ''unitMode'' False\<rparr>)))"

record heartbeat_data =
  hb_client_id :: string
  hb_producer_data_set :: "producer_data list"
  hb_consumer_data_set :: "consumer_data list"
  hb_heartbeat_fingerprint :: i32
  hb_without_sub :: bool

definition heartbeat_new :: "string \<Rightarrow> heartbeat_data" where
  "heartbeat_new client_id = \<lparr>hb_client_id = client_id, hb_producer_data_set = [], hb_consumer_data_set = [],
     hb_heartbeat_fingerprint = 0, hb_without_sub = False\<rparr>"

definition add_producer_data :: "producer_data \<Rightarrow> heartbeat_data \<Rightarrow> heartbeat_data" where
  "add_producer_data p h = (if p \<in> set (hb_producer_data_set h) then h
     else h\<lparr>hb_producer_data_set := hb_producer_data_set h @ [p]\<rparr>)"

definition add_consumer_data :: "consumer_data \<Rightarrow> heartbeat_data \<Rightarrow> heartbeat_data" where
  "add_consumer_data c h = (if c \<in> set (hb_consumer_data_set h) then h
     else h\<lparr>hb_consumer_data_set := hb_consumer_data_set h @ [c]\<rparr>)"

definition heartbeat_to_json :: "heartbeat_data \<Rightarrow> json" where
  "heartbeat_to_json h = json_object
     [(''clientID'', JString (hb_client_id h)),
      (''consumerDataSet'', JArray (map consumer_to_json (hb_consumer_data_set h))),
      (''heartbeatFingerprint'', JNumber (number_of_i64 (scast (hb_heartbeat_fingerprint h)))),
      (''producerDataSet'', JArray (map producer_to_json (hb_producer_data_set h))),
      (''withoutSub'', JBool (hb_without_sub h))]"

definition heartbeat_from_json :: "(json \<Rightarrow> string) \<Rightarrow> (json \<Rightarrow> string) \<Rightarrow> json \<Rightarrow> heartbeat_data result" where
  "heartbeat_from_json debug to_string value =
     bind_result (expect_object to_string value ''HeartbeatData'') (\<lambda>_.
     bind_result (jarray value ''producerDataSet'') (\<lambda>items.
     bind_result (map_result (producer_from_json to_string) items) (\<lambda>producers.
     bind_result (jarray value ''consumerDataSet'') (\<lambda>items.
     bind_result (map_result (consumer_from_json debug to_string) items) (\<lambda>consumers. Inr
       \<lparr>hb_client_id = jstring_or to_string value ''clientID'' [],
        hb_producer_data_set = producers, hb_consumer_data_set = consumers,
        hb_heartbeat_fingerprint = ucast (jlong value ''heartbeatFingerprint'' 0),
        hb_without_sub = jboolean value ''withoutSub'' (jboolean value ''isWithoutSub'' False)\<rparr>)))))"

definition heartbeat_encode :: "(json \<Rightarrow> bytes option) \<Rightarrow> heartbeat_data \<Rightarrow> bytes" where
  "heartbeat_encode to_vec h = json_encode to_vec (heartbeat_to_json h)"

definition heartbeat_decode :: "(json \<Rightarrow> string) \<Rightarrow> (json \<Rightarrow> string) \<Rightarrow> bytes \<Rightarrow> heartbeat_data fueled" where
  "heartbeat_decode debug to_string = body_decode (heartbeat_from_json debug to_string)"

text \<open>The copy whose text the fingerprint hashes.\<close>

definition canonical :: "heartbeat_data \<Rightarrow> heartbeat_data" where
  "canonical h = h\<lparr>hb_consumer_data_set := map (\<lambda>c. c\<lparr>cd_subscription_data_set :=
       map (\<lambda>s. s\<lparr>sd_sub_version := 0\<rparr>) (cd_subscription_data_set c)\<rparr>) (hb_consumer_data_set h),
     hb_without_sub := False, hb_heartbeat_fingerprint := 0, hb_client_id := []\<rparr>"

definition compute_heartbeat_fingerprint :: "(json \<Rightarrow> string) \<Rightarrow> heartbeat_data \<Rightarrow> i32" where
  "compute_heartbeat_fingerprint to_json_string h = java_string_hash (to_json_string (heartbeat_to_json (canonical h)))"

definition without_sub_copy :: "heartbeat_data \<Rightarrow> heartbeat_data" where
  "without_sub_copy h = h\<lparr>hb_consumer_data_set :=
     map (\<lambda>c. c\<lparr>cd_subscription_data_set := []\<rparr>) (hb_consumer_data_set h), hb_without_sub := True\<rparr>"

record heartbeat_v2_result =
  v2_version :: i32
  v2_sub_change :: bool
  v2_support_v2 :: bool

definition is_ext_true :: "remoting_command \<Rightarrow> string \<Rightarrow> bool" where
  "is_ext_true response key = (case get_ext_field response key of
     Some v \<Rightarrow> eq_ignore_ascii_case (str_trim v) ''true'' | None \<Rightarrow> False)"

definition v2_from_response :: "remoting_command \<Rightarrow> heartbeat_v2_result" where
  "v2_from_response response = \<lparr>v2_version = c_version response,
     v2_sub_change = is_ext_true response ''IS_SUB_CHANGE'',
     v2_support_v2 = is_ext_true response ''IS_SUPPORT_HEART_BEAT_V2''\<rparr>"

section \<open>Tags\<close>

lemma remdups_adj_sorted_key:
  "inj f \<Longrightarrow> sorted_wrt (<) (map (f :: 'a \<Rightarrow> 'b::linorder) (remdups_adj (sort_key f xs)))"
proof -
  assume f: "inj f"
  have *: "sorted_wrt (\<lambda>a b. f a < f b) (remdups_adj ys)" if "sorted (map f ys)" for ys
    using that
  proof (induction ys rule: remdups_adj.induct)
    case (3 x y ys)
    then show ?case
      using f by (auto simp: less_le inj_eq)
  qed auto
  show ?thesis
    using * [OF sorted_sort_key] by (simp add: sorted_wrt_map)
qed

lemma sorted_tags_facts: "set (sorted_tags ts) = set ts" "sorted_wrt (<) (sorted_tags ts)"
  using remdups_adj_sorted_key [of "\<lambda>x :: string. x" ts] by (simp_all add: sorted_tags_def)

lemma sint_inj: "inj (sint :: 'a::len word \<Rightarrow> int)"
  by (simp add: inj_def signed_word_eqI)

lemma sorted_codes_facts: "set (sorted_codes cs) = set cs" "sorted_wrt (<) (map sint (sorted_codes cs))"
  using remdups_adj_sorted_key [OF sint_inj, of cs] by (simp_all add: sorted_codes_def)

lemma strict_sorted_distinct: "sorted_wrt (<) (map (f :: 'a \<Rightarrow> 'b::linorder) xs) \<Longrightarrow> distinct xs \<and> sorted (map f xs)"
  by (induction xs) (auto simp: less_le)

lemma sorted_again:
  "sorted_wrt (<) ts \<Longrightarrow> sorted_tags ts = ts" "sorted_wrt (<) (map sint cs) \<Longrightarrow> sorted_codes cs = cs"
  using strict_sorted_distinct [of "\<lambda>x. x" ts] strict_sorted_distinct [of sint cs]
  by (simp_all add: sorted_tags_def sorted_codes_def sort_key_id_if_sorted remdups_adj_distinct sorted_sort_id)

lemma split_on_free: "\<forall>c \<in> set s. c \<noteq> CHR ''|'' \<Longrightarrow> str_split_on ''||'' s = [s]"
proof (induction s)
  case (Cons c s)
  then show ?case
    by (subst str_split_on.simps) (simp add: starts_with_def)
qed (simp add: str_split_on.simps)

lemma split_on_append:
  "\<forall>c \<in> set s. c \<noteq> CHR ''|'' \<Longrightarrow> str_split_on ''||'' (s @ ''||'' @ t) = s # str_split_on ''||'' t"
proof (induction s)
  case Nil
  then show ?case
    by (subst str_split_on.simps) (simp add: starts_with_def)
next
  case (Cons c s)
  then show ?case
    by (subst str_split_on.simps) (simp add: starts_with_def)
qed

lemma split_on_join:
  "ts \<noteq> [] \<Longrightarrow> \<forall>t \<in> set ts. CHR ''|'' \<notin> set t \<Longrightarrow> str_split_on ''||'' (str_join ''||'' ts) = ts"
proof (induction ts rule: induct_list012)
  case (2 t)
  then show ?case
    by (simp add: split_on_free) (metis split_on_free)
next
  case (3 t u ts)
  then show ?case
    using split_on_append [of t "str_join ''||'' (u # ts)"] by auto
qed simp

lemma drop_trailing_empty_parts:
  "drop_trailing_empty ps = [] \<longleftrightarrow> (\<forall>p \<in> set ps. p = [])"
  "set (drop_trailing_empty ps) \<subseteq> set ps" "set ps \<subseteq> insert [] (set (drop_trailing_empty ps))"
proof -
  show "drop_trailing_empty ps = [] \<longleftrightarrow> (\<forall>p \<in> set ps. p = [])"
    by (simp add: drop_trailing_empty_def)
  show "set (drop_trailing_empty ps) \<subseteq> set ps"
    by (auto simp: drop_trailing_empty_def dest: set_dropWhileD)
  have "set xs \<subseteq> insert [] (set (dropWhile (\<lambda>p. p = []) xs))" for xs :: "string list"
    by (induction xs) auto
  from this [of "rev ps"] show "set ps \<subseteq> insert [] (set (drop_trailing_empty ps))"
    by (simp add: drop_trailing_empty_def)
qed

text \<open>The tags that an expression with these parts names: the parts without the blanks around them, unless nothing is left.\<close>

definition named_tags :: "string list \<Rightarrow> string set" where
  "named_tags ps = str_trim ` set ps - {[]}"

lemma trim_empty: "str_trim [] = []"
  by code_simp

lemma kept_tags: "set (filter (\<lambda>t. t \<noteq> []) (map str_trim (drop_trailing_empty ps))) = named_tags ps"
  using drop_trailing_empty_parts(2,3) [of ps] trim_empty by (fastforce simp: named_tags_def)

lemma build_tags:
  assumes "ps \<noteq> []" and "\<forall>p \<in> set ps. CHR ''|'' \<notin> set p" and "str_join ''||'' ps \<notin> {[], SUB_ALL}"
  shows "build_subscription_data now topic (Some (str_join ''||'' ps)) =
    (if \<forall>p \<in> set ps. p = [] then fail (client_err ''subString split error'')
     else let tags = filter (\<lambda>t. t \<noteq> []) (map str_trim (drop_trailing_empty ps))
       in Inr (set_tags tags (map java_string_hash tags) (subscription_new now topic (str_join ''||'' ps))))"
  using assms(3) split_on_join [OF assms(1,2)] drop_trailing_empty_parts(1) [of ps]
  by (simp add: build_subscription_data_def Let_def)

text \<open>
  C34. A tag expression selects exactly its tags. Its parts are what the double bars separate, and hold no bar themselves;
  it is neither empty nor the star. If all parts are empty it is refused. Otherwise the subscription carries each tag once
  in ascending order, without the blanks around it and without the parts of which nothing is left, and the hash codes of
  the tags likewise; and the client keeps exactly the pulled messages that have one of the tags, in their order, or all
  messages if there is no tag.
\<close>

theorem tag_expression_selects:
  assumes "ps \<noteq> []" and "\<forall>p \<in> set ps. CHR ''|'' \<notin> set p" and "str_join ''||'' ps \<notin> {[], SUB_ALL}"
  shows "case build_subscription_data now topic (Some (str_join ''||'' ps)) of
      Inl e \<Rightarrow> (\<forall>p \<in> set ps. p = []) \<and> e = Err (client_err ''subString split error'')
    | Inr sub \<Rightarrow> (\<exists>p \<in> set ps. p \<noteq> [])
        \<and> set (sd_tags_set sub) = named_tags ps \<and> sorted_wrt (<) (sd_tags_set sub)
        \<and> set (sd_code_set sub) = java_string_hash ` named_tags ps \<and> sorted_wrt (<) (map sint (sd_code_set sub))
        \<and> client_side_tag_filter (Some sub) msgs =
            (if named_tags ps = {} then msgs else filter (\<lambda>m. get_tags m \<in> Some ` named_tags ps) msgs)"
proof (cases "\<forall>p \<in> set ps. p = []")
  case True
  then show ?thesis
    unfolding build_tags [OF assms] by simp
next
  case False
  let ?tags = "filter (\<lambda>t. t \<noteq> []) (map str_trim (drop_trailing_empty ps))"
  let ?sub = "set_tags ?tags (map java_string_hash ?tags) (subscription_new now topic (str_join ''||'' ps))"
  have built: "build_subscription_data now topic (Some (str_join ''||'' ps)) = Inr ?sub"
    unfolding build_tags [OF assms] using False by (auto simp: Let_def)
  have "sd_tags_set ?sub = sorted_tags ?tags" "sd_code_set ?sub = sorted_codes (map java_string_hash ?tags)"
    by (simp_all add: set_tags_def)
  then have tags: "set (sd_tags_set ?sub) = named_tags ps" "sorted_wrt (<) (sd_tags_set ?sub)"
    and codes: "set (sd_code_set ?sub) = java_string_hash ` named_tags ps" "sorted_wrt (<) (map sint (sd_code_set ?sub))"
    by (simp_all only: sorted_tags_facts sorted_codes_facts set_map kept_tags)
  have "\<not> sd_class_filter_mode ?sub"
    by (simp add: set_tags_def subscription_new_def subscription_default_def)
  moreover have "sd_tags_set ?sub = [] \<longleftrightarrow> named_tags ps = {}"
    using tags(1) by (metis set_empty)
  ultimately have "client_side_tag_filter (Some ?sub) msgs =
      (if named_tags ps = {} then msgs else filter (\<lambda>m. get_tags m \<in> Some ` named_tags ps) msgs)"
    using tags(1) by (auto simp: client_side_tag_filter_def intro!: filter_cong split: option.split)
  with built tags codes False show ?thesis by simp
qed

theorem tag_expression_selects_witness:
  "\<exists>sub. build_subscription_data 1 ''T'' (Some ''TagB || TagA ||'') = Inr sub \<and> set (sd_tags_set sub) = {''TagA'', ''TagB''}"
proof -
  let ?ps = "[''TagB '', '' TagA '', []]"
  have "map str_trim ?ps = [''TagB'', ''TagA'', []]"
    by code_simp
  then have tags: "named_tags ?ps = {''TagA'', ''TagB''}"
    by (auto simp: named_tags_def)
  have "case build_subscription_data 1 ''T'' (Some (str_join ''||'' ?ps)) of
      Inl e \<Rightarrow> \<forall>p \<in> set ?ps. p = [] | Inr sub \<Rightarrow> set (sd_tags_set sub) = named_tags ?ps"
    using tag_expression_selects [of ?ps "[]" 1 "''T''"] by (auto simp: SUB_ALL_def split: sum.splits)
  then show ?thesis
    unfolding tags by (auto split: sum.splits)
qed

section \<open>The bodies satisfy the contract\<close>

definition subscription_ok :: "subscription_data \<Rightarrow> bool" where
  "subscription_ok s \<longleftrightarrow> is_str (sd_topic s) \<and> is_str (sd_sub_string s) \<and> is_str (sd_expression_type s)
     \<and> list_all is_str (sd_tags_set s) \<and> sorted_wrt (<) (sd_tags_set s) \<and> sorted_wrt (<) (map sint (sd_code_set s))"

definition producer_ok :: "producer_data \<Rightarrow> bool" where
  "producer_ok p \<longleftrightarrow> is_str (pd_group_name p)"

definition consumer_ok :: "consumer_data \<Rightarrow> bool" where
  "consumer_ok c \<longleftrightarrow> is_str (cd_group_name c) \<and> is_str (cd_consume_type c) \<and> is_str (cd_message_model c)
     \<and> is_str (cd_consume_from_where c) \<and> list_all subscription_ok (cd_subscription_data_set c)"

definition heartbeat_ok :: "heartbeat_data \<Rightarrow> bool" where
  "heartbeat_ok h \<longleftrightarrow> is_str (hb_client_id h) \<and> list_all producer_ok (hb_producer_data_set h)
     \<and> list_all consumer_ok (hb_consumer_data_set h)"

lemma read_tags_json: "map_result (read_tag debug to_string) (map JString ts) = Inr ts"
  by (rule map_result_ok) (simp add: read_tag_def)

lemma read_codes_json: "map_result (read_code debug) (map json_of_i32 cs) = Inr cs"
  by (rule map_result_ok) (simp add: read_code_def json_of_i32_def narrow_i32)

lemma subscription_object: "subscription_to_json s = JObject
     [(''classFilterMode'', JBool (sd_class_filter_mode s)), (''topic'', JString (sd_topic s)),
      (''subString'', JString (sd_sub_string s)), (''tagsSet'', JArray (map JString (sd_tags_set s))),
      (''codeSet'', JArray (map json_of_i32 (sd_code_set s))),
      (''subVersion'', JNumber (number_of_i64 (sd_sub_version s))),
      (''expressionType'', JString (sd_expression_type s))]"
  unfolding subscription_to_json_def by (rule json_object_distinct) simp

interpretation subscription_body: json_codec subscription_to_json "subscription_from_json debug" subscription_ok for debug
proof
  fix s :: subscription_data and to_string
  show "subscription_to_json s \<noteq> JNull"
    by (simp add: subscription_object)
  assume ok: "subscription_ok s"
  then show "json_ok (subscription_to_json s)"
    by (simp add: subscription_object subscription_ok_def is_str_plain char_byte_def list_all_iff)
  show "subscription_from_json debug to_string (subscription_to_json s) = Inr s"
    using ok by (simp add: subscription_from_json_def subscription_object jfield_object read_tags_json
        read_codes_json sorted_again subscription_ok_def)
qed

interpretation producer_body: json_codec producer_to_json producer_from_json producer_ok
proof
  fix p :: producer_data and to_string
  have obj: "producer_to_json p = JObject [(''groupName'', JString (pd_group_name p))]"
    unfolding producer_to_json_def by (rule json_object_distinct) simp
  show "producer_to_json p \<noteq> JNull"
    by (simp add: obj)
  assume "producer_ok p"
  then show "json_ok (producer_to_json p)"
    by (simp add: obj producer_ok_def is_str_plain char_byte_def)
  show "producer_from_json to_string (producer_to_json p) = Inr p"
    by (simp add: producer_from_json_def obj jfield_object)
qed

lemma consumer_object: "consumer_to_json c = JObject
     [(''groupName'', JString (cd_group_name c)), (''consumeType'', JString (cd_consume_type c)),
      (''messageModel'', JString (cd_message_model c)), (''consumeFromWhere'', JString (cd_consume_from_where c)),
      (''subscriptionDataSet'', JArray (map subscription_to_json (cd_subscription_data_set c))),
      (''unitMode'', JBool (cd_unit_mode c))]"
  unfolding consumer_to_json_def by (rule json_object_distinct) simp

interpretation consumer_body: json_codec consumer_to_json "consumer_from_json debug" consumer_ok for debug
proof
  fix c :: consumer_data and to_string
  show "consumer_to_json c \<noteq> JNull"
    by (simp add: consumer_object)
  assume ok: "consumer_ok c"
  then have subs: "list_all subscription_ok (cd_subscription_data_set c)"
    by (simp add: consumer_ok_def)
  then show "json_ok (consumer_to_json c)"
    using ok subscription_body.to_json_ok
    by (auto simp: consumer_object consumer_ok_def is_str_plain char_byte_def list_all_iff)
  show "consumer_from_json debug to_string (consumer_to_json c) = Inr c"
    using subscription_body.list_round_trip [OF subs]
    by (simp add: consumer_from_json_def consumer_object jfield_object)
qed

lemma heartbeat_object: "heartbeat_to_json h = JObject
     [(''clientID'', JString (hb_client_id h)),
      (''consumerDataSet'', JArray (map consumer_to_json (hb_consumer_data_set h))),
      (''heartbeatFingerprint'', JNumber (number_of_i64 (scast (hb_heartbeat_fingerprint h)))),
      (''producerDataSet'', JArray (map producer_to_json (hb_producer_data_set h))),
      (''withoutSub'', JBool (hb_without_sub h))]"
  unfolding heartbeat_to_json_def by (rule json_object_distinct) simp

interpretation heartbeat_body: json_codec heartbeat_to_json "heartbeat_from_json debug" heartbeat_ok for debug
proof
  fix h :: heartbeat_data and to_string
  show "heartbeat_to_json h \<noteq> JNull"
    by (simp add: heartbeat_object)
  assume ok: "heartbeat_ok h"
  then have parts: "list_all producer_ok (hb_producer_data_set h)" "list_all consumer_ok (hb_consumer_data_set h)"
    by (simp_all add: heartbeat_ok_def)
  then show "json_ok (heartbeat_to_json h)"
    using ok producer_body.to_json_ok consumer_body.to_json_ok
    by (auto simp: heartbeat_object heartbeat_ok_def is_str_plain char_byte_def list_all_iff)
  show "heartbeat_from_json debug to_string (heartbeat_to_json h) = Inr h"
    using producer_body.list_round_trip [OF parts(1)] consumer_body.list_round_trip [OF parts(2)]
    by (simp add: heartbeat_from_json_def heartbeat_object jfield_object narrow_i32)
qed

section \<open>Heartbeats over the wire\<close>

definition sample_heartbeat :: heartbeat_data where
  "sample_heartbeat = \<lparr>hb_client_id = ''c@1'', hb_producer_data_set = [\<lparr>pd_group_name = ''P''\<rparr>],
     hb_consumer_data_set = [\<lparr>cd_group_name = ''G'', cd_consume_type = CONSUME_PASSIVELY, cd_message_model = CLUSTERING,
       cd_consume_from_where = CONSUME_FROM_LAST_OFFSET, cd_subscription_data_set =
         [(subscription_new 7 ''T'' ''a'')\<lparr>sd_tags_set := [''a''], sd_code_set := [97]\<rparr>], cd_unit_mode = False\<rparr>],
     hb_heartbeat_fingerprint = 5, hb_without_sub = False\<rparr>"

lemma sample_heartbeat_ok: "heartbeat_ok sample_heartbeat"
  by (simp add: heartbeat_ok_def sample_heartbeat_def producer_ok_def consumer_ok_def subscription_ok_def
      subscription_new_def subscription_default_def CONSUME_PASSIVELY_def CLUSTERING_def CONSUME_FROM_LAST_OFFSET_def
      EXPRESSION_TAG_def is_str_plain char_byte_def)

text \<open>
  C23. A heartbeat is received as it was sent: when the printer writes compact JSON, decoding the encoded body gives the
  same clients, groups and subscriptions, whatever the printers used for error texts.
\<close>

theorem heartbeat_round_trip:
  assumes "heartbeat_ok h" and "\<And>v. json_ok v \<Longrightarrow> to_vec v = Some (json_text v)"
  shows "heartbeat_decode debug to_string (heartbeat_encode to_vec h) = Some (Inr h)"
  unfolding heartbeat_decode_def heartbeat_encode_def by (rule heartbeat_body.wire_round_trip [OF assms])

theorem heartbeat_round_trip_witness:
  "heartbeat_decode (\<lambda>_. []) (\<lambda>_. []) (heartbeat_encode (\<lambda>v. Some (json_text v)) sample_heartbeat)
     = Some (Inr sample_heartbeat)"
  by (rule heartbeat_round_trip [OF sample_heartbeat_ok]) simp

lemma canonical_ok: "heartbeat_ok h \<Longrightarrow> heartbeat_ok (canonical h)"
  by (auto simp: heartbeat_ok_def canonical_def consumer_ok_def subscription_ok_def list_all_iff)

text \<open>
  The text under the fingerprint is blind to what churns and to nothing else: for two well-formed heartbeats it is the
  same exactly if they register the same groups with the same subscriptions, up to the client id, the versions of the
  subscriptions, the fingerprint and the marker; then the fingerprints agree.
\<close>

theorem fingerprint_content:
  assumes "heartbeat_ok a" and "heartbeat_ok b"
  shows "(json_text (heartbeat_to_json (canonical a)) = json_text (heartbeat_to_json (canonical b)) \<longleftrightarrow>
      canonical a = canonical b)
    \<and> (canonical a = canonical b \<longrightarrow> compute_heartbeat_fingerprint p a = compute_heartbeat_fingerprint p b)
    \<and> canonical (a\<lparr>hb_client_id := i, hb_without_sub := w, hb_heartbeat_fingerprint := f\<rparr>) = canonical a"
  using heartbeat_body.wire_injective [OF canonical_ok [OF assms(1)] canonical_ok [OF assms(2)]]
  by (auto simp: compute_heartbeat_fingerprint_def) (simp add: canonical_def)

theorem fingerprint_content_witness:
  "json_text (heartbeat_to_json (canonical sample_heartbeat)) \<noteq>
   json_text (heartbeat_to_json (canonical (without_sub_copy sample_heartbeat)))"
proof -
  have "heartbeat_ok (without_sub_copy sample_heartbeat)"
    using sample_heartbeat_ok by (auto simp: heartbeat_ok_def without_sub_copy_def consumer_ok_def list_all_iff)
  moreover have "canonical sample_heartbeat \<noteq> canonical (without_sub_copy sample_heartbeat)"
    by (simp add: canonical_def without_sub_copy_def sample_heartbeat_def)
  ultimately show ?thesis
    using fingerprint_content [OF sample_heartbeat_ok] by blast
qed

end
