(* ===== verification/Lite_Consumer.thy ===== *)
theory Lite_Consumer
  imports Lite_Buffer Heartbeat Btree_Map Namespace_Util
begin

text \<open>
  The state of the lite pull consumer (\<open>LiteState\<close> of \<open>src/rust/src/client/pull_consumer.rs\<close>): its modes, its
  assignment, its three cursors per queue and the commit table, with every operation that changes them. A method that
  takes the lock of the state and the one of the buffer one after the other is split where it lets go of the first,
  and the steps of different methods may interleave there. Answers of the brokers and the clock are arguments.
\<close>

section \<open>State\<close>

record pull_park =
  pp_delay_millis :: u64
  pp_until_millis :: i64

record lite_state =
  ls_subscription :: "(string \<times> string) list"
  ls_subscription_data :: "(string \<times> subscription_data) list"
  ls_heartbeat_subscriptions :: "(string \<times> subscription_data) list"
  ls_assign_sub_expr :: "(string \<times> string) list"
  ls_mode_claimed :: bool
  ls_assign_mode :: bool
  ls_assigned :: "(string \<times> message_queue) list"
  ls_next_offset :: "(string \<times> i64) list"
  ls_consume_offset :: "(string \<times> i64) list"
  ls_offset_table :: "(string \<times> i64) list"
  ls_seek_offset :: "(string \<times> i64) list"
  ls_next_auto_commit_deadline :: i64
  ls_paused :: "string set"
  ls_pull_parks :: "(string \<times> pull_park) list"
  ls_last_rebalance_ts :: i64

definition lite_state_default :: lite_state where
  "lite_state_default = \<lparr>ls_subscription = [], ls_subscription_data = [], ls_heartbeat_subscriptions = [],
     ls_assign_sub_expr = [], ls_mode_claimed = False, ls_assign_mode = False, ls_assigned = [], ls_next_offset = [],
     ls_consume_offset = [], ls_offset_table = [], ls_seek_offset = [], ls_next_auto_commit_deadline = - 1,
     ls_paused = {}, ls_pull_parks = [], ls_last_rebalance_ts = 0\<rparr>"

definition claim_mode :: "bool \<Rightarrow> lite_state \<Rightarrow> lite_state result" where
  "claim_mode assign st =
     (if \<not> ls_mode_claimed st then Inr (st\<lparr>ls_mode_claimed := True, ls_assign_mode := assign\<rparr>)
      else if ls_assign_mode st \<noteq> assign then fail (client_err ''Subscribe and assign are mutually exclusive.'')
      else Inr st)"

definition with_namespace :: "string \<Rightarrow> string \<Rightarrow> string" where
  "with_namespace ns topic = (if ns = [] then topic else wrap_namespace ns topic)"

section \<open>Subscriptions\<close>

text \<open>An expression that the filter rejects drops the entry of the table that goes into heartbeats.\<close>

definition register_subscription :: "string \<Rightarrow> subscription_data result \<Rightarrow> lite_state \<Rightarrow> lite_state" where
  "register_subscription topic built st = st\<lparr>ls_subscription_data := (case built of
     Inr sub \<Rightarrow> bt_insert topic sub (ls_subscription_data st)
   | Inl _ \<Rightarrow> bt_remove topic (ls_subscription_data st))\<rparr>"

definition lite_subscribe :: "i64 \<Rightarrow> string \<Rightarrow> string \<Rightarrow> string \<Rightarrow> lite_state \<Rightarrow> lite_state result" where
  "lite_subscribe now ns topic sub_expression st =
     (if str_trim topic = [] then fail (client_err ''Topic can not be null or empty.'')
      else let topic = with_namespace ns topic in
        bind_result (claim_mode False st) (\<lambda>st.
          let st = st\<lparr>ls_subscription := bt_insert topic sub_expression (ls_subscription st)\<rparr>
          in Inr (register_subscription topic (build_subscription_data now topic (Some sub_expression)) st)))"

record message_selector =
  ms_selector_type :: string
  ms_expression :: string

definition CLASS_FILTER :: string where "CLASS_FILTER = ''CLASS_FILTER''"

definition pull_selector_subscription :: "i64 \<Rightarrow> string \<Rightarrow> message_selector \<Rightarrow> subscription_data result" where
  "pull_selector_subscription now topic selector =
     (let expression_type = (if ms_selector_type selector = [] then EXPRESSION_TAG else ms_selector_type selector);
          expression = (if expression_type = EXPRESSION_TAG \<and> ms_expression selector = [] then SUB_ALL
                        else ms_expression selector)
      in bind_result (filter_api_build now topic expression (Some expression_type)) (\<lambda>sub.
           Inr (sub\<lparr>sd_class_filter_mode := (expression_type = CLASS_FILTER)\<rparr>)))"

definition lite_subscribe_with_selector ::
    "i64 \<Rightarrow> string \<Rightarrow> string \<Rightarrow> message_selector \<Rightarrow> lite_state \<Rightarrow> lite_state result" where
  "lite_subscribe_with_selector now ns topic selector st =
     (if str_trim topic = [] then fail (client_err ''Topic can not be null or empty.'')
      else let topic = with_namespace ns topic in
        bind_result (claim_mode False st) (\<lambda>st.
          let st = st\<lparr>ls_subscription := bt_insert topic (ms_expression selector) (ls_subscription st)\<rparr>
          in Inr (register_subscription topic (pull_selector_subscription now topic selector) st)))"

definition set_sub_expression_for_assign ::
    "bool \<Rightarrow> i64 \<Rightarrow> string \<Rightarrow> string \<Rightarrow> string \<Rightarrow> lite_state \<Rightarrow> lite_state result" where
  "set_sub_expression_for_assign live now ns topic sub_expression st =
     (if str_trim sub_expression = [] then fail (client_err ''subExpression can not be null or empty.'')
      else if live then fail (client_err ''set_sub_expression_for_assign only can be called before start.'')
      else if str_trim topic = [] then fail (client_err ''Topic can not be null or empty.'')
      else let topic = with_namespace ns topic in
        bind_result (claim_mode True st) (\<lambda>st.
          let st = st\<lparr>ls_assign_sub_expr := bt_insert topic sub_expression (ls_assign_sub_expr st)\<rparr>
          in Inr (register_subscription topic (build_subscription_data now topic (Some sub_expression)) st)))"

fun built_subscriptions ::
    "i64 \<Rightarrow> string \<Rightarrow> (string \<times> message_selector) list \<Rightarrow> (string \<times> subscription_data) list
     \<Rightarrow> (string \<times> subscription_data) list result" where
  "built_subscriptions now ns [] built = Inr built"
| "built_subscriptions now ns ((topic, selector) # selectors) built =
     (if str_trim topic = [] then fail (client_err ''Topic can not be null or empty.'')
      else let topic = with_namespace ns topic in
        bind_result (pull_selector_subscription now topic selector)
          (\<lambda>sub. built_subscriptions now ns selectors (bt_insert topic sub built)))"

definition build_subscriptions_for_heartbeat ::
    "i64 \<Rightarrow> string \<Rightarrow> (string \<times> message_selector) list \<Rightarrow> lite_state \<Rightarrow> lite_state result" where
  "build_subscriptions_for_heartbeat now ns selectors st =
     bind_result (built_subscriptions now ns selectors []) (\<lambda>built. Inr (st\<lparr>ls_heartbeat_subscriptions := built\<rparr>))"

definition lite_subscriptions :: "lite_state \<Rightarrow> subscription_data list" where
  "lite_subscriptions st = List.map_filter (\<lambda>(topic, _). map_of (ls_subscription_data st) topic) (ls_subscription st)"

text \<open>The subscriptions a heartbeat announces.\<close>

definition heartbeat_subs :: "lite_state \<Rightarrow> subscription_data list" where
  "heartbeat_subs st = lite_subscriptions st @
     map snd (filter (\<lambda>(topic, _). map_of (ls_subscription st) topic = None) (ls_heartbeat_subscriptions st))"

text \<open>The identity and the policies of the consumer are its configuration.\<close>

definition build_lite_heartbeat :: "string option \<Rightarrow> string \<Rightarrow> string \<Rightarrow> string \<Rightarrow> bool \<Rightarrow> lite_state \<Rightarrow> heartbeat_data" where
  "build_lite_heartbeat client_id consumer_group message_model consume_from_where unit_mode st =
     (let hb = heartbeat_new (case client_id of Some c \<Rightarrow> c | None \<Rightarrow> []);
          cd = consumer_data_new consumer_group CONSUME_ACTIVELY message_model consume_from_where;
          cd = cd\<lparr>cd_subscription_data_set := heartbeat_subs st, cd_unit_mode := unit_mode\<rparr>
      in hb\<lparr>hb_consumer_data_set := hb_consumer_data_set hb @ [cd]\<rparr>)"

definition subscription_for :: "string \<Rightarrow> lite_state \<Rightarrow> string" where
  "subscription_for topic st = (case map_of (ls_subscription st) topic of
     Some expr \<Rightarrow> expr
   | None \<Rightarrow> (case map_of (ls_assign_sub_expr st) topic of Some expr \<Rightarrow> expr | None \<Rightarrow> SUB_ALL))"

section \<open>Assignment\<close>

text \<open>The cursors and the park of a queue that is left behind.\<close>

definition forget_queues :: "string list \<Rightarrow> lite_state \<Rightarrow> lite_state" where
  "forget_queues keys st = st\<lparr>ls_next_offset := fold bt_remove keys (ls_next_offset st),
     ls_consume_offset := fold bt_remove keys (ls_consume_offset st),
     ls_seek_offset := fold bt_remove keys (ls_seek_offset st),
     ls_pull_parks := fold bt_remove keys (ls_pull_parks st)\<rparr>"

definition unsubscribe_state :: "string \<Rightarrow> string \<Rightarrow> lite_state \<Rightarrow> string list \<times> lite_state" where
  "unsubscribe_state ns topic st =
     (let topic = with_namespace ns topic;
          st = st\<lparr>ls_subscription := bt_remove topic (ls_subscription st)\<rparr>;
          st = (if map_of (ls_assign_sub_expr st) topic = None
                then st\<lparr>ls_subscription_data := bt_remove topic (ls_subscription_data st)\<rparr> else st);
          keys = map fst (filter (\<lambda>(_, mq). mq_topic mq = topic) (ls_assigned st));
          st = forget_queues keys st
      in (keys, st\<lparr>ls_assigned := fold bt_remove keys (ls_assigned st), ls_paused := ls_paused st - set keys\<rparr>))"

definition assign_state :: "message_queue list \<Rightarrow> lite_state \<Rightarrow> (string list \<times> lite_state) result" where
  "assign_state message_queues st =
     (if message_queues = [] then fail (client_err ''Message queues can not be null or empty.'')
      else bind_result (claim_mode True st) (\<lambda>st.
        let keep = map mq_key message_queues;
            dropped = filter (\<lambda>k. k \<notin> set keep) (map fst (ls_assigned st));
            st = forget_queues dropped st;
            st = st\<lparr>ls_paused := ls_paused st - set dropped\<rparr>;
            assigned = bt_retain (\<lambda>k. k \<in> set keep) (ls_assigned st);
            assigned = fold (\<lambda>mq. bt_insert (mq_key mq) mq) message_queues assigned
        in Inr (dropped, st\<lparr>ls_assigned := assigned\<rparr>)))"

text \<open>The second half of both: the cached rows of the queues that went.\<close>

definition revoke_queues :: "string list \<Rightarrow> lite_buffer \<Rightarrow> lite_buffer" where
  "revoke_queues keys b = fold (\<lambda>key b. snd (revoke_queue key b)) keys b"

record rebalance_outcome =
  ro_added :: "message_queue list"
  ro_removed :: "string list"
  ro_revoked :: "message_queue list"

definition rebalance_state ::
    "(string \<times> message_queue) list \<Rightarrow> lite_state \<Rightarrow> rebalance_outcome \<times> lite_state" where
  "rebalance_state new_assigned st =
     (let old = ls_assigned st;
          added = List.map_filter (\<lambda>k. map_of new_assigned k)
                    (filter (\<lambda>k. map_of old k = None) (map fst new_assigned));
          removed = filter (\<lambda>k. map_of new_assigned k = None) (map fst old);
          revoked = List.map_filter (\<lambda>k. map_of old k)
                      (filter (\<lambda>k. map_of (ls_offset_table st) k \<noteq> None) removed);
          st = (if added \<noteq> [] \<or> removed \<noteq> [] then forget_queues removed (st\<lparr>ls_assigned := new_assigned\<rparr>) else st)
      in (\<lparr>ro_added = added, ro_removed = removed, ro_revoked = revoked\<rparr>, st))"

text \<open>After the offsets of the revoked queues were persisted.\<close>

definition drop_revoked_offsets :: "message_queue list \<Rightarrow> lite_state \<Rightarrow> lite_state" where
  "drop_revoked_offsets revoked st =
     st\<lparr>ls_offset_table := fold (\<lambda>mq. bt_remove (mq_key mq)) revoked (ls_offset_table st)\<rparr>"

definition pause_queues :: "message_queue list \<Rightarrow> lite_state \<Rightarrow> lite_state" where
  "pause_queues mqs st = st\<lparr>ls_paused := ls_paused st \<union> set (map mq_key mqs)\<rparr>"

definition resume_queues :: "message_queue list \<Rightarrow> lite_state \<Rightarrow> lite_state" where
  "resume_queues mqs st = st\<lparr>ls_paused := ls_paused st - set (map mq_key mqs)\<rparr>"

section \<open>Seeking\<close>

definition seek_check :: "message_queue \<Rightarrow> lite_state \<Rightarrow> unit result" where
  "seek_check mq st =
     (if map_of (ls_assigned st) (mq_key mq) = None
      then fail (client_err (if ls_assign_mode st
             then ''The message queue is not in assigned list, message queue: '' @ message_queue_to_string mq
             else ''The message queue is not in assigned list, may be rebalancing, message queue: '' @ message_queue_to_string mq))
      else Inr ())"

definition seek_range :: "i64 \<Rightarrow> i64 \<Rightarrow> i64 \<Rightarrow> unit result" where
  "seek_range offset lo hi =
     (if offset <s lo \<or> hi <s offset
      then fail (client_err (''Seek offset illegal, seek offset = '' @ show_signed offset @ '', min offset = ''
             @ show_signed lo @ '', max offset = '' @ show_signed hi))
      else Inr ())"

definition apply_seek_state :: "message_queue \<Rightarrow> i64 \<Rightarrow> lite_state \<Rightarrow> lite_state" where
  "apply_seek_state mq offset st =
     (let key = mq_key mq in
      st\<lparr>ls_seek_offset := bt_insert key offset (ls_seek_offset st),
         ls_next_offset := bt_insert key offset (ls_next_offset st),
         ls_consume_offset := bt_insert key offset (ls_consume_offset st)\<rparr>)"

section \<open>Pulling\<close>

definition park_pull :: "i64 \<Rightarrow> string \<Rightarrow> u64 \<Rightarrow> lite_state \<Rightarrow> lite_state" where
  "park_pull now key delay_millis st = st\<lparr>ls_pull_parks := bt_insert key
     \<lparr>pp_delay_millis = delay_millis, pp_until_millis = now + ucast delay_millis\<rparr> (ls_pull_parks st)\<rparr>"

text \<open>The queues of one round of the pull service.\<close>

definition pull_targets :: "i64 \<Rightarrow> lite_state \<Rightarrow> message_queue list" where
  "pull_targets now st = filter (\<lambda>mq.
     let key = mq_key mq;
         parked = (case map_of (ls_pull_parks st) key of Some park \<Rightarrow> now <s pp_until_millis park | None \<Rightarrow> False)
     in key \<notin> ls_paused st \<and> \<not> parked) (map snd (ls_assigned st))"

definition earliest_park_remaining_millis :: "i64 \<Rightarrow> lite_state \<Rightarrow> u64 option" where
  "earliest_park_remaining_millis now st =
     (let remaining = List.map_filter (\<lambda>(_, park). let d = pp_until_millis park - now in
            if d <s 0 then None else Some (ucast d :: u64)) (ls_pull_parks st);
          active = filter (\<lambda>r. 0 < r) remaining
      in if active = [] then None else Some (Min (set active)))"

datatype start_offset_plan = StoredAt i64 | FromZero | QueueTail | SearchAtConfiguredTime

definition CONSUME_FROM_FIRST_OFFSET :: string where "CONSUME_FROM_FIRST_OFFSET = ''CONSUME_FROM_FIRST_OFFSET''"
definition CONSUME_FROM_TIMESTAMP :: string where "CONSUME_FROM_TIMESTAMP = ''CONSUME_FROM_TIMESTAMP''"

definition plan_initial_offset :: "i64 \<Rightarrow> string \<Rightarrow> bool \<Rightarrow> start_offset_plan" where
  "plan_initial_offset stored from_where is_retry =
     (if 0 \<le>s stored then StoredAt stored
      else if from_where = CONSUME_FROM_FIRST_OFFSET then FromZero
      else if from_where = CONSUME_FROM_TIMESTAMP
      then (if is_retry then QueueTail else SearchAtConfiguredTime)
      else if is_retry then FromZero
      else QueueTail)"

text \<open>The broker's answers: the stored offset of the group, the tail of the queue, the offset at the configured time.\<close>

definition lite_resolve_initial_offset ::
    "i64 option result \<Rightarrow> i64 result \<Rightarrow> i64 result \<Rightarrow> string \<Rightarrow> message_queue \<Rightarrow> lite_state \<Rightarrow> i64 result" where
  "lite_resolve_initial_offset stored_answer max_answer search_answer from_where mq st =
     (case map_of (ls_seek_offset st) (mq_key mq) of
        Some offset \<Rightarrow> Inr offset
      | None \<Rightarrow>
          let stored = (case stored_answer of Inr (Some offset) \<Rightarrow> offset | _ \<Rightarrow> - 1) in
          (case plan_initial_offset stored from_where (ns_is_retry_topic (mq_topic mq)) of
             StoredAt off \<Rightarrow> Inr off
           | FromZero \<Rightarrow> Inr 0
           | QueueTail \<Rightarrow> max_answer
           | SearchAtConfiguredTime \<Rightarrow> search_answer))"

definition remember_offset :: "string \<Rightarrow> i64 \<Rightarrow> lite_state \<Rightarrow> lite_state" where
  "remember_offset key offset st = st\<lparr>ls_next_offset := bt_insert key offset (ls_next_offset st)\<rparr>"

text \<open>
  What a response does to the cursor: it counts only if the queue's cursor still is the offset of the request.
\<close>

definition settle_cursor :: "string \<Rightarrow> i64 \<Rightarrow> i64 \<Rightarrow> lite_state \<Rightarrow> bool \<times> lite_state" where
  "settle_cursor key offset next_begin_offset st =
     (if map_of (ls_next_offset st) key = Some offset
      then (True, st\<lparr>ls_next_offset := bt_insert key next_begin_offset (ls_next_offset st)\<rparr>)
      else (False, st))"

datatype pull_status = Found | NoNewMsg | NoMatchedMsg | OffsetIllegal

record pull_result =
  pr_status :: pull_status
  pr_next_begin_offset :: i64
  pr_min_offset :: i64
  pr_max_offset :: i64
  pr_suggest_which_broker_id :: "i64 option"
  pr_msg_found_list :: "message_ext list"

text \<open>The batch that a response puts into the buffer, if any, and the state after its check.\<close>

definition settle_response ::
    "subscription_data option \<Rightarrow> string \<Rightarrow> i64 \<Rightarrow> pull_result \<Rightarrow> lite_state \<Rightarrow> message_ext list \<times> lite_state" where
  "settle_response registered key offset r st =
     (let (intact, st) = settle_cursor key offset (pr_next_begin_offset r) st
      in if \<not> intact \<or> pr_status r \<noteq> Found \<or> pr_msg_found_list r = [] then ([], st)
         else (client_side_tag_filter registered (pr_msg_found_list r), st))"

section \<open>Polling\<close>

definition MAX_POLL_BATCH_SIZE :: nat where "MAX_POLL_BATCH_SIZE = 1024"

definition try_drain :: "lite_buffer \<Rightarrow> message_ext list option \<times> lite_buffer" where
  "try_drain b = (if lb_messages b = [] then (None, b)
     else let (out, b) = drain_prefix MAX_POLL_BATCH_SIZE b in (Some out, b))"

text \<open>The queues with a pull cursor, by the coordinates a message carries.\<close>

definition held_queues :: "lite_state \<Rightarrow> ((string \<times> string \<times> i32) \<times> string) list" where
  "held_queues st = List.map_filter (\<lambda>(k, _). map_option (\<lambda>mq.
     ((mq_topic mq, mq_broker_name mq, mq_queue_id mq), mq_key mq)) (map_of (ls_assigned st) k)) (ls_next_offset st)"

definition coordinates :: "message_ext \<Rightarrow> string \<times> string \<times> i32" where
  "coordinates m = (m_topic m, (case x_broker_name m of Some b \<Rightarrow> b | None \<Rightarrow> []), x_queue_id m)"

definition advance_one :: "((string \<times> string \<times> i32) \<times> string) list \<Rightarrow> message_ext \<Rightarrow> lite_state \<Rightarrow> lite_state" where
  "advance_one held m st = (case map_of held (coordinates m) of
     None \<Rightarrow> st
   | Some key \<Rightarrow>
       let nxt = x_queue_offset m + 1;
           cur = (case map_of (ls_consume_offset st) key of Some v \<Rightarrow> v | None \<Rightarrow> - 1)
       in if cur <s nxt then st\<lparr>ls_consume_offset := bt_insert key nxt (ls_consume_offset st)\<rparr> else st)"

definition advance_consume_offset :: "message_ext list \<Rightarrow> lite_state \<Rightarrow> lite_state" where
  "advance_consume_offset msgs st = fold (advance_one (held_queues st)) msgs st"

section \<open>Committing\<close>

definition commit_scope :: "lite_state \<Rightarrow> string list" where
  "commit_scope st = map fst (ls_assigned st)"

definition commit_values :: "string list \<Rightarrow> lite_state \<Rightarrow> (string \<times> i64) list" where
  "commit_values scope st = fold (\<lambda>k. bt_insert k (case map_of (ls_consume_offset st) k of Some v \<Rightarrow> v | None \<Rightarrow> - 1)) scope []"

definition write_targets :: "(string \<times> i64) list \<Rightarrow> lite_state \<Rightarrow> lite_state" where
  "write_targets targets st = fold (\<lambda>(key, offset) st.
     if offset = - 1 \<or> map_of (ls_assigned st) key = None then st
     else st\<lparr>ls_offset_table := bt_insert key offset (ls_offset_table st)\<rparr>) targets st"

text \<open>Entries outside of the scope leave the table; the others go to the store of the group in key order.\<close>

definition persist_offset_table :: "string list \<Rightarrow> lite_state \<Rightarrow> (message_queue \<times> i64) list \<times> lite_state" where
  "persist_offset_table mqs st =
     (if mqs = [] then ([], st)
      else let table = bt_retain (\<lambda>k. k \<in> set mqs) (ls_offset_table st)
        in (List.map_filter (\<lambda>(key, offset). map_option (\<lambda>mq. (mq, offset)) (map_of (ls_assigned st) key)) table,
            st\<lparr>ls_offset_table := table\<rparr>))"

definition commit_targets ::
    "(string \<times> i64) list \<Rightarrow> string list \<Rightarrow> bool \<Rightarrow> lite_state \<Rightarrow> (message_queue \<times> i64) list \<times> lite_state" where
  "commit_targets targets scope persist st =
     (let st = write_targets targets st in if \<not> persist then ([], st) else persist_offset_table scope st)"

definition lite_commit :: "lite_state \<Rightarrow> (message_queue \<times> i64) list \<times> lite_state" where
  "lite_commit st = (let scope = commit_scope st in commit_targets (commit_values scope st) scope True st)"

definition commit_queues :: "message_queue list \<Rightarrow> bool \<Rightarrow> lite_state \<Rightarrow> (message_queue \<times> i64) list \<times> lite_state" where
  "commit_queues mqs persist st =
     (if mqs = [] then ([], st)
      else let scope = map mq_key mqs in commit_targets (commit_values scope st) scope persist st)"

definition commit_offsets :: "(string \<times> i64) list \<Rightarrow> bool \<Rightarrow> lite_state \<Rightarrow> (message_queue \<times> i64) list \<times> lite_state" where
  "commit_offsets offsets persist st =
     (if offsets = [] then ([], st) else commit_targets offsets (map fst offsets) persist st)"

definition auto_commit_due :: "i64 \<Rightarrow> i64 \<Rightarrow> lite_state \<Rightarrow> bool \<times> lite_state" where
  "auto_commit_due now interval_millis st =
     (if now <s ls_next_auto_commit_deadline st then (False, st)
      else (True, st\<lparr>ls_next_auto_commit_deadline := now + interval_millis\<rparr>))"

definition maybe_auto_commit :: "i64 \<Rightarrow> i64 \<Rightarrow> lite_state \<Rightarrow> (message_queue \<times> i64) list \<times> lite_state" where
  "maybe_auto_commit now interval_millis st =
     (let (due, st) = auto_commit_due now interval_millis st in if due then lite_commit st else ([], st))"

text \<open>The commit table first, then the store, whose answer is remembered.\<close>

definition committed :: "i64 option result \<Rightarrow> message_queue \<Rightarrow> lite_state \<Rightarrow> i64 option result \<times> lite_state" where
  "committed answer mq st = (case map_of (ls_offset_table st) (mq_key mq) of
     Some cached \<Rightarrow> (Inr (Some cached), st)
   | None \<Rightarrow> (case answer of
        Inl e \<Rightarrow> (Inl e, st)
      | Inr None \<Rightarrow> (Inr None, st)
      | Inr (Some offset) \<Rightarrow> (Inr (Some offset),
          st\<lparr>ls_offset_table := bt_insert (mq_key mq) offset (ls_offset_table st)\<rparr>)))"

definition cursor_of :: "(string \<times> i64) list \<Rightarrow> message_queue \<Rightarrow> i64" where
  "cursor_of table mq = (case map_of table (mq_key mq) of Some v \<Rightarrow> v | None \<Rightarrow> - 1)"

end
