(* ===== verification/Lite_Commit.thy ===== *)
theory Lite_Commit
  imports Lite_Consumer
begin

text \<open>
  What the lite pull consumer commits, over sequences of its operations. One operation is one call: the pull of a queue
  at its cursor, a poll, a seek, a commit, or a change of the assignment.
\<close>

section \<open>Calls\<close>

record lite_client =
  lk_state :: lite_state
  lk_buffer :: lite_buffer

definition lite_client_default :: lite_client where
  "lite_client_default = \<lparr>lk_state = lite_state_default, lk_buffer = buffer_default\<rparr>"

definition lite_assign :: "message_queue list \<Rightarrow> lite_client \<Rightarrow> lite_client result" where
  "lite_assign mqs s = bind_result (assign_state mqs (lk_state s)) (\<lambda>(dropped, st).
     Inr \<lparr>lk_state = st, lk_buffer = revoke_queues dropped (lk_buffer s)\<rparr>)"

definition lite_unsubscribe :: "string \<Rightarrow> string \<Rightarrow> lite_client \<Rightarrow> lite_client" where
  "lite_unsubscribe ns topic s = (let (keys, st) = unsubscribe_state ns topic (lk_state s)
     in \<lparr>lk_state = st, lk_buffer = revoke_queues keys (lk_buffer s)\<rparr>)"

definition lite_rebalance :: "(string \<times> message_queue) list \<Rightarrow> lite_client \<Rightarrow> lite_client" where
  "lite_rebalance new_assigned s = (let (ro, st) = rebalance_state new_assigned (lk_state s)
     in \<lparr>lk_state = drop_revoked_offsets (ro_revoked ro) st, lk_buffer = revoke_queues (ro_removed ro) (lk_buffer s)\<rparr>)"

definition lite_seek :: "message_queue \<Rightarrow> i64 \<Rightarrow> i64 \<Rightarrow> i64 \<Rightarrow> lite_client \<Rightarrow> lite_client result" where
  "lite_seek mq offset lo hi s =
     bind_result (seek_check mq (lk_state s)) (\<lambda>_.
     bind_result (seek_range offset lo hi) (\<lambda>_.
       Inr \<lparr>lk_state = apply_seek_state mq offset (lk_state s), lk_buffer = prune_before mq offset (lk_buffer s)\<rparr>))"

definition lite_response :: "message_queue \<Rightarrow> i64 \<Rightarrow> pull_result \<Rightarrow> lite_client \<Rightarrow> lite_client" where
  "lite_response mq offset r s =
     (let registered = map_of (ls_subscription_data (lk_state s)) (mq_topic mq);
          (msgs, st) = settle_response registered (mq_key mq) offset r (lk_state s)
      in \<lparr>lk_state = st, lk_buffer = (if msgs = [] then lk_buffer s else buffer_extend msgs (lk_buffer s))\<rparr>)"

definition lite_poll :: "lite_client \<Rightarrow> message_ext list \<times> lite_client" where
  "lite_poll s = (case try_drain (lk_buffer s) of
     (None, b) \<Rightarrow> ([], s\<lparr>lk_buffer := b\<rparr>)
   | (Some drained, b) \<Rightarrow> (drained, \<lparr>lk_state = advance_consume_offset drained (lk_state s), lk_buffer = b\<rparr>))"

section \<open>Runs\<close>

text \<open>
  What brokers promise for the answer to a pull: messages of the queue with ascending offsets, from the requested one and
  below the next one, which never lies before the requested one. An answer that corrects an illegal offset is not such
  an answer.
\<close>

definition broker_reply :: "message_queue \<Rightarrow> i64 \<Rightarrow> pull_result \<Rightarrow> bool" where
  "broker_reply mq offset r \<longleftrightarrow> sint offset \<le> sint (pr_next_begin_offset r)
     \<and> list_all (\<lambda>m. is_this_queue mq m \<and> sint offset \<le> sint (x_queue_offset m)
          \<and> sint (x_queue_offset m) < sint (pr_next_begin_offset r)) (pr_msg_found_list r)
     \<and> sorted_wrt (\<lambda>a b. sint (x_queue_offset a) < sint (x_queue_offset b)) (pr_msg_found_list r)"

text \<open>A seek is clean if it leaves nothing of the queue in the buffer.\<close>

definition clean_seek :: "message_queue \<Rightarrow> i64 \<Rightarrow> lite_client \<Rightarrow> bool" where
  "clean_seek mq offset s \<longleftrightarrow> queue_messages (prune_before mq offset (lk_buffer s)) (mq_key mq) = []"

definition assignment_ok :: "(string \<times> message_queue) list \<Rightarrow> bool" where
  "assignment_ok assigned \<longleftrightarrow> (\<forall>(k, mq) \<in> set assigned. k = mq_key mq)"

inductive lite_call :: "lite_client \<Rightarrow> lite_client \<Rightarrow> bool" where
  assign: "lite_assign mqs s = Inr s' \<Longrightarrow> lite_call s s'"
| unsubscribe: "lite_call s (lite_unsubscribe ns topic s)"
| rebalance: "assignment_ok new_assigned \<Longrightarrow> lite_call s (lite_rebalance new_assigned s)"
| resolve: "map_of (ls_next_offset (lk_state s)) (mq_key mq) = None \<Longrightarrow>
    lite_call s (s\<lparr>lk_state := remember_offset (mq_key mq) offset (lk_state s)\<rparr>)"
| response: "map_of (ls_next_offset (lk_state s)) (mq_key mq) = Some offset \<Longrightarrow> broker_reply mq offset r \<Longrightarrow>
    lite_call s (lite_response mq offset r s)"
| poll: "lite_call s (snd (lite_poll s))"
| seek: "lite_seek mq offset lo hi s = Inr s' \<Longrightarrow> clean_seek mq offset s \<Longrightarrow> lite_call s s'"
| commit: "lite_call s (s\<lparr>lk_state := snd (lite_commit (lk_state s))\<rparr>)"

inductive lite_reach :: "lite_client \<Rightarrow> bool" where
  init: "lite_reach lite_client_default"
| call: "lite_reach s \<Longrightarrow> lite_call s s' \<Longrightarrow> lite_reach s'"

section \<open>Cursors\<close>

text \<open>
  Per queue: the buffered messages are in offset order, the consumed cursor is at most the offset of the first one and the
  pull cursor is above the last one.
\<close>

definition ascending :: "message_ext list \<Rightarrow> bool" where
  "ascending ms \<longleftrightarrow> sorted_wrt (\<lambda>a b. sint (x_queue_offset a) < sint (x_queue_offset b)) ms"

definition cursors_ok :: "message_ext list \<Rightarrow> i64 option \<Rightarrow> i64 option \<Rightarrow> bool" where
  "cursors_ok ms consumed nxt \<longleftrightarrow> ascending ms
     \<and> (\<forall>n. nxt = Some n \<longrightarrow> (\<forall>m \<in> set ms. sint (x_queue_offset m) < sint n))
     \<and> (nxt = None \<longrightarrow> consumed = None \<and> ms = [])
     \<and> (\<forall>c n. consumed = Some c \<longrightarrow> nxt = Some n \<longrightarrow> sint c \<le> sint n \<and> (\<forall>m \<in> set ms. sint c \<le> sint (x_queue_offset m)))"

definition commit_inv :: "lite_client \<Rightarrow> bool" where
  "commit_inv s \<longleftrightarrow> assignment_ok (ls_assigned (lk_state s)) \<and> (\<forall>k. cursors_ok (queue_messages (lk_buffer s) k)
     (map_of (ls_consume_offset (lk_state s)) k) (map_of (ls_next_offset (lk_state s)) k))"

lemma queue_messages_after [simp]:
  "queue_messages (buffer_extend ms b) k = queue_messages b k @ filter (\<lambda>m. cache_key_of_message m = k) ms"
  "queue_messages (snd (revoke_queue j b)) k = (if k = j then [] else queue_messages b k)"
  by (auto simp: queue_messages_def filter_empty_conv intro: filter_cong)

lemma queue_messages_revoke: "queue_messages (revoke_queues keys b) k = (if k \<in> set keys then [] else queue_messages b k)"
  by (induction keys arbitrary: b) (auto simp: revoke_queues_def)

lemma forget_cursors [simp]:
  "map_of (ls_next_offset (forget_queues keys st)) k = (if k \<in> set keys then None else map_of (ls_next_offset st) k)"
  "map_of (ls_consume_offset (forget_queues keys st)) k = (if k \<in> set keys then None else map_of (ls_consume_offset st) k)"
  "ls_assigned (forget_queues keys st) = ls_assigned st"
  by (simp_all add: forget_queues_def map_of_fold_remove)

lemma cursors_ok_empty [simp]: "cursors_ok [] None None"
  by (simp add: cursors_ok_def ascending_def)

lemma assignment_ok_insert: "assignment_ok m \<Longrightarrow> assignment_ok (bt_insert (mq_key mq) mq m)"
proof -
  have "set (bt_insert k v m) \<subseteq> insert (k, v) (set m)" for k and v :: message_queue
    by (induction k v m rule: bt_insert.induct) auto
  then show "assignment_ok m \<Longrightarrow> ?thesis"
    unfolding assignment_ok_def by fastforce
qed

lemma assignment_ok_filter: "assignment_ok m \<Longrightarrow> assignment_ok (filter P m)"
  by (auto simp: assignment_ok_def)

lemma assignment_ok_fold_remove: "assignment_ok m \<Longrightarrow> assignment_ok (fold bt_remove ks m)"
  by (induction ks arbitrary: m) (simp_all add: bt_remove_def assignment_ok_filter)

lemma assignment_ok_fold_insert: "assignment_ok m \<Longrightarrow> assignment_ok (fold (\<lambda>mq. bt_insert (mq_key mq) mq) mqs m)"
  by (induction mqs arbitrary: m) (simp_all add: assignment_ok_insert)

lemma claim_mode_cursors:
  assumes "claim_mode a st = Inr st'"
  shows "ls_assigned st' = ls_assigned st" "ls_next_offset st' = ls_next_offset st"
    "ls_consume_offset st' = ls_consume_offset st"
  using assms by (auto simp: claim_mode_def split: if_splits)

lemma commit_inv_forget:
  assumes "commit_inv s"
  shows "cursors_ok (queue_messages (revoke_queues keys (lk_buffer s)) k)
     (map_of (ls_consume_offset (forget_queues keys (lk_state s))) k)
     (map_of (ls_next_offset (forget_queues keys (lk_state s))) k)"
  using assms by (simp add: commit_inv_def queue_messages_revoke)

lemma commit_inv_assign:
  assumes "commit_inv s" and "lite_assign mqs s = Inr s'"
  shows "commit_inv s'"
proof -
  obtain dropped st where *: "assign_state mqs (lk_state s) = Inr (dropped, st)"
      "s' = \<lparr>lk_state = st, lk_buffer = revoke_queues dropped (lk_buffer s)\<rparr>"
    using assms(2) by (auto simp: lite_assign_def bind_result_Inr)
  then obtain st1 where st1: "claim_mode True (lk_state s) = Inr st1"
      "st = (forget_queues dropped st1)\<lparr>ls_paused := ls_paused st1 - set dropped,
         ls_assigned := fold (\<lambda>mq. bt_insert (mq_key mq) mq) mqs
           (bt_retain (\<lambda>k. k \<in> set (map mq_key mqs)) (ls_assigned st1))\<rparr>"
    by (auto simp: assign_state_def bind_result_Inr Let_def forget_queues_def split: if_splits)
  note same = claim_mode_cursors [OF st1(1)]
  have "cursors_ok (queue_messages (revoke_queues dropped (lk_buffer s)) k)
      (map_of (ls_consume_offset st) k) (map_of (ls_next_offset st) k)" for k
    using commit_inv_forget [OF assms(1), of dropped k] same by (simp add: st1(2) split: if_splits)
  moreover have "assignment_ok (ls_assigned st)"
    using assms(1) same
    by (simp add: st1(2) bt_retain_def commit_inv_def assignment_ok_filter assignment_ok_fold_insert)
  ultimately show ?thesis
    by (simp add: *(2) commit_inv_def)
qed

lemma commit_inv_unsubscribe: "commit_inv s \<Longrightarrow> commit_inv (lite_unsubscribe ns topic s)"
proof -
  assume inv: "commit_inv s"
  obtain keys st where *: "unsubscribe_state ns topic (lk_state s) = (keys, st)"
    by fastforce
  then have "ls_assigned st = fold bt_remove keys (ls_assigned (lk_state s))"
      "ls_consume_offset st = ls_consume_offset (forget_queues keys (lk_state s))"
      "ls_next_offset st = ls_next_offset (forget_queues keys (lk_state s))"
    by (auto simp: unsubscribe_state_def Let_def forget_queues_def)
  then show ?thesis
    using inv commit_inv_forget [OF inv, of keys]
    by (simp add: lite_unsubscribe_def * commit_inv_def assignment_ok_fold_remove)
qed

lemma commit_inv_rebalance:
  assumes inv: "commit_inv s" and ok: "assignment_ok new_assigned"
  shows "commit_inv (lite_rebalance new_assigned s)"
proof -
  obtain ro st where *: "rebalance_state new_assigned (lk_state s) = (ro, st)"
    by fastforce
  have "assignment_ok (ls_assigned st) \<and>
      ls_consume_offset st = ls_consume_offset (forget_queues (ro_removed ro) (lk_state s)) \<and>
      ls_next_offset st = ls_next_offset (forget_queues (ro_removed ro) (lk_state s))"
    using * inv ok
    by (cases "ro_added ro \<noteq> [] \<or> ro_removed ro \<noteq> []")
      (auto simp: rebalance_state_def Let_def forget_queues_def commit_inv_def split: if_splits)
  then show ?thesis
    using inv commit_inv_forget [OF inv, of "ro_removed ro"]
    by (simp add: lite_rebalance_def * commit_inv_def drop_revoked_offsets_def)
qed

lemma tag_filter_sub: "\<exists>P. client_side_tag_filter sub ms = filter P ms"
  unfolding client_side_tag_filter_def
  by (cases sub) (auto intro: exI [of _ "\<lambda>_. True"])

lemma ascending_filter: "ascending ms \<Longrightarrow> ascending (filter P ms)"
  by (simp add: ascending_def sorted_wrt_filter)

lemma ascending_append:
  "ascending (xs @ ys) \<longleftrightarrow> ascending xs \<and> ascending ys
     \<and> (\<forall>x \<in> set xs. \<forall>y \<in> set ys. sint (x_queue_offset x) < sint (x_queue_offset y))"
  by (simp add: ascending_def sorted_wrt_append)

lemma cursors_ok_reply:
  assumes ok: "cursors_ok ms consumed (Some offset)"
    and new: "\<forall>m \<in> set new. sint offset \<le> sint (x_queue_offset m) \<and> sint (x_queue_offset m) < sint n"
    and "ascending new" and "sint offset \<le> sint n"
  shows "cursors_ok (ms @ new) consumed (Some n)"
proof -
  have ms: "ascending ms" "\<forall>m \<in> set ms. sint (x_queue_offset m) < sint offset"
    using ok by (simp_all add: cursors_ok_def)
  then have "ascending (ms @ new)" "\<forall>m \<in> set (ms @ new). sint (x_queue_offset m) < sint n"
    using new assms(3,4) by (auto simp: ascending_append) force+
  moreover have "sint c \<le> sint n \<and> (\<forall>m \<in> set (ms @ new). sint c \<le> sint (x_queue_offset m))" if "consumed = Some c" for c
    using that ok new assms(4) unfolding cursors_ok_def by fastforce
  ultimately show ?thesis
    by (simp add: cursors_ok_def)
qed

lemma commit_inv_response:
  assumes inv: "commit_inv s" and cur: "map_of (ls_next_offset (lk_state s)) (mq_key mq) = Some offset"
    and reply: "broker_reply mq offset r"
  shows "commit_inv (lite_response mq offset r s)"
proof -
  let ?st = "(lk_state s)\<lparr>ls_next_offset := bt_insert (mq_key mq) (pr_next_begin_offset r) (ls_next_offset (lk_state s))\<rparr>"
  obtain P where P: "client_side_tag_filter (map_of (ls_subscription_data (lk_state s)) (mq_topic mq)) (pr_msg_found_list r)
      = filter P (pr_msg_found_list r)"
    using tag_filter_sub by blast
  define new where "new = (if pr_status r \<noteq> Found then [] else filter P (pr_msg_found_list r))"
  have resp: "lite_response mq offset r s = \<lparr>lk_state = ?st,
      lk_buffer = (if new = [] then lk_buffer s else buffer_extend new (lk_buffer s))\<rparr>"
    by (auto simp: lite_response_def settle_response_def settle_cursor_def cur P new_def Let_def)
  have new: "\<forall>m \<in> set new. sint offset \<le> sint (x_queue_offset m) \<and> sint (x_queue_offset m) < sint (pr_next_begin_offset r)"
      "ascending new" "\<forall>m \<in> set new. cache_key_of_message m = mq_key mq"
    using reply by (auto simp: broker_reply_def new_def list_all_iff key_of_this_queue ascending_def sorted_wrt_filter)
  have "cursors_ok (queue_messages (lk_buffer s) k @ filter (\<lambda>m. cache_key_of_message m = k) new)
      (map_of (ls_consume_offset (lk_state s)) k) (map_of (ls_next_offset ?st) k)" for k
  proof (cases "k = mq_key mq")
    case True
    with new have "filter (\<lambda>m. cache_key_of_message m = k) new = new"
      by (auto intro: filter_True)
    moreover have "cursors_ok (queue_messages (lk_buffer s) k) (map_of (ls_consume_offset (lk_state s)) k) (Some offset)"
      using inv cur True by (metis commit_inv_def)
    ultimately show ?thesis
      using True cursors_ok_reply [OF _ new(1,2)] reply by (simp add: broker_reply_def)
  next
    case False
    with new have "filter (\<lambda>m. cache_key_of_message m = k) new = []"
      by (auto simp: filter_empty_conv)
    with False inv show ?thesis
      by (simp add: commit_inv_def)
  qed
  moreover have "queue_messages (if new = [] then lk_buffer s else buffer_extend new (lk_buffer s)) k =
      queue_messages (lk_buffer s) k @ filter (\<lambda>m. cache_key_of_message m = k) new" for k
    by simp
  ultimately show ?thesis
    using inv unfolding resp commit_inv_def by simp
qed

lemma advance_one_frame [simp]:
  "ls_assigned (advance_one held m st) = ls_assigned st" "ls_next_offset (advance_one held m st) = ls_next_offset st"
  by (auto simp: advance_one_def Let_def split: option.split)

lemma advance_fold_frame [simp]:
  "ls_assigned (fold (advance_one held) ms st) = ls_assigned st"
  "ls_next_offset (fold (advance_one held) ms st) = ls_next_offset st"
  by (induction ms arbitrary: st) simp_all

lemma advance_fold_consumed:
  "map_of (ls_consume_offset (fold (advance_one held) ms st)) k = Some c \<Longrightarrow>
   map_of (ls_consume_offset st) k = Some c \<or> (\<exists>m \<in> set ms. map_of held (coordinates m) = Some k \<and> c = x_queue_offset m + 1)"
proof (induction ms arbitrary: st)
  case (Cons m ms)
  from Cons.IH [of "advance_one held m st"] Cons.prems show ?case
    by (auto simp: advance_one_def Let_def split: option.splits if_splits)
qed simp

lemma held_key: "map_of (held_queues st) (coordinates m) = Some k \<Longrightarrow> cache_key_of_message m = k"
  by (drule map_of_SomeD)
    (auto simp: held_queues_def List.map_filter_def coordinates_def cache_key_of_message_def mq_key_def split: option.splits)

lemma commit_inv_poll:
  assumes inv: "commit_inv s"
  shows "commit_inv (snd (lite_poll s))"
proof (cases "lb_messages (lk_buffer s) = []")
  case True
  then show ?thesis
    using inv by (simp add: lite_poll_def try_drain_def)
next
  case False
  let ?msgs = "lb_messages (lk_buffer s)"
  let ?out = "take MAX_POLL_BATCH_SIZE ?msgs" and ?rest = "drop MAX_POLL_BATCH_SIZE ?msgs"
  let ?b = "snd (drain_prefix MAX_POLL_BATCH_SIZE (lk_buffer s))" and ?st = "advance_consume_offset ?out (lk_state s)"
  have poll: "snd (lite_poll s) = \<lparr>lk_state = ?st, lk_buffer = ?b\<rparr>"
    using False by (simp add: lite_poll_def try_drain_def drain_prefix_def Let_def)
  have "cursors_ok (queue_messages ?b k) (map_of (ls_consume_offset ?st) k) (map_of (ls_next_offset ?st) k)" for k
  proof -
    let ?of = "filter (\<lambda>m. cache_key_of_message m = k)"
    have split: "queue_messages (lk_buffer s) k = ?of ?out @ ?of ?rest" "queue_messages ?b k = ?of ?rest"
      by (simp_all add: queue_messages_def flip: filter_append)
    have ok: "cursors_ok (?of ?out @ ?of ?rest) (map_of (ls_consume_offset (lk_state s)) k)
        (map_of (ls_next_offset (lk_state s)) k)"
      using inv unfolding commit_inv_def split(1) [symmetric] by blast
    have next_same: "map_of (ls_next_offset ?st) k = map_of (ls_next_offset (lk_state s)) k"
      by (simp add: advance_consume_offset_def)
    have cases: "map_of (ls_consume_offset (lk_state s)) k = Some c \<or> (\<exists>m \<in> set (?of ?out). c = x_queue_offset m + 1)"
      if "map_of (ls_consume_offset ?st) k = Some c" for c
      using advance_fold_consumed [OF that [unfolded advance_consume_offset_def]] held_key by fastforce
    show ?thesis
    proof (cases "map_of (ls_next_offset (lk_state s)) k")
      case None
      with ok have empty: "map_of (ls_consume_offset (lk_state s)) k = None" "?of ?out = []" "?of ?rest = []"
        unfolding cursors_ok_def by blast+
      have "map_of (ls_consume_offset ?st) k = None"
        using cases empty(1) unfolding empty(2) by (cases "map_of (ls_consume_offset ?st) k") auto
      then show ?thesis
        unfolding split(2) empty(3) next_same None by simp
    next
      case (Some n)
      have below: "sint (x_queue_offset m) < sint n" if "m \<in> set (?of ?out)" for m
        using that ok Some unfolding cursors_ok_def set_append by blast
      have bound: "sint (x_queue_offset m + 1) = sint (x_queue_offset m) + 1"
        if "m \<in> set (?of ?out)" for m
        using below [OF that] sint_less [of n] sint_greater_eq [of "x_queue_offset m"]
        by (subst sint_add_64) simp_all
      have "sint c \<le> sint n \<and> (\<forall>m \<in> set (?of ?rest). sint c \<le> sint (x_queue_offset m))"
        if "map_of (ls_consume_offset ?st) k = Some c" for c
        using cases [OF that]
      proof
        assume "map_of (ls_consume_offset (lk_state s)) k = Some c"
        with ok Some show ?thesis
          unfolding cursors_ok_def set_append by blast
      next
        assume "\<exists>m \<in> set (?of ?out). c = x_queue_offset m + 1"
        then obtain m where m: "m \<in> set (?of ?out)" "c = x_queue_offset m + 1"
          by blast
        with ok have "\<forall>m' \<in> set (?of ?rest). sint (x_queue_offset m) < sint (x_queue_offset m')"
          unfolding cursors_ok_def ascending_append by blast
        with bound [OF m(1)] below [OF m(1)] m(2) show ?thesis
          by auto
      qed
      moreover have "ascending (?of ?rest)" "\<forall>m \<in> set (?of ?rest). sint (x_queue_offset m) < sint n"
        using ok Some unfolding cursors_ok_def ascending_append set_append by blast+
      ultimately show ?thesis
        unfolding split(2) next_same Some cursors_ok_def by blast
    qed
  qed
  then show ?thesis
    using inv by (simp add: poll commit_inv_def advance_consume_offset_def)
qed

lemma commit_inv_seek:
  assumes inv: "commit_inv s" and seek: "lite_seek mq offset lo hi s = Inr s'" and clean: "clean_seek mq offset s"
  shows "commit_inv s'"
proof -
  have s': "s' = \<lparr>lk_state = apply_seek_state mq offset (lk_state s), lk_buffer = prune_before mq offset (lk_buffer s)\<rparr>"
    using seek by (auto simp: lite_seek_def bind_result_Inr)
  have kept: "queue_messages (prune_before mq offset (lk_buffer s)) k = queue_messages (lk_buffer s) k" if "k \<noteq> mq_key mq" for k
    using that by (auto simp: queue_messages_def pruned_def dest: key_of_this_queue intro: filter_cong)
  have "cursors_ok (queue_messages (lk_buffer s') k) (map_of (ls_consume_offset (lk_state s')) k)
      (map_of (ls_next_offset (lk_state s')) k)" for k
  proof (cases "k = mq_key mq")
    case True
    then show ?thesis
      using clean by (simp add: s' clean_seek_def apply_seek_state_def Let_def cursors_ok_def ascending_def)
  next
    case False
    then show ?thesis
      using inv by (simp add: s' kept commit_inv_def apply_seek_state_def Let_def)
  qed
  then show ?thesis
    using inv by (simp add: s' commit_inv_def apply_seek_state_def Let_def)
qed

lemma write_targets_frame:
  "ls_assigned (write_targets ts st) = ls_assigned st \<and> ls_next_offset (write_targets ts st) = ls_next_offset st
     \<and> ls_consume_offset (write_targets ts st) = ls_consume_offset st"
  unfolding write_targets_def by (induction ts arbitrary: st) auto

lemma lite_commit_frame:
  "ls_assigned (snd (lite_commit st)) = ls_assigned st" "ls_next_offset (snd (lite_commit st)) = ls_next_offset st"
  "ls_consume_offset (snd (lite_commit st)) = ls_consume_offset st"
  using write_targets_frame [of "commit_values (commit_scope st) st" st]
  by (auto simp: lite_commit_def commit_targets_def persist_offset_table_def Let_def)

lemma commit_inv_reach: "lite_reach s \<Longrightarrow> commit_inv s"
proof (induction rule: lite_reach.induct)
  case init
  then show ?case
    by (simp add: commit_inv_def lite_client_default_def lite_state_default_def buffer_default_def queue_messages_def
        assignment_ok_def)
next
  case (call s s')
  from call.hyps(2) show ?case
  proof (cases rule: lite_call.cases)
    case (resolve mq offset)
    have "cursors_ok (queue_messages (lk_buffer s) k) (map_of (ls_consume_offset (lk_state s)) k)
        (map_of (ls_next_offset (lk_state s')) k)" for k
    proof (cases "k = mq_key mq")
      case True
      with resolve call.IH have "queue_messages (lk_buffer s) k = []" "map_of (ls_consume_offset (lk_state s)) k = None"
        by (simp_all add: commit_inv_def cursors_ok_def)
      with True resolve show ?thesis
        by (simp add: remember_offset_def cursors_ok_def ascending_def)
    next
      case False
      with resolve call.IH show ?thesis
        by (simp add: commit_inv_def remember_offset_def)
    qed
    then show ?thesis
      using call.IH resolve by (simp add: commit_inv_def remember_offset_def)
  next
    case commit
    then show ?thesis
      using call.IH by (simp add: commit_inv_def lite_commit_frame)
  next
    case (assign mqs)
    then show ?thesis
      by (rule commit_inv_assign [OF call.IH])
  next
    case (unsubscribe ns topic)
    then show ?thesis
      by (simp add: commit_inv_unsubscribe call.IH)
  next
    case (rebalance new_assigned)
    then show ?thesis
      by (simp add: commit_inv_rebalance call.IH)
  next
    case (response mq offset r)
    then show ?thesis
      by (simp add: commit_inv_response call.IH)
  next
    case poll
    then show ?thesis
      by (simp add: commit_inv_poll call.IH)
  next
    case (seek mq offset lo hi)
    then show ?thesis
      by (simp add: commit_inv_seek [OF call.IH])
  qed
qed

section \<open>What a commit sends\<close>

lemma map_of_commit_values:
  "map_of (commit_values scope st) k =
     (if k \<in> set scope then Some (case map_of (ls_consume_offset st) k of Some v \<Rightarrow> v | None \<Rightarrow> - 1) else None)"
proof -
  have "map_of (fold (\<lambda>k. bt_insert k (f k)) ks m) k = (if k \<in> set ks then Some (f k) else map_of m k)"
    for f :: "string \<Rightarrow> i64" and ks m
    by (induction ks arbitrary: m) auto
  then show ?thesis
    by (simp add: commit_values_def)
qed

lemma bt_inv_commit_values: "bt_inv (commit_values scope st)"
proof -
  have "bt_inv m \<Longrightarrow> bt_inv (fold (\<lambda>k. bt_insert k (f k)) ks m)" for f :: "string \<Rightarrow> i64" and ks m
    by (induction ks arbitrary: m) auto
  then show ?thesis
    by (simp add: commit_values_def)
qed

lemma map_of_write_targets:
  "distinct (map fst ts) \<Longrightarrow> map_of (ls_offset_table (write_targets ts st)) k =
     (case map_of ts k of
        Some offset \<Rightarrow> if offset = - 1 \<or> map_of (ls_assigned st) k = None then map_of (ls_offset_table st) k else Some offset
      | None \<Rightarrow> map_of (ls_offset_table st) k)"
  unfolding write_targets_def
proof (induction ts arbitrary: st)
  case (Cons t ts)
  have "map_of ts (fst t) = None"
    using Cons.prems by (simp add: map_of_eq_None_iff)
  with Cons show ?case
    by (cases t) (auto split: option.split)
qed simp

text \<open>The commit table stays ordered.\<close>

definition table_ok :: "lite_client \<Rightarrow> bool" where
  "table_ok s \<longleftrightarrow> bt_inv (ls_offset_table (lk_state s))"

lemma table_frames [simp]:
  "ls_offset_table (forget_queues keys st) = ls_offset_table st"
  "ls_offset_table (fold (advance_one held) ms st) = ls_offset_table st"
proof -
  have "ls_offset_table (advance_one held m st) = ls_offset_table st" for m st
    by (auto simp: advance_one_def Let_def split: option.split)
  then show "ls_offset_table (fold (advance_one held) ms st) = ls_offset_table st"
    by (induction ms arbitrary: st) simp_all
qed (simp add: forget_queues_def)

lemma bt_inv_write_targets: "bt_inv (ls_offset_table st) \<Longrightarrow> bt_inv (ls_offset_table (write_targets ts st))"
  unfolding write_targets_def by (induction ts arbitrary: st) (auto simp: bt_inv_insert)

lemma bt_inv_drop_revoked: "bt_inv (ls_offset_table st) \<Longrightarrow> bt_inv (ls_offset_table (drop_revoked_offsets mqs st))"
proof -
  have "bt_inv m \<Longrightarrow> bt_inv (fold (\<lambda>mq. bt_remove (mq_key mq)) mqs m)" for m :: "(string \<times> i64) list"
    by (induction mqs arbitrary: m) auto
  then show "bt_inv (ls_offset_table st) \<Longrightarrow> ?thesis"
    by (simp add: drop_revoked_offsets_def)
qed

lemma table_ok_call: "lite_call s s' \<Longrightarrow> table_ok s \<Longrightarrow> table_ok s'"
proof (induction rule: lite_call.induct)
  case (assign mqs s s')
  then show ?case
    by (auto simp: table_ok_def lite_assign_def assign_state_def claim_mode_def bind_result_Inr Let_def split: if_splits)
next
  case (rebalance new_assigned s)
  then show ?case
    by (auto simp: table_ok_def lite_rebalance_def rebalance_state_def Let_def intro!: bt_inv_drop_revoked)
next
  case (poll s)
  then show ?case
    by (auto simp: table_ok_def lite_poll_def try_drain_def advance_consume_offset_def split: option.split prod.split)
next
  case (commit s)
  then show ?case
    using bt_inv_write_targets
    by (auto simp: table_ok_def lite_commit_def commit_targets_def persist_offset_table_def Let_def)
qed (auto simp: table_ok_def lite_unsubscribe_def unsubscribe_state_def remember_offset_def lite_response_def
    settle_response_def settle_cursor_def lite_seek_def apply_seek_state_def bind_result_Inr Let_def split: prod.split)

lemma table_ok_reach: "lite_reach s \<Longrightarrow> table_ok s"
  by (induction rule: lite_reach.induct)
    (auto simp: table_ok_def lite_client_default_def lite_state_default_def dest: table_ok_call [unfolded table_ok_def])

lemma commit_sends:
  assumes ok: "assignment_ok (ls_assigned st)" and tab: "bt_inv (ls_offset_table st)" and sent: "(mq, offset) \<in> set (fst (lite_commit st))"
    and c: "map_of (ls_consume_offset st) (mq_key mq) = Some c" "c \<noteq> - 1"
  shows "offset = c"
proof -
  let ?w = "write_targets (commit_values (commit_scope st) st) st"
  obtain k where k: "(k, offset) \<in> set (bt_retain (\<lambda>k. k \<in> set (commit_scope st)) (ls_offset_table ?w))"
      "map_of (ls_assigned st) k = Some mq"
    using sent write_targets_frame [of "commit_values (commit_scope st) st" st]
    by (auto simp: lite_commit_def commit_targets_def persist_offset_table_def Let_def List.map_filter_def
        split: if_splits option.splits)
  then have "k = mq_key mq"
    using ok by (auto simp: assignment_ok_def dest!: map_of_SomeD)
  moreover have "map_of (ls_offset_table ?w) k = Some offset"
    using k(1) bt_entry_iff [OF bt_inv_write_targets [OF tab]] by (auto simp: bt_retain_def)
  ultimately show ?thesis
    using c k bt_inv_distinct [OF bt_inv_commit_values]
    by (auto simp: map_of_write_targets map_of_commit_values commit_scope_def bt_retain_def split: if_splits)
qed


section \<open>Concrete runs\<close>

definition replay_rows :: "message_ext list" where
  "replay_rows = [cached_row 10, cached_row 11, cached_row 12]"

definition replay_reply :: pull_result where
  "replay_reply = \<lparr>pr_status = Found, pr_next_begin_offset = 13, pr_min_offset = 0, pr_max_offset = 13,
     pr_suggest_which_broker_id = None, pr_msg_found_list = replay_rows\<rparr>"

definition replay_state :: "i64 option \<Rightarrow> (string \<times> i64) list \<Rightarrow> i64 \<Rightarrow> lite_state" where
  "replay_state consumed sought nxt = lite_state_default\<lparr>ls_mode_claimed := True, ls_assign_mode := True,
     ls_assigned := [(mq_key row_queue, row_queue)], ls_next_offset := [(mq_key row_queue, nxt)],
     ls_seek_offset := sought, ls_consume_offset := (case consumed of None \<Rightarrow> [] | Some c \<Rightarrow> [(mq_key row_queue, c)])\<rparr>"

definition replay_start :: lite_client where
  "replay_start = \<lparr>lk_state = replay_state None [] 13, lk_buffer = buffer_extend replay_rows buffer_default\<rparr>"

lemma replay_assigned:
  "lite_assign [row_queue] lite_client_default = Inr \<lparr>lk_state = lite_state_default\<lparr>ls_mode_claimed := True,
     ls_assign_mode := True, ls_assigned := [(mq_key row_queue, row_queue)]\<rparr>, lk_buffer = buffer_default\<rparr>"
  by (simp add: lite_assign_def assign_state_def claim_mode_def lite_client_default_def lite_state_default_def
      forget_queues_def bt_retain_def revoke_queues_def)

lemma replay_broker: "broker_reply row_queue 10 replay_reply"
  by (simp add: broker_reply_def replay_reply_def replay_rows_def)

lemma replay_reach: "lite_reach replay_start"
proof -
  let ?s = "\<lparr>lk_state = lite_state_default\<lparr>ls_mode_claimed := True, ls_assign_mode := True,
     ls_assigned := [(mq_key row_queue, row_queue)]\<rparr>, lk_buffer = buffer_default\<rparr>"
  have 1: "lite_reach ?s"
    by (rule lite_reach.call [OF lite_reach.init lite_call.assign [OF replay_assigned]])
  have "map_of (ls_next_offset (lk_state ?s)) (mq_key row_queue) = None"
    by (simp add: lite_state_default_def)
  from lite_reach.call [OF 1 lite_call.resolve [OF this, of 10]]
  have 2: "lite_reach \<lparr>lk_state = replay_state None [] 10, lk_buffer = buffer_default\<rparr>"
    by (simp add: remember_offset_def replay_state_def lite_state_default_def)
  have "map_of (ls_next_offset (lk_state \<lparr>lk_state = replay_state None [] 10, lk_buffer = buffer_default\<rparr>))
      (mq_key row_queue) = Some 10"
    by (simp add: replay_state_def)
  from lite_reach.call [OF 2 lite_call.response [OF this replay_broker]] show ?thesis
    by (simp add: lite_response_def settle_response_def settle_cursor_def replay_state_def lite_state_default_def
        replay_reply_def replay_rows_def client_side_tag_filter_def replay_start_def)
qed

lemma row_coordinates: "coordinates (cached_row n) = (mq_topic row_queue, mq_broker_name row_queue, mq_queue_id row_queue)"
  by (simp add: coordinates_def cached_row_def row_queue_def)

lemma replay_advance:
  "advance_consume_offset replay_rows (replay_state None sought nxt) = replay_state (Some 13) sought nxt"
  "advance_consume_offset replay_rows (replay_state (Some 5) sought nxt) = replay_state (Some 13) sought nxt"
  by (simp_all add: word_sless_alt advance_consume_offset_def replay_rows_def advance_one_def held_queues_def replay_state_def
      row_coordinates List.map_filter_def lite_state_default_def Let_def)

lemma replay_drain:
  "lb_messages b = replay_rows \<Longrightarrow> lite_poll \<lparr>lk_state = st, lk_buffer = b\<rparr> =
     (replay_rows, \<lparr>lk_state = advance_consume_offset replay_rows st, lk_buffer = snd (drain_prefix 1024 b)\<rparr>)"
  by (simp add: lite_poll_def try_drain_def drain_prefix_def MAX_POLL_BATCH_SIZE_def replay_rows_def Let_def)

lemma replay_commit: "fst (lite_commit (replay_state (Some 13) sought nxt)) = [(row_queue, 13)]"
  by (simp add: lite_commit_def commit_targets_def commit_scope_def commit_values_def write_targets_def
      persist_offset_table_def replay_state_def lite_state_default_def bt_retain_def List.map_filter_def Let_def)



end
