(* ===== verification/Lite_Ownership.thy ===== *)
theory Lite_Ownership
  imports Lite_Commit
begin

text \<open>
  Calls of the lite pull consumer that interleave. The background pull and the calls of the application run in different
  tasks; each lock of the state and each lock of the buffer is one step, and between two steps of a call, while it waits
  for a lock or for a broker, any other step may come. A suspended call is a task that carries what the call knows.
\<close>

section \<open>Steps\<close>

datatype lite_task =
    Revoking "string list"
  | Pruning message_queue i64
  | Seeking message_queue i64
  | Resolving message_queue
  | Pulling message_queue i64
  | Enqueueing "message_ext list"
  | Advancing "message_ext list"

record lite_system =
  ly_state :: lite_state
  ly_buffer :: lite_buffer
  ly_tasks :: "lite_task list"

definition lite_system_default :: lite_system where
  "lite_system_default = \<lparr>ly_state = lite_state_default, ly_buffer = buffer_default, ly_tasks = []\<rparr>"

definition spawn :: "lite_task \<Rightarrow> lite_system \<Rightarrow> lite_system" where
  "spawn t s = s\<lparr>ly_tasks := t # ly_tasks s\<rparr>"

definition finish :: "lite_task \<Rightarrow> lite_system \<Rightarrow> lite_system" where
  "finish t s = s\<lparr>ly_tasks := remove1 t (ly_tasks s)\<rparr>"

definition of_queue :: "message_queue \<Rightarrow> pull_result \<Rightarrow> bool" where
  "of_queue mq r \<longleftrightarrow> list_all (is_this_queue mq) (pr_msg_found_list r)"

text \<open>
  Steps under which the check of the cursor protects the buffer: a batch that passed it is in the buffer before anything
  else happens, and a cursor is written in the same step in which the queue was seen to be assigned.
\<close>

inductive calm_step :: "lite_system \<Rightarrow> lite_system \<Rightarrow> bool" where
  assign: "assign_state mqs (ly_state s) = Inr (dropped, st) \<Longrightarrow>
    calm_step s (spawn (Revoking dropped) (s\<lparr>ly_state := st\<rparr>))"
| unsubscribe: "unsubscribe_state ns topic (ly_state s) = (keys, st) \<Longrightarrow>
    calm_step s (spawn (Revoking keys) (s\<lparr>ly_state := st\<rparr>))"
| rebalance: "assignment_ok new_assigned \<Longrightarrow> rebalance_state new_assigned (ly_state s) = (ro, st) \<Longrightarrow>
    calm_step s (spawn (Revoking (ro_removed ro)) (s\<lparr>ly_state := st\<rparr>))"
| revoke: "Revoking keys \<in> set (ly_tasks s) \<Longrightarrow>
    calm_step s (finish (Revoking keys) (s\<lparr>ly_buffer := revoke_queues keys (ly_buffer s)\<rparr>))"
| seek: "seek_check mq (ly_state s) = Inr () \<Longrightarrow>
    calm_step s (spawn (Pruning mq offset) (s\<lparr>ly_state := apply_seek_state mq offset (ly_state s)\<rparr>))"
| prune: "Pruning mq offset \<in> set (ly_tasks s) \<Longrightarrow>
    calm_step s (finish (Pruning mq offset) (s\<lparr>ly_buffer := prune_before mq offset (ly_buffer s)\<rparr>))"
| resolve: "mq \<in> set (pull_targets now (ly_state s)) \<Longrightarrow>
    map_of (ls_next_offset (ly_state s)) (mq_key mq) = None \<Longrightarrow>
    calm_step s (s\<lparr>ly_state := remember_offset (mq_key mq) offset (ly_state s)\<rparr>)"
| pull_known: "mq \<in> set (pull_targets now (ly_state s)) \<Longrightarrow>
    map_of (ls_next_offset (ly_state s)) (mq_key mq) = Some offset \<Longrightarrow>
    calm_step s (spawn (Pulling mq offset) s)"
| response: "Pulling mq offset \<in> set (ly_tasks s) \<Longrightarrow> of_queue mq r \<Longrightarrow>
    settle_response registered (mq_key mq) offset r (ly_state s)
      = (msgs, st) \<Longrightarrow>
    calm_step s (finish (Pulling mq offset) (s\<lparr>ly_state := st, ly_buffer := buffer_extend msgs (ly_buffer s)\<rparr>))"
| drain: "try_drain (ly_buffer s) = (Some msgs, b) \<Longrightarrow>
    calm_step s (spawn (Advancing msgs) (s\<lparr>ly_buffer := b\<rparr>))"
| advance: "Advancing msgs \<in> set (ly_tasks s) \<Longrightarrow>
    calm_step s (finish (Advancing msgs) (s\<lparr>ly_state := advance_consume_offset msgs (ly_state s)\<rparr>))"

text \<open>The program also lets go of the lock, or waits for a broker, between the halves of these steps.\<close>

inductive lite_step :: "lite_system \<Rightarrow> lite_system \<Rightarrow> bool" where
  calm: "calm_step s s' \<Longrightarrow> lite_step s s'"
| seek_checked: "seek_check mq (ly_state s) = Inr () \<Longrightarrow> lite_step s (spawn (Seeking mq offset) s)"
| seek_applied: "Seeking mq offset \<in> set (ly_tasks s) \<Longrightarrow>
    lite_step s (spawn (Pruning mq offset) (finish (Seeking mq offset)
      (s\<lparr>ly_state := apply_seek_state mq offset (ly_state s)\<rparr>)))"
| pull_unknown: "mq \<in> set (pull_targets now (ly_state s)) \<Longrightarrow>
    map_of (ls_next_offset (ly_state s)) (mq_key mq) = None \<Longrightarrow>
    lite_step s (spawn (Resolving mq) s)"
| resolved: "Resolving mq \<in> set (ly_tasks s) \<Longrightarrow>
    lite_step s (spawn (Pulling mq offset) (finish (Resolving mq)
      (s\<lparr>ly_state := remember_offset (mq_key mq) offset (ly_state s)\<rparr>)))"
| checked: "Pulling mq offset \<in> set (ly_tasks s) \<Longrightarrow> of_queue mq r \<Longrightarrow>
    settle_response registered (mq_key mq) offset r (ly_state s)
      = (msgs, st) \<Longrightarrow>
    lite_step s (spawn (Enqueueing msgs) (finish (Pulling mq offset) (s\<lparr>ly_state := st\<rparr>)))"
| enqueue: "Enqueueing msgs \<in> set (ly_tasks s) \<Longrightarrow>
    lite_step s (finish (Enqueueing msgs) (s\<lparr>ly_buffer := buffer_extend msgs (ly_buffer s)\<rparr>))"

inductive lite_reachable :: "(lite_system \<Rightarrow> lite_system \<Rightarrow> bool) \<Rightarrow> lite_system \<Rightarrow> bool" for step where
  init: "lite_reachable step lite_system_default"
| step: "lite_reachable step s \<Longrightarrow> step s s' \<Longrightarrow> lite_reachable step s'"

section \<open>Every buffered message has an owner\<close>

definition revoking_keys :: "lite_system \<Rightarrow> string set" where
  "revoking_keys s = {k. \<exists>keys. Revoking keys \<in> set (ly_tasks s) \<and> k \<in> set keys}"

definition owned_keys :: "lite_state \<Rightarrow> string set" where
  "owned_keys st = fst ` set (ls_assigned st)"

definition cursor_keys :: "lite_state \<Rightarrow> string set" where
  "cursor_keys st = dom (map_of (ls_next_offset st))"

definition buffered_keys :: "lite_buffer \<Rightarrow> string set" where
  "buffered_keys b = cache_key_of_message ` set (lb_messages b)"

definition owner_inv :: "lite_system \<Rightarrow> bool" where
  "owner_inv s \<longleftrightarrow> assignment_ok (ls_assigned (ly_state s)) \<and> cursor_keys (ly_state s) \<subseteq> owned_keys (ly_state s)
     \<and> buffered_keys (ly_buffer s) \<subseteq> owned_keys (ly_state s) \<union> revoking_keys s"

text \<open>A change of the assignment leaves cursors only for the queues that stay.\<close>

definition hands_over :: "lite_state \<Rightarrow> string list \<Rightarrow> lite_state \<Rightarrow> bool" where
  "hands_over st gone st' \<longleftrightarrow> cursor_keys st' \<subseteq> cursor_keys st - set gone \<and> owned_keys st - set gone \<subseteq> owned_keys st'
     \<and> (assignment_ok (ls_assigned st) \<longrightarrow> assignment_ok (ls_assigned st'))"

lemma cursor_keys_forget: "cursor_keys (forget_queues keys st) = cursor_keys st - set keys"
  by (auto simp: cursor_keys_def split: if_splits)

lemma keys_fold_insert: "fst ` set (fold (\<lambda>mq. bt_insert (mq_key mq) mq) mqs m) = fst ` set m \<union> mq_key ` set mqs"
  by (induction mqs arbitrary: m) (auto simp: bt_insert_keys)

lemma assign_hands_over:
  assumes "assign_state mqs st = Inr (dropped, st')"
  shows "hands_over st dropped st'"
proof -
  obtain st1 where st1: "claim_mode True st = Inr st1"
      "dropped = filter (\<lambda>k. k \<notin> mq_key ` set mqs) (map fst (ls_assigned st1))"
      "st' = (forget_queues dropped st1)\<lparr>ls_paused := ls_paused st1 - set dropped,
         ls_assigned := fold (\<lambda>mq. bt_insert (mq_key mq) mq) mqs
           (bt_retain (\<lambda>k. k \<in> mq_key ` set mqs) (ls_assigned st1))\<rparr>"
    using assms by (auto simp: assign_state_def bind_result_Inr Let_def forget_queues_def split: if_splits)
  note same = claim_mode_cursors [OF st1(1)]
  have "cursor_keys st' = cursor_keys (forget_queues dropped st1)"
    by (simp add: st1(3) cursor_keys_def)
  moreover have "cursor_keys st1 = cursor_keys st"
    by (simp add: cursor_keys_def same)
  moreover have "owned_keys st - set dropped \<subseteq> owned_keys st'"
    by (auto simp: owned_keys_def st1(2,3) same keys_fold_insert bt_retain_def)
  moreover have "assignment_ok (ls_assigned st) \<longrightarrow> assignment_ok (ls_assigned st')"
    by (simp add: st1(3) same bt_retain_def assignment_ok_filter assignment_ok_fold_insert)
  ultimately show ?thesis
    unfolding hands_over_def by (simp add: cursor_keys_forget)
qed

lemma keys_fold_remove: "fst ` set (fold bt_remove ks m) = fst ` set m - set ks"
  by (induction ks arbitrary: m) (auto simp: bt_remove_def)

lemma unsubscribe_hands_over:
  assumes "unsubscribe_state ns topic st = (keys, st')"
  shows "hands_over st keys st'"
proof -
  have st': "ls_assigned st' = fold bt_remove keys (ls_assigned st)"
      "ls_next_offset st' = ls_next_offset (forget_queues keys st)"
    using assms by (auto simp: unsubscribe_state_def Let_def forget_queues_def)
  then have "cursor_keys st' = cursor_keys (forget_queues keys st)"
    by (simp add: cursor_keys_def)
  then show ?thesis
    by (simp add: hands_over_def cursor_keys_forget owned_keys_def st' keys_fold_remove assignment_ok_fold_remove)
qed

lemma rebalance_hands_over:
  assumes "rebalance_state new_assigned st = (ro, st')" and "assignment_ok new_assigned"
  shows "hands_over st (ro_removed ro) st'"
proof -
  have removed: "ro_removed ro = filter (\<lambda>k. map_of new_assigned k = None) (map fst (ls_assigned st))"
    using assms(1) by (auto simp: rebalance_state_def Let_def)
  then have kept: "owned_keys st - set (ro_removed ro) \<subseteq> fst ` set new_assigned"
    by (auto simp: owned_keys_def map_of_eq_None_iff)
  show ?thesis
  proof (cases "ro_added ro \<noteq> [] \<or> ro_removed ro \<noteq> []")
    case True
    then have "st' = forget_queues (ro_removed ro) (st\<lparr>ls_assigned := new_assigned\<rparr>)"
      using assms(1) by (auto simp: rebalance_state_def Let_def)
    with kept assms(2) show ?thesis
      by (simp add: hands_over_def cursor_keys_forget owned_keys_def) (simp add: cursor_keys_def)
  next
    case False
    then have "st' = st" "ro_removed ro = []"
      using assms(1) by (auto simp: rebalance_state_def Let_def)
    then show ?thesis
      by (simp add: hands_over_def)
  qed
qed

lemma revoking_spawn [simp]:
  "revoking_keys (spawn (Revoking keys) s) = set keys \<union> revoking_keys s"
  "revoking_keys (spawn (Pruning mq off) s) = revoking_keys s"
  "revoking_keys (spawn (Pulling mq off) s) = revoking_keys s"
  "revoking_keys (spawn (Advancing ms) s) = revoking_keys s"
  by (auto simp: revoking_keys_def spawn_def)

lemma system_frames [simp]:
  "ly_state (spawn t s) = ly_state s" "ly_buffer (spawn t s) = ly_buffer s"
  "ly_state (finish t s) = ly_state s" "ly_buffer (finish t s) = ly_buffer s"
  by (simp_all add: spawn_def finish_def)

lemma set_remove1_other: "x \<noteq> t \<Longrightarrow> x \<in> set (remove1 t ts) \<longleftrightarrow> x \<in> set ts"
  by (induction ts) auto

lemma revoking_finish [simp]:
  "revoking_keys (finish (Pruning mq off) s) = revoking_keys s"
  "revoking_keys (finish (Pulling mq off) s) = revoking_keys s"
  "revoking_keys (finish (Advancing ms) s) = revoking_keys s"
  by (simp_all add: revoking_keys_def finish_def set_remove1_other)

lemma revoking_finish_revoking: "revoking_keys s - set keys \<subseteq> revoking_keys (finish (Revoking keys) s)"
  by (auto simp: revoking_keys_def finish_def) (metis set_remove1_other lite_task.inject(1))

lemma revoking_update [simp]:
  "revoking_keys (s\<lparr>ly_state := st\<rparr>) = revoking_keys s" "revoking_keys (s\<lparr>ly_buffer := b\<rparr>) = revoking_keys s"
  by (simp_all add: revoking_keys_def)

lemma buffered_after:
  "buffered_keys (revoke_queues keys b) = buffered_keys b - set keys"
  "buffered_keys (prune_before mq off b) \<subseteq> buffered_keys b"
  "buffered_keys (buffer_extend ms b) = buffered_keys b \<union> cache_key_of_message ` set ms"
  by (induction keys arbitrary: b) (auto simp: revoke_queues_def buffered_keys_def)

lemma buffered_drain: "try_drain b = (Some ms, b') \<Longrightarrow> buffered_keys b' \<subseteq> buffered_keys b"
  using messages_after(2) [of MAX_POLL_BATCH_SIZE b] set_drop_subset [of MAX_POLL_BATCH_SIZE "lb_messages b"]
  by (auto simp: try_drain_def buffered_keys_def simp del: messages_after split: if_splits prod.splits)

lemma settle_keys:
  assumes "settle_response reg key offset r st = (msgs, st')" and "of_queue mq r" and "key = mq_key mq"
  shows "cache_key_of_message ` set msgs \<subseteq> cursor_keys st" "cursor_keys st' = cursor_keys st"
    "ls_assigned st' = ls_assigned st"
proof -
  obtain P where P: "client_side_tag_filter reg (pr_msg_found_list r) = filter P (pr_msg_found_list r)"
    using tag_filter_sub by blast
  have "set msgs \<subseteq> set (pr_msg_found_list r) \<and> (msgs \<noteq> [] \<longrightarrow> key \<in> cursor_keys st)"
    using assms(1) by (auto simp: settle_response_def settle_cursor_def cursor_keys_def P split: if_splits)
  moreover have "\<forall>m \<in> set (pr_msg_found_list r). cache_key_of_message m = key"
    using assms(2,3) by (simp add: of_queue_def list_all_iff key_of_this_queue)
  ultimately show "cache_key_of_message ` set msgs \<subseteq> cursor_keys st"
    by (cases msgs) auto
  show "cursor_keys st' = cursor_keys st" "ls_assigned st' = ls_assigned st"
    using assms(1) by (auto simp: settle_response_def settle_cursor_def cursor_keys_def split: if_splits)
qed

lemma target_owned: "mq \<in> set (pull_targets now st) \<Longrightarrow> assignment_ok (ls_assigned st) \<Longrightarrow> mq_key mq \<in> owned_keys st"
  by (force simp: pull_targets_def owned_keys_def assignment_ok_def)

lemma owner_inv_hand_over:
  assumes "owner_inv s" and "hands_over (ly_state s) gone st"
  shows "owner_inv (spawn (Revoking gone) (s\<lparr>ly_state := st\<rparr>))"
  using assms by (auto simp: owner_inv_def hands_over_def)

lemma owner_inv_step: "calm_step s s' \<Longrightarrow> owner_inv s \<Longrightarrow> owner_inv s'"
proof (induction rule: calm_step.induct)
  case (revoke keys s)
  then show ?case
    using revoking_finish_revoking [of s keys] by (fastforce simp: owner_inv_def buffered_after finish_def revoking_keys_def)
next
  case (seek mq s offset)
  then have "mq_key mq \<in> owned_keys (ly_state s)"
    by (auto simp: seek_check_def owned_keys_def map_of_eq_None_iff split: if_splits)
  with seek.prems show ?case
    by (auto simp: owner_inv_def apply_seek_state_def Let_def cursor_keys_def owned_keys_def)
next
  case (prune mq offset s)
  then show ?case
    using buffered_after(2) [of mq offset "ly_buffer s"] by (auto simp: owner_inv_def)
next
  case (resolve mq now s offset)
  then have "mq_key mq \<in> owned_keys (ly_state s)"
    by (auto simp: owner_inv_def dest: target_owned)
  with resolve.prems show ?case
    by (auto simp: owner_inv_def remember_offset_def cursor_keys_def owned_keys_def)
next
  case (response mq offset s r msgs st)
  then show ?case
    using settle_keys [OF response.hyps(3,2) refl] by (fastforce simp: owner_inv_def buffered_after owned_keys_def)
next
  case (drain s msgs b)
  then show ?case
    using buffered_drain [OF drain.hyps] by (auto simp: owner_inv_def)
next
  case (advance msgs s)
  then show ?case
    by (simp add: owner_inv_def advance_consume_offset_def cursor_keys_def owned_keys_def)
next
  case (assign mqs s dropped st)
  then show ?case
    by (intro owner_inv_hand_over assign_hands_over)
next
  case (unsubscribe ns topic s keys st)
  then show ?case
    by (intro owner_inv_hand_over unsubscribe_hands_over)
next
  case (rebalance new_assigned s ro st)
  then show ?case
    by (intro owner_inv_hand_over rebalance_hands_over)
next
  case (pull_known mq now s offset)
  then show ?case
    by (simp add: owner_inv_def)
qed

lemma owner_inv_reachable: "lite_reachable calm_step s \<Longrightarrow> owner_inv s"
proof (induction rule: lite_reachable.induct)
  case init
  then show ?case
    by (simp add: owner_inv_def lite_system_default_def lite_state_default_def assignment_ok_def cursor_keys_def
        buffered_keys_def buffer_default_def)
qed (rule owner_inv_step)

text \<open>
  C11. As long as a checked batch enters the buffer at once and cursors are written only for queues that are assigned at
  that moment, a revoked queue never reaches the application: in every reachable state each buffered message belongs to
  an assigned queue or to one whose revocation is still to be applied to the buffer.
\<close>

theorem buffered_queues_owned:
  assumes "lite_reachable calm_step s" and "m \<in> set (lb_messages (ly_buffer s))"
    and "\<forall>keys. Revoking keys \<notin> set (ly_tasks s)"
  shows "\<exists>mq. map_of (ls_assigned (ly_state s)) (cache_key_of_message m) = Some mq"
proof -
  have "cache_key_of_message m \<in> owned_keys (ly_state s)"
    using owner_inv_reachable [OF assms(1)] assms(2,3) by (auto simp: owner_inv_def buffered_keys_def revoking_keys_def)
  then show ?thesis
    by (force simp: owned_keys_def dest: weak_map_of_SomeI)
qed

section \<open>Concrete runs\<close>

definition other_queue :: message_queue where "other_queue = MessageQueue ''T'' ''b'' 1"

lemma other_key: "mq_key other_queue \<noteq> mq_key row_queue"
  by code_simp

definition assigned_to :: "message_queue \<Rightarrow> lite_state" where
  "assigned_to mq = lite_state_default\<lparr>ls_mode_claimed := True, ls_assign_mode := True, ls_assigned := [(mq_key mq, mq)]\<rparr>"

abbreviation lite_sys :: "lite_state \<Rightarrow> lite_buffer \<Rightarrow> lite_task list \<Rightarrow> lite_system" where
  "lite_sys st b ts \<equiv> \<lparr>ly_state = st, ly_buffer = b, ly_tasks = ts\<rparr>"

lemma first_assign: "assign_state [row_queue] lite_state_default = Inr ([], assigned_to row_queue)"
  by (simp add: assign_state_def claim_mode_def lite_state_default_def forget_queues_def bt_retain_def assigned_to_def)

lemma second_assign: "assign_state [other_queue] (assigned_to row_queue) = Inr ([mq_key row_queue], assigned_to other_queue)"
  using other_key by (simp add: assign_state_def claim_mode_def lite_state_default_def forget_queues_def bt_retain_def
      assigned_to_def bt_remove_def)

lemma row_target: "row_queue \<in> set (pull_targets 0 (assigned_to row_queue))"
  by (simp add: pull_targets_def assigned_to_def lite_state_default_def)

definition cursor_at :: "i64 \<Rightarrow> lite_state \<Rightarrow> lite_state" where
  "cursor_at off st = remember_offset (mq_key row_queue) off st"

lemma settle_rows:
  "settle_response None (mq_key row_queue) 10 replay_reply (cursor_at 10 (assigned_to mq)) = (replay_rows, cursor_at 13 (assigned_to mq))"
  by (simp add: settle_response_def settle_cursor_def cursor_at_def remember_offset_def assigned_to_def
      lite_state_default_def replay_reply_def replay_rows_def client_side_tag_filter_def)

lemma replay_of_queue: "of_queue row_queue replay_reply"
  by (simp add: of_queue_def replay_reply_def replay_rows_def)

lemmas calm_next = lite_reachable.step [where step = calm_step]
lemmas lite_next = lite_reachable.step [where step = lite_step]

lemma calm_assigned: "lite_reachable calm_step (lite_sys (assigned_to row_queue) buffer_default [])"
proof -
  have "assign_state [row_queue] (ly_state lite_system_default) = Inr ([], assigned_to row_queue)"
    by (simp add: lite_system_default_def first_assign)
  from calm_next [OF lite_reachable.init calm_step.assign [OF this]]
  have 1: "lite_reachable calm_step (lite_sys (assigned_to row_queue) buffer_default [Revoking []])"
    by (simp add: spawn_def lite_system_default_def)
  have "Revoking [] \<in> set (ly_tasks (lite_sys (assigned_to row_queue) buffer_default [Revoking []]))"
    by simp
  from calm_next [OF 1 calm_step.revoke [OF this]] show ?thesis
    by (simp add: finish_def revoke_queues_def)
qed

text \<open>The calm run: the queue stays assigned until its messages are buffered.\<close>

lemma calm_pulled:
  "lite_reachable calm_step (lite_sys (cursor_at 13 (assigned_to row_queue)) (buffer_extend replay_rows buffer_default) [])"
proof -
  have "row_queue \<in> set (pull_targets 0 (ly_state (lite_sys (assigned_to row_queue) buffer_default [])))"
      "map_of (ls_next_offset (ly_state (lite_sys (assigned_to row_queue) buffer_default []))) (mq_key row_queue) = None"
    using row_target by (simp_all add: assigned_to_def lite_state_default_def)
  from calm_next [OF calm_assigned calm_step.resolve [OF this, of 10]]
  have 2: "lite_reachable calm_step (lite_sys (cursor_at 10 (assigned_to row_queue)) buffer_default [])"
    by (simp add: cursor_at_def)
  have "row_queue \<in> set (pull_targets 0 (ly_state (lite_sys (cursor_at 10 (assigned_to row_queue)) buffer_default [])))"
      "map_of (ls_next_offset (ly_state (lite_sys (cursor_at 10 (assigned_to row_queue)) buffer_default []))) (mq_key row_queue)
       = Some 10"
    by (simp_all add: cursor_at_def remember_offset_def pull_targets_def assigned_to_def lite_state_default_def)
  from calm_next [OF 2 calm_step.pull_known [OF this]]
  have 3: "lite_reachable calm_step (lite_sys (cursor_at 10 (assigned_to row_queue)) buffer_default [Pulling row_queue 10])"
    by (simp add: spawn_def)
  have "Pulling row_queue 10 \<in> set (ly_tasks (lite_sys (cursor_at 10 (assigned_to row_queue)) buffer_default [Pulling row_queue 10]))"
    by simp
  from calm_next [OF 3 calm_step.response [OF this replay_of_queue, where registered = None]] settle_rows show ?thesis
    by (simp add: finish_def)
qed

theorem buffered_queues_owned_witness:
  "\<exists>mq. map_of (ls_assigned (cursor_at 13 (assigned_to row_queue))) (cache_key_of_message (cached_row 10)) = Some mq"
  using buffered_queues_owned [OF calm_pulled, of "cached_row 10"] by (simp add: replay_rows_def)

lemma calm_subset: "lite_reachable calm_step s \<Longrightarrow> lite_reachable lite_step s"
  by (induction rule: lite_reachable.induct) (auto intro: lite_reachable.intros lite_step.calm)


end
