(* ===== verification/Push_Config.thy ===== *)
theory Push_Config
  imports Heartbeat Mix_All "HOL-Library.Signed_Division"
begin

text \<open>
  The configuration of the push consumer (\<open>src/rust/src/client/consumer.rs\<close>) as far as numbers are checked and derived
  from it: the range gates that \<open>start\<close> runs, and the division of the topic budgets over the owned queues.
\<close>

section \<open>Configuration\<close>

definition BROADCASTING :: string where "BROADCASTING = ''BROADCASTING''"
definition MIN_POP_INVISIBLE_TIME :: i64 where "MIN_POP_INVISIBLE_TIME = 5000"
definition MAX_POP_INVISIBLE_TIME :: i64 where "MAX_POP_INVISIBLE_TIME = 300000"

definition POP_DELAY_LEVEL :: "i32 list" where
  "POP_DELAY_LEVEL = [10, 30, 60, 120, 180, 240, 300, 360, 420, 480, 540, 600, 1200, 1800, 3600, 7200]"

record consumer_config =
  cc_consumer_group :: string
  cc_namespace :: string
  cc_message_model :: string
  cc_consume_from_where :: string
  cc_consume_thread_min :: i32
  cc_consume_thread_max :: i32
  cc_consume_concurrently_max_span :: i64
  cc_pull_threshold_for_queue :: i32
  cc_pull_threshold_size_for_queue :: i32
  cc_pull_threshold_for_topic :: i32
  cc_pull_threshold_size_for_topic :: i32
  cc_pull_interval :: i64
  cc_consume_message_batch_max_size :: i32
  cc_pull_batch_size :: i32
  cc_max_reconsume_times :: i32
  cc_suspend_current_queue_time_millis :: i64
  cc_consume_timeout :: i64
  cc_pop_mode :: bool
  cc_pop_invisible_time :: i64
  cc_pop_batch_nums :: i32
  cc_pop_threshold_for_queue :: i32
  cc_pop_delay_level :: "i32 list"

definition DEFAULT_CONSUMER_GROUP :: string where "DEFAULT_CONSUMER_GROUP = ''DEFAULT_CONSUMER''"

definition consumer_config_default :: consumer_config where
  "consumer_config_default = \<lparr>cc_consumer_group = DEFAULT_CONSUMER_GROUP, cc_namespace = [], cc_message_model = CLUSTERING,
     cc_consume_from_where = CONSUME_FROM_LAST_OFFSET, cc_consume_thread_min = 20, cc_consume_thread_max = 20,
     cc_consume_concurrently_max_span = 2000, cc_pull_threshold_for_queue = 1000, cc_pull_threshold_size_for_queue = 100,
     cc_pull_threshold_for_topic = - 1, cc_pull_threshold_size_for_topic = - 1, cc_pull_interval = 0,
     cc_consume_message_batch_max_size = 1, cc_pull_batch_size = 32, cc_max_reconsume_times = - 1,
     cc_suspend_current_queue_time_millis = 1000, cc_consume_timeout = 15, cc_pop_mode = False,
     cc_pop_invisible_time = 60000, cc_pop_batch_nums = 32, cc_pop_threshold_for_queue = 96,
     cc_pop_delay_level = POP_DELAY_LEVEL\<rparr>"

section \<open>Range gates\<close>

text \<open>A gate of \<open>start\<close>: it rejects with its text, or hands on to the next one.\<close>

definition gate :: "bool \<Rightarrow> string \<Rightarrow> unit result \<Rightarrow> unit result" where
  "gate rejected txt continue = (if rejected then fail (client_err txt) else continue)"

definition out_of_range :: "'a::len word \<Rightarrow> 'a word \<Rightarrow> 'a word \<Rightarrow> bool" where
  "out_of_range v lo hi \<longleftrightarrow> v <s lo \<or> hi <s v"

definition check_config_ranges :: "consumer_config \<Rightarrow> unit result" where
  "check_config_ranges cfg =
     gate (out_of_range (cc_consume_thread_min cfg) 1 1000) ''consumeThreadMin Out of range [1, 1000]'' (
     gate (out_of_range (cc_consume_thread_max cfg) 1 1000) ''consumeThreadMax Out of range [1, 1000]'' (
     gate (cc_consume_thread_max cfg <s cc_consume_thread_min cfg)
       (''consumeThreadMin ('' @ show_signed (cc_consume_thread_min cfg) @ '') is larger than consumeThreadMax (''
         @ show_signed (cc_consume_thread_max cfg) @ '')'') (
     gate (out_of_range (cc_consume_concurrently_max_span cfg) 1 65535)
       ''consumeConcurrentlyMaxSpan Out of range [1, 65535]'' (
     gate (out_of_range (cc_pull_threshold_for_queue cfg) 1 65535) ''pullThresholdForQueue Out of range [1, 65535]'' (
     gate (cc_pull_threshold_for_topic cfg \<noteq> - 1 \<and> out_of_range (cc_pull_threshold_for_topic cfg) 1 6553500)
       ''pullThresholdForTopic Out of range [1, 6553500]'' (
     gate (out_of_range (cc_pull_threshold_size_for_queue cfg) 1 1024)
       ''pullThresholdSizeForQueue Out of range [1, 1024]'' (
     gate (cc_pull_threshold_size_for_topic cfg \<noteq> - 1 \<and> out_of_range (cc_pull_threshold_size_for_topic cfg) 1 102400)
       ''pullThresholdSizeForTopic Out of range [1, 102400]'' (
     gate (out_of_range (cc_pull_interval cfg) 0 65535) ''pullInterval Out of range [0, 65535]'' (
     gate (out_of_range (cc_consume_message_batch_max_size cfg) 1 1024)
       ''consumeMessageBatchMaxSize Out of range [1, 1024]'' (
     gate (out_of_range (cc_pull_batch_size cfg) 1 1024) ''pullBatchSize Out of range [1, 1024]'' (
     gate (out_of_range (cc_pop_invisible_time cfg) MIN_POP_INVISIBLE_TIME MAX_POP_INVISIBLE_TIME)
       (''popInvisibleTime Out of range ['' @ show_signed MIN_POP_INVISIBLE_TIME @ '', ''
         @ show_signed MAX_POP_INVISIBLE_TIME @ '']'') (
     gate (cc_pop_batch_nums cfg \<le>s 0 \<or> 32 <s cc_pop_batch_nums cfg) ''popBatchNums Out of range [1, 32]'' (
     Inr ())))))))))))))"

section \<open>Topic budgets\<close>

text \<open>The signed quotient of Rust, which rounds towards zero; both operands are widened from 32 bits, so none overflows.\<close>

definition clamp :: "int \<Rightarrow> int \<Rightarrow> int \<Rightarrow> int" where
  "clamp v lo hi = (if v < lo then lo else if hi < v then hi else v)"

definition divided_queue_threshold :: "string \<Rightarrow> i32 \<Rightarrow> i32 \<Rightarrow> nat \<Rightarrow> i32 \<times> string option" where
  "divided_queue_threshold log_name topic_threshold current_queue_threshold owned =
     (let quotient = sint topic_threshold sdiv max (sint (of_nat owned :: i64)) 1;
          quotient = (word_of_int (clamp quotient 1 (2 ^ 31 - 1)) :: i32)
      in if quotient = current_queue_threshold then (quotient, None)
         else (quotient, Some (''The '' @ log_name @ '' is changed from '' @ show_signed current_queue_threshold
                 @ '' to '' @ show_signed quotient)))"

definition apply_topic_threshold_division :: "consumer_config \<Rightarrow> nat \<Rightarrow> string list \<times> consumer_config" where
  "apply_topic_threshold_division cfg owned =
     (let (lines, cfg) =
        (if cc_pull_threshold_for_topic cfg \<noteq> - 1
         then let (new, line) = divided_queue_threshold ''pullThresholdForQueue'' (cc_pull_threshold_for_topic cfg)
                    (cc_pull_threshold_for_queue cfg) owned
              in (case_option [] (\<lambda>l. [l]) line, cfg\<lparr>cc_pull_threshold_for_queue := new\<rparr>)
         else ([], cfg))
      in if cc_pull_threshold_size_for_topic cfg \<noteq> - 1
         then let (new, line) = divided_queue_threshold ''pullThresholdSizeForQueue'' (cc_pull_threshold_size_for_topic cfg)
                    (cc_pull_threshold_size_for_queue cfg) owned
              in (lines @ case_option [] (\<lambda>l. [l]) line, cfg\<lparr>cc_pull_threshold_size_for_queue := new\<rparr>)
         else (lines, cfg))"

text \<open>Nothing is divided while no queue is owned.\<close>

definition divide_topic_thresholds :: "consumer_config \<Rightarrow> nat \<Rightarrow> string list \<times> consumer_config" where
  "divide_topic_thresholds cfg owned = (if owned = 0 then ([], cfg) else apply_topic_threshold_division cfg owned)"

section \<open>Derived values\<close>

definition orderly_max_reconsume_times :: "consumer_config \<Rightarrow> i32" where
  "orderly_max_reconsume_times cfg =
     (if cc_max_reconsume_times cfg = - 1 then word_of_int (2 ^ 31 - 1) else cc_max_reconsume_times cfg)"

definition orderly_suspend_millis :: "consumer_config \<Rightarrow> i64 \<Rightarrow> u64" where
  "orderly_suspend_millis cfg ctx_millis =
     (let ms = (if ctx_millis = - 1 then cc_suspend_current_queue_time_millis cfg else ctx_millis)
      in word_of_int (clamp (sint ms) 10 30000))"

definition clean_expire_period_millis :: "i64 \<Rightarrow> u64" where
  "clean_expire_period_millis consume_timeout_minutes =
     (let minutes = (if consume_timeout_minutes <s 1 then 1 else consume_timeout_minutes) in ucast minutes * 60000)"

definition uses_local_offset_store :: "string \<Rightarrow> bool" where
  "uses_local_offset_store message_model \<longleftrightarrow> message_model = BROADCASTING"

section \<open>Bounds\<close>

lemma gate_Inr: "gate rejected txt k = Inr () \<longleftrightarrow> \<not> rejected \<and> k = Inr ()"
  by (simp add: gate_def)

lemma in_range: "\<not> out_of_range v lo hi \<longleftrightarrow> sint lo \<le> sint v \<and> sint v \<le> sint hi"
  by (auto simp: out_of_range_def word_sless_alt)

lemma accepted_ranges:
  "check_config_ranges cfg = Inr () \<longleftrightarrow>
     sint (cc_consume_thread_min cfg) \<in> {1..1000} \<and> sint (cc_consume_thread_max cfg) \<in> {1..1000}
   \<and> sint (cc_consume_thread_min cfg) \<le> sint (cc_consume_thread_max cfg)
   \<and> sint (cc_consume_concurrently_max_span cfg) \<in> {1..65535}
   \<and> sint (cc_pull_threshold_for_queue cfg) \<in> {1..65535}
   \<and> (cc_pull_threshold_for_topic cfg = - 1 \<or> sint (cc_pull_threshold_for_topic cfg) \<in> {1..6553500})
   \<and> sint (cc_pull_threshold_size_for_queue cfg) \<in> {1..1024}
   \<and> (cc_pull_threshold_size_for_topic cfg = - 1 \<or> sint (cc_pull_threshold_size_for_topic cfg) \<in> {1..102400})
   \<and> sint (cc_pull_interval cfg) \<in> {0..65535}
   \<and> sint (cc_consume_message_batch_max_size cfg) \<in> {1..1024} \<and> sint (cc_pull_batch_size cfg) \<in> {1..1024}
   \<and> sint (cc_pop_invisible_time cfg) \<in> {5000..300000} \<and> sint (cc_pop_batch_nums cfg) \<in> {1..32}"
  unfolding check_config_ranges_def gate_Inr
  by (simp add: in_range word_sless_alt word_sle_eq MIN_POP_INVISIBLE_TIME_def MAX_POP_INVISIBLE_TIME_def not_less not_le
      disj_commute)
     (auto simp: not_le)

definition share_of :: "int \<Rightarrow> nat \<Rightarrow> int" where
  "share_of budget owned = max 1 (budget div int owned)"

lemma divided_share:
  assumes "0 < owned" "owned < 2 ^ 63" "0 \<le> sint budget"
  shows "sint (fst (divided_queue_threshold txt budget cur owned)) = share_of (sint budget) owned"
proof -
  have owned: "sint (of_nat owned :: i64) = int owned"
    using assms(2) by (simp add: signed_of_nat signed_take_bit_int_eq_self)
  let ?q = "sint budget div int owned"
  have "0 \<le> ?q" "?q \<le> sint budget"
    using assms(1,3) zdiv_mono2 [of "sint budget" 1 "int owned"] by (simp_all add: pos_imp_zdiv_nonneg_iff)
  moreover have "sint budget < 2 ^ 31"
    using sint_lt [of budget] by simp
  ultimately have q: "clamp ?q 1 (2 ^ 31 - 1) = max 1 ?q" "max 1 ?q < 2 ^ 31"
    by (auto simp: clamp_def)
  have "sint (word_of_int (max 1 ?q) :: i32) = max 1 ?q"
    using q(2) by (simp add: signed_take_bit_int_eq_self sint_sbintrunc')
  moreover have "sint budget sdiv int owned = ?q"
    using assms(1,3) by (cases "sint budget = 0") (simp_all add: signed_divide_int_def)
  ultimately show ?thesis
    using assms(1) q(1) by (auto simp: divided_queue_threshold_def Let_def owned share_of_def)
qed

lemma division_knobs:
  "cc_pull_threshold_for_queue (snd (apply_topic_threshold_division cfg owned)) =
     (if cc_pull_threshold_for_topic cfg = - 1 then cc_pull_threshold_for_queue cfg
      else fst (divided_queue_threshold ''pullThresholdForQueue'' (cc_pull_threshold_for_topic cfg)
        (cc_pull_threshold_for_queue cfg) owned))"
  "cc_pull_threshold_size_for_queue (snd (apply_topic_threshold_division cfg owned)) =
     (if cc_pull_threshold_size_for_topic cfg = - 1 then cc_pull_threshold_size_for_queue cfg
      else fst (divided_queue_threshold ''pullThresholdSizeForQueue'' (cc_pull_threshold_size_for_topic cfg)
        (cc_pull_threshold_size_for_queue cfg) owned))"
  by (simp_all add: apply_topic_threshold_division_def Let_def case_prod_beta)

text \<open>
  A fair share of a topic budget: at least one, never more than the budget, together within the budget unless even one each
  is too much, and the largest number for which that holds.
\<close>

definition fair_share :: "int \<Rightarrow> nat \<Rightarrow> int \<Rightarrow> bool" where
  "fair_share budget owned t \<longleftrightarrow> 1 \<le> t \<and> t \<le> budget \<and> (t = 1 \<or> int owned * t \<le> budget) \<and> budget < int owned * (t + 1)"

lemma share_is_fair:
  assumes "0 < owned" and "1 \<le> b"
  shows "fair_share b owned (share_of b owned)"
proof -
  let ?n = "int owned" and ?q = "b div int owned"
  have n: "0 < ?n" using assms(1) by simp
  have "?n * ?q \<le> b" "b < ?n * ?q + ?n"
    using n pos_mod_sign [of ?n b] pos_mod_bound [of ?n b] by (simp_all add: minus_mod_eq_mult_div [symmetric])
  moreover have "?q \<le> b"
    using zdiv_mono2 [of b 1 ?n] assms by simp
  moreover have "?n * ?q \<le> 0" if "\<not> 1 \<le> ?q"
    using n that by (intro mult_nonneg_nonpos) simp_all
  ultimately show ?thesis
    using n assms(2) by (cases "1 \<le> ?q") (auto simp: fair_share_def share_of_def max_def algebra_simps)
qed

text \<open>
  C31. For a configuration that \<open>start\<close> accepts, the division of a topic budget over the owned queues gives each queue
  a fair share of it: at least one, no more than the budget, together no more than the budget unless that is smaller than
  the number of queues, and as much as that allows. Without a topic budget the threshold of the queue is what was
  configured. This holds for the number of messages and for their size.
\<close>

theorem divided_thresholds_bounded:
  assumes "check_config_ranges cfg = Inr ()" and "0 < owned" and "owned < 2 ^ 63"
    and "cfg' = snd (divide_topic_thresholds cfg owned)"
  shows "(if cc_pull_threshold_for_topic cfg = - 1
      then cc_pull_threshold_for_queue cfg' = cc_pull_threshold_for_queue cfg
      else fair_share (sint (cc_pull_threshold_for_topic cfg)) owned (sint (cc_pull_threshold_for_queue cfg')))
    \<and> (if cc_pull_threshold_size_for_topic cfg = - 1
      then cc_pull_threshold_size_for_queue cfg' = cc_pull_threshold_size_for_queue cfg
      else fair_share (sint (cc_pull_threshold_size_for_topic cfg)) owned (sint (cc_pull_threshold_size_for_queue cfg')))"
proof -
  have cfg': "cfg' = snd (apply_topic_threshold_division cfg owned)"
    using assms(2,4) by (simp add: divide_topic_thresholds_def)
  note rng = assms(1) [unfolded accepted_ranges]
  have "fair_share (sint (cc_pull_threshold_for_topic cfg)) owned (sint (cc_pull_threshold_for_queue cfg'))"
    if "cc_pull_threshold_for_topic cfg \<noteq> - 1"
    using rng that by (auto simp: cfg' division_knobs divided_share [OF assms(2,3)] share_is_fair [OF assms(2)])
  moreover have "fair_share (sint (cc_pull_threshold_size_for_topic cfg)) owned (sint (cc_pull_threshold_size_for_queue cfg'))"
    if "cc_pull_threshold_size_for_topic cfg \<noteq> - 1"
    using rng that by (auto simp: cfg' division_knobs divided_share [OF assms(2,3)] share_is_fair [OF assms(2)])
  ultimately show ?thesis
    by (simp add: cfg' division_knobs)
qed

text \<open>Dividing again with the same number of queues changes nothing and logs nothing.\<close>

lemma divided_again:
  "divided_queue_threshold txt b (fst (divided_queue_threshold txt b c n)) n = (fst (divided_queue_threshold txt b c n), None)"
  by (simp add: divided_queue_threshold_def Let_def)

lemma division_idempotent:
  "apply_topic_threshold_division (snd (apply_topic_threshold_division cfg owned)) owned
     = ([], snd (apply_topic_threshold_division cfg owned))"
  by (simp add: apply_topic_threshold_division_def divided_again Let_def case_prod_beta)

definition sample_config :: consumer_config where
  "sample_config = consumer_config_default\<lparr>cc_pull_threshold_for_topic := 5000\<rparr>"

lemma sample_accepted: "check_config_ranges sample_config = Inr ()"
  by (simp add: accepted_ranges sample_config_def consumer_config_default_def)

theorem divided_thresholds_bounded_witness:
  "sint (cc_pull_threshold_for_queue (snd (divide_topic_thresholds sample_config 4))) \<in> {1..5000}
   \<and> 4 * sint (cc_pull_threshold_for_queue (snd (divide_topic_thresholds sample_config 4))) \<le> 5000"
proof -
  have "fair_share 5000 4 (sint (cc_pull_threshold_for_queue (snd (divide_topic_thresholds sample_config 4))))"
    using divided_thresholds_bounded [OF sample_accepted, of 4, OF _ _ refl] by (simp add: sample_config_def)
  then show ?thesis
    by (auto simp: fair_share_def)
qed

end
