(* ===== verification/Push_Queue.thy ===== *)
theory Push_Queue
  imports Push_Config Lite_Consumer Extra_Info Route
begin

text \<open>
  The tables of the push consumer (\<open>State\<close> of \<open>src/rust/src/client/consumer.rs\<close>) that hold a queue's messages and
  offsets, and the functions that run under its lock: pulled messages are \<open>pending\<close>, a dispatched batch is registered as
  in flight while the listener has it, and \<open>consume_offsets\<close> is what the client persists. The tables for POP and for the
  subscriptions are left out; the clock, the listener and the brokers' answers are arguments.
\<close>

section \<open>State\<close>

record push_state =
  pu_assigned :: "message_queue list"
  pu_offset_table :: "(string \<times> i64) list"
  pu_consume_offsets :: "(string \<times> i64) list"
  pu_pending :: "(string \<times> message_ext list) list"
  pu_inflight :: "(string \<times> nat) list"
  pu_inflight_msgs :: "(string \<times> message_ext list) list"
  pu_frozen_offsets :: "string set"
  pu_queue_epoch :: "(string \<times> u64) list"
  pu_mq_map :: "(string \<times> message_queue) list"
  pu_lock_ok :: "string set"
  pu_lock_at :: "(string \<times> i64) list"
  pu_last_consume_at :: "(string \<times> i64) list"
  pu_msg_acc_cnt :: "(string \<times> i64) list"
  pu_queue_owners :: "(string \<times> u64) list"
  pu_last_pull_at :: "(string \<times> i64) list"
  pu_pull_from_which_node :: "(message_queue \<times> i64) list"

definition push_state_default :: push_state where
  "push_state_default = \<lparr>pu_assigned = [], pu_offset_table = [], pu_consume_offsets = [], pu_pending = [], pu_inflight = [],
     pu_inflight_msgs = [], pu_frozen_offsets = {}, pu_queue_epoch = [], pu_mq_map = [], pu_lock_ok = {}, pu_lock_at = [],
     pu_last_consume_at = [], pu_msg_acc_cnt = [], pu_queue_owners = [], pu_last_pull_at = [],
     pu_pull_from_which_node = []\<rparr>"

text \<open>A lookup with a default: \<open>get(..).copied().unwrap_or(d)\<close>, and \<open>entry(..).or_default()\<close> for an update.\<close>

definition entry_or :: "'v \<Rightarrow> ('k \<times> 'v) list \<Rightarrow> 'k \<Rightarrow> 'v" where
  "entry_or d m k = (case map_of m k of Some v \<Rightarrow> v | None \<Rightarrow> d)"

definition smax :: "i64 \<Rightarrow> i64 \<Rightarrow> i64" where "smax a b = (if a <s b then b else a)"
definition smin :: "i64 \<Rightarrow> i64 \<Rightarrow> i64" where "smin a b = (if b <s a then b else a)"

fun iter_max :: "i64 list \<Rightarrow> i64 option" where
  "iter_max [] = None"
| "iter_max (x # xs) = Some (fold (\<lambda>y m. smax m y) xs x)"

fun iter_min :: "i64 list \<Rightarrow> i64 option" where
  "iter_min [] = None"
| "iter_min (x # xs) = Some (fold (\<lambda>y m. smin m y) xs x)"

definition epoch_of :: "string \<Rightarrow> push_state \<Rightarrow> u64" where
  "epoch_of key st = entry_or 0 (pu_queue_epoch st) key"

definition pending_of :: "string \<Rightarrow> push_state \<Rightarrow> message_ext list" where
  "pending_of key st = entry_or [] (pu_pending st) key"

definition inflight_msgs_of :: "string \<Rightarrow> push_state \<Rightarrow> message_ext list" where
  "inflight_msgs_of key st = entry_or [] (pu_inflight_msgs st) key"

section \<open>Consumed offsets\<close>

text \<open>Only a batch of the current generation moves the offset, never backwards and never past \<open>floor\<close>.\<close>

definition push_advance_consume_offset ::
    "i64 \<Rightarrow> string \<Rightarrow> message_ext list \<Rightarrow> i64 option \<Rightarrow> u64 option \<Rightarrow> push_state \<Rightarrow> push_state" where
  "push_advance_consume_offset now key batch flr epoch st =
     (if (case epoch of Some e \<Rightarrow> e \<noteq> epoch_of key st | None \<Rightarrow> False) then st
      else if key \<in> pu_frozen_offsets st then st
      else if batch = [] then st
      else let next_off = (case iter_max (map x_queue_offset batch) of Some o_ \<Rightarrow> o_ | None \<Rightarrow> 0) + 1;
               next_off = (case flr of Some f \<Rightarrow> smin next_off f | None \<Rightarrow> next_off);
               cur = entry_or 0 (pu_consume_offsets st) key
           in st\<lparr>pu_consume_offsets := bt_insert key (smax cur next_off) (pu_consume_offsets st),
                 pu_last_consume_at := bt_insert key now (pu_last_consume_at st)\<rparr>)"

definition correct_tags_offset_locked :: "string \<Rightarrow> pull_status \<Rightarrow> i64 \<Rightarrow> push_state \<Rightarrow> push_state" where
  "correct_tags_offset_locked key status next_off st =
     (if status \<noteq> NoNewMsg \<and> status \<noteq> NoMatchedMsg then st
      else if key \<in> pu_frozen_offsets st then st
      else if pending_of key st \<noteq> [] then st
      else if entry_or 0 (pu_inflight st) key \<noteq> 0 then st
      else (case map_of (pu_consume_offsets st) key of
              None \<Rightarrow> st\<lparr>pu_consume_offsets := bt_insert key next_off (pu_consume_offsets st)\<rparr>
            | Some cur \<Rightarrow> if cur <s next_off
                then st\<lparr>pu_consume_offsets := bt_insert key next_off (pu_consume_offsets st)\<rparr> else st))"

text \<open>What a round of persistence sends, and what the last one sends at shutdown.\<close>

definition persist_items :: "push_state \<Rightarrow> (message_queue \<times> i64) list" where
  "persist_items st = List.map_filter (\<lambda>(k, off). map_option (\<lambda>mq. (mq, off)) (map_of (pu_mq_map st) k)) (pu_consume_offsets st)"

definition shutdown_persist_items :: "push_state \<Rightarrow> (message_queue \<times> i64) list" where
  "shutdown_persist_items st = List.map_filter (\<lambda>(k, off). map_option (\<lambda>mq.
      let flr = iter_min (map x_queue_offset (inflight_msgs_of k st @ pending_of k st))
      in (mq, case flr of None \<Rightarrow> off | Some f \<Rightarrow> smin off f)) (map_of (pu_mq_map st) k)) (pu_consume_offsets st)"

definition get_consumer_status :: "string option \<Rightarrow> push_state \<Rightarrow> (message_queue \<times> i64) list" where
  "get_consumer_status topic st =
     (let wanted = (case topic of Some t \<Rightarrow> if t = [] then None else Some t | None \<Rightarrow> None)
      in sort_key fst (filter (\<lambda>(mq, _). case wanted of None \<Rightarrow> True | Some t \<Rightarrow> mq_topic mq = t) (persist_items st)))"

section \<open>The messages of a queue\<close>

definition requeue_pending :: "string \<Rightarrow> message_ext list \<Rightarrow> push_state \<Rightarrow> push_state" where
  "requeue_pending key batch st = (case map_of (pu_pending st) key of
     Some dq \<Rightarrow> st\<lparr>pu_pending := bt_insert key (batch @ dq) (pu_pending st)\<rparr>
   | None \<Rightarrow> st)"

definition register_inflight_msgs :: "string \<Rightarrow> message_ext list \<Rightarrow> push_state \<Rightarrow> push_state" where
  "register_inflight_msgs key batch st =
     (if batch = [] then st
      else st\<lparr>pu_inflight_msgs := bt_insert key (inflight_msgs_of key st @ batch) (pu_inflight_msgs st)\<rparr>)"

text \<open>An empty bucket leaves the table.\<close>

definition retain_inflight :: "string \<Rightarrow> (message_ext \<Rightarrow> bool) \<Rightarrow> push_state \<Rightarrow> push_state" where
  "retain_inflight key keep st = (case map_of (pu_inflight_msgs st) key of
     None \<Rightarrow> st
   | Some bucket \<Rightarrow> let bucket = filter keep bucket
       in st\<lparr>pu_inflight_msgs := (if bucket = [] then bt_remove key (pu_inflight_msgs st)
             else bt_insert key bucket (pu_inflight_msgs st))\<rparr>)"

definition deregister_inflight_msgs :: "string \<Rightarrow> message_ext list \<Rightarrow> push_state \<Rightarrow> push_state" where
  "deregister_inflight_msgs key batch st =
     (if batch = [] then st
      else retain_inflight key (\<lambda>m. x_queue_offset m \<notin> x_queue_offset ` set batch) st)"

fun unseen_offsets :: "i64 list \<Rightarrow> message_ext list \<Rightarrow> message_ext list" where
  "unseen_offsets seen [] = []"
| "unseen_offsets seen (m # ms) =
     (if x_queue_offset m \<in> set seen then unseen_offsets seen ms
      else m # unseen_offsets (x_queue_offset m # seen) ms)"

definition process_queue_entries_locked :: "string \<Rightarrow> push_state \<Rightarrow> message_ext list" where
  "process_queue_entries_locked key st = unseen_offsets [] (inflight_msgs_of key st @ pending_of key st)"

text \<open>The first of the entries with the smallest offset.\<close>

fun first_by_offset :: "message_ext list \<Rightarrow> message_ext option" where
  "first_by_offset [] = None"
| "first_by_offset (m # ms) = Some (fold (\<lambda>y x. if x_queue_offset y <s x_queue_offset x then y else x) ms m)"

definition process_queue_first_entry_locked :: "string \<Rightarrow> push_state \<Rightarrow> message_ext option" where
  "process_queue_first_entry_locked key st = first_by_offset (process_queue_entries_locked key st)"

definition process_queue_contains_locked :: "string \<Rightarrow> i64 \<Rightarrow> push_state \<Rightarrow> bool" where
  "process_queue_contains_locked key offset st \<longleftrightarrow>
     list_ex (\<lambda>m. x_queue_offset m = offset) (inflight_msgs_of key st @ pending_of key st)"

definition remove_process_queue_entry_locked :: "string \<Rightarrow> i64 \<Rightarrow> push_state \<Rightarrow> push_state" where
  "remove_process_queue_entry_locked key offset st =
     (let st = retain_inflight key (\<lambda>m. x_queue_offset m \<noteq> offset) st
      in case map_of (pu_pending st) key of
           None \<Rightarrow> st
         | Some dq \<Rightarrow> st\<lparr>pu_pending := bt_insert key (filter (\<lambda>m. x_queue_offset m \<noteq> offset) dq) (pu_pending st)\<rparr>)"

definition remove_expired_entry_if_still_head :: "string \<Rightarrow> i64 \<Rightarrow> push_state \<Rightarrow> bool \<times> push_state" where
  "remove_expired_entry_if_still_head key offset st =
     (let still_head = (case process_queue_first_entry_locked key st of
            Some m \<Rightarrow> x_queue_offset m = offset | None \<Rightarrow> False)
      in (still_head, if still_head then remove_process_queue_entry_locked key offset st else st))"

definition PROPERTY_CONSUME_START_TIMESTAMP :: string where
  "PROPERTY_CONSUME_START_TIMESTAMP = ''CONSUME_START_TIME''"

definition consume_start_timestamp :: "message_ext \<Rightarrow> i64 option" where
  "consume_start_timestamp msg = (case get_property msg PROPERTY_CONSUME_START_TIMESTAMP of
     None \<Rightarrow> None
   | Some raw \<Rightarrow> if raw = [] then None else parse_i64 raw)"

definition is_consume_expired :: "i64 option \<Rightarrow> i64 \<Rightarrow> i64 \<Rightarrow> bool" where
  "is_consume_expired stamp now_ms consume_timeout_minutes = (case stamp of
     Some ts \<Rightarrow> consume_timeout_minutes * 60 * 1000 <s now_ms - ts
   | None \<Rightarrow> False)"

section \<open>Dispatching\<close>

definition dispatch_take :: "consumer_config \<Rightarrow> string \<Rightarrow> push_state \<Rightarrow> ((message_queue \<times> message_ext list \<times> u64) \<times> push_state) option" where
  "dispatch_take cfg key st =
     (case map_of (pu_mq_map st) key of
        None \<Rightarrow> None
      | Some mq \<Rightarrow> (case map_of (pu_pending st) key of
          None \<Rightarrow> None
        | Some dq \<Rightarrow>
            if dq = [] then None
            else let limit = cc_consume_message_batch_max_size cfg;
                     n = min (length dq) (unat (if limit <s 1 then 1 else limit))
                 in Some ((mq, take n dq, epoch_of key st),
                      st\<lparr>pu_pending := bt_insert key (drop n dq) (pu_pending st),
                         pu_inflight := bt_insert key (entry_or 0 (pu_inflight st) key + 1) (pu_inflight st)\<rparr>)))"

definition dispatch_done :: "string \<Rightarrow> push_state \<Rightarrow> push_state" where
  "dispatch_done key st =
     (let left = (case map_of (pu_inflight st) key of Some v \<Rightarrow> v - 1 | None \<Rightarrow> 0)
      in st\<lparr>pu_inflight := (if left = 0 then bt_remove key (pu_inflight st) else bt_insert key left (pu_inflight st))\<rparr>)"

datatype concurrently_status = ConsumeSuccess | ReconsumeLater

text \<open>How many messages of a batch count as acknowledged; a listener that gave no status counts as a failure.\<close>

definition acked_count :: "concurrently_status option \<Rightarrow> i32 \<Rightarrow> nat \<Rightarrow> nat" where
  "acked_count raw_status ctx_ack_index n =
     (let status = (case raw_status of Some s \<Rightarrow> s | None \<Rightarrow> ReconsumeLater);
          batch_len = (if n < 2 ^ 31 then of_nat n else word_of_int (2 ^ 31 - 1)) :: i32;
          ack_index = (if status = ConsumeSuccess
                       then (if batch_len \<le>s ctx_ack_index then batch_len - 1 else ctx_ack_index)
                       else - 1)
      in if 0 \<le>s ack_index then unat ack_index + 1 else 0)"

text \<open>
  The part of a batch that is not acknowledged goes back to the broker one by one: \<open>held i\<close> is whether the process
  queue still held the message when its turn came, \<open>send\<close> whether the broker took it.
\<close>

fun send_back_batch ::
    "(nat \<Rightarrow> bool) \<Rightarrow> (nat \<Rightarrow> i32 \<Rightarrow> message_ext \<Rightarrow> bool) \<Rightarrow> i32 \<Rightarrow> nat \<Rightarrow> message_ext list \<Rightarrow> (nat \<times> message_ext) list" where
  "send_back_batch held send delay_from_context i [] = []"
| "send_back_batch held send delay_from_context i (msg # batch) =
     (let failed = send_back_batch held send delay_from_context (i + 1) batch
      in if \<not> held i then failed
         else let delay_level = (if delay_from_context = 0 then 3 + x_reconsume_times msg else delay_from_context)
              in if send i delay_level msg then failed
                 else (i, msg\<lparr>x_reconsume_times := x_reconsume_times msg + 1\<rparr>) # failed)"

definition back_floor :: "(nat \<times> message_ext) list \<Rightarrow> i64 option" where
  "back_floor failed = iter_min (map (\<lambda>(_, m). x_queue_offset m) failed)"

definition handled_of :: "message_ext list \<Rightarrow> (nat \<times> message_ext) list \<Rightarrow> message_ext list" where
  "handled_of batch failed =
     map snd (filter (\<lambda>(i, _). \<not> list_ex (\<lambda>(fi, _). fi = i) failed) (enumerate 0 batch))"

definition stamp_batch :: "i64 \<Rightarrow> message_ext list \<Rightarrow> message_ext list" where
  "stamp_batch now batch = map (put_property PROPERTY_CONSUME_START_TIMESTAMP (show_signed now)) batch"

section \<open>Orderly batches\<close>

text \<open>\<open>send\<close> is whether the retry copy of a message that ran out of attempts was taken by a broker.\<close>

fun check_orderly_reconsume_times :: "i32 \<Rightarrow> (message_ext \<Rightarrow> bool) \<Rightarrow> message_ext list \<Rightarrow> bool \<times> message_ext list" where
  "check_orderly_reconsume_times max_times send [] = (False, [])"
| "check_orderly_reconsume_times max_times send (msg # batch) =
     (let (suspend, batch) = check_orderly_reconsume_times max_times send batch
      in if max_times \<le>s x_reconsume_times msg \<and> send msg then (suspend, msg # batch)
         else (True, msg\<lparr>x_reconsume_times := x_reconsume_times msg + 1\<rparr> # batch))"

definition PROPERTY_RETRY_TOPIC :: string where "PROPERTY_RETRY_TOPIC = ''RETRY_TOPIC''"
definition PROPERTY_RECONSUME_TIME :: string where "PROPERTY_RECONSUME_TIME = ''RECONSUME_TIME''"
definition PROPERTY_MAX_RECONSUME_TIMES :: string where "PROPERTY_MAX_RECONSUME_TIMES = ''MAX_RECONSUME_TIMES''"
definition PROPERTY_ORIGIN_MESSAGE_ID :: string where "PROPERTY_ORIGIN_MESSAGE_ID = ''ORIGIN_MESSAGE_ID''"
definition PROPERTY_TRANSACTION_PREPARED :: string where "PROPERTY_TRANSACTION_PREPARED = ''TRAN_MSG''"

definition build_retry_message :: "string \<Rightarrow> message_ext \<Rightarrow> i32 \<Rightarrow> message" where
  "build_retry_message consumer_group msg max_times =
     (let new_msg = message_new (get_retry_topic consumer_group) (m_body msg);
          new_msg = new_msg\<lparr>m_properties := m_properties msg, m_flag := m_flag msg\<rparr>;
          origin_msg_id = (case get_property msg PROPERTY_ORIGIN_MESSAGE_ID of
              Some s \<Rightarrow> if s \<noteq> [] then s else (case x_msg_id msg of Some i \<Rightarrow> i | None \<Rightarrow> [])
            | None \<Rightarrow> (case x_msg_id msg of Some i \<Rightarrow> i | None \<Rightarrow> []));
          new_msg = (if origin_msg_id \<noteq> [] then put_property PROPERTY_ORIGIN_MESSAGE_ID origin_msg_id new_msg else new_msg);
          new_msg = put_property PROPERTY_RETRY_TOPIC (m_topic msg) new_msg;
          new_msg = put_property PROPERTY_RECONSUME_TIME (show_signed (x_reconsume_times msg + 1)) new_msg;
          new_msg = put_property PROPERTY_MAX_RECONSUME_TIMES (show_signed max_times) new_msg;
          new_msg = remove_property PROPERTY_TRANSACTION_PREPARED new_msg
      in set_delay_time_level (3 + x_reconsume_times msg) new_msg)"

section \<open>Names that the listener sees\<close>

definition reset_retry_topic_and_namespace :: "consumer_config \<Rightarrow> message_ext list \<Rightarrow> message_ext list" where
  "reset_retry_topic_and_namespace cfg msgs =
     (let group_topic = get_retry_topic (cc_consumer_group cfg)
      in map (\<lambda>msg.
           let msg = (case get_property msg PROPERTY_RETRY_TOPIC of
                 Some retry_topic \<Rightarrow> if m_topic msg = group_topic then msg\<lparr>m_topic := retry_topic\<rparr> else msg
               | None \<Rightarrow> msg)
           in if cc_namespace cfg = [] then msg
              else msg\<lparr>m_topic := without_namespace (m_topic msg) (cc_namespace cfg)\<rparr>) msgs)"

fun normal_topic :: "string list \<Rightarrow> string \<Rightarrow> string" where
  "normal_topic [] topic = topic"
| "normal_topic (grp # groups) topic =
     (let normal = parse_pop_normal_topic topic grp in if normal \<noteq> topic then normal else normal_topic groups topic)"

definition reset_pop_retry_topic :: "consumer_config \<Rightarrow> message_ext list \<Rightarrow> message_ext list" where
  "reset_pop_retry_topic cfg msgs =
     (let grp = cc_consumer_group cfg;
          plain = without_namespace grp (cc_namespace cfg);
          groups = (if cc_namespace cfg \<noteq> [] \<and> plain \<noteq> grp then [grp, plain] else [grp])
      in map (\<lambda>msg. msg\<lparr>m_topic := normal_topic groups (m_topic msg)\<rparr>) msgs)"

section \<open>Ownership of queues\<close>

definition PULL_MAX_IDLE_TIME :: i64 where "PULL_MAX_IDLE_TIME = 120000"

definition owns_queue :: "string \<Rightarrow> u64 \<Rightarrow> push_state \<Rightarrow> bool" where
  "owns_queue key token st \<longleftrightarrow> map_of (pu_queue_owners st) key = Some token"

definition stamp_pull_at :: "i64 \<Rightarrow> string \<Rightarrow> push_state \<Rightarrow> push_state" where
  "stamp_pull_at now key st = st\<lparr>pu_last_pull_at := bt_insert key now (pu_last_pull_at st)\<rparr>"

definition pull_stalled_locked :: "string \<Rightarrow> i64 \<Rightarrow> push_state \<Rightarrow> bool" where
  "pull_stalled_locked key now st = (case map_of (pu_last_pull_at st) key of
     None \<Rightarrow> False
   | Some began \<Rightarrow> if began = 0 then True else PULL_MAX_IDLE_TIME <s now - began)"

definition mark_pull_loop_exited :: "string \<Rightarrow> u64 \<Rightarrow> push_state \<Rightarrow> push_state" where
  "mark_pull_loop_exited key token st =
     (if owns_queue key token st then st\<lparr>pu_last_pull_at := bt_insert key 0 (pu_last_pull_at st)\<rparr> else st)"

text \<open>A queue is retired with everything that was known of it, and its generation ends.\<close>

definition retire_queue_locked ::
    "string \<Rightarrow> message_queue option \<Rightarrow> (message_queue \<times> i64 option) list \<times> push_state
     \<Rightarrow> (message_queue \<times> i64 option) list \<times> push_state" where
  "retire_queue_locked key fallback_mq = (\<lambda>(revoked, st).
     let off = map_of (pu_consume_offsets st) key;
         mq = (case map_of (pu_mq_map st) key of Some mq \<Rightarrow> Some mq | None \<Rightarrow> fallback_mq);
         st = st\<lparr>pu_queue_owners := bt_remove key (pu_queue_owners st),
                 pu_pending := bt_remove key (pu_pending st),
                 pu_inflight_msgs := bt_remove key (pu_inflight_msgs st),
                 pu_lock_ok := pu_lock_ok st - {key},
                 pu_lock_at := bt_remove key (pu_lock_at st),
                 pu_last_consume_at := bt_remove key (pu_last_consume_at st),
                 pu_last_pull_at := bt_remove key (pu_last_pull_at st),
                 pu_queue_epoch := bt_insert key (epoch_of key st + 1) (pu_queue_epoch st),
                 pu_consume_offsets := bt_remove key (pu_consume_offsets st),
                 pu_offset_table := bt_remove key (pu_offset_table st),
                 pu_mq_map := bt_remove key (pu_mq_map st)\<rparr>
     in (case mq of Some mq \<Rightarrow> revoked @ [(mq, off)] | None \<Rightarrow> revoked, st))"

definition create_queue ::
    "i64 \<Rightarrow> string \<times> message_queue \<Rightarrow> (message_queue \<times> u64) list \<times> u64 \<times> push_state
     \<Rightarrow> (message_queue \<times> u64) list \<times> u64 \<times> push_state" where
  "create_queue now = (\<lambda>(key, mq) (to_spawn, token, st).
     if map_of (pu_queue_owners st) key \<noteq> None then (to_spawn, token, st)
     else (to_spawn @ [(mq, token)], token + 1,
       st\<lparr>pu_frozen_offsets := pu_frozen_offsets st - {key},
          pu_queue_owners := bt_insert key token (pu_queue_owners st),
          pu_mq_map := bt_insert key mq (pu_mq_map st),
          pu_last_pull_at := bt_insert key now (pu_last_pull_at st)\<rparr>))"

definition current_queues :: "string set \<Rightarrow> push_state \<Rightarrow> (string \<times> message_queue) list" where
  "current_queues skip st =
     fold (\<lambda>mq. bt_insert (mq_key mq) mq) (filter (\<lambda>mq. mq_key mq \<notin> skip) (pu_assigned st)) []"

definition doomed_queues ::
    "bool \<Rightarrow> i64 \<Rightarrow> (string \<times> message_queue) list \<Rightarrow> push_state \<Rightarrow> (string \<times> message_queue option) list" where
  "doomed_queues started now current st = List.map_filter (\<lambda>(key, _).
     case map_of current key of
       None \<Rightarrow> Some (key, None)
     | Some mq \<Rightarrow> if started \<and> pull_stalled_locked key now st then Some (key, Some mq) else None) (pu_queue_owners st)"

text \<open>The section of \<open>rebalance_pull_threads\<close> under the lock: the queues to revoke, the loops to start, the next token.\<close>

definition rebalance_pull_threads ::
    "bool \<Rightarrow> i64 \<Rightarrow> string set \<Rightarrow> u64 \<Rightarrow> push_state
     \<Rightarrow> (message_queue \<times> i64 option) list \<times> (message_queue \<times> u64) list \<times> u64 \<times> push_state" where
  "rebalance_pull_threads started now skip next_token st =
     (let current = current_queues skip st;
          (revoked, st) = fold (\<lambda>(key, fallback). retire_queue_locked key fallback)
            (doomed_queues started now current st) ([], st)
      in (revoked, fold (create_queue now) current ([], next_token, st)))"

definition reset_offset_locked ::
    "string \<Rightarrow> (message_queue \<times> i64) list \<Rightarrow> push_state \<Rightarrow> (message_queue \<times> i64 option) list \<times> push_state" where
  "reset_offset_locked topic offset_table st =
     (if topic = [] \<or> offset_table = [] then ([], st)
      else let hits = List.map_filter (\<lambda>(key, mq).
                 if mq_topic mq = topic then map_option (\<lambda>off. (key, mq, off)) (map_of offset_table mq) else None)
               (pu_mq_map st)
        in fold (\<lambda>(key, mq, off) (revoked, st). retire_queue_locked key (Some mq)
             (revoked, st\<lparr>pu_consume_offsets := bt_insert key off (pu_consume_offsets st)\<rparr>)) hits ([], st))"

text \<open>After the last persistence of a revoked queue.\<close>

definition forget_revoked :: "message_queue \<Rightarrow> push_state \<Rightarrow> push_state" where
  "forget_revoked mq st = st\<lparr>pu_consume_offsets := bt_remove (mq_key mq) (pu_consume_offsets st)\<rparr>"

section \<open>Pulling\<close>

text \<open>
  What a pull loop does with an answer under the lock: nothing if the queue was taken away, otherwise the messages are
  pending, the cursor moves on, and an illegal offset freezes the consumed offset at the corrected value.
\<close>

definition store_pulled :: "string \<Rightarrow> message_queue \<Rightarrow> message_ext list \<Rightarrow> i64 \<Rightarrow> push_state \<Rightarrow> push_state" where
  "store_pulled key mq msgs next_begin_offset st =
     (let st = (if msgs = [] then st
            else st\<lparr>pu_mq_map := bt_insert key mq (pu_mq_map st),
                    pu_pending := bt_insert key (pending_of key st @ msgs) (pu_pending st)\<rparr>)
      in st\<lparr>pu_offset_table := bt_insert key next_begin_offset (pu_offset_table st)\<rparr>)"

definition settle_pull ::
    "string \<Rightarrow> message_queue \<Rightarrow> u64 \<Rightarrow> message_ext list \<Rightarrow> pull_result \<Rightarrow> push_state \<Rightarrow> (bool \<times> push_state) option" where
  "settle_pull key mq token msgs r st =
     (if map_of (pu_queue_owners st) key \<noteq> Some token then None
      else let st = store_pulled key mq msgs (pr_next_begin_offset r) st
           in if pr_status r = OffsetIllegal
              then let st = (if 0 \<le>s pr_next_begin_offset r
                     then st\<lparr>pu_consume_offsets := bt_insert key (pr_next_begin_offset r) (pu_consume_offsets st)\<rparr> else st)
                in Some (True, st\<lparr>pu_frozen_offsets := insert key (pu_frozen_offsets st)\<rparr>)
              else Some (False, correct_tags_offset_locked key (pr_status r) (pr_next_begin_offset r) st))"

text \<open>The filter hooks of the application run after the tag filter.\<close>

definition delivered_messages ::
    "(message_ext list \<Rightarrow> message_ext list) \<Rightarrow> subscription_data \<Rightarrow> pull_result \<Rightarrow> message_ext list" where
  "delivered_messages hooks sub r =
     (if pr_status r = Found \<and> pr_msg_found_list r \<noteq> []
      then hooks (client_side_tag_filter (Some sub) (pr_msg_found_list r)) else pr_msg_found_list r)"

definition PROPERTY_MAX_OFFSET :: string where "PROPERTY_MAX_OFFSET = ''MAX_OFFSET''"

definition update_msg_acc_cnt :: "string \<Rightarrow> message_ext list \<Rightarrow> push_state \<Rightarrow> push_state" where
  "update_msg_acc_cnt key msgs st =
     (if msgs = [] then st
      else let m = List.last msgs in
        (case get_property m PROPERTY_MAX_OFFSET of
           None \<Rightarrow> st
         | Some prop \<Rightarrow> (case parse_i64 prop of
             None \<Rightarrow> st
           | Some mx \<Rightarrow> if 0 <s mx - x_queue_offset m
               then st\<lparr>pu_msg_acc_cnt := bt_insert key (mx - x_queue_offset m) (pu_msg_acc_cnt st)\<rparr> else st)))"

definition recalc_pull_from_which_node :: "message_queue \<Rightarrow> push_state \<Rightarrow> i64" where
  "recalc_pull_from_which_node mq st = entry_or MASTER_ID (pu_pull_from_which_node st) mq"

definition update_pull_from_which_node :: "message_queue \<Rightarrow> i64 option \<Rightarrow> push_state \<Rightarrow> push_state" where
  "update_pull_from_which_node mq suggest st = st\<lparr>pu_pull_from_which_node :=
     AList.update mq (case suggest of Some b \<Rightarrow> b | None \<Rightarrow> MASTER_ID) (pu_pull_from_which_node st)\<rparr>"

definition pull_subscription_expression :: "bool \<Rightarrow> subscription_data \<Rightarrow> string option" where
  "pull_subscription_expression post_subscription_when_pull sub =
     (if post_subscription_when_pull \<and> \<not> sd_class_filter_mode sub then Some (sd_sub_string sub) else None)"

definition pull_next_round_delay_millis :: "bool \<Rightarrow> nat \<Rightarrow> i64 \<Rightarrow> u64" where
  "pull_next_round_delay_millis found delivered pull_interval =
     (if found \<and> 0 < delivered then ucast (smax pull_interval 0) else 0)"

definition pull_offsets_look_wrong :: "i64 \<Rightarrow> i64 \<Rightarrow> i64 \<Rightarrow> bool" where
  "pull_offsets_look_wrong next_begin_offset first_msg_offset prev_request_offset \<longleftrightarrow>
     next_begin_offset <s prev_request_offset \<or> first_msg_offset <s prev_request_offset"

text \<open>The cache gates of a queue; a hit is counted.\<close>

definition held_span :: "message_ext list \<Rightarrow> i64" where
  "held_span held = (case (iter_max (map x_queue_offset held), iter_min (map x_queue_offset held)) of
     (Some mx, Some mn) \<Rightarrow> mx - mn | _ \<Rightarrow> 0)"

definition flow_control_hit :: "consumer_config \<Rightarrow> bool \<Rightarrow> string \<Rightarrow> nat \<Rightarrow> push_state \<Rightarrow> bool \<times> nat" where
  "flow_control_hit cfg orderly key triggered st =
     (let held = process_queue_entries_locked key st;
          count = (if length held < 2 ^ 63 then of_nat (length held) else word_of_int (2 ^ 63 - 1)) :: i64;
          body_bytes = sum_list (map body_len_i64 held);
          size_mib = word_of_int (sint body_bytes sdiv sint CACHE_SIZE_GATE_MIB) :: i64;
          span = held_span held;
          hit = scast (cc_pull_threshold_for_queue cfg) <s count
              \<or> scast (cc_pull_threshold_size_for_queue cfg) <s size_mib
              \<or> \<not> orderly \<and> cc_consume_concurrently_max_span cfg <s span
      in (hit, if hit then triggered + 1 else triggered))"

definition FLOW_CONTROL_WARN_EVERY :: nat where "FLOW_CONTROL_WARN_EVERY = 1000"

definition is_flow_control_warn_trip :: "nat \<Rightarrow> bool" where
  "is_flow_control_warn_trip trips \<longleftrightarrow> 0 < trips \<and> (trips - 1) mod FLOW_CONTROL_WARN_EVERY = 0"

section \<open>Changes of the assignment\<close>

definition queues_by_topic :: "message_queue list \<Rightarrow> (string \<times> string set) list" where
  "queues_by_topic queues = fold (\<lambda>mq grouped.
     bt_insert (mq_topic mq) (insert (mq_key mq) (entry_or {} grouped (mq_topic mq))) grouped) queues []"

definition changed_topics :: "(string \<times> string set) list \<Rightarrow> (string \<times> string set) list \<Rightarrow> string list" where
  "changed_topics before after =
     filter (\<lambda>topic. entry_or {} before topic \<noteq> entry_or {} after topic)
       (sorted_list_of_set (fst ` set before \<union> fst ` set after))"

end
