(* ===== verification/Push_Steps.thy ===== *)
theory Push_Steps
  imports Push_Queue Lite_Commit "HOL-Library.Sublist"
begin

text \<open>
  The tasks of the push consumer, interleaved: the dispatch loop with its one batch, a pull loop per queue and owner token,
  the sweep of expired messages and the rebalance. Each section under the lock is one step; what a task knows between two
  of its sections is part of the state.
\<close>

section \<open>Tasks\<close>

datatype dispatch_task =
    Idle
  | Taken string "message_ext list" u64
  | Checked string "message_ext list" u64
  | Consuming string "message_ext list" u64
  | SentBack string "message_ext list" "message_ext list" "i64 option" u64
  | Settled string "message_ext list"
  | Leaving string

text \<open>Outstanding pull requests by queue key and token: a loop waits for one answer at a time.\<close>

record push_system =
  py_state :: push_state
  py_dispatch :: dispatch_task
  py_pulls :: "string \<times> u64 \<rightharpoonup> message_queue \<times> i64"
  py_resolving :: "(string \<times> message_queue \<times> u64) list"
  py_sweep :: "(string \<times> i64) option"
  py_next_token :: u64

definition push_system_default :: push_system where
  "push_system_default = \<lparr>py_state = push_state_default, py_dispatch = Idle, py_pulls = Map.empty, py_resolving = [],
     py_sweep = None, py_next_token = 1\<rparr>"

definition prepared_batch :: "consumer_config \<Rightarrow> i64 \<Rightarrow> message_ext list \<Rightarrow> message_ext list" where
  "prepared_batch cfg now batch = stamp_batch now (reset_retry_topic_and_namespace cfg (reset_pop_retry_topic cfg batch))"

datatype orderly_status = OrderlySuccess | Rollback | Commit | SuspendCurrentQueueAMoment

datatype orderly_action = Ack | Requeue | Hold

text \<open>What becomes of an orderly batch; a listener that gave no status suspends the queue.\<close>

definition orderly_outcome ::
    "consumer_config \<Rightarrow> (message_ext \<Rightarrow> bool) \<Rightarrow> bool \<Rightarrow> orderly_status option \<Rightarrow> message_ext list
     \<Rightarrow> orderly_action \<times> message_ext list" where
  "orderly_outcome cfg send auto_commit raw_status batch =
     (let batch = reset_retry_topic_and_namespace cfg batch;
          status = (case raw_status of Some s \<Rightarrow> s | None \<Rightarrow> SuspendCurrentQueueAMoment);
          (suspend, counted) = check_orderly_reconsume_times (orderly_max_reconsume_times cfg) send batch
      in if auto_commit
         then (case status of
                 SuspendCurrentQueueAMoment \<Rightarrow> (if suspend then Requeue else Ack, counted)
               | _ \<Rightarrow> (Ack, batch))
         else (case status of
                 Commit \<Rightarrow> (Ack, batch)
               | Rollback \<Rightarrow> (Requeue, batch)
               | SuspendCurrentQueueAMoment \<Rightarrow> (if suspend then Requeue else Hold, counted)
               | OrderlySuccess \<Rightarrow> (Hold, batch)))"

text \<open>A batch goes back to the queue it was taken from, if that queue still is of the same generation.\<close>

definition same_generation :: "string \<Rightarrow> u64 \<Rightarrow> push_state \<Rightarrow> bool" where
  "same_generation key e st \<longleftrightarrow> e = epoch_of key st \<or> map_of (pu_pending st) key = None"

definition cancel_pull :: "string \<Rightarrow> u64 \<Rightarrow> push_system \<Rightarrow> push_system" where
  "cancel_pull key token s = s\<lparr>py_pulls := (py_pulls s)((key, token) := None)\<rparr>"

section \<open>Steps\<close>

text \<open>
  Steps in which a cursor is written only where there is none and a batch is put back only into its own generation.
  Offsets of the store are not negative, filter hooks drop messages but add none, and neither the generations of a queue
  nor the tokens wrap around.
\<close>

inductive calm_push :: "push_system \<Rightarrow> push_system \<Rightarrow> bool" where
  take: "py_dispatch s = Idle \<Longrightarrow> dispatch_take cfg key (py_state s) = Some ((mq, batch, e), st) \<Longrightarrow>
    calm_push s (s\<lparr>py_state := st, py_dispatch := Taken key batch e\<rparr>)"
| dropped: "py_dispatch s = Taken key batch e \<Longrightarrow> e \<noteq> epoch_of key (py_state s) \<Longrightarrow>
    calm_push s (s\<lparr>py_dispatch := Leaving key\<rparr>)"
| checked: "py_dispatch s = Taken key batch e \<Longrightarrow> e = epoch_of key (py_state s) \<Longrightarrow>
    calm_push s (s\<lparr>py_dispatch := Checked key batch e\<rparr>)"
| register: "py_dispatch s = Checked key batch e \<Longrightarrow> batch' = prepared_batch cfg now batch \<Longrightarrow>
    calm_push s (s\<lparr>py_state := register_inflight_msgs key batch' (py_state s), py_dispatch := Consuming key batch' e\<rparr>)"
| ack_all: "py_dispatch s = Consuming key batch e \<Longrightarrow> broadcast \<or> length batch \<le> acked_count status idx (length batch) \<Longrightarrow>
    calm_push s (s\<lparr>py_state := push_advance_consume_offset now key batch None (Some e) (py_state s),
      py_dispatch := Settled key batch\<rparr>)"
| send_back: "py_dispatch s = Consuming key batch e \<Longrightarrow> acked = acked_count status idx (length batch) \<Longrightarrow>
    acked < length batch \<Longrightarrow> failed = send_back_batch held send delay acked (drop acked batch) \<Longrightarrow>
    same_generation key e (py_state s) \<Longrightarrow>
    calm_push s (s\<lparr>py_state := requeue_pending key (map snd failed) (py_state s),
      py_dispatch := SentBack key batch (handled_of batch failed) (back_floor failed) e\<rparr>)"
| advance_back: "py_dispatch s = SentBack key batch handled flr e \<Longrightarrow>
    calm_push s (s\<lparr>py_state := push_advance_consume_offset now key handled flr (Some e) (py_state s),
      py_dispatch := Settled key batch\<rparr>)"
| deregister: "py_dispatch s = Settled key batch \<Longrightarrow>
    calm_push s (s\<lparr>py_state := deregister_inflight_msgs key batch (py_state s), py_dispatch := Leaving key\<rparr>)"
| leave: "py_dispatch s = Leaving key \<Longrightarrow>
    calm_push s (s\<lparr>py_state := dispatch_done key (py_state s), py_dispatch := Idle\<rparr>)"
| orderly_ack: "py_dispatch s = Checked key batch e \<Longrightarrow>
    orderly_outcome cfg retry auto_commit ostatus batch = (Ack, batch') \<Longrightarrow>
    calm_push s (s\<lparr>py_state := push_advance_consume_offset now key batch' None (Some e) (py_state s),
      py_dispatch := Leaving key\<rparr>)"
| orderly_requeue: "py_dispatch s = Checked key batch e \<Longrightarrow>
    orderly_outcome cfg retry auto_commit ostatus batch = (Requeue, batch') \<Longrightarrow>
    same_generation key e (py_state s) \<Longrightarrow>
    calm_push s (s\<lparr>py_state := requeue_pending key batch' (py_state s), py_dispatch := Leaving key\<rparr>)"
| orderly_hold: "py_dispatch s = Checked key batch e \<Longrightarrow>
    orderly_outcome cfg retry auto_commit ostatus batch = (Hold, batch') \<Longrightarrow>
    calm_push s (s\<lparr>py_dispatch := Leaving key\<rparr>)"
| sweep_pick: "process_queue_first_entry_locked key (py_state s) = Some m \<Longrightarrow>
    is_consume_expired (consume_start_timestamp m) now (cc_consume_timeout (cfg :: consumer_config)) \<Longrightarrow>
    calm_push s (s\<lparr>py_sweep := Some (key, x_queue_offset m)\<rparr>)"
| sweep_remove: "py_sweep s = Some (key, offset) \<Longrightarrow>
    calm_push s (s\<lparr>py_state := snd (remove_expired_entry_if_still_head key offset (py_state s)), py_sweep := None\<rparr>)"
| place: "map_of (pu_offset_table (py_state s)) key = None \<Longrightarrow> 0 \<le>s offset \<Longrightarrow>
    calm_push s (s\<lparr>py_state := (py_state s)\<lparr>pu_offset_table := bt_insert key offset (pu_offset_table (py_state s))\<rparr>\<rparr>)"
| pull: "owns_queue key token (py_state s) \<Longrightarrow> map_of (pu_offset_table (py_state s)) key = Some offset \<Longrightarrow>
    py_pulls s (key, token) = None \<Longrightarrow>
    calm_push s (s\<lparr>py_pulls := (py_pulls s)((key, token) \<mapsto> (mq, offset))\<rparr>)"
| response: "py_pulls s (key, token) = Some (mq, offset) \<Longrightarrow>
    pr_status r \<noteq> OffsetIllegal \<Longrightarrow> broker_reply mq offset r \<Longrightarrow> (\<forall>xs. subseq (hooks xs) xs) \<Longrightarrow>
    settle_pull key mq token (delivered_messages hooks sub r) r (py_state s) = Some (illegal, st) \<Longrightarrow>
    calm_push s (cancel_pull key token (s\<lparr>py_state := st\<rparr>))"
| illegal: "py_pulls s (key, token) = Some (mq, offset) \<Longrightarrow> pr_status r = OffsetIllegal \<Longrightarrow>
    settle_pull key mq token (delivered_messages hooks sub r) r (py_state s) = Some (illegal, st) \<Longrightarrow>
    calm_push s (cancel_pull key token (s\<lparr>py_state := st\<rparr>))"
| discard: "py_pulls s (key, token) = Some (mq, offset) \<Longrightarrow> \<not> owns_queue key token (py_state s) \<Longrightarrow>
    calm_push s (cancel_pull key token s)"
| retire: "epoch_of key (py_state s) + 1 \<noteq> 0 \<Longrightarrow>
    calm_push s (s\<lparr>py_state := snd (retire_queue_locked key fallback (revoked, py_state s))\<rparr>)"
| create: "py_next_token s + 1 \<noteq> 0 \<Longrightarrow>
    create_queue now (key, mq) (spawned, py_next_token s, py_state s) = (spawned', token, st) \<Longrightarrow>
    calm_push s (s\<lparr>py_state := st, py_next_token := token\<rparr>)"
| forget: "calm_push s (s\<lparr>py_state := forget_revoked mq (py_state s)\<rparr>)"

text \<open>
  The program also puts a batch back whatever became of its queue, and writes the initial offset that it waited for whoever
  owns the queue by then.
\<close>

inductive push_step :: "push_system \<Rightarrow> push_system \<Rightarrow> bool" where
  calm: "calm_push s s' \<Longrightarrow> push_step s s'"
| send_back_late: "py_dispatch s = Consuming key batch e \<Longrightarrow> acked = acked_count status idx (length batch) \<Longrightarrow>
    acked < length batch \<Longrightarrow> failed = send_back_batch held send delay acked (drop acked batch) \<Longrightarrow>
    push_step s (s\<lparr>py_state := requeue_pending key (map snd failed) (py_state s),
      py_dispatch := SentBack key batch (handled_of batch failed) (back_floor failed) e\<rparr>)"
| orderly_requeue_late: "py_dispatch s = Checked key batch e \<Longrightarrow>
    orderly_outcome cfg retry auto_commit ostatus batch = (Requeue, batch') \<Longrightarrow>
    push_step s (s\<lparr>py_state := requeue_pending key batch' (py_state s), py_dispatch := Leaving key\<rparr>)"
| resolve: "owns_queue key token (py_state s) \<Longrightarrow> map_of (pu_offset_table (py_state s)) key = None \<Longrightarrow>
    push_step s (s\<lparr>py_resolving := (key, mq, token) # py_resolving s\<rparr>)"
| resolved: "(key, mq, token) \<in> set (py_resolving s) \<Longrightarrow>
    push_step s (s\<lparr>py_state := (py_state s)\<lparr>pu_offset_table := bt_insert key offset (pu_offset_table (py_state s))\<rparr>,
      py_pulls := (py_pulls s)((key, token) \<mapsto> (mq, offset)),
      py_resolving := remove1 (key, mq, token) (py_resolving s)\<rparr>)"

inductive push_reachable :: "(push_system \<Rightarrow> push_system \<Rightarrow> bool) \<Rightarrow> push_system \<Rightarrow> bool" for step where
  init: "push_reachable step push_system_default"
| step: "push_reachable step s \<Longrightarrow> step s s' \<Longrightarrow> push_reachable step s'"

end
