(* ===== verification/Push_Commit.thy ===== *)
theory Push_Commit
  imports Push_Steps
begin

text \<open>
  What the push consumer persists: the invariant of its interleaved tasks. For every queue the unsettled messages ascend
  below the pull cursor and above the consumed offset.
\<close>

section \<open>Offsets of one queue\<close>

lemma sint_smax [simp]: "sint (smax a b) = max (sint a) (sint b)"
  by (auto simp: smax_def word_sless_alt)

lemma sint_smin [simp]: "sint (smin a b) = min (sint a) (sint b)"
  by (auto simp: smin_def word_sless_alt)

lemma fold_smax: "fold (\<lambda>y m. smax m y) xs x \<in> set (x # xs) \<and> (\<forall>y \<in> set (x # xs). sint y \<le> sint (fold (\<lambda>y m. smax m y) xs x))"
proof (induction xs arbitrary: x)
  case (Cons y xs)
  have "smax x y = x \<or> smax x y = y"
    by (simp add: smax_def)
  then show ?case
    using Cons [of "smax x y"] by auto
qed simp

lemma fold_smin: "fold (\<lambda>y m. smin m y) xs x \<in> set (x # xs) \<and> (\<forall>y \<in> set (x # xs). sint (fold (\<lambda>y m. smin m y) xs x) \<le> sint y)"
proof (induction xs arbitrary: x)
  case (Cons y xs)
  have "smin x y = x \<or> smin x y = y"
    by (simp add: smin_def)
  then show ?case
    using Cons [of "smin x y"] by auto
qed simp

lemma iter_max_Some: "iter_max xs = Some v \<Longrightarrow> v \<in> set xs \<and> (\<forall>x \<in> set xs. sint x \<le> sint v)"
  using fold_smax by (cases xs) auto

lemma iter_min_Some: "iter_min xs = Some v \<Longrightarrow> v \<in> set xs \<and> (\<forall>x \<in> set xs. sint v \<le> sint x)"
  using fold_smin by (cases xs) auto

lemma iter_None [simp]: "iter_max xs = None \<longleftrightarrow> xs = []" "iter_min xs = None \<longleftrightarrow> xs = []"
  by (cases xs; simp)+

definition bounded :: "i64 list \<Rightarrow> i64 \<Rightarrow> i64 option \<Rightarrow> bool" where
  "bounded us c v \<longleftrightarrow> (\<forall>x. v = Some x \<longrightarrow> sint x \<le> sint c \<and> (\<forall>u \<in> set us. sint x \<le> sint u))"

text \<open>
  The unsettled offsets of a queue ascend below the pull cursor; the consumed offset, and the one that a batch in the
  middle of its settlement will set, pass none of them.
\<close>

definition queue_ok :: "i64 list \<Rightarrow> i64 option \<Rightarrow> i64 option \<Rightarrow> i64 option \<Rightarrow> bool" where
  "queue_ok us consumed cursor goal \<longleftrightarrow> sorted_wrt (\<lambda>a b. sint a < sint b) us \<and> (\<forall>u \<in> set us. 0 \<le> sint u)
     \<and> (case cursor of None \<Rightarrow> us = [] \<and> consumed = None \<and> goal = None
        | Some c \<Rightarrow> 0 \<le> sint c \<and> (\<forall>u \<in> set us. sint u < sint c) \<and> bounded us c consumed \<and> bounded us c goal)"

lemma bounded_None [simp]: "bounded us c None"
  by (simp add: bounded_def)

lemma bounded_sub: "bounded us c v \<Longrightarrow> set us' \<subseteq> set us \<Longrightarrow> bounded us' c v"
  by (auto simp: bounded_def)

lemma sub_set: "subseq xs ys \<Longrightarrow> set xs \<subseteq> set ys"
  by (auto dest: list_emb_set)

lemma sorted_wrt_sub: "subseq xs ys \<Longrightarrow> sorted_wrt P ys \<Longrightarrow> sorted_wrt P xs"
  by (induction rule: list_emb.induct) (auto dest: list_emb_set)

lemma queue_ok_sub: "queue_ok us v cur goal \<Longrightarrow> subseq us' us \<Longrightarrow> queue_ok us' v cur goal"
  using sub_set [of us' us] sorted_wrt_sub [of us' us] bounded_sub [of us _ _ us'] unfolding queue_ok_def
  by (cases cur) (auto dest!: list_emb_Nil2)

lemma queue_ok_forget: "queue_ok us v cur goal \<Longrightarrow> queue_ok us None cur goal"
  by (auto simp: queue_ok_def split: option.splits)

lemma queue_ok_no_goal: "queue_ok us v cur goal \<Longrightarrow> queue_ok us v cur None"
  by (auto simp: queue_ok_def split: option.splits)

lemma queue_ok_extend:
  assumes "queue_ok us v (Some c) goal" and "sorted_wrt (\<lambda>a b. sint a < sint b) ms"
    and "\<forall>u \<in> set ms. sint c \<le> sint u \<and> sint u < sint n" and "sint c \<le> sint n"
  shows "queue_ok (us @ ms) v (Some n) goal"
  using assms unfolding queue_ok_def bounded_def by (fastforce simp: sorted_wrt_append)

definition offset_or_zero :: "i64 option \<Rightarrow> i64" where
  "offset_or_zero v = (case v of Some x \<Rightarrow> x | None \<Rightarrow> 0)"

lemma queue_ok_advance:
  assumes "queue_ok us v (Some c) goal" and "bounded us c (Some t)"
  shows "queue_ok us (Some (smax (offset_or_zero v) t)) (Some c) None"
  using assms unfolding queue_ok_def bounded_def by (auto simp: offset_or_zero_def split: option.splits)

lemma no_overflow: "sint (x :: i64) < sint (c :: i64) \<Longrightarrow> sint (x + 1) = sint x + 1"
proof -
  assume "sint x < sint c"
  then have "sint x + 1 < 2 ^ 63" "- (2 ^ 63) \<le> sint x + 1"
    using sint_lt [of c] sint_ge [of x] by simp_all
  then show ?thesis
    by (simp add: sint_word_ariths signed_take_bit_int_eq_self)
qed

definition advance_target :: "i64 list \<Rightarrow> i64 option \<Rightarrow> i64 option" where
  "advance_target h flr = (case iter_max h of
     None \<Rightarrow> None
   | Some mx \<Rightarrow> Some (case flr of Some f \<Rightarrow> smin (mx + 1) f | None \<Rightarrow> mx + 1))"

text \<open>A batch at the front: what failed stays, and the target of the rest passes neither that nor what was behind.\<close>

lemma target_bounded:
  assumes ok: "queue_ok (b @ p) v (Some c) goal" and sub: "set h \<subseteq> set b"
  shows "bounded (f @ p) c (advance_target h (iter_min f))"
proof (cases "iter_max h")
  case None
  then show ?thesis by (simp add: advance_target_def)
next
  case (Some mx)
  then have mx: "mx \<in> set b"
    using iter_max_Some sub by blast
  have less: "sint mx < sint c" "\<forall>u \<in> set p. sint mx < sint u"
    using ok mx by (auto simp: queue_ok_def sorted_wrt_append)
  note step = no_overflow [OF less(1)]
  show ?thesis
  proof (cases "iter_min f")
    case None
    then show ?thesis
      using less by (auto simp: advance_target_def Some bounded_def step)
  next
    case (Some fl)
    then show ?thesis
      using less iter_min_Some [OF Some] \<open>iter_max h = Some mx\<close>
      by (auto simp: advance_target_def bounded_def step min_le_iff_disj)
  qed
qed

lemma queue_ok_back:
  assumes "queue_ok (b @ p) v cur None" and "subseq f b" and "set h \<subseteq> set b"
  shows "queue_ok (f @ p) v cur (advance_target h (iter_min f))"
proof (cases cur)
  case None
  then have "b = []" using assms(1) by (auto simp: queue_ok_def)
  then have "h = []" "f = []" using assms(2,3) by (auto simp: list_emb_Nil2)
  then show ?thesis using assms(1) None by (simp add: queue_ok_def advance_target_def)
next
  case (Some c)
  have "queue_ok (f @ p) v cur None"
    by (rule queue_ok_sub [OF assms(1)]) (simp add: assms(2) list_emb_append_mono)
  moreover have "bounded (f @ p) c (advance_target h (iter_min f))"
    using target_bounded [of b p v c None h f] assms(1,3) Some by blast
  ultimately show ?thesis
    by (simp add: queue_ok_def Some)
qed

section \<open>The invariant\<close>

definition hand_offsets :: "string \<Rightarrow> u64 \<Rightarrow> dispatch_task \<Rightarrow> i64 list" where
  "hand_offsets key epoch d = (case d of
     Taken k b e \<Rightarrow> if k = key \<and> e = epoch then map x_queue_offset b else []
   | Checked k b e \<Rightarrow> if k = key \<and> e = epoch then map x_queue_offset b else []
   | Consuming k b e \<Rightarrow> if k = key \<and> e = epoch then map x_queue_offset b else []
   | _ \<Rightarrow> [])"

definition goal_of :: "string \<Rightarrow> u64 \<Rightarrow> dispatch_task \<Rightarrow> i64 option" where
  "goal_of key epoch d = (case d of
     SentBack k b h f e \<Rightarrow> if k = key \<and> e = epoch then advance_target (map x_queue_offset h) f else None
   | _ \<Rightarrow> None)"

fun dispatch_key :: "dispatch_task \<Rightarrow> string option" where
  "dispatch_key Idle = None"
| "dispatch_key (Taken k b e) = Some k"
| "dispatch_key (Checked k b e) = Some k"
| "dispatch_key (Consuming k b e) = Some k"
| "dispatch_key (SentBack k b h f e) = Some k"
| "dispatch_key (Settled k b) = Some k"
| "dispatch_key (Leaving k) = Some k"

fun dispatch_epoch :: "dispatch_task \<Rightarrow> u64" where
  "dispatch_epoch (Taken k b e) = e"
| "dispatch_epoch (Checked k b e) = e"
| "dispatch_epoch (Consuming k b e) = e"
| "dispatch_epoch (SentBack k b h f e) = e"
| "dispatch_epoch d = 0"

text \<open>What the tables say of one queue.\<close>

record queue_view =
  qv_pending :: "message_ext list option"
  qv_consumed :: "i64 option"
  qv_cursor :: "i64 option"
  qv_epoch :: u64
  qv_owner :: "u64 option"
  qv_frozen :: bool
  qv_inflight :: nat

definition view :: "push_state \<Rightarrow> string \<Rightarrow> queue_view" where
  "view st key = \<lparr>qv_pending = map_of (pu_pending st) key, qv_consumed = map_of (pu_consume_offsets st) key,
     qv_cursor = map_of (pu_offset_table st) key, qv_epoch = epoch_of key st, qv_owner = map_of (pu_queue_owners st) key,
     qv_frozen = (key \<in> pu_frozen_offsets st), qv_inflight = entry_or 0 (pu_inflight st) key\<rparr>"

definition pending_offsets :: "queue_view \<Rightarrow> i64 list" where
  "pending_offsets q = map x_queue_offset (case qv_pending q of Some dq \<Rightarrow> dq | None \<Rightarrow> [])"

definition view_ok :: "string \<Rightarrow> queue_view \<Rightarrow> dispatch_task \<Rightarrow> bool" where
  "view_ok key q d \<longleftrightarrow>
     (qv_owner q = None \<longrightarrow> qv_pending q = None \<and> qv_consumed q = None \<and> hand_offsets key (qv_epoch q) d = []
        \<and> goal_of key (qv_epoch q) d = None \<and> (\<forall>c. qv_cursor q = Some c \<longrightarrow> 0 \<le> sint c))
   \<and> (dispatch_key d = Some key \<longrightarrow> qv_inflight q \<noteq> 0 \<and> dispatch_epoch d \<le> qv_epoch q)
   \<and> (\<not> qv_frozen q \<longrightarrow> queue_ok (hand_offsets key (qv_epoch q) d @ pending_offsets q) (qv_consumed q) (qv_cursor q)
        (goal_of key (qv_epoch q) d))"

definition pulls_ok :: "string \<Rightarrow> queue_view \<Rightarrow> (string \<times> u64 \<rightharpoonup> message_queue \<times> i64) \<Rightarrow> u64 \<Rightarrow> bool" where
  "pulls_ok key q pulls nt \<longleftrightarrow>
     (\<forall>t mq off. pulls (key, t) = Some (mq, off) \<longrightarrow> t < nt \<and> (qv_owner q = Some t \<longrightarrow> qv_cursor q = Some off))
   \<and> (\<forall>t. qv_owner q = Some t \<longrightarrow> t < nt)"

definition push_inv :: "push_system \<Rightarrow> bool" where
  "push_inv s \<longleftrightarrow> (\<forall>key. view_ok key (view (py_state s) key) (py_dispatch s)
     \<and> pulls_ok key (view (py_state s) key) (py_pulls s) (py_next_token s))"

section \<open>The operations on a view\<close>

lemma entry_or_insert [simp]: "entry_or d (bt_insert k v m) j = (if j = k then v else entry_or d m j)"
  by (simp add: entry_or_def)

lemma entry_or_remove [simp]: "entry_or d (bt_remove k m) j = (if j = k then d else entry_or d m j)"
  by (simp add: entry_or_def)

lemma view_advance:
  "view (push_advance_consume_offset now key batch flr (Some e) st) k =
     (if k = key \<and> e = epoch_of key st \<and> key \<notin> pu_frozen_offsets st \<and> batch \<noteq> []
      then (view st k)\<lparr>qv_consumed := Some (smax (offset_or_zero (qv_consumed (view st k)))
              (the (advance_target (map x_queue_offset batch) flr)))\<rparr>
      else view st k)"
  by (simp add: push_advance_consume_offset_def view_def epoch_of_def advance_target_def entry_or_def offset_or_zero_def
      Let_def split: option.split)

lemma view_requeue:
  "view (requeue_pending key batch st) k =
     (if k = key \<and> map_of (pu_pending st) key \<noteq> None
      then (view st k)\<lparr>qv_pending := Some (batch @ the (map_of (pu_pending st) key))\<rparr> else view st k)"
  by (auto simp: requeue_pending_def view_def epoch_of_def split: option.split)

lemma view_inflight_msgs [simp]:
  "view (register_inflight_msgs key batch st) k = view st k"
  "view (retain_inflight key keep st) k = view st k"
  "view (deregister_inflight_msgs key batch st) k = view st k"
  by (simp_all add: register_inflight_msgs_def retain_inflight_def deregister_inflight_msgs_def view_def epoch_of_def
      Let_def split: option.split)

lemma view_done:
  "view (dispatch_done key st) k = (if k = key then (view st k)\<lparr>qv_inflight := qv_inflight (view st k) - 1\<rparr> else view st k)"
  by (auto simp: dispatch_done_def view_def epoch_of_def entry_or_def Let_def split: option.split)

lemma view_take:
  assumes "dispatch_take cfg key st = Some ((mq, batch, e), st')"
  obtains dq n where "map_of (pu_pending st) key = Some dq" "batch = take n dq" "e = epoch_of key st"
    "\<And>k. view st' k = (if k = key then (view st k)\<lparr>qv_pending := Some (drop n dq),
        qv_inflight := qv_inflight (view st k) + 1\<rparr> else view st k)"
  using assms by (auto simp: dispatch_take_def view_def epoch_of_def Let_def split: option.splits if_splits)

lemma view_remove:
  "view (remove_process_queue_entry_locked key offset st) k =
     (if k = key then (view st k)\<lparr>qv_pending := map_option (filter (\<lambda>m. x_queue_offset m \<noteq> offset)) (qv_pending (view st k))\<rparr>
      else view st k)"
proof -
  have "view (retain_inflight key P st) = view st" for P
    by (rule ext) simp
  then have "pu_pending (retain_inflight key P st) = pu_pending st" for P
    by (simp add: retain_inflight_def Let_def split: option.split)
  then show ?thesis
    using view_inflight_msgs(2) [of key "\<lambda>m. x_queue_offset m \<noteq> offset" st k]
    by (auto simp: remove_process_queue_entry_locked_def view_def epoch_of_def Let_def split: option.split)
qed

lemma view_cursor:
  "view (st\<lparr>pu_offset_table := bt_insert key off (pu_offset_table st)\<rparr>) k =
     (if k = key then (view st k)\<lparr>qv_cursor := Some off\<rparr> else view st k)"
  by (simp add: view_def epoch_of_def)

lemma view_retire:
  "view (snd (retire_queue_locked key fallback (revoked, st))) k =
     (if k = key then \<lparr>qv_pending = None, qv_consumed = None, qv_cursor = None, qv_epoch = epoch_of key st + 1,
        qv_owner = None, qv_frozen = (key \<in> pu_frozen_offsets st), qv_inflight = qv_inflight (view st k)\<rparr>
      else view st k)"
  by (simp add: retire_queue_locked_def view_def epoch_of_def Let_def)

lemma view_create:
  assumes "create_queue now (key, mq) (spawned, nt, st) = (spawned', token, st')"
  shows "(token, view st' k) =
     (if map_of (pu_queue_owners st) key \<noteq> None then (nt, view st k)
      else (nt + 1, if k = key then (view st k)\<lparr>qv_owner := Some nt, qv_frozen := False\<rparr> else view st k))"
  using assms by (auto simp: create_queue_def view_def epoch_of_def split: if_splits)

lemma view_forget:
  "view (forget_revoked mq st) k = (if k = mq_key mq then (view st k)\<lparr>qv_consumed := None\<rparr> else view st k)"
  by (simp add: forget_revoked_def view_def epoch_of_def)

lemma view_correct:
  "view (correct_tags_offset_locked key status n st) k =
     (if k = key \<and> (status = NoNewMsg \<or> status = NoMatchedMsg) \<and> \<not> qv_frozen (view st k) \<and> pending_offsets (view st k) = []
         \<and> qv_inflight (view st k) = 0 \<and> (\<forall>c. qv_consumed (view st k) = Some c \<longrightarrow> sint c < sint n)
      then (view st k)\<lparr>qv_consumed := Some n\<rparr> else view st k)"
  by (auto simp: correct_tags_offset_locked_def view_def epoch_of_def pending_of_def pending_offsets_def entry_or_def
      word_sless_alt split: option.splits)

section \<open>Preservation\<close>

lemma push_inv_intro:
  assumes "\<And>k. view_ok k (view (py_state s) k) (py_dispatch s)"
    and "\<And>k. pulls_ok k (view (py_state s) k) (py_pulls s) (py_next_token s)"
  shows "push_inv s"
  using assms by (simp add: push_inv_def)

lemma queue_ok_tail: "queue_ok (h @ p) v cur goal \<Longrightarrow> queue_ok p v cur goal"
  by (erule queue_ok_sub) (rule list_emb_append2, simp)

text \<open>A step of the dispatch loop leaves cursors, owners and requests alone.\<close>

lemma dispatch_step:
  assumes inv: "push_inv s"
    and key: "view_ok key (view st key) d"
    and same: "\<And>k. qv_owner (view st k) = qv_owner (view (py_state s) k)"
      "\<And>k. qv_cursor (view st k) = qv_cursor (view (py_state s) k)"
    and others: "\<And>k. k \<noteq> key \<Longrightarrow> view st k = view (py_state s) k"
    and d: "dispatch_key (py_dispatch s) = Some key \<or> py_dispatch s = Idle" "dispatch_key d = Some key \<or> d = Idle"
  shows "push_inv (s\<lparr>py_state := st, py_dispatch := d\<rparr>)"
proof (rule push_inv_intro)
  fix k
  have quiet: "hand_offsets k e x = []" "goal_of k e x = None" if "dispatch_key x = Some key \<or> x = Idle" "k \<noteq> key" for e x
    using that by (cases x; auto simp: hand_offsets_def goal_of_def)+
  show "pulls_ok k (view (py_state (s\<lparr>py_state := st, py_dispatch := d\<rparr>)) k) (py_pulls (s\<lparr>py_state := st, py_dispatch := d\<rparr>))
      (py_next_token (s\<lparr>py_state := st, py_dispatch := d\<rparr>))"
    using inv by (simp add: push_inv_def pulls_ok_def same)
  have "view_ok k (view (py_state s) k) d" if "k \<noteq> key"
  proof -
    have "view_ok k (view (py_state s) k) (py_dispatch s)"
      using inv by (simp add: push_inv_def)
    then show ?thesis
      using d that quiet [OF d(1) that] quiet [OF d(2) that] by (auto simp: view_ok_def)
  qed
  then show "view_ok k (view (py_state (s\<lparr>py_state := st, py_dispatch := d\<rparr>)) k) (py_dispatch (s\<lparr>py_state := st, py_dispatch := d\<rparr>))"
    using key others by (cases "k = key") simp_all
qed

lemma view_ok_of: "push_inv s \<Longrightarrow> view_ok k (view (py_state s) k) (py_dispatch s)"
  by (simp add: push_inv_def)

lemma view_sel [simp]: "qv_epoch (view st k) = epoch_of k st" "qv_frozen (view st k) \<longleftrightarrow> k \<in> pu_frozen_offsets st"
  "qv_pending (view st k) = map_of (pu_pending st) k"
  by (simp_all add: view_def)

lemma inv_take:
  assumes inv: "push_inv s" and idle: "py_dispatch s = Idle"
    and tk: "dispatch_take cfg key (py_state s) = Some ((mq, batch, e), st)"
  shows "push_inv (s\<lparr>py_state := st, py_dispatch := Taken key batch e\<rparr>)"
proof -
  obtain dq n where dq: "map_of (pu_pending (py_state s)) key = Some dq" "batch = take n dq" "e = epoch_of key (py_state s)"
    and v: "\<And>k. view st k = (if k = key then (view (py_state s) k)\<lparr>qv_pending := Some (drop n dq),
        qv_inflight := qv_inflight (view (py_state s) k) + 1\<rparr> else view (py_state s) k)"
    using view_take [OF tk] by blast
  have offs: "pending_offsets (view (py_state s) key) = map x_queue_offset dq"
    by (simp add: pending_offsets_def dq(1))
  have "map x_queue_offset (take n dq) @ map x_queue_offset (drop n dq) = map x_queue_offset dq"
    by (simp flip: map_append)
  moreover have "view_ok key (view (py_state s) key) Idle"
    using view_ok_of [OF inv, of key] idle by simp
  ultimately have "view_ok key (view st key) (Taken key batch e)"
    by (simp add: view_ok_def v dq hand_offsets_def goal_of_def offs) (simp add: pending_offsets_def)
  then show ?thesis
    by (rule dispatch_step [OF inv]) (auto simp: v idle)
qed

text \<open>A task that lets go of its batch, or only remembers more of it.\<close>

lemma inv_quiet:
  assumes inv: "push_inv s" and "dispatch_key (py_dispatch s) = Some key" and "dispatch_key d = Some key"
    and "\<And>k. view st k = view (py_state s) k"
    and "\<And>e. hand_offsets key e d = hand_offsets key e (py_dispatch s) \<or> hand_offsets key e d = []"
    and "\<And>e. goal_of key e d = None"
    and "dispatch_epoch d \<le> dispatch_epoch (py_dispatch s)"
  shows "push_inv (s\<lparr>py_state := st, py_dispatch := d\<rparr>)"
proof -
  let ?q = "view (py_state s) key"
  have old: "view_ok key ?q (py_dispatch s)"
    using view_ok_of [OF inv] by simp
  have "queue_ok (hand_offsets key (qv_epoch ?q) d @ pending_offsets ?q) (qv_consumed ?q) (qv_cursor ?q) None" if "\<not> qv_frozen ?q"
  proof -
    have "queue_ok (hand_offsets key (qv_epoch ?q) (py_dispatch s) @ pending_offsets ?q) (qv_consumed ?q) (qv_cursor ?q) None"
      using old that by (auto simp: view_ok_def intro: queue_ok_no_goal)
    then show ?thesis
      using assms(5) [of "qv_epoch ?q"] by (auto dest: queue_ok_tail)
  qed
  then have "view_ok key (view st key) d"
    using old assms(2-7) by (force simp: view_ok_def)
  then show ?thesis
    by (rule dispatch_step [OF inv]) (simp_all add: assms)
qed

lemma prepared_offsets [simp]: "map x_queue_offset (prepared_batch cfg now batch) = map x_queue_offset batch"
  by (simp add: prepared_batch_def stamp_batch_def reset_retry_topic_and_namespace_def reset_pop_retry_topic_def
      put_property_def comp_def Let_def split: option.split)

lemma counted_offsets: "check_orderly_reconsume_times mx send batch = (susp, batch') \<Longrightarrow> map x_queue_offset batch' = map x_queue_offset batch"
  by (induction mx send batch arbitrary: susp batch' rule: check_orderly_reconsume_times.induct)
    (auto simp: Let_def split: prod.splits if_splits)

lemma outcome_offsets:
  assumes "orderly_outcome cfg send auto_commit status batch = (act, batch')"
  shows "map x_queue_offset batch' = map x_queue_offset batch"
proof -
  have reset: "map x_queue_offset (reset_retry_topic_and_namespace cfg batch) = map x_queue_offset batch"
    by (auto simp: reset_retry_topic_and_namespace_def Let_def split: option.split)
  show ?thesis
    using assms counted_offsets [of _ send "reset_retry_topic_and_namespace cfg batch"] reset
    by (auto simp: orderly_outcome_def Let_def split: prod.splits if_splits orderly_status.splits option.splits)
qed

text \<open>An acknowledged batch moves the consumed offset to its end.\<close>

lemma view_ok_ack:
  assumes old: "view_ok key (view st key) d" and d: "dispatch_key d = Some key" "dispatch_epoch d = e"
    and hand: "\<And>x. hand_offsets key x d = (if e = x then map x_queue_offset batch else [])"
    and d': "dispatch_key d' = Some key" "dispatch_epoch d' = 0" "\<And>x. hand_offsets key x d' = []" "\<And>x. goal_of key x d' = None"
    and same: "map x_queue_offset batch' = map x_queue_offset batch"
  shows "view_ok key (view (push_advance_consume_offset now key batch' None (Some e) st) key) d'"
proof -
  let ?q = "view st key"
  have "queue_ok (pending_offsets ?q) (Some (smax (offset_or_zero (qv_consumed ?q)) (the (advance_target (map x_queue_offset batch) None))))
      (qv_cursor ?q) None" if e: "e = epoch_of key st" and fr: "key \<notin> pu_frozen_offsets st" and ne: "batch \<noteq> []"
  proof -
    have ok: "queue_ok (map x_queue_offset batch @ pending_offsets ?q) (qv_consumed ?q) (qv_cursor ?q) (goal_of key e d)"
      using old e fr by (simp add: view_ok_def hand)
    then obtain c where c: "qv_cursor ?q = Some c"
      using ne by (cases "qv_cursor ?q") (auto simp: queue_ok_def)
    have "bounded (pending_offsets ?q) c (advance_target (map x_queue_offset batch) None)"
      using target_bounded [of "map x_queue_offset batch" "pending_offsets ?q" "qv_consumed ?q" c _ "map x_queue_offset batch" "[]"]
        ok c by simp
    moreover obtain t where "advance_target (map x_queue_offset batch) None = Some t"
      using ne by (cases "iter_max (map x_queue_offset batch)") (auto simp: advance_target_def)
    ultimately show ?thesis
      using queue_ok_advance [OF queue_ok_tail [OF ok [unfolded c]]] c by simp
  qed
  moreover have "queue_ok (pending_offsets ?q) (qv_consumed ?q) (qv_cursor ?q) None" if "key \<notin> pu_frozen_offsets st"
    using old that by (auto simp: view_ok_def intro: queue_ok_no_goal queue_ok_tail)
  moreover have "batch' = [] \<longleftrightarrow> batch = []"
    using same by (cases batch; cases batch') auto
  moreover have "e \<noteq> epoch_of key st \<or> batch = [] \<or> qv_owner ?q \<noteq> None"
    using old hand [of "epoch_of key st"] by (auto simp: view_ok_def)
  moreover have "pending_offsets (?q\<lparr>qv_consumed := x\<rparr>) = pending_offsets ?q" for x
    by (simp add: pending_offsets_def)
  ultimately show ?thesis
    using old d d' by (auto simp: view_ok_def view_advance same)
qed

lemma failed_sub: "subseq (map (\<lambda>(_, m). x_queue_offset m) (send_back_batch held send delay i batch)) (map x_queue_offset batch)"
  by (induction held send delay i batch rule: send_back_batch.induct) (auto simp: Let_def)

lemma handled_set: "set (map x_queue_offset (handled_of batch failed)) \<subseteq> set (map x_queue_offset batch)"
  by (auto simp: handled_of_def in_set_enumerate_eq dest: nth_mem)

text \<open>A batch of which some messages come back to the front of the queue.\<close>

lemma view_ok_back:
  assumes old: "view_ok key (view st key) d" and d: "dispatch_key d = Some key" "dispatch_epoch d = e"
    and hand: "\<And>x. hand_offsets key x d = (if e = x then map x_queue_offset batch else [])" "\<And>x. goal_of key x d = None"
    and gen: "same_generation key e st"
    and sub: "subseq (map x_queue_offset kept) (map x_queue_offset batch)" "set h \<subseteq> set (map x_queue_offset batch)"
    and d': "dispatch_key d' = Some key" "dispatch_epoch d' \<le> e" "\<And>x. hand_offsets key x d' = []"
      "\<And>x. goal_of key x d' = (if e = x then advance_target h (iter_min (map x_queue_offset kept)) else None)"
  shows "view_ok key (view (requeue_pending key kept st) key) d'"
proof -
  let ?q = "view st key"
  have bounds: "qv_inflight ?q \<noteq> 0" "e \<le> epoch_of key st"
    using old d by (simp_all add: view_ok_def)
  show ?thesis
  proof (cases "e = epoch_of key st")
    case True
    have ok: "queue_ok (map x_queue_offset batch @ pending_offsets ?q) (qv_consumed ?q) (qv_cursor ?q) None"
      if "key \<notin> pu_frozen_offsets st"
      using old that True by (simp add: view_ok_def hand)
    note kept = queue_ok_back [OF ok sub]
    show ?thesis
    proof (cases "map_of (pu_pending st) key")
      case None
      then have "pending_offsets ?q = []"
        by (simp add: pending_offsets_def)
      moreover have "advance_target h (iter_min (map x_queue_offset kept)) = None" if "qv_owner ?q = None"
        using old that True sub(2) by (auto simp: view_ok_def hand advance_target_def)
      ultimately show ?thesis
        using kept old bounds True d' None queue_ok_sub [of "map x_queue_offset kept" _ _ _ "[]"]
        by (auto simp: view_ok_def view_requeue)
    next
      case (Some dq)
      then have "pending_offsets ?q = map x_queue_offset dq" "qv_owner ?q \<noteq> None"
        using old by (auto simp: pending_offsets_def view_ok_def)
      then show ?thesis
        using kept bounds True d' Some by (auto simp: view_ok_def view_requeue pending_offsets_def)
    qed
  next
    case False
    then have none: "map_of (pu_pending st) key = None"
      using gen by (simp add: same_generation_def)
    have "queue_ok (pending_offsets ?q) (qv_consumed ?q) (qv_cursor ?q) None" if "key \<notin> pu_frozen_offsets st"
      using old that by (auto simp: view_ok_def intro: queue_ok_no_goal queue_ok_tail)
    then show ?thesis
      using old bounds False d' none d by (auto simp: view_ok_def view_requeue hand)
  qed
qed

lemma view_ok_advance_back:
  assumes old: "view_ok key (view st key) (SentBack key batch h flr e)"
  shows "view_ok key (view (push_advance_consume_offset now key h flr (Some e) st) key) (Settled key batch)"
proof -
  let ?q = "view st key"
  let ?t = "advance_target (map x_queue_offset h) flr"
  have "queue_ok (pending_offsets ?q) (Some (smax (offset_or_zero (qv_consumed ?q)) (the ?t))) (qv_cursor ?q) None"
    if e: "e = epoch_of key st" and fr: "key \<notin> pu_frozen_offsets st" and ne: "h \<noteq> []"
  proof -
    obtain t where t: "?t = Some t"
      using ne by (cases "iter_max (map x_queue_offset h)") (auto simp: advance_target_def)
    have ok: "queue_ok (pending_offsets ?q) (qv_consumed ?q) (qv_cursor ?q) (Some t)"
      using old e fr t by (simp add: view_ok_def hand_offsets_def goal_of_def)
    then obtain c where c: "qv_cursor ?q = Some c"
      by (cases "qv_cursor ?q") (auto simp: queue_ok_def)
    have "bounded (pending_offsets ?q) c (Some t)"
      using ok c by (simp add: queue_ok_def)
    then show ?thesis
      using queue_ok_advance [OF ok [unfolded c]] c t by simp
  qed
  moreover have "queue_ok (pending_offsets ?q) (qv_consumed ?q) (qv_cursor ?q) None" if "key \<notin> pu_frozen_offsets st"
    using old that by (auto simp: view_ok_def intro: queue_ok_no_goal queue_ok_tail)
  moreover have "qv_owner ?q \<noteq> None" if "e = epoch_of key st" "h \<noteq> []"
    using old that by (cases "iter_max (map x_queue_offset h)") (auto simp: view_ok_def goal_of_def advance_target_def)
  moreover have "pending_offsets (?q\<lparr>qv_consumed := x\<rparr>) = pending_offsets ?q" for x
    by (simp add: pending_offsets_def)
  ultimately show ?thesis
    using old by (auto simp: view_ok_def view_advance hand_offsets_def goal_of_def)
qed

text \<open>A step of another task, on the tables of one queue.\<close>

lemma table_step:
  assumes inv: "push_inv s" and key: "view_ok key (view (py_state s') key) (py_dispatch s)"
    and pulls: "pulls_ok key (view (py_state s') key) (py_pulls s') (py_next_token s')"
    and others: "\<And>k. k \<noteq> key \<Longrightarrow> view (py_state s') k = view (py_state s) k"
      "\<And>k t. k \<noteq> key \<Longrightarrow> py_pulls s' (k, t) = py_pulls s (k, t)"
    and d: "py_dispatch s' = py_dispatch s" and nt: "py_next_token s \<le> py_next_token s'"
  shows "push_inv s'"
proof (rule push_inv_intro)
  fix k
  show "view_ok k (view (py_state s') k) (py_dispatch s')"
    using key others(1) view_ok_of [OF inv] d by (cases "k = key") simp_all
  have "pulls_ok k (view (py_state s) k) (py_pulls s) (py_next_token s)"
    using inv by (simp add: push_inv_def)
  then show "pulls_ok k (view (py_state s') k) (py_pulls s') (py_next_token s')"
  proof (cases "k = key")
    case False
    then have "view (py_state s') k = view (py_state s) k" "\<And>t. py_pulls s' (k, t) = py_pulls s (k, t)"
      using others by simp_all
    then show ?thesis
      using \<open>pulls_ok k _ _ _\<close> order.strict_trans2 [OF _ nt] unfolding pulls_ok_def by metis
  qed (use pulls in simp)
qed

lemma inv_sweep:
  assumes "push_inv s"
  shows "push_inv (s\<lparr>py_state := snd (remove_expired_entry_if_still_head key offset (py_state s)), py_sweep := None\<rparr>)"
proof -
  let ?st = "remove_process_queue_entry_locked key offset (py_state s)"
  let ?q = "view (py_state s) key"
  have old: "view_ok key ?q (py_dispatch s)" "pulls_ok key ?q (py_pulls s) (py_next_token s)"
    using assms by (simp_all add: push_inv_def)
  have "subseq (pending_offsets (view ?st key)) (pending_offsets ?q)"
    by (auto simp: pending_offsets_def view_remove subseq_map split: option.split)
  then have "subseq (hand_offsets key (qv_epoch ?q) (py_dispatch s) @ pending_offsets (view ?st key))
      (hand_offsets key (qv_epoch ?q) (py_dispatch s) @ pending_offsets ?q)"
    by (simp add: list_emb_append_mono)
  then have "view_ok key (view ?st key) (py_dispatch s)"
    using old(1) by (auto simp: view_ok_def view_remove dest: queue_ok_sub)
  moreover have "pulls_ok key (view ?st key) (py_pulls s) (py_next_token s)"
    using old(2) by (simp add: pulls_ok_def view_remove)
  ultimately show ?thesis
    using old by (intro table_step [OF assms, where key = key])
      (simp_all add: remove_expired_entry_if_still_head_def Let_def view_remove)
qed

lemma inv_place:
  assumes "push_inv s" and none: "map_of (pu_offset_table (py_state s)) key = None" and "0 \<le>s offset"
  shows "push_inv (s\<lparr>py_state := (py_state s)\<lparr>pu_offset_table := bt_insert key offset (pu_offset_table (py_state s))\<rparr>\<rparr>)"
proof -
  let ?q = "view (py_state s) key"
  have old: "view_ok key ?q (py_dispatch s)" "pulls_ok key ?q (py_pulls s) (py_next_token s)"
    using assms by (simp_all add: push_inv_def)
  have cur: "qv_cursor ?q = None"
    using none by (simp add: view_def)
  have "0 \<le> sint offset"
    using assms(3) by (simp add: word_sle_eq)
  moreover have "pending_offsets (?q\<lparr>qv_cursor := x\<rparr>) = pending_offsets ?q" for x
    by (simp add: pending_offsets_def)
  ultimately have "view_ok key (?q\<lparr>qv_cursor := Some offset\<rparr>) (py_dispatch s)"
    using old(1) cur by (auto simp: view_ok_def queue_ok_def)
  moreover have "pulls_ok key (?q\<lparr>qv_cursor := Some offset\<rparr>) (py_pulls s) (py_next_token s)"
    using old(2) cur by (auto simp: pulls_ok_def)
  ultimately show ?thesis
    by (intro table_step [OF assms(1), where key = key]) (simp_all add: view_cursor)
qed

lemma word_less_Suc: "(a :: 'a::len word) + 1 \<noteq> 0 \<Longrightarrow> a < a + 1"
  using unatSuc [of a] by (simp add: word_less_nat_alt add.commute)

lemma inv_retire:
  assumes "push_inv s" and "epoch_of key (py_state s) + 1 \<noteq> 0"
  shows "push_inv (s\<lparr>py_state := snd (retire_queue_locked key fallback (revoked, py_state s))\<rparr>)"
proof -
  let ?q = "view (py_state s) key"
  have old: "view_ok key ?q (py_dispatch s)" "pulls_ok key ?q (py_pulls s) (py_next_token s)"
    using assms by (simp_all add: push_inv_def)
  have less: "epoch_of key (py_state s) < epoch_of key (py_state s) + 1"
    by (rule word_less_Suc [OF assms(2)])
  have "hand_offsets key (epoch_of key (py_state s) + 1) (py_dispatch s) = []"
      "goal_of key (epoch_of key (py_state s) + 1) (py_dispatch s) = None"
    using old(1) less by (cases "py_dispatch s"; auto simp: view_ok_def hand_offsets_def goal_of_def)+
  then show ?thesis
    using old less by (intro table_step [OF assms(1), where key = key])
      (auto simp: view_retire view_ok_def pulls_ok_def queue_ok_def pending_offsets_def)
qed

lemma inv_create:
  assumes "push_inv s" and "py_next_token s + 1 \<noteq> 0"
    and new: "create_queue now (key, mq) (spawned, py_next_token s, py_state s) = (spawned', token, st)"
  shows "push_inv (s\<lparr>py_state := st, py_next_token := token\<rparr>)"
proof -
  let ?q = "view (py_state s) key" and ?nt = "py_next_token s"
  have old: "view_ok key ?q (py_dispatch s)" "pulls_ok key ?q (py_pulls s) ?nt"
    using assms by (simp_all add: push_inv_def)
  note v = view_create [OF new]
  have less: "?nt < ?nt + 1"
    by (rule word_less_Suc [OF assms(2)])
  show ?thesis
  proof (cases "map_of (pu_queue_owners (py_state s)) key")
    case (Some t)
    then have "token = ?nt" "\<And>k. view st k = view (py_state s) k"
      using v by auto
    then show ?thesis
      using assms(1) by (simp add: push_inv_def)
  next
    case None
    then have t: "token = ?nt + 1" and st: "\<And>k. view st k = (if k = key then ?q\<lparr>qv_owner := Some ?nt, qv_frozen := False\<rparr>
        else view (py_state s) k)"
      using v by (auto split: if_splits)
    have "qv_owner ?q = None"
      using None by (simp add: view_def)
    then have empty: "qv_pending ?q = None" "qv_consumed ?q = None" "hand_offsets key (qv_epoch ?q) (py_dispatch s) = []"
        "goal_of key (qv_epoch ?q) (py_dispatch s) = None" "\<And>c. qv_cursor ?q = Some c \<Longrightarrow> 0 \<le> sint c"
      using old(1) by (simp_all add: view_ok_def)
    have "view_ok key (?q\<lparr>qv_owner := Some ?nt, qv_frozen := False\<rparr>) (py_dispatch s)"
      using old(1) empty by (auto simp: view_ok_def queue_ok_def pending_offsets_def split: option.split)
    moreover have "pulls_ok key (?q\<lparr>qv_owner := Some ?nt, qv_frozen := False\<rparr>) (py_pulls s) (?nt + 1)"
      using old(2) less less_trans [OF _ less] unfolding pulls_ok_def by fastforce
    ultimately show ?thesis
      using less by (intro table_step [OF assms(1), where key = key]) (simp_all add: st t)
  qed
qed

lemma inv_forget:
  assumes "push_inv s"
  shows "push_inv (s\<lparr>py_state := forget_revoked mq (py_state s)\<rparr>)"
proof -
  let ?q = "view (py_state s) (mq_key mq)"
  have old: "view_ok (mq_key mq) ?q (py_dispatch s)" "pulls_ok (mq_key mq) ?q (py_pulls s) (py_next_token s)"
    using assms by (simp_all add: push_inv_def)
  have "pending_offsets (?q\<lparr>qv_consumed := None\<rparr>) = pending_offsets ?q"
    by (simp add: pending_offsets_def)
  then show ?thesis
    using old by (intro table_step [OF assms, where key = "mq_key mq"])
      (auto simp: view_forget view_ok_def pulls_ok_def intro: queue_ok_forget)
qed

lemma inv_pull:
  assumes "push_inv s" and own: "owns_queue key token (py_state s)"
    and "map_of (pu_offset_table (py_state s)) key = Some offset" and "py_pulls s (key, token) = None"
  shows "push_inv (s\<lparr>py_pulls := (py_pulls s)((key, token) \<mapsto> (mq, offset))\<rparr>)"
proof -
  let ?q = "view (py_state s) key"
  have old: "view_ok key ?q (py_dispatch s)" "pulls_ok key ?q (py_pulls s) (py_next_token s)"
    using assms by (simp_all add: push_inv_def)
  have "qv_owner ?q = Some token" "qv_cursor ?q = Some offset"
    using assms by (simp_all add: view_def owns_queue_def)
  then show ?thesis
    using old by (intro table_step [OF assms(1), where key = key]) (auto simp: pulls_ok_def)
qed

lemma inv_discard: "push_inv s \<Longrightarrow> push_inv (cancel_pull key token s)"
  by (auto simp: push_inv_def pulls_ok_def cancel_pull_def)

text \<open>The messages of an answer that reach the queue.\<close>

lemma delivered_sub:
  assumes "\<forall>xs. subseq (hooks xs) xs"
  shows "subseq (delivered_messages hooks sub r) (pr_msg_found_list r)"
proof -
  have "subseq (client_side_tag_filter (Some sub) ms) ms" for ms
    by (simp add: client_side_tag_filter_def)
  then show ?thesis
    using assms subseq_order.trans by (simp add: delivered_messages_def) blast
qed

definition arrived :: "message_ext list \<Rightarrow> i64 \<Rightarrow> queue_view \<Rightarrow> queue_view" where
  "arrived msgs n q = q\<lparr>qv_pending := (if msgs = [] then qv_pending q
     else Some ((case qv_pending q of Some dq \<Rightarrow> dq | None \<Rightarrow> []) @ msgs)), qv_cursor := Some n\<rparr>"

lemma pending_arrived: "pending_offsets (arrived msgs n q) = pending_offsets q @ map x_queue_offset msgs"
  by (simp add: arrived_def pending_offsets_def)

lemma arrived_sel [simp]: "qv_cursor (arrived msgs n q) = Some n" "qv_owner (arrived msgs n q) = qv_owner q"
  "qv_epoch (arrived msgs n q) = qv_epoch q" "qv_frozen (arrived msgs n q) = qv_frozen q"
  "qv_inflight (arrived msgs n q) = qv_inflight q" "qv_consumed (arrived msgs n q) = qv_consumed q"
  by (simp_all add: arrived_def)

lemma view_arrival:
  "view (store_pulled key mq msgs n st) k = (if k = key then arrived msgs n (view st k) else view st k)"
  by (simp add: store_pulled_def view_def epoch_of_def arrived_def pending_of_def entry_or_def)

lemma settle_legal:
  assumes "settle_pull key mq token msgs r st = Some (illegal, st')" and "pr_status r \<noteq> OffsetIllegal"
  obtains v where "qv_owner (view st key) = Some token"
    "\<And>k. view st' k = (if k = key then (arrived msgs (pr_next_begin_offset r) (view st key))\<lparr>qv_consumed := v\<rparr> else view st k)"
    "v = qv_consumed (view st key) \<or> v = Some (pr_next_begin_offset r) \<and> qv_inflight (view st key) = 0
       \<and> pending_offsets (view st key) @ map x_queue_offset msgs = []"
proof -
  let ?st1 = "store_pulled key mq msgs (pr_next_begin_offset r) st"
  have st': "st' = correct_tags_offset_locked key (pr_status r) (pr_next_begin_offset r) ?st1"
    using assms by (auto simp: settle_pull_def Let_def split: if_splits)
  have "qv_owner (view st key) = Some token"
    using assms by (auto simp: settle_pull_def view_def split: if_splits)
  then show ?thesis
    by (rule that [of "qv_consumed (view st' key)"])
      (auto simp: st' view_correct view_arrival pending_arrived)
qed

lemma settle_illegal:
  assumes "settle_pull key mq token msgs r st = Some (illegal, st')" and "pr_status r = OffsetIllegal"
  obtains v where "qv_owner (view st key) = Some token"
    "\<And>k. view st' k = (if k = key then (arrived msgs (pr_next_begin_offset r) (view st key))\<lparr>qv_consumed := v, qv_frozen := True\<rparr>
       else view st k)"
proof -
  let ?st1 = "store_pulled key mq msgs (pr_next_begin_offset r) st"
  let ?st2 = "if 0 \<le>s pr_next_begin_offset r then ?st1\<lparr>pu_consume_offsets := bt_insert key (pr_next_begin_offset r)
    (pu_consume_offsets ?st1)\<rparr> else ?st1"
  have st': "st' = ?st2\<lparr>pu_frozen_offsets := insert key (pu_frozen_offsets ?st2)\<rparr>"
    using assms by (auto simp: settle_pull_def Let_def split: if_splits)
  have frz: "view (x\<lparr>pu_frozen_offsets := insert key (pu_frozen_offsets x)\<rparr>) k = (if k = key then (view x k)\<lparr>qv_frozen := True\<rparr> else view x k)"
      and con: "view (x\<lparr>pu_consume_offsets := bt_insert key n (pu_consume_offsets x)\<rparr>) k
        = (if k = key then (view x k)\<lparr>qv_consumed := Some n\<rparr> else view x k)" for k x n
    by (simp_all add: view_def epoch_of_def)
  have "qv_owner (view st key) = Some token"
    using assms by (auto simp: settle_pull_def view_def split: if_splits)
  moreover have "view st' k = (if k = key then (arrived msgs (pr_next_begin_offset r) (view st key))
      \<lparr>qv_consumed := qv_consumed (view st' key), qv_frozen := True\<rparr> else view st k)" for k
    unfolding st' frz by (cases "0 \<le>s pr_next_begin_offset r") (simp_all add: con view_arrival)
  ultimately show ?thesis
    by (rule that)
qed

lemma idle_hand: "dispatch_key d \<noteq> Some key \<Longrightarrow> hand_offsets key e d = [] \<and> goal_of key e d = None"
  by (cases d) (auto simp: hand_offsets_def goal_of_def)

lemma inv_response:
  assumes inv: "push_inv s" and req: "py_pulls s (key, token) = Some (mq, offset)" and "pr_status r \<noteq> OffsetIllegal"
    and reply: "broker_reply mq offset r" and sub: "subseq msgs (pr_msg_found_list r)"
    and settled: "settle_pull key mq token msgs r (py_state s) = Some (illegal, st)"
  shows "push_inv (cancel_pull key token (s\<lparr>py_state := st\<rparr>))"
proof -
  let ?q = "view (py_state s) key" and ?n = "pr_next_begin_offset r"
  have old: "view_ok key ?q (py_dispatch s)" "pulls_ok key ?q (py_pulls s) (py_next_token s)"
    using inv by (simp_all add: push_inv_def)
  obtain v where own: "qv_owner ?q = Some token"
    and st: "\<And>k. view st k = (if k = key then (arrived msgs ?n ?q)\<lparr>qv_consumed := v\<rparr> else view (py_state s) k)"
    and v: "v = qv_consumed ?q \<or> v = Some ?n \<and> qv_inflight ?q = 0 \<and> pending_offsets ?q @ map x_queue_offset msgs = []"
    using settle_legal [OF settled assms(3)] by blast
  have cur: "qv_cursor ?q = Some offset"
    using old(2) own req by (simp add: pulls_ok_def)
  have new: "sorted_wrt (\<lambda>a b. sint a < sint b) (map x_queue_offset msgs)"
      "\<forall>u \<in> set (map x_queue_offset msgs). sint offset \<le> sint u \<and> sint u < sint ?n" "sint offset \<le> sint ?n"
    using reply sorted_wrt_sub [OF sub] sub_set [OF sub]
    by (auto simp: broker_reply_def sorted_wrt_map list_all_iff)
  let ?h = "hand_offsets key (qv_epoch ?q) (py_dispatch s)" and ?g = "goal_of key (qv_epoch ?q) (py_dispatch s)"
  have "queue_ok ((?h @ pending_offsets ?q) @ map x_queue_offset msgs) v (Some ?n) ?g" if "\<not> qv_frozen ?q"
  proof -
    have ok: "queue_ok ((?h @ pending_offsets ?q) @ map x_queue_offset msgs) (qv_consumed ?q) (Some ?n) ?g"
      by (rule queue_ok_extend [OF _ new]) (use old(1) that cur in \<open>simp add: view_ok_def\<close>)
    show ?thesis
    proof (cases "v = qv_consumed ?q")
      case False
      then have "?h = []" "?g = None" "pending_offsets ?q @ map x_queue_offset msgs = []" "v = Some ?n"
        using v old(1) idle_hand [of "py_dispatch s" key "qv_epoch ?q"] by (auto simp: view_ok_def)
      then show ?thesis
        using ok by (simp add: queue_ok_def bounded_def)
    qed (use ok in simp)
  qed
  moreover have "pending_offsets ((arrived msgs ?n ?q)\<lparr>qv_consumed := v\<rparr>) = pending_offsets ?q @ map x_queue_offset msgs"
    using pending_arrived [of msgs ?n ?q] by (simp add: pending_offsets_def)
  ultimately have "view_ok key (view st key) (py_dispatch s)"
    using old(1) own by (auto simp: view_ok_def st)
  moreover have "pulls_ok key (view st key) ((py_pulls s)((key, token) := None)) (py_next_token s)"
    using old(2) own by (auto simp: pulls_ok_def st)
  ultimately show ?thesis
    by (intro table_step [OF inv, where key = key]) (auto simp: cancel_pull_def st)
qed

lemma inv_illegal:
  assumes inv: "push_inv s" and req: "py_pulls s (key, token) = Some (mq, offset)" and "pr_status r = OffsetIllegal"
    and settled: "settle_pull key mq token msgs r (py_state s) = Some (illegal, st)"
  shows "push_inv (cancel_pull key token (s\<lparr>py_state := st\<rparr>))"
proof -
  let ?q = "view (py_state s) key" and ?n = "pr_next_begin_offset r"
  have old: "view_ok key ?q (py_dispatch s)" "pulls_ok key ?q (py_pulls s) (py_next_token s)"
    using inv by (simp_all add: push_inv_def)
  obtain v where own: "qv_owner ?q = Some token"
    and st: "\<And>k. view st k = (if k = key then (arrived msgs ?n ?q)\<lparr>qv_consumed := v, qv_frozen := True\<rparr> else view (py_state s) k)"
    using settle_illegal [OF settled assms(3)] by blast
  have "view_ok key (view st key) (py_dispatch s)"
    using old(1) own by (auto simp: view_ok_def st)
  moreover have "pulls_ok key (view st key) ((py_pulls s)((key, token) := None)) (py_next_token s)"
    using old(2) own by (auto simp: pulls_ok_def st)
  ultimately show ?thesis
    by (intro table_step [OF inv, where key = key]) (auto simp: cancel_pull_def st)
qed

lemma inv_leave:
  assumes "push_inv s" and "py_dispatch s = Leaving key"
  shows "push_inv (s\<lparr>py_state := dispatch_done key (py_state s), py_dispatch := Idle\<rparr>)"
proof (rule dispatch_step [OF assms(1)])
  have "pending_offsets (q\<lparr>qv_inflight := n\<rparr>) = pending_offsets q" for q n
    by (simp add: pending_offsets_def)
  then show "view_ok key (view (dispatch_done key (py_state s)) key) Idle"
    using view_ok_of [OF assms(1), of key] assms(2) by (simp add: view_ok_def view_done hand_offsets_def goal_of_def)
qed (simp_all add: view_done assms(2))

lemma inv_init: "push_inv push_system_default"
  by (simp add: push_inv_def push_system_default_def push_state_default_def view_def view_ok_def pulls_ok_def hand_offsets_def
      goal_of_def queue_ok_def pending_offsets_def epoch_of_def entry_or_def)

lemma view_other_queues:
  "k \<noteq> key \<Longrightarrow> view (push_advance_consume_offset now key batch flr (Some e) st) k = view st k"
  "k \<noteq> key \<Longrightarrow> view (requeue_pending key batch st) k = view st k"
  "qv_owner (view (push_advance_consume_offset now key batch flr (Some e) st) k) = qv_owner (view st k)"
  "qv_cursor (view (push_advance_consume_offset now key batch flr (Some e) st) k) = qv_cursor (view st k)"
  "qv_owner (view (requeue_pending key batch st) k) = qv_owner (view st k)"
  "qv_cursor (view (requeue_pending key batch st) k) = qv_cursor (view st k)"
  by (simp_all add: view_advance view_requeue)

lemma drop_sub: "subseq (map f (drop n xs)) (map f xs)"
proof -
  have "subseq (map f (drop n xs)) (map f (take n xs) @ map f (drop n xs))"
    by (rule list_emb_append2) simp
  then show ?thesis
    by (simp flip: map_append)
qed

lemma push_inv_step: "calm_push s s' \<Longrightarrow> push_inv s \<Longrightarrow> push_inv s'"
proof (induction rule: calm_push.induct)
  case (take s cfg key mq batch e st)
  then show ?case by (simp add: inv_take)
next
  case (dropped s key batch e)
  then have "push_inv (s\<lparr>py_state := py_state s, py_dispatch := Leaving key\<rparr>)"
    by (intro inv_quiet [where key = key]) (simp_all add: hand_offsets_def goal_of_def)
  then show ?case by simp
next
  case (checked s key batch e)
  then have "push_inv (s\<lparr>py_state := py_state s, py_dispatch := Checked key batch e\<rparr>)"
    by (intro inv_quiet [where key = key]) (simp_all add: hand_offsets_def goal_of_def)
  then show ?case by simp
next
  case (register s key batch e batch' cfg now)
  then show ?case
    by (intro inv_quiet [where key = key]) (simp_all add: hand_offsets_def goal_of_def)
next
  case (ack_all s key batch e broadcast status idx now)
  have "view_ok key (view (push_advance_consume_offset now key batch None (Some e) (py_state s)) key) (Settled key batch)"
    using view_ok_of [OF ack_all.prems, of key] ack_all.hyps(1)
    by (intro view_ok_ack [where d = "py_dispatch s"]) (simp_all add: hand_offsets_def goal_of_def)
  then show ?case
    by (rule dispatch_step [OF ack_all.prems]) (simp_all add: view_other_queues ack_all.hyps)
next
  case (send_back s key batch e acked status idx failed held send delay)
  let ?d = "SentBack key batch (handled_of batch failed) (back_floor failed) e"
  have offs: "map x_queue_offset (map snd failed) = map (\<lambda>(_, m). x_queue_offset m) failed"
    by (simp add: case_prod_beta comp_def)
  have "subseq (map x_queue_offset (map snd failed)) (map x_queue_offset batch)"
    unfolding offs by (subst send_back.hyps(4), rule subseq_order.trans [OF failed_sub drop_sub])
  moreover have "set (map x_queue_offset (handled_of batch failed)) \<subseteq> set (map x_queue_offset batch)"
    by (rule handled_set)
  ultimately have "view_ok key (view (requeue_pending key (map snd failed) (py_state s)) key) ?d"
    using view_ok_of [OF send_back.prems, of key] send_back.hyps(1,5)
    by (intro view_ok_back [where d = "py_dispatch s" and h = "map x_queue_offset (handled_of batch failed)"])
      (auto simp: hand_offsets_def goal_of_def back_floor_def simp flip: offs)
  then show ?case
    by (rule dispatch_step [OF send_back.prems]) (simp_all add: view_other_queues send_back.hyps)
next
  case (advance_back s key batch handled flr e now)
  then have "view_ok key (view (push_advance_consume_offset now key handled flr (Some e) (py_state s)) key) (Settled key batch)"
    using view_ok_of [OF advance_back.prems, of key] by (intro view_ok_advance_back) simp
  then show ?case
    by (rule dispatch_step [OF advance_back.prems]) (simp_all add: view_other_queues advance_back.hyps)
next
  case (deregister s key batch)
  then show ?case
    by (intro inv_quiet [where key = key]) (simp_all add: hand_offsets_def goal_of_def)
next
  case (leave s key)
  then show ?case by (simp add: inv_leave)
next
  case (orderly_ack s key batch e cfg retry auto_commit ostatus batch' now)
  have "view_ok key (view (push_advance_consume_offset now key batch' None (Some e) (py_state s)) key) (Leaving key)"
    using view_ok_of [OF orderly_ack.prems, of key] orderly_ack.hyps(1) outcome_offsets [OF orderly_ack.hyps(2)]
    by (intro view_ok_ack [where d = "py_dispatch s" and batch = batch]) (simp_all add: hand_offsets_def goal_of_def)
  then show ?case
    by (rule dispatch_step [OF orderly_ack.prems]) (simp_all add: view_other_queues orderly_ack.hyps)
next
  case (orderly_requeue s key batch e cfg retry auto_commit ostatus batch')
  have "view_ok key (view (requeue_pending key batch' (py_state s)) key) (Leaving key)"
    using view_ok_of [OF orderly_requeue.prems, of key] orderly_requeue.hyps outcome_offsets [OF orderly_requeue.hyps(2)]
    by (intro view_ok_back [where d = "py_dispatch s" and h = "[]" and batch = batch])
      (auto simp: hand_offsets_def goal_of_def advance_target_def)
  then show ?case
    by (rule dispatch_step [OF orderly_requeue.prems]) (simp_all add: view_other_queues orderly_requeue.hyps)
next
  case (orderly_hold s key batch e cfg retry auto_commit ostatus batch')
  then have "push_inv (s\<lparr>py_state := py_state s, py_dispatch := Leaving key\<rparr>)"
    by (intro inv_quiet [where key = key]) (simp_all add: hand_offsets_def goal_of_def)
  then show ?case by simp
next
  case (sweep_pick key s m now cfg)
  then show ?case by (simp add: push_inv_def)
next
  case (sweep_remove s key offset)
  then show ?case by (simp add: inv_sweep)
next
  case (place s key offset)
  then show ?case by (rule_tac inv_place)
next
  case (pull key token s offset mq)
  then show ?case by (simp add: inv_pull)
next
  case (response s key token mq offset r hooks sub illegal st)
  then show ?case using delivered_sub inv_response by blast
next
  case (illegal s key token mq offset r hooks sub illegal st)
  then show ?case using inv_illegal by blast
next
  case (discard s key token mq offset)
  then show ?case by (simp add: inv_discard)
next
  case (retire key s fallback revoked)
  then show ?case by (simp add: inv_retire)
next
  case (create s now key mq spawned spawned' token st)
  then show ?case by (simp add: inv_create)
next
  case (forget s mq)
  then show ?case by (simp add: inv_forget)
qed

lemma push_inv_reachable: "push_reachable calm_push s \<Longrightarrow> push_inv s"
  by (induction rule: push_reachable.induct) (auto intro: inv_init push_inv_step)

text \<open>The messages of a queue that are neither acknowledged nor back at the broker: in the hands of the listener, or pending.\<close>

definition unsettled :: "string \<Rightarrow> push_system \<Rightarrow> message_ext list" where
  "unsettled key s = (case py_dispatch s of
     Taken k b e \<Rightarrow> if k = key \<and> e = epoch_of key (py_state s) then b else []
   | Checked k b e \<Rightarrow> if k = key \<and> e = epoch_of key (py_state s) then b else []
   | Consuming k b e \<Rightarrow> if k = key \<and> e = epoch_of key (py_state s) then b else []
   | _ \<Rightarrow> []) @ pending_of key (py_state s)"

lemma unsettled_offsets:
  "map x_queue_offset (unsettled key s) =
     hand_offsets key (epoch_of key (py_state s)) (py_dispatch s) @ pending_offsets (view (py_state s) key)"
  by (cases "py_dispatch s") (simp_all add: unsettled_def hand_offsets_def pending_offsets_def pending_of_def entry_or_def)

end
