(* ===== verification/Push_Races.thy ===== *)
theory Push_Races
  imports Push_Commit
begin

text \<open>
  Runs of the push consumer: one that shows the persisted offset at work, and two in which a task that comes late meets a
  queue that was retired and taken over again.
\<close>

section \<open>States of the runs\<close>

definition K :: string where "K = mq_key row_queue"

definition reply_at :: "i64 \<Rightarrow> pull_result" where
  "reply_at n = \<lparr>pr_status = Found, pr_next_begin_offset = n + 1, pr_min_offset = 0, pr_max_offset = n + 1,
     pr_suggest_which_broker_id = None, pr_msg_found_list = [cached_row n]\<rparr>"

definition all_subs :: subscription_data where
  "all_subs = subscription_default 0"

text \<open>One queue with its owner, generation, cursor, consumed offset and pending messages.\<close>

definition run_state :: "nat \<Rightarrow> message_ext list \<Rightarrow> u64 \<Rightarrow> (string \<times> u64) list \<Rightarrow> i64 option \<Rightarrow> i64 option \<Rightarrow> message_ext list option \<Rightarrow> push_state" where
  "run_state busy hand token epochs cursor consumed pend = push_state_default\<lparr>
     pu_inflight := (if busy = 0 then [] else [(K, busy)]), pu_inflight_msgs := (if hand = [] then [] else [(K, hand)]),
     pu_queue_owners := [(K, token)], pu_queue_epoch := epochs, pu_mq_map := [(K, row_queue)], pu_last_pull_at := [(K, 0)],
     pu_offset_table := (case cursor of Some c \<Rightarrow> [(K, c)] | None \<Rightarrow> []),
     pu_consume_offsets := (case consumed of Some c \<Rightarrow> [(K, c)] | None \<Rightarrow> []),
     pu_last_consume_at := (case consumed of Some c \<Rightarrow> [(K, 0)] | None \<Rightarrow> []),
     pu_pending := (case pend of Some dq \<Rightarrow> [(K, dq)] | None \<Rightarrow> [])\<rparr>"

abbreviation sys :: "push_state \<Rightarrow> dispatch_task \<Rightarrow> u64 \<Rightarrow> push_system" where
  "sys st d nt \<equiv> \<lparr>py_state = st, py_dispatch = d, py_pulls = Map.empty, py_resolving = [], py_sweep = None, py_next_token = nt\<rparr>"

lemmas push_calm_next = push_reachable.step [where step = calm_push]
lemmas push_next = push_reachable.step [where step = push_step]

lemma reply_broker: "0 \<le> sint n \<Longrightarrow> sint n < 2 ^ 62 \<Longrightarrow> broker_reply row_queue n (reply_at n)"
  using no_overflow [of n "word_of_int (2 ^ 62)"]
  by (simp add: broker_reply_def reply_at_def)

lemma reply_delivered: "delivered_messages (\<lambda>ms. ms) all_subs (reply_at n) = [cached_row n]"
  by (simp add: delivered_messages_def reply_at_def client_side_tag_filter_def all_subs_def subscription_default_def)

lemma reply_settled:
  "settle_pull K row_queue token [cached_row n] (reply_at n) (run_state i h token epochs (Some c) consumed pend)
     = Some (False, run_state i h token epochs (Some (n + 1)) consumed
         (Some ((case pend of Some dq \<Rightarrow> dq | None \<Rightarrow> []) @ [cached_row n])))"
  by (simp add: settle_pull_def store_pulled_def run_state_def reply_at_def correct_tags_offset_locked_def pending_of_def
      entry_or_def Let_def split: option.split)

text \<open>A queue is taken over: from nothing at the start, or again after it was retired.\<close>

definition retired_state :: "nat \<Rightarrow> (string \<times> u64) list \<Rightarrow> push_state" where
  "retired_state busy epochs = push_state_default\<lparr>pu_inflight := (if busy = 0 then [] else [(K, busy)]), pu_queue_epoch := epochs\<rparr>"

lemma run_create:
  "create_queue 0 (K, row_queue) ([], nt, retired_state i epochs) = ([(row_queue, nt)], nt + 1, run_state i [] nt epochs None None None)"
  by (simp add: create_queue_def retired_state_def run_state_def push_state_default_def)

lemma run_place:
  "(run_state i h t epochs None v pend)\<lparr>pu_offset_table := bt_insert K c (pu_offset_table (run_state i h t epochs None v pend))\<rparr>
     = run_state i h t epochs (Some c) v pend"
  by (simp add: run_state_def)

text \<open>One round of a pull loop that finds a message.\<close>

lemma run_round:
  assumes reach: "push_reachable calm_push (sys (run_state i h t epochs None v None) d nt)" and n: "0 \<le> sint n" "sint n < 2 ^ 62"
  shows "push_reachable calm_push (sys (run_state i h t epochs (Some (n + 1)) v (Some [cached_row n])) d nt)"
proof -
  let ?s0 = "sys (run_state i h t epochs None v None) d nt"
  have "map_of (pu_offset_table (py_state ?s0)) K = None" "0 \<le>s n"
    using n by (simp_all add: run_state_def push_state_default_def word_sle_eq)
  from push_calm_next [OF reach calm_push.place [OF this]]
  have 1: "push_reachable calm_push (sys (run_state i h t epochs (Some n) v None) d nt)"
    by (simp add: run_place)
  have "owns_queue K t (py_state (sys (run_state i h t epochs (Some n) v None) d nt))"
      "map_of (pu_offset_table (py_state (sys (run_state i h t epochs (Some n) v None) d nt))) K = Some n"
      "py_pulls (sys (run_state i h t epochs (Some n) v None) d nt) (K, t) = None"
    by (simp_all add: run_state_def owns_queue_def)
  from push_calm_next [OF 1 calm_push.pull [OF this, of row_queue]]
  have 2: "push_reachable calm_push ((sys (run_state i h t epochs (Some n) v None) d nt)\<lparr>py_pulls := [(K, t) \<mapsto> (row_queue, n)]\<rparr>)"
    by simp
  let ?s2 = "(sys (run_state i h t epochs (Some n) v None) d nt)\<lparr>py_pulls := [(K, t) \<mapsto> (row_queue, n)]\<rparr>"
  have "py_pulls ?s2 (K, t) = Some (row_queue, n)" "pr_status (reply_at n) \<noteq> OffsetIllegal"
      "\<forall>xs. subseq ((\<lambda>ms. ms) xs) (xs :: message_ext list)"
      "settle_pull K row_queue t (delivered_messages (\<lambda>ms. ms) all_subs (reply_at n)) (reply_at n) (py_state ?s2)
         = Some (False, run_state i h t epochs (Some (n + 1)) v (Some [cached_row n]))"
    by (simp_all add: reply_at_def reply_delivered [unfolded reply_at_def] reply_settled [unfolded reply_at_def])
  from push_calm_next [OF 2 calm_push.response [OF this(1,2) reply_broker [OF n] this(3,4)]] show ?thesis
    by (simp add: cancel_pull_def)
qed

text \<open>The dispatch loop takes one message and hands it to the listener.\<close>

definition in_hand :: "message_ext \<Rightarrow> message_ext list" where
  "in_hand m = prepared_batch consumer_config_default 0 [m]"

lemma in_hand_offsets: "map x_queue_offset (in_hand m) = [x_queue_offset m]"
  by (simp add: in_hand_def)

lemma in_hand_length [simp]: "length (in_hand m) = 1" "in_hand m \<noteq> []"
  using in_hand_offsets [of m] by (metis length_map length_Cons list.size(3) One_nat_def, auto)

lemma run_consuming:
  assumes reach: "push_reachable step (sys (run_state 0 [] t epochs c v (Some (m # dq))) Idle nt)"
    and step: "\<And>s s'. calm_push s s' \<Longrightarrow> step s s'"
  shows "push_reachable step (sys (run_state 1 (in_hand m) t epochs c v (Some dq))
     (Consuming K (in_hand m) (entry_or 0 epochs K)) nt)"
proof -
  let ?e = "entry_or 0 epochs K"
  note nxt = push_reachable.step [where step = step]
  have "dispatch_take consumer_config_default K (run_state 0 [] t epochs c v (Some (m # dq)))
      = Some ((row_queue, [m], ?e), run_state 1 [] t epochs c v (Some dq))"
    by (simp add: dispatch_take_def run_state_def push_state_default_def consumer_config_default_def epoch_of_def
        entry_or_def word_sless_alt)
  from nxt [OF reach step [OF calm_push.take [OF _ this [THEN trans [rotated]]]]]
  have 1: "push_reachable step (sys (run_state 1 [] t epochs c v (Some dq)) (Taken K [m] ?e) nt)"
    by simp
  have "py_dispatch (sys (run_state 1 [] t epochs c v (Some dq)) (Taken K [m] ?e) nt) = Taken K [m] ?e"
      "?e = epoch_of K (py_state (sys (run_state 1 [] t epochs c v (Some dq)) (Taken K [m] ?e) nt))"
    by (simp_all add: run_state_def epoch_of_def)
  from nxt [OF 1 step [OF calm_push.checked [OF this]]]
  have 2: "push_reachable step (sys (run_state 1 [] t epochs c v (Some dq)) (Checked K [m] ?e) nt)"
    by simp
  have "py_dispatch (sys (run_state 1 [] t epochs c v (Some dq)) (Checked K [m] ?e) nt) = Checked K [m] ?e"
    by simp
  from nxt [OF 2 step [OF calm_push.register [OF this in_hand_def]]] show ?thesis
    by (simp add: register_inflight_msgs_def run_state_def inflight_msgs_of_def entry_or_def push_state_default_def)
qed

lemma run_acked:
  assumes reach: "push_reachable step (sys (run_state 1 (in_hand m) t epochs c v (Some dq))
     (Consuming K (in_hand m) (entry_or 0 epochs K)) nt)"
    and step: "\<And>s s'. calm_push s s' \<Longrightarrow> step s s'"
  shows "push_reachable step (sys (run_state 1 (in_hand m) t epochs c (Some (smax (offset_or_zero v) (x_queue_offset m + 1))) (Some dq))
     (Settled K (in_hand m)) nt)"
proof -
  note nxt = push_reachable.step [where step = step]
  have "py_dispatch (sys (run_state 1 (in_hand m) t epochs c v (Some dq)) (Consuming K (in_hand m) (entry_or 0 epochs K)) nt)
      = Consuming K (in_hand m) (entry_or 0 epochs K)" "False \<or> length (in_hand m) \<le> acked_count (Some ConsumeSuccess) 0 (length (in_hand m))"
    by simp (simp add: acked_count_def word_sless_alt word_sle_eq)
  from nxt [OF reach step [OF calm_push.ack_all [OF this, of 0]]] show ?thesis
    by (cases v) (simp_all add: push_advance_consume_offset_def run_state_def epoch_of_def in_hand_offsets offset_or_zero_def
      entry_or_def push_state_default_def)
qed

section \<open>What is persisted\<close>


lemma run_started: "push_reachable calm_push (sys (run_state 0 [] 1 [] None None None) Idle 2)"
proof -
  have "py_next_token push_system_default + 1 \<noteq> 0"
      "create_queue 0 (K, row_queue) ([], py_next_token push_system_default, py_state push_system_default)
        = ([(row_queue, 1)], 2, run_state 0 [] 1 [] None None None)"
    using run_create [of 1 0 "[]"] by (simp_all add: push_system_default_def retired_state_def push_state_default_def)
  from push_calm_next [OF push_reachable.init calm_push.create [OF this]] show ?thesis
    by (simp add: push_system_default_def)
qed

lemma run_one_pending: "push_reachable calm_push (sys (run_state 0 [] 1 [] (Some 11) None (Some [cached_row 10])) Idle 2)"
  using run_round [OF run_started, of 10] by simp

lemma run_listener:
  "push_reachable calm_push (sys (run_state 1 (in_hand (cached_row 10)) 1 [] (Some 11) None (Some [])) (Consuming K (in_hand (cached_row 10)) 0) 2)"
  using run_consuming [OF run_one_pending] by (simp add: entry_or_def)

text \<open>The same with a message that comes while the listener is busy, and an acknowledgement.\<close>

lemma run_witness:
  "push_reachable calm_push (sys (run_state 1 (in_hand (cached_row 10)) 1 [] (Some 12) (Some 11) (Some [cached_row 11]))
     (Settled K (in_hand (cached_row 10))) 2)"
proof -
  let ?s = "sys (run_state 1 (in_hand (cached_row 10)) 1 [] (Some 11) None (Some [])) (Consuming K (in_hand (cached_row 10)) 0) 2"
  have "owns_queue K 1 (py_state ?s)" "map_of (pu_offset_table (py_state ?s)) K = Some 11" "py_pulls ?s (K, 1) = None"
    by (simp_all add: run_state_def owns_queue_def)
  from push_calm_next [OF run_listener calm_push.pull [OF this, of row_queue]]
  have 2: "push_reachable calm_push (?s\<lparr>py_pulls := [(K, 1) \<mapsto> (row_queue, 11)]\<rparr>)"
    by simp
  have "py_pulls (?s\<lparr>py_pulls := [(K, 1) \<mapsto> (row_queue, 11)]\<rparr>) (K, 1) = Some (row_queue, 11)"
      "pr_status (reply_at 11) \<noteq> OffsetIllegal" "broker_reply row_queue 11 (reply_at 11)"
      "\<forall>xs. subseq ((\<lambda>ms. ms) xs) (xs :: message_ext list)"
      "settle_pull K row_queue 1 (delivered_messages (\<lambda>ms. ms) all_subs (reply_at 11)) (reply_at 11)
         (py_state (?s\<lparr>py_pulls := [(K, 1) \<mapsto> (row_queue, 11)]\<rparr>))
         = Some (False, run_state 1 (in_hand (cached_row 10)) 1 [] (Some 12) None (Some [cached_row 11]))"
    using reply_settled [of 1 11 1 "in_hand (cached_row 10)" "[]" 11 None "Some []"] reply_broker [of 11]
    by (simp_all add: reply_delivered) (simp add: reply_at_def)
  from push_calm_next [OF 2 calm_push.response [OF this]]
  have "push_reachable calm_push (sys (run_state 1 (in_hand (cached_row 10)) 1 [] (Some 12) None (Some [cached_row 11])) (Consuming K (in_hand (cached_row 10)) 0) 2)"
    by (simp add: cancel_pull_def)
  from run_acked [of calm_push "cached_row 10" 1 "[]" "Some 12" None "[cached_row 11]" 2] this show ?thesis
    by (simp add: entry_or_def offset_or_zero_def smax_def word_sless_alt)
qed


section \<open>Late tasks\<close>

lemma push_calm_subset: "push_reachable calm_push s \<Longrightarrow> push_reachable push_step s"
  by (induction rule: push_reachable.induct) (auto intro: push_reachable.intros push_step.calm)

lemma run_retired:
  "snd (retire_queue_locked K None ([], run_state i h t epochs c v pend)) = retired_state i [(K, entry_or 0 epochs K + 1)]"
  if "epochs = [] \<or> (\<exists>e. epochs = [(K, e)])"
  using that by (auto simp: retire_queue_locked_def run_state_def retired_state_def push_state_default_def epoch_of_def entry_or_def
      bt_remove_def split: option.split)

text \<open>The queue is retired while the listener has message 10 and taken over again at offset 5.\<close>

lemma run_taken_over:
  "push_reachable calm_push (sys (run_state 1 [] 2 [(K, 1)] (Some 6) None (Some [cached_row 5])) (Consuming K (in_hand (cached_row 10)) 0) 3)"
proof -
  let ?s = "sys (run_state 1 (in_hand (cached_row 10)) 1 [] (Some 11) None (Some [])) (Consuming K (in_hand (cached_row 10)) 0) 2"
  have "epoch_of K (py_state ?s) + 1 \<noteq> 0"
    by (simp add: run_state_def epoch_of_def entry_or_def push_state_default_def)
  from push_calm_next [OF run_listener calm_push.retire [OF this, of None "[]"]]
  have 1: "push_reachable calm_push (sys (retired_state 1 [(K, 1)]) (Consuming K (in_hand (cached_row 10)) 0) 2)"
    by (simp add: run_retired entry_or_def)
  have "py_next_token (sys (retired_state 1 [(K, 1)]) (Consuming K (in_hand (cached_row 10)) 0) 2) + 1 \<noteq> 0"
      "create_queue 0 (K, row_queue) ([], py_next_token (sys (retired_state 1 [(K, 1)]) (Consuming K (in_hand (cached_row 10)) 0) 2),
        py_state (sys (retired_state 1 [(K, 1)]) (Consuming K (in_hand (cached_row 10)) 0) 2))
       = ([(row_queue, 2)], 3, run_state 1 [] 2 [(K, 1)] None None None)"
    using run_create [of 2 1 "[(K, 1)]"] by simp_all
  from push_calm_next [OF 1 calm_push.create [OF this]]
  have "push_reachable calm_push (sys (run_state 1 [] 2 [(K, 1)] None None None) (Consuming K (in_hand (cached_row 10)) 0) 3)"
    by simp
  from run_round [OF this, of 5] show ?thesis
    by simp
qed


text \<open>
  A pull loop that waited for the initial offset of a queue writes it even if the queue belongs to another loop by
  then: the cursor of the new owner jumps, here from 6 to 10, and the messages in between are not pulled.
\<close>

theorem late_resolve_moves_cursor:
  "\<exists>s s'. push_reachable push_step s \<and> push_step s s' \<and> pu_queue_owners (py_state s) = [(K, 2)]
     \<and> map_of (pu_offset_table (py_state s)) K = Some 6
     \<and> map_of (pu_offset_table (py_state s')) K = Some 10 \<and> pu_queue_owners (py_state s') = [(K, 2)]"
proof -
  let ?s = "sys (run_state 0 [] 1 [] None None None) Idle 2"
  have "owns_queue K 1 (py_state ?s)" "map_of (pu_offset_table (py_state ?s)) K = None"
    by (simp_all add: run_state_def owns_queue_def push_state_default_def)
  from push_next [OF push_calm_subset [OF run_started] push_step.resolve [OF this, of row_queue]]
  have 1: "push_reachable push_step (?s\<lparr>py_resolving := [(K, row_queue, 1)]\<rparr>)"
    by simp
  let ?s1 = "?s\<lparr>py_resolving := [(K, row_queue, 1)]\<rparr>"
  have "epoch_of K (py_state ?s1) + 1 \<noteq> 0"
    by (simp add: run_state_def epoch_of_def entry_or_def push_state_default_def)
  from push_next [OF 1 push_step.calm [OF calm_push.retire [OF this, of None "[]"]]]
  have 2: "push_reachable push_step ((sys (retired_state 0 [(K, 1)]) Idle 2)\<lparr>py_resolving := [(K, row_queue, 1)]\<rparr>)"
    by (simp add: run_retired entry_or_def)
  let ?s2 = "(sys (retired_state 0 [(K, 1)]) Idle 2)\<lparr>py_resolving := [(K, row_queue, 1)]\<rparr>"
  have "py_next_token ?s2 + 1 \<noteq> 0" "create_queue 0 (K, row_queue) ([], py_next_token ?s2, py_state ?s2)
       = ([(row_queue, 2)], 3, run_state 0 [] 2 [(K, 1)] None None None)"
    using run_create [of 2 0 "[(K, 1)]"] by simp_all
  from push_next [OF 2 push_step.calm [OF calm_push.create [OF this]]]
  have 3: "push_reachable push_step ((sys (run_state 0 [] 2 [(K, 1)] None None None) Idle 3)\<lparr>py_resolving := [(K, row_queue, 1)]\<rparr>)"
    by simp
  let ?s3 = "(sys (run_state 0 [] 2 [(K, 1)] None None None) Idle 3)\<lparr>py_resolving := [(K, row_queue, 1)]\<rparr>"
  have "map_of (pu_offset_table (py_state ?s3)) K = None" "0 \<le>s (6 :: i64)"
    by (simp_all add: run_state_def push_state_default_def word_sle_eq)
  from push_next [OF 3 push_step.calm [OF calm_push.place [OF this]]]
  have 4: "push_reachable push_step ((sys (run_state 0 [] 2 [(K, 1)] (Some 6) None None) Idle 3)\<lparr>py_resolving := [(K, row_queue, 1)]\<rparr>)"
    by (simp add: run_place)
  let ?s4 = "(sys (run_state 0 [] 2 [(K, 1)] (Some 6) None None) Idle 3)\<lparr>py_resolving := [(K, row_queue, 1)]\<rparr>"
  have "(K, row_queue, 1) \<in> set (py_resolving ?s4)"
    by simp
  note step = push_step.resolved [OF this, of 10]
  show ?thesis
    by (intro exI conjI, rule 4, rule step) (simp_all add: run_state_def)
qed

end
