(* ===== verification/Produce_Accumulator.thy ===== *)
theory Produce_Accumulator
  imports Message_Batch Validators Extra_Info
begin

text \<open>
  Automatic batching, \<open>src/rust/src/client/produce_accumulator.rs\<close>, and its entry points in
  \<open>src/rust/src/client/producer.rs\<close>: messages are collected per aggregation key, sent as one batch, and the answer of the
  broker is split into one result per message. A callback is a number; what it is called with is a \<open>call_outcome\<close>. The
  clock, fresh message ids and the broker are arguments.
\<close>

section \<open>Data\<close>

definition DEFAULT_TOTAL_HOLD_SIZE :: i64 where "DEFAULT_TOTAL_HOLD_SIZE = 32 * 1024 * 1024"
definition DEFAULT_HOLD_SIZE :: i64 where "DEFAULT_HOLD_SIZE = 32 * 1024"
definition DEFAULT_HOLD_MS :: i64 where "DEFAULT_HOLD_MS = 10"
definition TIMER_DELAY_KEYS :: "string list" where
  "TIMER_DELAY_KEYS = [''TIMER_DELAY_MS'', ''TIMER_DELAY_SEC'', ''TIMER_DELIVER_MS'']"
definition MESSAGE_KEY_SEPARATOR :: string where "MESSAGE_KEY_SEPARATOR = '' ''"
definition PROPERTY_PRODUCER_GROUP :: string where "PROPERTY_PRODUCER_GROUP = ''PGROUP''"

datatype send_status = SendOk | FlushDiskTimeout | FlushSlaveTimeout | SlaveNotAvailable

record send_result =
  sr_status :: send_status
  sr_msg_id :: "string option"
  sr_message_queue :: "message_queue option"
  sr_queue_offset :: i64
  sr_transaction_id :: "string option"
  sr_offset_msg_id :: "string option"
  sr_region_id :: "string option"
  sr_recall_handle :: "string option"
  sr_trace_on :: bool

definition send_result_default :: send_result where
  "send_result_default = \<lparr>sr_status = SendOk, sr_msg_id = None, sr_message_queue = None, sr_queue_offset = 0,
     sr_transaction_id = None, sr_offset_msg_id = None, sr_region_id = None, sr_recall_handle = None, sr_trace_on = True\<rparr>"

record aggregate_key =
  ak_topic :: string
  ak_mq :: "message_queue option"
  ak_wait_store_msg_ok :: bool
  ak_tag :: "string option"

definition key_of_message :: "message \<Rightarrow> aggregate_key" where
  "key_of_message msg = \<lparr>ak_topic = m_topic msg, ak_mq = None, ak_wait_store_msg_ok = is_wait_store_msg_ok msg,
     ak_tag = get_property msg PROPERTY_TAGS\<rparr>"

definition key_of_message_with_mq :: "message \<Rightarrow> message_queue \<Rightarrow> aggregate_key" where
  "key_of_message_with_mq msg mq = (key_of_message msg)\<lparr>ak_mq := Some mq\<rparr>"

record accumulation =
  ac_key :: aggregate_key
  ac_create_time :: i64
  ac_closed :: bool
  ac_messages :: "message list"
  ac_callbacks :: "nat list"
  ac_keys :: "string set"
  ac_size :: i64
  ac_count :: i64
  ac_results :: "send_result list"

definition accumulation_new :: "aggregate_key \<Rightarrow> i64 \<Rightarrow> accumulation" where
  "accumulation_new key now = \<lparr>ac_key = key, ac_create_time = now, ac_closed = False, ac_messages = [],
     ac_callbacks = [], ac_keys = {}, ac_size = 0, ac_count = 0, ac_results = []\<rparr>"

text \<open>Limits, the bytes that are held, and the table of the open batches; a batch is named by a number.\<close>

record accumulator =
  pa_hold_ms :: i64
  pa_hold_size :: i64
  pa_total_hold_size :: i64
  pa_held :: i64
  pa_batches :: "aggregate_key \<rightharpoonup> nat"

definition accumulator_new :: accumulator where
  "accumulator_new = \<lparr>pa_hold_ms = DEFAULT_HOLD_MS, pa_hold_size = DEFAULT_HOLD_SIZE,
     pa_total_hold_size = DEFAULT_TOTAL_HOLD_SIZE, pa_held = 0, pa_batches = Map.empty\<rparr>"

section \<open>One batch\<close>

text \<open>\<open>body.len() as i64\<close>, added only if it is positive.\<close>

definition msg_len :: "message \<Rightarrow> i64" where
  "msg_len msg = of_nat (length (get_body msg))"

definition charge :: "message \<Rightarrow> i64 \<Rightarrow> i64" where
  "charge msg n = (if 0 <s msg_len msg then n + msg_len msg else n)"

definition split_keys_into :: "string set \<Rightarrow> string \<Rightarrow> string set" where
  "split_keys_into target keys = target \<union> set (split_drop_trailing keys CHR '' '')"

text \<open>The sections of \<open>add\<close> and \<open>add_async\<close> under the lock; a closed batch takes nothing.\<close>

definition add_locked :: "message \<Rightarrow> accumulation \<Rightarrow> i64 \<times> accumulation" where
  "add_locked msg b =
     (if ac_closed b then (- 1, b)
      else (ac_count b, b\<lparr>ac_count := ac_count b + 1, ac_size := charge msg (ac_size b),
        ac_keys := (case get_property msg PROPERTY_KEYS of Some keys \<Rightarrow> split_keys_into (ac_keys b) keys | None \<Rightarrow> ac_keys b),
        ac_messages := ac_messages b @ [msg]\<rparr>))"

definition add_async_locked :: "message \<Rightarrow> nat \<Rightarrow> accumulation \<Rightarrow> accumulation option" where
  "add_async_locked msg callback b =
     (if ac_closed b then None
      else Some (b\<lparr>ac_count := ac_count b + 1, ac_size := charge msg (ac_size b),
        ac_messages := ac_messages b @ [msg], ac_callbacks := ac_callbacks b @ [callback]\<rparr>))"

definition ready_to_send :: "accumulator \<Rightarrow> i64 \<Rightarrow> accumulation \<Rightarrow> bool" where
  "ready_to_send a now b \<longleftrightarrow> pa_hold_size a <s ac_size b \<or> ac_create_time b + pa_hold_ms a \<le>s now"

definition close_locked :: "accumulation \<Rightarrow> accumulation option" where
  "close_locked b = (if ac_closed b then None else Some (b\<lparr>ac_closed := True\<rparr>))"

definition mark_closed :: "accumulation \<Rightarrow> accumulation" where
  "mark_closed b = b\<lparr>ac_closed := True\<rparr>"

definition build_batch :: "string \<Rightarrow> accumulation \<Rightarrow> message_batch" where
  "build_batch fresh b =
     (let message = message_default\<lparr>m_topic := ak_topic (ac_key b)\<rparr>;
          message = set_wait_store_msg_ok (ak_wait_store_msg_ok (ac_key b)) message;
          message = put_property PROPERTY_KEYS (str_join MESSAGE_KEY_SEPARATOR (sorted_list_of_set (ac_keys b))) message;
          message = (case ak_tag (ac_key b) of Some tag \<Rightarrow> put_property PROPERTY_TAGS tag message | None \<Rightarrow> message);
          message = set_uniq_id fresh message
      in \<lparr>b_message = set_body (Some (encode_messages (ac_messages b))) message, b_messages = ac_messages b\<rparr>)"

definition text_or_empty :: "string option \<Rightarrow> string" where
  "text_or_empty v = (case v of Some s \<Rightarrow> s | None \<Rightarrow> [])"

definition split_results :: "nat \<Rightarrow> send_result \<Rightarrow> send_result list result" where
  "split_results n r =
     (let msg_id = text_or_empty (sr_msg_id r)
      in if CHR '','' \<in> set msg_id
         then let ids = str_split CHR '','' msg_id; offsets = str_split CHR '','' (text_or_empty (sr_offset_msg_id r))
              in if length ids \<noteq> n \<or> length offsets \<noteq> n then fail (client_err ''sendResult is illegal'')
                 else Inr (map (\<lambda>i. r\<lparr>sr_msg_id := Some (ids ! i), sr_offset_msg_id := Some (offsets ! i),
                        sr_queue_offset := sr_queue_offset r + of_nat i\<rparr>) [0..<n])
         else Inr (replicate n r))"

definition split_send_results :: "send_result \<Rightarrow> accumulation \<Rightarrow> accumulation result" where
  "split_send_results r b =
     bind_result (split_results (as_usize (ac_count b)) r) (\<lambda>results. Inr (b\<lparr>ac_results := results\<rparr>))"

definition result_at :: "send_result list \<Rightarrow> nat \<Rightarrow> send_result result" where
  "result_at results i = (if i < length results then Inr (results ! i) else fail (client_err ''sendResult is illegal''))"

definition send_result_of :: "i64 \<Rightarrow> accumulation \<Rightarrow> send_result result" where
  "send_result_of index b = result_at (ac_results b) (as_usize index)"

section \<open>Callbacks\<close>

fun clone_error :: "error \<Rightarrow> error" where
  "clone_error (Io m) = client_err m"
| "clone_error (Json m) = client_err m"
| "clone_error e = e"

datatype call_outcome = OnSuccess send_result | OnException error

text \<open>What \<open>AccumulationCallback::finish\<close> calls, in order; a panic calls nobody.\<close>

definition finish_calls :: "nat list \<Rightarrow> accumulation result \<Rightarrow> (nat \<times> call_outcome) list" where
  "finish_calls callbacks outcome =
     (case outcome of
        Inr b \<Rightarrow> map (\<lambda>(i, cb). (cb, case result_at (ac_results b) i of Inr r \<Rightarrow> OnSuccess r
             | Inl _ \<Rightarrow> OnException (client_err ''sendResult is illegal''))) (enumerate 0 callbacks)
      | Inl (Err e) \<Rightarrow> map (\<lambda>cb. (cb, OnException (clone_error e))) callbacks
      | Inl (Panic _) \<Rightarrow> [])"

text \<open>The broker's answer to an asynchronous batch.\<close>

definition answer_calls :: "accumulation \<Rightarrow> (error + send_result) \<Rightarrow> (nat \<times> call_outcome) list" where
  "answer_calls b answer = finish_calls (ac_callbacks b)
     (case answer of Inr r \<Rightarrow> split_send_results r b | Inl e \<Rightarrow> fail e)"

section \<open>Accumulator\<close>

definition release_hold :: "i64 \<Rightarrow> accumulator \<Rightarrow> accumulator" where
  "release_hold n a = a\<lparr>pa_held := pa_held a - n\<rparr>"

definition try_add_message :: "message \<Rightarrow> accumulator \<Rightarrow> bool \<times> accumulator" where
  "try_add_message msg a =
     (if pa_held a <s pa_total_hold_size a then (True, a\<lparr>pa_held := charge msg (pa_held a)\<rparr>) else (False, a))"

definition batch_max_delay_ms :: "i64 \<Rightarrow> accumulator \<Rightarrow> accumulator result" where
  "batch_max_delay_ms hold_ms a =
     (if hold_ms \<le>s 0 \<or> 30 * 1000 <s hold_ms
      then fail (client_err (''batchMaxDelayMs expect between 1ms and 30s, but get '' @ show_signed hold_ms @ ''!''))
      else Inr (a\<lparr>pa_hold_ms := hold_ms\<rparr>))"

definition batch_max_bytes :: "i64 \<Rightarrow> accumulator \<Rightarrow> accumulator result" where
  "batch_max_bytes hold_size a =
     (if hold_size \<le>s 0 \<or> 2 * 1024 * 1024 <s hold_size
      then fail (client_err (''batchMaxBytes expect between 1B and 2MB, but get '' @ show_signed hold_size @ ''!''))
      else Inr (a\<lparr>pa_hold_size := hold_size\<rparr>))"

definition total_batch_max_bytes :: "i64 \<Rightarrow> accumulator \<Rightarrow> accumulator result" where
  "total_batch_max_bytes n a =
     (if n \<le>s 0
      then fail (client_err (''totalBatchMaxBytes must bigger then 0, but get '' @ show_signed n @ ''!''))
      else Inr (a\<lparr>pa_total_hold_size := n\<rparr>))"

definition get_total_batch_max_bytes :: "accumulator \<Rightarrow> i64" where
  "get_total_batch_max_bytes a = pa_hold_size a"

definition get_or_create_batch :: "aggregate_key \<Rightarrow> i64 \<Rightarrow> accumulation list \<times> accumulator \<Rightarrow> nat \<times> accumulation list \<times> accumulator" where
  "get_or_create_batch key now = (\<lambda>(heap, a). case pa_batches a key of
       Some nr \<Rightarrow> (nr, heap, a)
     | None \<Rightarrow> (length heap, heap @ [accumulation_new key now], a\<lparr>pa_batches := (pa_batches a)(key \<mapsto> length heap)\<rparr>))"

definition remove_batch :: "aggregate_key \<Rightarrow> nat \<Rightarrow> accumulator \<Rightarrow> accumulator" where
  "remove_batch key nr a = (if pa_batches a key = Some nr then a\<lparr>pa_batches := (pa_batches a)(key := None)\<rparr> else a)"

text \<open>
  \<open>send_sync\<close>: whoever closes the batch sends it, stores the results and releases what the batch held. \<open>send\<close> is the
  broker.
\<close>

definition send_sync ::
    "(message_batch \<Rightarrow> message_queue option \<Rightarrow> send_result result) \<Rightarrow> string \<Rightarrow> accumulation \<times> accumulator
     \<Rightarrow> unit result \<times> accumulation \<times> accumulator" where
  "send_sync send fresh = (\<lambda>(b, a). case close_locked b of
       None \<Rightarrow> (Inr (), b, a)
     | Some b \<Rightarrow>
         (case bind_result (send (build_batch fresh b) (ak_mq (ac_key b))) (\<lambda>r. split_send_results r b) of
            Inr b' \<Rightarrow> (Inr (), b', release_hold (ac_size b) a)
          | Inl e \<Rightarrow> (Inl e, b, release_hold (ac_size b) a)))"

section \<open>Entry in the producer\<close>

definition parsed_or_zero :: "string \<Rightarrow> i64" where
  "parsed_or_zero raw = (case parse_i64 (str_trim raw) of Some n \<Rightarrow> n | None \<Rightarrow> 0)"

definition max_delay_value :: "message \<Rightarrow> i64" where
  "max_delay_value msg =
     fold (\<lambda>key m. case get_property msg key of
         Some raw \<Rightarrow> if m <s parsed_or_zero raw then parsed_or_zero raw else m | None \<Rightarrow> m) TIMER_DELAY_KEYS
       (case get_delay_time_level msg of Some level \<Rightarrow> parsed_or_zero level | None \<Rightarrow> 0)"

definition can_batch :: "message \<Rightarrow> accumulator \<Rightarrow> bool \<times> accumulator" where
  "can_batch msg a =
     (let (ok, a) = try_add_message msg a
      in (ok \<and> \<not> 0 <s max_delay_value msg \<and> \<not> starts_with (m_topic msg) RETRY_GROUP_TOPIC_PREFIX
            \<and> get_property msg PROPERTY_PRODUCER_GROUP = None, a))"

definition check_and_stamp :: "char \<Rightarrow> i32 \<Rightarrow> string \<Rightarrow> message \<Rightarrow> message result" where
  "check_and_stamp file_separator max_message_size fresh msg =
     bind_result (check_message file_separator msg max_message_size) (\<lambda>_. Inr (set_uniq_id fresh msg))"

definition init_produce_accumulator :: "i64 \<Rightarrow> i64 \<Rightarrow> i64 \<Rightarrow> accumulator \<Rightarrow> unit result \<times> accumulator" where
  "init_produce_accumulator delay_ms max_bytes total_bytes a =
     (case (if - 1 <s delay_ms then batch_max_delay_ms delay_ms a else Inr a) of
        Inl e \<Rightarrow> (Inl e, a)
      | Inr a \<Rightarrow>
     (case (if - 1 <s max_bytes then batch_max_bytes max_bytes a else Inr a) of
        Inl e \<Rightarrow> (Inl e, a)
      | Inr a \<Rightarrow>
     (case (if - 1 <s total_bytes then total_batch_max_bytes total_bytes a else Inr a) of
        Inl e \<Rightarrow> (Inl e, a)
      | Inr a \<Rightarrow> (Inr (), a))))"

section \<open>One result per message\<close>

lemma split_results_no_panic: "split_results n r \<noteq> Inl (Panic m)"
  by (simp add: split_results_def Let_def)

text \<open>Whatever the broker answers, every callback of the batch is called once, in order.\<close>

lemma answer_calls_all: "map fst (answer_calls b answer) = ac_callbacks b"
proof -
  have fin: "map fst (finish_calls cbs out) = cbs" if "\<forall>m. out \<noteq> Inl (Panic m)" for cbs and out :: "accumulation result"
    using that by (auto simp: finish_calls_def comp_def case_prod_beta split: sum.split failure.split)
  show ?thesis
    unfolding answer_calls_def
    by (rule fin) (auto simp: split_send_results_def split_results_no_panic bind_result_def split: sum.split)
qed

text \<open>
  C20. The answer to a batch of two or more messages lists their ids and offset ids; every caller is called with the
  entry of its own message and the queue offset that the message got.
\<close>

theorem batch_answer_split:
  assumes "n = length (ac_callbacks b)" and "ac_count b = of_nat n" and "1 < n" and "n < 2 ^ 63"
    and "length ids = n" and "length offsets = n" and "\<forall>s \<in> set ids \<union> set offsets. CHR '','' \<notin> set s"
    and "sr_msg_id r = Some (str_join '','' ids)" and "sr_offset_msg_id r = Some (str_join '','' offsets)"
  shows "answer_calls b (Inr r) = map (\<lambda>i. (ac_callbacks b ! i, OnSuccess (r\<lparr>sr_msg_id := Some (ids ! i),
     sr_offset_msg_id := Some (offsets ! i), sr_queue_offset := sr_queue_offset r + of_nat i\<rparr>))) [0..<n]"
proof -
  have "ids \<noteq> []" "offsets \<noteq> []"
    using assms(3,5,6) by auto
  then have ids: "str_split CHR '','' (str_join '','' ids) = ids" "str_split CHR '','' (str_join '','' offsets) = offsets"
    using assms(7) by (simp_all add: str_split_join)
  have comma: "CHR '','' \<in> set (str_join '','' ids)"
    using assms(3,5) by (cases ids rule: remdups_adj.cases) simp_all
  have count: "as_usize (ac_count b) = n"
    unfolding assms(2) using assms(4) by (intro as_usize_of_nat) simp_all
  let ?item = "\<lambda>i. r\<lparr>sr_msg_id := Some (ids ! i), sr_offset_msg_id := Some (offsets ! i),
     sr_queue_offset := sr_queue_offset r + of_nat i\<rparr>"
  have "split_send_results r b = Inr (b\<lparr>ac_results := map ?item [0..<n]\<rparr>)"
    using comma by (simp add: split_send_results_def split_results_def text_or_empty_def ids count assms(5,6,8,9))
  moreover have "enumerate 0 (ac_callbacks b) = map (\<lambda>i. (i, ac_callbacks b ! i)) [0..<n]"
    using assms(1) by (intro nth_equalityI) (simp_all add: nth_enumerate_eq)
  ultimately show ?thesis
    by (simp add: answer_calls_def finish_calls_def result_at_def)
qed

definition pair_answer :: send_result where
  "pair_answer = send_result_default\<lparr>sr_msg_id := Some ''A1,B2'', sr_offset_msg_id := Some ''C3,D4'', sr_queue_offset := 40\<rparr>"

definition pair_batch :: accumulation where
  "pair_batch = (accumulation_new \<lparr>ak_topic = ''t'', ak_mq = None, ak_wait_store_msg_ok = True, ak_tag = None\<rparr> 0)
     \<lparr>ac_count := 2, ac_callbacks := [7, 9]\<rparr>"

theorem batch_answer_split_witness:
  "answer_calls pair_batch (Inr pair_answer)
     = [(7, OnSuccess (pair_answer\<lparr>sr_msg_id := Some ''A1'', sr_offset_msg_id := Some ''C3'', sr_queue_offset := 40\<rparr>)),
        (9, OnSuccess (pair_answer\<lparr>sr_msg_id := Some ''B2'', sr_offset_msg_id := Some ''D4'', sr_queue_offset := 41\<rparr>))]"
proof -
  have "sr_queue_offset pair_answer = 40" "ac_callbacks pair_batch = [7, 9]"
    by (simp_all add: pair_answer_def pair_batch_def)
  moreover have "answer_calls pair_batch (Inr pair_answer) = map (\<lambda>i. (ac_callbacks pair_batch ! i, OnSuccess (pair_answer
      \<lparr>sr_msg_id := Some ([''A1'', ''B2''] ! i), sr_offset_msg_id := Some ([''C3'', ''D4''] ! i),
       sr_queue_offset := sr_queue_offset pair_answer + of_nat i\<rparr>))) [0..<2]"
    by (rule batch_answer_split) (simp_all add: pair_batch_def pair_answer_def)
  ultimately show ?thesis
    by (simp add: upt_rec)
qed

end
