(* ===== verification/Accumulator_Steps.thy ===== *)
theory Accumulator_Steps
  imports Produce_Accumulator "HOL-Library.Multiset"
begin

text \<open>
  The tasks that share the asynchronous batches of an accumulator, interleaved: the callers of \<open>send_async\<close>, the guard
  thread and the answers of the broker. Each section under a lock is one step; what a task knows between two of its
  sections is part of the state. Callers of \<open>send_async\<close> are numbered, and the number stands for the callback.
\<close>

section \<open>State\<close>

datatype acc_sender =
    Admitted aggregate_key message nat
  | Found nat aggregate_key message nat
  | Refused nat aggregate_key message nat
  | Appended nat

datatype acc_guard = Resting | Round "nat list" | Visited nat "nat list" | SeenEmpty nat "nat list" | Marked nat "nat list"

record acc_system =
  as_acc :: accumulator
  as_heap :: "accumulation list"
  as_senders :: "acc_sender list"
  as_guard :: acc_guard
  as_sent :: "nat list"
  as_done :: "nat list"
  as_calls :: "(nat \<times> call_outcome) list"
  as_next :: nat

definition acc_system_new :: acc_system where
  "acc_system_new = \<lparr>as_acc = accumulator_new, as_heap = [], as_senders = [], as_guard = Resting, as_sent = [],
     as_done = [], as_calls = [], as_next = 0\<rparr>"

text \<open>The answer is split into the results of the batch where that is possible.\<close>

definition answered :: "accumulation \<Rightarrow> error + send_result \<Rightarrow> accumulation" where
  "answered b answer = (case answer of
       Inr r \<Rightarrow> (case split_send_results r b of Inr b' \<Rightarrow> b' | Inl _ \<Rightarrow> b)
     | Inl _ \<Rightarrow> b)"

definition message_key :: "message \<Rightarrow> message_queue option \<Rightarrow> aggregate_key" where
  "message_key msg mq = (case mq of Some q \<Rightarrow> key_of_message_with_mq msg q | None \<Rightarrow> key_of_message msg)"

section \<open>Steps\<close>

text \<open>
  Steps in which a message is charged only if it is batched, the guard closes only batches without messages, and the
  producer takes every batch. A body is a Rust vector, so it has less than \<open>2 ^ 63\<close> bytes.
\<close>

inductive calm_acc :: "acc_system \<Rightarrow> acc_system \<Rightarrow> bool" where
  admit: "can_batch msg (as_acc s) = (True, a) \<Longrightarrow> check_and_stamp sep max_size fresh msg = Inr msg' \<Longrightarrow>
    length (get_body msg) < 2 ^ 63 \<Longrightarrow>
    calm_acc s (s\<lparr>as_acc := a, as_senders := as_senders s @ [Admitted (message_key msg' mq) msg' (as_next s)],
      as_next := Suc (as_next s)\<rparr>)"
| lookup: "as_senders s = xs @ Admitted key msg cb # ys \<Longrightarrow>
    get_or_create_batch key now (as_heap s, as_acc s) = (nr, heap, a) \<Longrightarrow>
    calm_acc s (s\<lparr>as_acc := a, as_heap := heap, as_senders := xs @ Found nr key msg cb # ys\<rparr>)"
| append: "as_senders s = xs @ Found nr key msg cb # ys \<Longrightarrow> add_async_locked msg cb (as_heap s ! nr) = Some b \<Longrightarrow>
    calm_acc s (s\<lparr>as_heap := (as_heap s)[nr := b], as_senders := xs @ Appended nr # ys\<rparr>)"
| refuse: "as_senders s = xs @ Found nr key msg cb # ys \<Longrightarrow> add_async_locked msg cb (as_heap s ! nr) = None \<Longrightarrow>
    calm_acc s (s\<lparr>as_senders := xs @ Refused nr key msg cb # ys\<rparr>)"
| retry: "as_senders s = xs @ Refused nr key msg cb # ys \<Longrightarrow>
    calm_acc s (s\<lparr>as_acc := remove_batch key nr (as_acc s), as_senders := xs @ Admitted key msg cb # ys\<rparr>)"
| flush: "as_senders s = xs @ Appended nr # ys \<Longrightarrow> ready_to_send (as_acc s) now (as_heap s ! nr) \<Longrightarrow>
    close_locked (as_heap s ! nr) = Some b \<Longrightarrow>
    calm_acc s (s\<lparr>as_heap := (as_heap s)[nr := b], as_senders := xs @ ys, as_sent := nr # as_sent s\<rparr>)"
| settle: "as_senders s = xs @ Appended nr # ys \<Longrightarrow>
    \<not> ready_to_send (as_acc s) now (as_heap s ! nr) \<or> close_locked (as_heap s ! nr) = None \<Longrightarrow>
    calm_acc s (s\<lparr>as_senders := xs @ ys\<rparr>)"
| guard_round: "as_guard s = Resting \<Longrightarrow> set nrs = ran (pa_batches (as_acc s)) \<Longrightarrow>
    calm_acc s (s\<lparr>as_guard := Round nrs\<rparr>)"
| guard_flush: "as_guard s = Round (nr # nrs) \<Longrightarrow> ready_to_send (as_acc s) now (as_heap s ! nr) \<Longrightarrow>
    close_locked (as_heap s ! nr) = Some b \<Longrightarrow>
    calm_acc s (s\<lparr>as_heap := (as_heap s)[nr := b], as_guard := Visited nr nrs, as_sent := nr # as_sent s\<rparr>)"
| guard_pass: "as_guard s = Round (nr # nrs) \<Longrightarrow>
    \<not> ready_to_send (as_acc s) now (as_heap s ! nr) \<or> close_locked (as_heap s ! nr) = None \<Longrightarrow>
    calm_acc s (s\<lparr>as_guard := Visited nr nrs\<rparr>)"
| guard_read: "as_guard s = Visited nr nrs \<Longrightarrow>
    calm_acc s (s\<lparr>as_guard := (if ac_size (as_heap s ! nr) = 0 then SeenEmpty nr nrs else Round nrs)\<rparr>)"
| guard_mark: "as_guard s = SeenEmpty nr nrs \<Longrightarrow> ac_messages (as_heap s ! nr) = [] \<Longrightarrow>
    calm_acc s (s\<lparr>as_heap := (as_heap s)[nr := mark_closed (as_heap s ! nr)], as_guard := Marked nr nrs\<rparr>)"
| guard_remove: "as_guard s = Marked nr nrs \<Longrightarrow>
    calm_acc s (s\<lparr>as_acc := remove_batch (ac_key (as_heap s ! nr)) nr (as_acc s), as_guard := Round nrs\<rparr>)"
| guard_rest: "as_guard s = Round [] \<Longrightarrow> calm_acc s (s\<lparr>as_guard := Resting\<rparr>)"
| answer: "as_sent s = xs @ nr # ys \<Longrightarrow>
    calm_acc s (s\<lparr>as_acc := release_hold (ac_size (as_heap s ! nr)) (as_acc s),
      as_heap := (as_heap s)[nr := answered (as_heap s ! nr) reply], as_sent := xs @ ys, as_done := nr # as_done s,
      as_calls := as_calls s @ answer_calls (as_heap s ! nr) reply\<rparr>)"

text \<open>
  The program also charges messages that it then sends alone or rejects, does not release a batch that the producer
  refuses to take, and lets the guard close a batch that got its first message after the guard saw it empty.
\<close>

inductive acc_step :: "acc_system \<Rightarrow> acc_system \<Rightarrow> bool" where
  calm: "calm_acc s s' \<Longrightarrow> acc_step s s'"
| alone: "can_batch msg (as_acc s) = (False, a) \<Longrightarrow> acc_step s (s\<lparr>as_acc := a\<rparr>)"
| invalid: "can_batch msg (as_acc s) = (True, a) \<Longrightarrow> check_and_stamp sep max_size fresh msg = Inl e \<Longrightarrow>
    acc_step s (s\<lparr>as_acc := a\<rparr>)"
| flush_refused: "as_senders s = xs @ Appended nr # ys \<Longrightarrow> ready_to_send (as_acc s) now (as_heap s ! nr) \<Longrightarrow>
    close_locked (as_heap s ! nr) = Some b \<Longrightarrow>
    acc_step s (s\<lparr>as_heap := (as_heap s)[nr := b], as_senders := xs @ ys, as_done := nr # as_done s,
      as_calls := as_calls s @ map (\<lambda>cb. (cb, OnException (clone_error e))) (ac_callbacks b)\<rparr>)"
| guard_refused: "as_guard s = Round (nr # nrs) \<Longrightarrow> ready_to_send (as_acc s) now (as_heap s ! nr) \<Longrightarrow>
    close_locked (as_heap s ! nr) = Some b \<Longrightarrow>
    acc_step s (s\<lparr>as_heap := (as_heap s)[nr := b], as_guard := Visited nr nrs, as_done := nr # as_done s,
      as_calls := as_calls s @ map (\<lambda>cb. (cb, OnException (clone_error e))) (ac_callbacks b)\<rparr>)"
| mark_late: "as_guard s = SeenEmpty nr nrs \<Longrightarrow>
    acc_step s (s\<lparr>as_heap := (as_heap s)[nr := mark_closed (as_heap s ! nr)], as_guard := Marked nr nrs\<rparr>)"

inductive acc_reachable :: "(acc_system \<Rightarrow> acc_system \<Rightarrow> bool) \<Rightarrow> acc_system \<Rightarrow> bool" for step where
  init: "acc_reachable step acc_system_new"
| step: "acc_reachable step s \<Longrightarrow> step s s' \<Longrightarrow> acc_reachable step s'"

section \<open>Invariant\<close>

fun sender_calls :: "acc_sender \<Rightarrow> nat multiset" where
  "sender_calls (Admitted key msg cb) = {#cb#}"
| "sender_calls (Found nr key msg cb) = {#cb#}"
| "sender_calls (Refused nr key msg cb) = {#cb#}"
| "sender_calls (Appended nr) = {#}"

fun sender_bytes :: "acc_sender \<Rightarrow> i64" where
  "sender_bytes (Admitted key msg cb) = msg_len msg"
| "sender_bytes (Found nr key msg cb) = msg_len msg"
| "sender_bytes (Refused nr key msg cb) = msg_len msg"
| "sender_bytes (Appended nr) = 0"

definition sendable :: "message \<Rightarrow> bool" where
  "sendable msg \<longleftrightarrow> 0 < length (get_body msg) \<and> length (get_body msg) < 2 ^ 63"

text \<open>What a caller or the guard knows of the batches; \<open>n\<close> batches exist.\<close>

fun sender_ok :: "accumulation list \<Rightarrow> acc_sender \<Rightarrow> bool" where
  "sender_ok heap (Admitted key msg cb) \<longleftrightarrow> sendable msg"
| "sender_ok heap (Found nr key msg cb) \<longleftrightarrow> sendable msg \<and> nr < length heap"
| "sender_ok heap (Refused nr key msg cb) \<longleftrightarrow> sendable msg \<and> nr < length heap \<and> ac_closed (heap ! nr)"
| "sender_ok heap (Appended nr) \<longleftrightarrow> nr < length heap"

fun guard_ok :: "accumulation list \<Rightarrow> acc_guard \<Rightarrow> bool" where
  "guard_ok heap Resting \<longleftrightarrow> True"
| "guard_ok heap (Round nrs) \<longleftrightarrow> (\<forall>n \<in> set nrs. n < length heap)"
| "guard_ok heap (Visited nr nrs) \<longleftrightarrow> nr < length heap \<and> (\<forall>n \<in> set nrs. n < length heap)"
| "guard_ok heap (SeenEmpty nr nrs) \<longleftrightarrow> nr < length heap \<and> (\<forall>n \<in> set nrs. n < length heap)"
| "guard_ok heap (Marked nr nrs) \<longleftrightarrow> nr < length heap \<and> (\<forall>n \<in> set nrs. n < length heap) \<and> ac_closed (heap ! nr)"

definition batch_ok :: "accumulation \<Rightarrow> bool" where
  "batch_ok b \<longleftrightarrow> length (ac_callbacks b) = length (ac_messages b) \<and> ac_count b = of_nat (length (ac_messages b))
     \<and> ac_size b = sum_list (map msg_len (ac_messages b)) \<and> (\<forall>m \<in> set (ac_messages b). sendable m)"

text \<open>An open batch is the one that the table has for its key, so the guard finds it.\<close>

definition acc_table_ok :: "accumulation list \<Rightarrow> (aggregate_key \<rightharpoonup> nat) \<Rightarrow> bool" where
  "acc_table_ok heap tab \<longleftrightarrow> (\<forall>k nr. tab k = Some nr \<longrightarrow> nr < length heap \<and> ac_key (heap ! nr) = k)
     \<and> (\<forall>nr < length heap. \<not> ac_closed (heap ! nr) \<longrightarrow> tab (ac_key (heap ! nr)) = Some nr)"

definition dispatched_ok :: "accumulation list \<Rightarrow> nat list \<Rightarrow> bool" where
  "dispatched_ok heap nrs \<longleftrightarrow> distinct nrs \<and> (\<forall>nr \<in> set nrs. nr < length heap \<and> ac_closed (heap ! nr))"

text \<open>Sum of something over the batches whose callbacks have not been called.\<close>

definition over_open :: "(accumulation \<Rightarrow> 'a) \<Rightarrow> accumulation list \<Rightarrow> nat list \<Rightarrow> 'a::comm_monoid_add" where
  "over_open f heap dn = (\<Sum>nr < length heap. if nr \<in> set dn then 0 else f (heap ! nr))"

definition shape_ok :: "accumulation list \<Rightarrow> acc_sender list \<Rightarrow> acc_guard \<Rightarrow> (aggregate_key \<rightharpoonup> nat) \<Rightarrow> nat list \<Rightarrow> bool" where
  "shape_ok heap ts g tab nrs \<longleftrightarrow> (\<forall>b \<in> set heap. batch_ok b) \<and> (\<forall>t \<in> set ts. sender_ok heap t) \<and> guard_ok heap g
     \<and> acc_table_ok heap tab \<and> dispatched_ok heap nrs"

abbreviation shape :: "acc_system \<Rightarrow> bool" where
  "shape s \<equiv> shape_ok (as_heap s) (as_senders s) (as_guard s) (pa_batches (as_acc s)) (as_sent s @ as_done s)"

text \<open>Every callback is with its caller, in a batch that is not done, or called.\<close>

definition all_calls :: "acc_system \<Rightarrow> nat multiset" where
  "all_calls s = sum_list (map sender_calls (as_senders s)) + over_open (\<lambda>b. mset (ac_callbacks b)) (as_heap s) (as_done s)
     + mset (map fst (as_calls s))"

definition acc_inv :: "acc_system \<Rightarrow> bool" where
  "acc_inv s \<longleftrightarrow> shape s \<and> all_calls s = mset [0..<as_next s]"

section \<open>Sums over the batches\<close>

lemma over_open_append:
  "length heap \<notin> set dn \<Longrightarrow> over_open f (heap @ [b]) dn = over_open f heap dn + f b"
  by (simp add: over_open_def nth_append) (rule arg_cong [where f = "\<lambda>x. x + f b"], rule sum.cong, simp_all add: nth_append)

lemma sum_change:
  fixes f g :: "nat \<Rightarrow> 'a::comm_monoid_add"
  assumes "nr < n" and "\<And>i. i \<noteq> nr \<Longrightarrow> g i = f i"
  shows "(\<Sum>i < n. g i) + f nr = (\<Sum>i < n. f i) + g nr"
proof -
  have "(\<Sum>i \<in> {..<n} - {nr}. g i) = (\<Sum>i \<in> {..<n} - {nr}. f i)"
    using assms(2) by (intro sum.cong) auto
  then show ?thesis
    using assms(1) by (simp add: sum.remove [of "{..<n}" nr] ac_simps)
qed

lemma over_open_update:
  "nr < length heap \<Longrightarrow> nr \<notin> set dn \<Longrightarrow> over_open f (heap[nr := b]) dn + f (heap ! nr) = over_open f heap dn + f b"
  using sum_change [of nr "length heap" "\<lambda>i. if i \<in> set dn then 0 else f (heap[nr := b] ! i)"
      "\<lambda>i. if i \<in> set dn then 0 else f (heap ! i)"]
  by (simp add: over_open_def)

lemma over_open_done:
  "nr < length heap \<Longrightarrow> nr \<notin> set dn \<Longrightarrow> over_open f heap (nr # dn) + f (heap ! nr) = over_open f heap dn"
  using sum_change [of nr "length heap" "\<lambda>i. if i \<in> set (nr # dn) then 0 else f (heap ! i)"
      "\<lambda>i. if i \<in> set dn then 0 else f (heap ! i)"]
  by (simp add: over_open_def)

lemma over_open_same:
  "f b = f (heap ! nr) \<Longrightarrow> over_open f (heap[nr := b]) dn = over_open f heap dn"
  by (cases "nr < length heap") (auto simp: over_open_def nth_list_update intro!: sum.cong)

section \<open>Batches only grow and close\<close>

definition heap_le :: "accumulation list \<Rightarrow> accumulation list \<Rightarrow> bool" where
  "heap_le heap heap' \<longleftrightarrow> length heap \<le> length heap' \<and> (\<forall>nr < length heap. ac_key (heap' ! nr) = ac_key (heap ! nr)
     \<and> (ac_closed (heap ! nr) \<longrightarrow> ac_closed (heap' ! nr)))"

lemma heap_le_refl [simp]: "heap_le heap heap"
  by (simp add: heap_le_def)

lemma heap_le_append [simp]: "heap_le heap (heap @ [b])"
  by (simp add: heap_le_def nth_append)

lemma heap_le_update:
  "ac_key b = ac_key (heap ! nr) \<Longrightarrow> (ac_closed (heap ! nr) \<Longrightarrow> ac_closed b) \<Longrightarrow> heap_le heap (heap[nr := b])"
  by (cases "nr < length heap") (auto simp: heap_le_def nth_list_update list_update_beyond)

lemma sender_ok_mono: "heap_le heap heap' \<Longrightarrow> sender_ok heap t \<Longrightarrow> sender_ok heap' t"
  by (cases t) (auto simp: heap_le_def)

lemma guard_ok_mono: "heap_le heap heap' \<Longrightarrow> guard_ok heap g \<Longrightarrow> guard_ok heap' g"
  by (cases g) (auto simp: heap_le_def)

lemma dispatched_ok_mono: "heap_le heap heap' \<Longrightarrow> dispatched_ok heap nrs \<Longrightarrow> dispatched_ok heap' nrs"
  by (auto simp: heap_le_def dispatched_ok_def)

lemma acc_table_ok_le:
  assumes "acc_table_ok heap tab" and "heap_le heap heap'" and "length heap' = length heap"
  shows "acc_table_ok heap' tab"
  unfolding acc_table_ok_def
proof (intro conjI allI impI)
  fix k nr assume "tab k = Some nr"
  then have "nr < length heap \<and> ac_key (heap ! nr) = k"
    using assms(1) by (simp add: acc_table_ok_def)
  then show "nr < length heap'" "ac_key (heap' ! nr) = k"
    using assms(2,3) by (simp_all add: heap_le_def)
next
  fix nr assume "nr < length heap'" "\<not> ac_closed (heap' ! nr)"
  then have "nr < length heap" "\<not> ac_closed (heap ! nr)" "ac_key (heap' ! nr) = ac_key (heap ! nr)"
    using assms(2,3) by (auto simp: heap_le_def)
  then show "tab (ac_key (heap' ! nr)) = Some nr"
    using assms(1) by (simp add: acc_table_ok_def)
qed

lemma acc_table_ok_update:
  "acc_table_ok heap tab \<Longrightarrow> ac_key b = ac_key (heap ! nr) \<Longrightarrow> (ac_closed (heap ! nr) \<Longrightarrow> ac_closed b) \<Longrightarrow>
   acc_table_ok (heap[nr := b]) tab"
  by (rule acc_table_ok_le, assumption, rule heap_le_update) simp_all

lemma acc_table_ok_remove:
  assumes "acc_table_ok heap (pa_batches a)" and "ac_closed (heap ! nr)"
  shows "acc_table_ok heap (pa_batches (remove_batch key nr a))"
proof (cases "pa_batches a key = Some nr")
  case True
  have "\<forall>n < length heap. \<not> ac_closed (heap ! n) \<longrightarrow> ac_key (heap ! n) \<noteq> key"
    using assms True unfolding acc_table_ok_def by (metis option.inject)
  then show ?thesis
    using assms(1) True unfolding acc_table_ok_def remove_batch_def by simp
next
  case False
  then show ?thesis
    using assms(1) by (simp add: remove_batch_def)
qed

lemma acc_table_ok_insert:
  assumes "acc_table_ok heap tab" and "tab key = None"
  shows "acc_table_ok (heap @ [accumulation_new key now]) (tab(key \<mapsto> length heap))"
proof -
  have new: "ac_key (accumulation_new key now) = key"
    by (simp add: accumulation_new_def)
  have "ac_key (heap ! nr) \<noteq> key" if "nr < length heap" "\<not> ac_closed (heap ! nr)" for nr
    using assms that by (metis option.distinct(1) acc_table_ok_def)
  then show ?thesis
    using assms(1) new by (simp add: acc_table_ok_def nth_append less_Suc_eq)
qed

lemma acc_table_ok_create:
  assumes "acc_table_ok heap (pa_batches a)" and "get_or_create_batch key now (heap, a) = (nr, heap', a')"
  shows "acc_table_ok heap' (pa_batches a') \<and> nr < length heap' \<and> (heap' = heap \<or> heap' = heap @ [accumulation_new key now])
     \<and> pa_held a' = pa_held a"
proof (cases "pa_batches a key")
  case None
  then have "nr = length heap" "heap' = heap @ [accumulation_new key now]"
      "a' = a\<lparr>pa_batches := (pa_batches a)(key \<mapsto> length heap)\<rparr>"
    using assms(2) by (auto simp: get_or_create_batch_def)
  then show ?thesis
    using acc_table_ok_insert [OF assms(1) None] by simp
next
  case (Some n)
  then have "nr = n" "heap' = heap" "a' = a"
    using assms(2) by (auto simp: get_or_create_batch_def)
  then show ?thesis
    using assms(1) Some by (simp add: acc_table_ok_def)
qed

section \<open>Operations on a batch\<close>

lemma sendable_len: "sendable m \<Longrightarrow> 0 <s msg_len m"
  by (simp add: sendable_def msg_len_def word_sless_alt sint_of_nat_small)

lemma add_async_ok:
  assumes "add_async_locked msg cb b = Some b'" and "batch_ok b" and "sendable msg"
  shows "batch_ok b' \<and> ac_key b' = ac_key b \<and> \<not> ac_closed b \<and> \<not> ac_closed b'
     \<and> ac_callbacks b' = ac_callbacks b @ [cb] \<and> ac_size b' = ac_size b + msg_len msg"
  using assms sendable_len [OF assms(3)]
  by (auto simp: add_async_locked_def batch_ok_def charge_def split: if_splits)

lemma close_ok:
  assumes "close_locked b = Some b'"
  shows "b' = mark_closed b" "\<not> ac_closed b"
  using assms by (auto simp: close_locked_def mark_closed_def split: if_splits)

lemma mark_closed_simps [simp]:
  "ac_key (mark_closed b) = ac_key b" "ac_closed (mark_closed b)" "ac_callbacks (mark_closed b) = ac_callbacks b"
  "ac_size (mark_closed b) = ac_size b" "batch_ok (mark_closed b) = batch_ok b" "ac_messages (mark_closed b) = ac_messages b"
  by (simp_all add: mark_closed_def batch_ok_def)

lemma answered_simps [simp]:
  "ac_key (answered b r) = ac_key b" "ac_closed (answered b r) = ac_closed b" "ac_callbacks (answered b r) = ac_callbacks b"
  "ac_size (answered b r) = ac_size b" "batch_ok (answered b r) = batch_ok b" "ac_messages (answered b r) = ac_messages b"
  by (auto simp: answered_def split_send_results_def bind_result_def batch_ok_def split: sum.split)

lemma accumulation_new_ok [simp]: "batch_ok (accumulation_new key now)" "ac_callbacks (accumulation_new key now) = []"
  "ac_size (accumulation_new key now) = 0" "ac_messages (accumulation_new key now) = []"
  by (simp_all add: batch_ok_def accumulation_new_def)

lemma can_batch_charges: "can_batch msg a = (ok, a') \<Longrightarrow> pa_batches a' = pa_batches a"
  by (cases "pa_held a <s pa_total_hold_size a") (auto simp: can_batch_def try_add_message_def)

lemma stamped_ok:
  assumes "check_and_stamp sep max_size fresh msg = Inr msg'"
    and "length (get_body msg) < 2 ^ 63"
  shows "sendable msg'" "msg_len msg' = msg_len msg"
proof -
  have msg': "msg' = set_uniq_id fresh msg" and "check_body (m_body msg) max_size = Inr ()"
    using assms(1) by (auto simp: check_and_stamp_def check_message_def bind_result_Inr)
  then have "get_body msg \<noteq> []" and body: "get_body msg' = get_body msg"
    by (auto simp: check_body_cases get_body_def set_uniq_id_def put_property_def)
  then show "sendable msg'" "msg_len msg' = msg_len msg"
    using assms(2) by (simp_all add: sendable_def msg_len_def)
qed

section \<open>The invariant is kept\<close>

lemma shape_update:
  assumes "shape_ok heap ts g tab nrs" and "ac_key b = ac_key (heap ! nr)" and "ac_closed (heap ! nr) \<Longrightarrow> ac_closed b"
    and "batch_ok b"
  shows "shape_ok (heap[nr := b]) ts g tab nrs"
proof -
  have le: "heap_le heap (heap[nr := b])"
    using assms(2,3) by (rule heap_le_update)
  have "\<forall>b' \<in> set (heap[nr := b]). batch_ok b'"
    using assms(1,4) set_update_subset_insert [of heap nr b] by (auto simp: shape_ok_def)
  then show ?thesis
    using assms(1) acc_table_ok_update [OF _ assms(2,3)] sender_ok_mono [OF le] guard_ok_mono [OF le] dispatched_ok_mono [OF le]
    by (simp add: shape_ok_def)
qed

lemma shape_new:
  assumes "shape_ok heap ts g tab nrs" and "acc_table_ok (heap @ [accumulation_new key now]) tab'"
  shows "shape_ok (heap @ [accumulation_new key now]) ts g tab' nrs"
  using assms sender_ok_mono [OF heap_le_append] guard_ok_mono [OF heap_le_append] dispatched_ok_mono [OF heap_le_append]
  by (simp add: shape_ok_def)

lemma shape_dispatch:
  assumes "shape_ok heap ts g tab nrs" and "nr < length heap" and "close_locked (heap ! nr) = Some b"
    and "set nrs' = insert nr (set nrs)" and "length nrs' = Suc (length nrs)"
  shows "shape_ok (heap[nr := b]) ts g tab nrs'"
proof -
  note b = close_ok [OF assms(3)]
  have b_ok: "batch_ok b"
    using assms(1,2) b(1) by (simp add: shape_ok_def)
  have "shape_ok (heap[nr := b]) ts g tab nrs"
    using assms(1) b b_ok by (intro shape_update) simp_all
  moreover have "nr \<notin> set nrs"
    using assms(1) b(2) by (auto simp: shape_ok_def dispatched_ok_def)
  moreover have "distinct nrs' \<longleftrightarrow> card (set nrs') = length nrs'" "distinct nrs \<longleftrightarrow> card (set nrs) = length nrs"
    by (auto simp: card_distinct distinct_card)
  ultimately show ?thesis
    using assms(2,4,5) b(1) by (auto simp: shape_ok_def dispatched_ok_def)
qed

lemma shape_calm:
  assumes "calm_acc s s'" and "shape s"
  shows "shape s'"
  using assms(1)
proof cases
  case (admit msg a sep max_size fresh msg' mq)
  then show ?thesis
    using assms(2) stamped_ok(1) [OF admit(3,4)] can_batch_charges [OF admit(2)] by (simp add: shape_ok_def)
next
  case (lookup xs key msg cb ys now nr heap a)
  have tab: "acc_table_ok heap (pa_batches a) \<and> nr < length heap \<and> (heap = as_heap s \<or> heap = as_heap s @ [accumulation_new key now])"
    using acc_table_ok_create [OF _ lookup(3)] assms(2) by (simp add: shape_ok_def)
  then have "shape_ok heap (as_senders s) (as_guard s) (pa_batches a) (as_sent s @ as_done s)"
    using assms(2) shape_new [of "as_heap s"] by (auto simp: shape_ok_def)
  then show ?thesis
    using lookup tab by (simp add: shape_ok_def)
next
  case (append xs nr key msg cb ys b)
  then have nr: "nr < length (as_heap s)" "sendable msg"
    using assms(2) by (auto simp: shape_ok_def)
  then have "batch_ok (as_heap s ! nr)"
    using assms(2) by (simp add: shape_ok_def)
  from add_async_ok [OF append(3) this nr(2)]
  have "shape_ok ((as_heap s)[nr := b]) (as_senders s) (as_guard s) (pa_batches (as_acc s)) (as_sent s @ as_done s)"
    using assms(2) by (intro shape_update) simp_all
  then show ?thesis
    using append nr by (simp add: shape_ok_def)
next
  case (refuse xs nr key msg cb ys)
  then have "ac_closed (as_heap s ! nr)"
    by (simp add: add_async_locked_def split: if_splits)
  then show ?thesis
    using refuse assms(2) by (simp add: shape_ok_def)
next
  case (retry xs nr key msg cb ys)
  then show ?thesis
    using assms(2) acc_table_ok_remove [of "as_heap s" "as_acc s" nr key] by (simp add: shape_ok_def)
next
  case (flush xs nr ys now b)
  then have "nr < length (as_heap s)"
    using assms(2) by (simp add: shape_ok_def)
  from shape_dispatch [OF assms(2) this flush(4), of "nr # as_sent s @ as_done s"] show ?thesis
    using flush by (simp add: shape_ok_def)
next
  case (settle xs nr ys now)
  then show ?thesis
    using assms(2) by (simp add: shape_ok_def)
next
  case (guard_round nrs)
  then show ?thesis
    using assms(2) by (auto simp: shape_ok_def acc_table_ok_def ran_def)
next
  case (guard_flush nr nrs now b)
  then have nr: "nr < length (as_heap s)" "\<forall>n \<in> set nrs. n < length (as_heap s)"
    using assms(2) by (simp_all add: shape_ok_def)
  from shape_dispatch [OF assms(2) nr(1) guard_flush(4), of "nr # as_sent s @ as_done s"] show ?thesis
    using guard_flush nr by (simp add: shape_ok_def)
next
  case (guard_pass nr nrs now)
  then show ?thesis
    using assms(2) by (simp add: shape_ok_def)
next
  case (guard_read nr nrs)
  then show ?thesis
    using assms(2) by (simp add: shape_ok_def)
next
  case (guard_mark nr nrs)
  then have nr: "nr < length (as_heap s)" "\<forall>n \<in> set nrs. n < length (as_heap s)"
    using assms(2) by (simp_all add: shape_ok_def)
  have "shape_ok ((as_heap s)[nr := mark_closed (as_heap s ! nr)]) (as_senders s) (as_guard s) (pa_batches (as_acc s))
      (as_sent s @ as_done s)"
    using assms(2) nr by (intro shape_update) (simp_all add: shape_ok_def)
  then show ?thesis
    using guard_mark nr by (simp add: shape_ok_def)
next
  case (guard_remove nr nrs)
  then show ?thesis
    using assms(2) acc_table_ok_remove [of "as_heap s" "as_acc s" nr "ac_key (as_heap s ! nr)"] by (simp add: shape_ok_def)
next
  case guard_rest
  then show ?thesis
    using assms(2) by (simp add: shape_ok_def)
next
  case (answer xs nr ys reply)
  then have "nr < length (as_heap s)" "batch_ok (as_heap s ! nr)"
    using assms(2) by (simp_all add: shape_ok_def dispatched_ok_def)
  then have "shape_ok ((as_heap s)[nr := answered (as_heap s ! nr) reply]) (as_senders s) (as_guard s) (pa_batches (as_acc s))
      (as_sent s @ as_done s)"
    using assms(2) by (intro shape_update) simp_all
  then show ?thesis
    using answer by (auto simp: shape_ok_def dispatched_ok_def release_hold_def)
qed

lemma shape_step:
  assumes "acc_step s s'" and "shape s"
  shows "shape s'"
  using assms(1)
proof cases
  case calm
  then show ?thesis
    using assms(2) by (rule shape_calm)
next
  case (alone msg a)
  then show ?thesis
    using assms(2) can_batch_charges [OF alone(2)] by simp
next
  case (invalid msg a sep max_size fresh e)
  then show ?thesis
    using assms(2) can_batch_charges [OF invalid(2)] by simp
next
  case (flush_refused xs nr ys now b e)
  then have "nr < length (as_heap s)"
    using assms(2) by (simp add: shape_ok_def)
  from shape_dispatch [OF assms(2) this flush_refused(4), of "as_sent s @ nr # as_done s"] show ?thesis
    using flush_refused by (simp add: shape_ok_def)
next
  case (guard_refused nr nrs now b e)
  then have nr: "nr < length (as_heap s)" "\<forall>n \<in> set nrs. n < length (as_heap s)"
    using assms(2) by (simp_all add: shape_ok_def)
  from shape_dispatch [OF assms(2) nr(1) guard_refused(4), of "as_sent s @ nr # as_done s"] show ?thesis
    using guard_refused nr by (simp add: shape_ok_def)
next
  case (mark_late nr nrs)
  then have nr: "nr < length (as_heap s)" "\<forall>n \<in> set nrs. n < length (as_heap s)"
    using assms(2) by (simp_all add: shape_ok_def)
  have "shape_ok ((as_heap s)[nr := mark_closed (as_heap s ! nr)]) (as_senders s) (as_guard s) (pa_batches (as_acc s))
      (as_sent s @ as_done s)"
    using assms(2) nr by (intro shape_update) (simp_all add: shape_ok_def)
  then show ?thesis
    using mark_late nr by (simp add: shape_ok_def)
qed

text \<open>A batch that is not dispatched has not been done.\<close>

lemma open_not_done:
  assumes "shape s" and "\<not> ac_closed (as_heap s ! nr)"
  shows "nr \<notin> set (as_done s)"
  using assms by (auto simp: shape_ok_def dispatched_ok_def)

lemma fresh_not_done: "shape s \<Longrightarrow> length (as_heap s) \<notin> set (as_done s)"
  by (auto simp: shape_ok_def dispatched_ok_def)

lemma answer_calls_mset [simp]: "image_mset fst (mset (answer_calls b reply)) = mset (ac_callbacks b)"
  by (metis answer_calls_all mset_map)

lemma calls_calm:
  assumes "calm_acc s s'" and "shape s" and "all_calls s = mset [0..<as_next s]"
  shows "all_calls s' = mset [0..<as_next s']"
  using assms(1)
proof cases
  case (admit msg a sep max_size fresh msg' mq)
  then show ?thesis
    using assms(3) by (simp add: all_calls_def)
next
  case (lookup xs key msg cb ys now nr heap a)
  have "heap = as_heap s \<or> heap = as_heap s @ [accumulation_new key now]"
    using acc_table_ok_create [OF _ lookup(3)] assms(2) by (simp add: shape_ok_def)
  then have "over_open (\<lambda>b. mset (ac_callbacks b)) heap (as_done s) = over_open (\<lambda>b. mset (ac_callbacks b)) (as_heap s) (as_done s)"
    using fresh_not_done [OF assms(2)] by (auto simp: over_open_append)
  then show ?thesis
    using lookup assms(3) by (simp add: all_calls_def)
next
  case (append xs nr key msg cb ys b)
  then have nr: "nr < length (as_heap s)" "sendable msg" "batch_ok (as_heap s ! nr)"
    using assms(2) by (auto simp: shape_ok_def)
  note b = add_async_ok [OF append(3) nr(3,2)]
  have "over_open (\<lambda>b. mset (ac_callbacks b)) ((as_heap s)[nr := b]) (as_done s) + mset (ac_callbacks (as_heap s ! nr))
      = over_open (\<lambda>b. mset (ac_callbacks b)) (as_heap s) (as_done s) + mset (ac_callbacks b)"
    using nr(1) open_not_done [OF assms(2)] b by (intro over_open_update) auto
  then have "over_open (\<lambda>b. mset (ac_callbacks b)) ((as_heap s)[nr := b]) (as_done s)
      = add_mset cb (over_open (\<lambda>b. mset (ac_callbacks b)) (as_heap s) (as_done s))"
    using b by (simp add: union_commute)
  then show ?thesis
    using append assms(3) by (simp add: all_calls_def)
next
  case (answer xs nr ys reply)
  then have nr: "nr < length (as_heap s)" "nr \<notin> set (as_done s)"
    using assms(2) by (auto simp: shape_ok_def dispatched_ok_def)
  have "over_open (\<lambda>b. mset (ac_callbacks b)) ((as_heap s)[nr := answered (as_heap s ! nr) reply]) (nr # as_done s)
      + mset (ac_callbacks (as_heap s ! nr)) = over_open (\<lambda>b. mset (ac_callbacks b)) (as_heap s) (as_done s)"
    using over_open_done [OF nr, of "\<lambda>b. mset (ac_callbacks b)"] by (subst over_open_same) simp_all
  then show ?thesis
    using answer assms(3) by (simp add: all_calls_def ac_simps)
qed (use assms(3) in \<open>auto simp: all_calls_def over_open_same dest: close_ok\<close>)

lemma dispatch_refused_calls:
  assumes "shape s" and "nr < length (as_heap s)" and "close_locked (as_heap s ! nr) = Some b"
  shows "over_open (\<lambda>b. mset (ac_callbacks b)) ((as_heap s)[nr := b]) (nr # as_done s) + mset (ac_callbacks b)
      = over_open (\<lambda>b. mset (ac_callbacks b)) (as_heap s) (as_done s)"
proof -
  note b = close_ok [OF assms(3)]
  have "over_open (\<lambda>b. mset (ac_callbacks b)) ((as_heap s)[nr := b]) (nr # as_done s)
      = over_open (\<lambda>b. mset (ac_callbacks b)) (as_heap s) (nr # as_done s)"
    using b by (intro over_open_same) simp
  then show ?thesis
    using over_open_done [OF assms(2) open_not_done [OF assms(1) b(2)], of "\<lambda>b. mset (ac_callbacks b)"] b by simp
qed

lemma acc_inv_step:
  assumes "acc_step s s'" and "acc_inv s"
  shows "acc_inv s'"
proof -
  have inv: "shape s" "all_calls s = mset [0..<as_next s]"
    using assms(2) by (simp_all add: acc_inv_def)
  have "all_calls s' = mset [0..<as_next s']"
    using assms(1)
  proof cases
    case calm
    then show ?thesis
      using inv by (rule calls_calm)
  next
    case (flush_refused xs nr ys now b e)
    then have "nr < length (as_heap s)"
      using inv(1) by (simp add: shape_ok_def)
    from dispatch_refused_calls [OF inv(1) this flush_refused(4), symmetric] show ?thesis
      using flush_refused inv(2) by (simp add: all_calls_def comp_def ac_simps)
  next
    case (guard_refused nr nrs now b e)
    then have "nr < length (as_heap s)"
      using inv(1) by (simp add: shape_ok_def)
    from dispatch_refused_calls [OF inv(1) this guard_refused(4), symmetric] show ?thesis
      using guard_refused inv(2) by (simp add: all_calls_def comp_def ac_simps)
  qed (use inv(2) in \<open>auto simp: all_calls_def over_open_same\<close>)
  then show ?thesis
    using shape_step [OF assms(1) inv(1)] by (simp add: acc_inv_def)
qed

lemma acc_inv_reachable: "acc_reachable acc_step s \<Longrightarrow> acc_inv s"
proof (induction rule: acc_reachable.induct)
  case init
  then show ?case
    by (simp add: acc_system_new_def acc_inv_def shape_ok_def all_calls_def acc_table_ok_def dispatched_ok_def over_open_def
        accumulator_new_def)
next
  case (step s s')
  then show ?case
    by (blast intro: acc_inv_step)
qed

section \<open>Runs of calm steps\<close>

definition calm_inv :: "acc_system \<Rightarrow> bool" where
  "calm_inv s \<longleftrightarrow> (\<forall>nr < length (as_heap s). ac_closed (as_heap s ! nr) \<longrightarrow> ac_messages (as_heap s ! nr) \<noteq> [] \<longrightarrow>
       nr \<in> set (as_sent s) \<union> set (as_done s))
     \<and> pa_held (as_acc s) = sum_list (map sender_bytes (as_senders s)) + over_open ac_size (as_heap s) (as_done s)"

lemma remove_batch_held [simp]: "pa_held (remove_batch key nr a) = pa_held a"
  by (simp add: remove_batch_def)

lemma can_batch_held:
  "can_batch msg a = (True, a') \<Longrightarrow> 0 <s msg_len msg \<Longrightarrow> pa_held a' = pa_held a + msg_len msg"
  by (cases "pa_held a <s pa_total_hold_size a") (auto simp: can_batch_def try_add_message_def charge_def)

lemma calm_inv_step:
  assumes "calm_acc s s'" and "shape s" and "calm_inv s"
  shows "calm_inv s'"
  using assms(1)
proof cases
  case (admit msg a sep max_size fresh msg' mq)
  note ok = stamped_ok [OF admit(3,4)]
  show ?thesis
    using admit assms(3) can_batch_held [OF admit(2)] sendable_len [OF ok(1)] ok(2) by (simp add: calm_inv_def)
next
  case (lookup xs key msg cb ys now nr heap a)
  have "(heap = as_heap s \<or> heap = as_heap s @ [accumulation_new key now]) \<and> pa_held a = pa_held (as_acc s)"
    using acc_table_ok_create [OF _ lookup(3)] assms(2) by (simp add: shape_ok_def)
  then show ?thesis
    using lookup assms(3) fresh_not_done [OF assms(2)]
    by (elim conjE disjE) (simp_all add: calm_inv_def over_open_append nth_append less_Suc_eq)
next
  case (append xs nr key msg cb ys b)
  then have nr: "nr < length (as_heap s)" "sendable msg" "batch_ok (as_heap s ! nr)"
    using assms(2) by (auto simp: shape_ok_def)
  note b = add_async_ok [OF append(3) nr(3,2)]
  have "over_open ac_size ((as_heap s)[nr := b]) (as_done s) + ac_size (as_heap s ! nr)
      = over_open ac_size (as_heap s) (as_done s) + ac_size b"
    using nr(1) open_not_done [OF assms(2)] b by (intro over_open_update) auto
  then have "over_open ac_size ((as_heap s)[nr := b]) (as_done s) = over_open ac_size (as_heap s) (as_done s) + msg_len msg"
    using b by (simp add: ac_simps)
  then show ?thesis
    using append assms(3) b by (simp add: calm_inv_def nth_list_update nr(1))
next
  case (flush xs nr ys now b)
  then show ?thesis
    using assms(2,3) close_ok [OF flush(4)] by (auto simp: calm_inv_def over_open_same nth_list_update shape_ok_def)
next
  case (guard_flush nr nrs now b)
  then show ?thesis
    using assms(2,3) close_ok [OF guard_flush(4)] by (auto simp: calm_inv_def over_open_same nth_list_update shape_ok_def)
next
  case (guard_mark nr nrs)
  then show ?thesis
    using assms(2,3) by (auto simp: calm_inv_def over_open_same nth_list_update shape_ok_def)
next
  case (answer xs nr ys reply)
  then have nr: "nr < length (as_heap s)" "nr \<notin> set (as_done s)"
    using assms(2) by (auto simp: shape_ok_def dispatched_ok_def)
  have "over_open ac_size ((as_heap s)[nr := answered (as_heap s ! nr) reply]) (nr # as_done s) + ac_size (as_heap s ! nr)
      = over_open ac_size (as_heap s) (as_done s)"
    using over_open_done [OF nr, of ac_size] by (subst over_open_same) simp_all
  then show ?thesis
    using answer assms(3) nr(1) by (auto simp: calm_inv_def release_hold_def nth_list_update algebra_simps)
qed (use assms(3) in \<open>auto simp: calm_inv_def\<close>)

lemma calm_acc_step: "acc_reachable calm_acc s \<Longrightarrow> acc_reachable acc_step s"
  by (induction rule: acc_reachable.induct) (auto intro: acc_reachable.intros acc_step.calm)

lemma calm_inv_reachable: "acc_reachable calm_acc s \<Longrightarrow> calm_inv s"
proof (induction rule: acc_reachable.induct)
  case init
  then show ?case by (simp add: calm_inv_def acc_system_new_def accumulator_new_def over_open_def)
next
  case (step s s')
  then show ?case
    using calm_inv_step acc_inv_reachable [OF calm_acc_step] by (auto simp: acc_inv_def)
qed

end
