(* ===== verification/Accumulator_Calls.thy ===== *)
theory Accumulator_Calls
  imports Accumulator_Steps
begin

text \<open>
  What the callers of an accumulator can rely on: every callback is called at most once, no message gets lost and the bytes
  that are held add up as long as all steps are calm; and the runs of the program in which that fails.
\<close>

section \<open>Callbacks\<close>

lemma calls_once:
  assumes "acc_inv s"
  shows "count (all_calls s) cb = (if cb < as_next s then 1 else 0)"
  using assms by (simp add: acc_inv_def)

lemma all_calls_count:
  "count (all_calls s) cb = count (sum_list (map sender_calls (as_senders s))) cb
     + (\<Sum>nr < length (as_heap s). if nr \<in> set (as_done s) then 0 else count_list (ac_callbacks (as_heap s ! nr)) cb)
     + count_list (map fst (as_calls s)) cb"
  by (simp add: all_calls_def over_open_def count_sum count_mset if_distrib [of "\<lambda>m. count m cb"] flip: mset_map cong: if_cong)

lemma count_le_distinct: "(\<And>x. count_list xs x \<le> 1) \<Longrightarrow> distinct xs"
proof (induction xs)
  case (Cons y ys)
  have "count_list ys y = 0" using Cons.prems [of y] by simp
  moreover have "count_list ys x \<le> 1" for x
    using Cons.prems [of x] by (simp split: if_splits)
  ultimately show ?case using Cons.IH by (simp add: count_list_0_iff)
qed simp

lemma count_list_pos [simp]: "0 < count_list xs x \<longleftrightarrow> x \<in> set xs"
  by (metis count_list_0_iff neq0_conv)

lemma waiting_not_called:
  assumes "acc_inv s" and "nr < length (as_heap s)" and "nr \<notin> set (as_done s)" and "cb \<in> set (ac_callbacks (as_heap s ! nr))"
  shows "cb \<notin> fst ` set (as_calls s)"
proof
  assume "cb \<in> fst ` set (as_calls s)"
  then have called: "0 < count_list (map fst (as_calls s)) cb"
    by simp
  let ?f = "\<lambda>nr. if nr \<in> set (as_done s) then 0 else count_list (ac_callbacks (as_heap s ! nr)) cb"
  have "0 < ?f nr"
    using assms(3,4) by simp
  also have "?f nr \<le> (\<Sum>nr < length (as_heap s). ?f nr)"
    using assms(2) by (intro member_le_sum) auto
  finally have "2 \<le> count (all_calls s) cb"
    using called unfolding all_calls_count by linarith
  then show False
    using calls_once [OF assms(1), of cb] by (simp split: if_splits)
qed

text \<open>
  C17. In every run of the program, no callback is called twice, and none that was not registered.
\<close>

theorem callbacks_at_most_once:
  assumes "acc_reachable acc_step s"
  shows "distinct (map fst (as_calls s)) \<and> fst ` set (as_calls s) \<subseteq> {..<as_next s}"
proof -
  have le: "count_list (map fst (as_calls s)) cb \<le> (if cb < as_next s then 1 else 0)" for cb
    using calls_once [OF acc_inv_reachable [OF assms], of cb] unfolding all_calls_count by linarith
  have "distinct (map fst (as_calls s))"
    by (rule count_le_distinct, rule order_trans [OF le]) simp
  moreover have "cb < as_next s" if "cb \<in> fst ` set (as_calls s)" for cb
  proof (rule ccontr)
    assume "\<not> cb < as_next s"
    then have "count_list (map fst (as_calls s)) cb = 0"
      using le [of cb] by simp
    then show False
      using that by (metis count_list_0_iff image_set)
  qed
  ultimately show ?thesis by auto
qed

text \<open>
  C6. As long as messages are charged only if they are batched, the guard closes only empty batches and the producer
  takes every batch, no message gets lost: the callback of every admitted message has been called, or its caller is still
  busy, or the message is in a batch that is on its way to the broker or that the guard finds in the table.
\<close>

theorem no_message_lost:
  assumes "acc_reachable calm_acc s" and "cb < as_next s"
  shows "cb \<in> fst ` set (as_calls s) \<or> (\<exists>t \<in> set (as_senders s). cb \<in># sender_calls t)
    \<or> (\<exists>nr < length (as_heap s). cb \<in> set (ac_callbacks (as_heap s ! nr))
         \<and> (nr \<in> set (as_sent s) \<or> pa_batches (as_acc s) (ac_key (as_heap s ! nr)) = Some nr))"
proof -
  note inv = acc_inv_reachable [OF calm_acc_step [OF assms(1)]]
  let ?f = "\<lambda>nr. if nr \<in> set (as_done s) then 0 else count_list (ac_callbacks (as_heap s ! nr)) cb"
  have "1 = count (sum_list (map sender_calls (as_senders s))) cb + (\<Sum>nr < length (as_heap s). ?f nr)
      + count_list (map fst (as_calls s)) cb"
    using calls_once [OF inv, of cb] assms(2) by (simp add: all_calls_count)
  then consider "0 < count (sum_list (map sender_calls (as_senders s))) cb" | "0 < (\<Sum>nr < length (as_heap s). ?f nr)"
    | "0 < count_list (map fst (as_calls s)) cb" by linarith
  then show ?thesis
  proof cases
    case 1
    then have "cb \<in># sum_list (map sender_calls (as_senders s))" by simp
    then have "\<exists>t \<in> set (as_senders s). cb \<in># sender_calls t"
      by (simp add: set_mset_sum_list)
    then show ?thesis by blast
  next
    case 2
    then have "(\<Sum>nr < length (as_heap s). ?f nr) \<noteq> 0" by (simp only: not_gr_zero)
    then obtain nr where nr: "nr < length (as_heap s)" "?f nr \<noteq> 0"
      by (rule sum.not_neutral_contains_not_neutral) simp
    then have open_nr: "nr \<notin> set (as_done s)" "cb \<in> set (ac_callbacks (as_heap s ! nr))"
      by (auto split: if_splits)
    have "batch_ok (as_heap s ! nr)"
      using inv nr(1) by (simp add: acc_inv_def shape_ok_def)
    then have "ac_messages (as_heap s ! nr) \<noteq> []"
      using open_nr(2) by (auto simp: batch_ok_def)
    then have "nr \<in> set (as_sent s) \<or> \<not> ac_closed (as_heap s ! nr)"
      using calm_inv_reachable [OF assms(1)] nr(1) open_nr(1) by (auto simp: calm_inv_def)
    then show ?thesis
      using inv nr(1) open_nr(2) by (auto simp: acc_inv_def shape_ok_def acc_table_ok_def)
  next
    case 3
    then have "cb \<in> set (map fst (as_calls s))"
      by simp
    then show ?thesis by simp
  qed
qed

text \<open>
  C19. Under the same conditions the bytes that are held are those of the messages whose callers are busy and of the
  batches that wait; when all of them are done, nothing is held.
\<close>

theorem held_bytes_balanced:
  assumes "acc_reachable calm_acc s"
  shows "pa_held (as_acc s) = sum_list (map sender_bytes (as_senders s)) + over_open ac_size (as_heap s) (as_done s)
     \<and> (as_senders s = [] \<and> set (as_done s) = {..<length (as_heap s)} \<longrightarrow> pa_held (as_acc s) = 0)"
  using calm_inv_reachable [OF assms] by (auto simp: calm_inv_def over_open_def intro!: sum.neutral)

section \<open>A run\<close>

lemmas acc_calm_next = acc_reachable.step [where step = calm_acc]
lemmas acc_next = acc_reachable.step [where step = acc_step]

definition sample_send :: message where "sample_send = message_new ''TopicTest'' (Some [1])"
definition sample_stamped :: message where "sample_stamped = set_uniq_id ''id'' sample_send"
definition sample_key :: aggregate_key where "sample_key = key_of_message sample_stamped"
definition sample_batch :: accumulation where
  "sample_batch = (accumulation_new sample_key 0)\<lparr>ac_count := 1, ac_size := 1, ac_messages := [sample_stamped],
     ac_callbacks := [0]\<rparr>"

definition run_acc :: "accumulation list \<Rightarrow> acc_sender list \<Rightarrow> acc_guard \<Rightarrow> (aggregate_key \<rightharpoonup> nat) \<Rightarrow> acc_system" where
  "run_acc heap ts g tab = \<lparr>as_acc = accumulator_new\<lparr>pa_held := 1, pa_batches := tab\<rparr>, as_heap = heap, as_senders = ts,
     as_guard = g, as_sent = [], as_done = [], as_calls = [], as_next = 1\<rparr>"

lemma sample_checked: "check_and_stamp (CHR ''/'') 4194304 ''id'' sample_send = Inr sample_stamped"
proof -
  have "check_topic ''TopicTest'' = Inr ()" "check_not_allowed_send_topic ''TopicTest'' = Inr ()"
    by code_simp+
  moreover have "check_body (Some [1]) 4194304 = Inr ()"
    by (simp add: check_body_def as_usize_def)
  ultimately show ?thesis
    by (simp add: check_and_stamp_def check_message_def sample_stamped_def sample_send_def message_new_def get_property_def
        ext_get_def ext_new_def check_lmq_path_def)
qed

lemma sample_props [simp]: "msg_len sample_send = 1" "msg_len sample_stamped = 1"
  by (simp_all add: msg_len_def sample_stamped_def sample_send_def set_uniq_id_def put_property_def message_new_def get_body_def)

lemma sample_can_batch: "can_batch sample_send accumulator_new = (True, accumulator_new\<lparr>pa_held := 1\<rparr>)"
proof -
  have "max_delay_value sample_send = 0" "get_property sample_send PROPERTY_PRODUCER_GROUP = None"
    by (simp_all add: max_delay_value_def TIMER_DELAY_KEYS_def sample_send_def message_new_def get_property_def ext_get_def
        ext_new_def get_delay_time_level_def)
  moreover have "\<not> starts_with (m_topic sample_send) RETRY_GROUP_TOPIC_PREFIX"
    by (simp add: sample_send_def message_new_def RETRY_GROUP_TOPIC_PREFIX_def)
  moreover have "try_add_message sample_send accumulator_new = (True, accumulator_new\<lparr>pa_held := 1\<rparr>)"
    by (simp add: try_add_message_def charge_def accumulator_new_def DEFAULT_TOTAL_HOLD_SIZE_def word_sless_alt)
  ultimately show ?thesis
    by (simp add: can_batch_def)
qed

lemma run_found: "acc_reachable calm_acc (run_acc [accumulation_new sample_key 0] [Found 0 sample_key sample_stamped 0] Resting [sample_key \<mapsto> 0])"
proof -
  have "can_batch sample_send (as_acc acc_system_new) = (True, accumulator_new\<lparr>pa_held := 1\<rparr>)"
    by (simp add: acc_system_new_def sample_can_batch)
  from acc_calm_next [OF acc_reachable.init calm_acc.admit [OF this sample_checked, of None]]
  have 1: "acc_reachable calm_acc (run_acc [] [Admitted sample_key sample_stamped 0] Resting Map.empty)"
    by (simp add: run_acc_def acc_system_new_def accumulator_new_def message_key_def sample_key_def sample_send_def
        message_new_def get_body_def)
  have "as_senders (run_acc [] [Admitted sample_key sample_stamped 0] Resting Map.empty) = [] @ Admitted sample_key sample_stamped 0 # []"
    by (simp add: run_acc_def)
  from acc_calm_next [OF 1 calm_acc.lookup [OF this, of 0]]
  show ?thesis
    by (simp add: run_acc_def get_or_create_batch_def)
qed

lemma sample_add: "add_async_locked sample_stamped 0 (accumulation_new sample_key 0) = Some sample_batch"
  by (simp add: add_async_locked_def accumulation_new_def sample_batch_def charge_def word_sless_alt)

lemma run_appended: "acc_reachable calm_acc (run_acc [sample_batch] [Appended 0] Resting [sample_key \<mapsto> 0])"
proof -
  have "as_senders (run_acc [accumulation_new sample_key 0] [Found 0 sample_key sample_stamped 0] Resting [sample_key \<mapsto> 0])
      = [] @ Found 0 sample_key sample_stamped 0 # []"
    by (simp add: run_acc_def)
  from acc_calm_next [OF run_found calm_acc.append [OF this]] show ?thesis
    by (simp add: run_acc_def sample_add)
qed

theorem no_message_lost_witness:
  "\<exists>nr < length [sample_batch]. (0 :: nat) \<in> set (ac_callbacks ([sample_batch] ! nr))"
  using no_message_lost [OF run_appended, of 0] by (auto simp: run_acc_def)

definition sent_batch :: accumulation where "sent_batch = sample_batch\<lparr>ac_closed := True\<rparr>"
definition done_batch :: accumulation where "done_batch = sent_batch\<lparr>ac_results := [send_result_default]\<rparr>"

lemma sample_split: "split_send_results send_result_default sent_batch = Inr done_batch"
proof -
  have "as_usize (1 :: i64) = 1"
    by (simp add: as_usize_def)
  then show ?thesis
    by (simp add: split_send_results_def split_results_def text_or_empty_def send_result_default_def sent_batch_def
        done_batch_def sample_batch_def)
qed

lemma run_answered:
  "acc_reachable calm_acc ((run_acc [done_batch] [] Resting [sample_key \<mapsto> 0])\<lparr>as_acc := accumulator_new\<lparr>pa_batches := [sample_key \<mapsto> 0]\<rparr>,
     as_done := [0], as_calls := [(0, OnSuccess send_result_default)]\<rparr>)"
proof -
  let ?s = "run_acc [sample_batch] [Appended 0] Resting [sample_key \<mapsto> 0]"
  have "as_senders ?s = [] @ Appended 0 # []" "ready_to_send (as_acc ?s) 10 (as_heap ?s ! 0)"
      "close_locked (as_heap ?s ! 0) = Some sent_batch"
    by (simp_all add: run_acc_def ready_to_send_def accumulator_new_def DEFAULT_HOLD_MS_def sample_batch_def accumulation_new_def
        close_locked_def sent_batch_def)
  from acc_calm_next [OF run_appended calm_acc.flush [OF this]]
  have 1: "acc_reachable calm_acc ((run_acc [sent_batch] [] Resting [sample_key \<mapsto> 0])\<lparr>as_sent := [0]\<rparr>)"
    by (simp add: run_acc_def)
  have "as_sent ((run_acc [sent_batch] [] Resting [sample_key \<mapsto> 0])\<lparr>as_sent := [0]\<rparr>) = [] @ 0 # []"
    by simp
  from acc_calm_next [OF 1 calm_acc.answer [OF this, of "Inr send_result_default"]] show ?thesis
    by (simp add: run_acc_def answered_def sample_split answer_calls_def finish_calls_def release_hold_def result_at_def
        accumulator_new_def) (simp add: done_batch_def sent_batch_def sample_batch_def)
qed

theorem held_bytes_balanced_witness:
  "pa_held (as_acc ((run_acc [done_batch] [] Resting [sample_key \<mapsto> 0])\<lparr>as_acc := accumulator_new\<lparr>pa_batches := [sample_key \<mapsto> 0]\<rparr>,
     as_done := [0], as_calls := [(0, OnSuccess send_result_default)]\<rparr>)) = 0"
  using held_bytes_balanced [OF run_answered] by (auto simp: run_acc_def lessThan_Suc)

theorem callbacks_at_most_once_witness: "distinct (map fst [(0 :: nat, OnSuccess send_result_default)])"
  using callbacks_at_most_once [OF calm_acc_step [OF run_answered]] by simp

section \<open>Runs that lose\<close>

definition lost :: "nat \<Rightarrow> nat \<Rightarrow> acc_system \<Rightarrow> bool" where
  "lost nr cb s \<longleftrightarrow> acc_inv s \<and> nr < length (as_heap s) \<and> ac_closed (as_heap s ! nr) \<and> nr \<notin> set (as_sent s) \<union> set (as_done s)
     \<and> cb \<in> set (ac_callbacks (as_heap s ! nr))"

lemma create_keeps:
  "get_or_create_batch key now (heap, a) = (n, heap', a') \<Longrightarrow> nr < length heap \<Longrightarrow> heap' ! nr = heap ! nr \<and> nr < length heap'"
  by (auto simp: get_or_create_batch_def nth_append split: option.splits)

lemma closed_stays:
  assumes "add_async_locked msg c (heap ! n) = Some b \<or> close_locked (heap ! n) = Some b" and "ac_closed (heap ! nr)"
  shows "nr \<noteq> n"
  using assms by (auto simp: add_async_locked_def close_locked_def)

lemma lost_calm:
  assumes "calm_acc s s'" and "nr < length (as_heap s)" and "ac_closed (as_heap s ! nr)"
    and "nr \<notin> set (as_sent s) \<union> set (as_done s)" and "cb \<in> set (ac_callbacks (as_heap s ! nr))"
  shows "nr < length (as_heap s') \<and> ac_closed (as_heap s' ! nr) \<and> nr \<notin> set (as_sent s') \<union> set (as_done s')
     \<and> cb \<in> set (ac_callbacks (as_heap s' ! nr))"
  using assms(1)
proof cases
  case (lookup xs key msg cb' ys now n heap a)
  then show ?thesis
    using assms(2-) create_keeps [OF lookup(3) assms(2)] by simp
next
  case (append xs n key msg cb' ys b)
  then show ?thesis
    using assms(2-) closed_stays [OF disjI1 [OF append(3)] assms(3)] by simp
next
  case (flush xs n ys now b)
  then show ?thesis
    using assms(2-) closed_stays [OF disjI2 [OF flush(4)] assms(3)] by simp
next
  case (guard_flush n nrs now b)
  then show ?thesis
    using assms(2-) closed_stays [OF disjI2 [OF guard_flush(4)] assms(3)] by simp
next
  case (guard_mark n nrs)
  then show ?thesis
    using assms(2-) by (cases "n = nr") simp_all
next
  case (answer xs n ys reply)
  then show ?thesis
    using assms(2-) by (cases "n = nr") simp_all
qed (use assms(2-) in simp_all)

lemma lost_step:
  assumes "acc_step s s'" and "lost nr cb s"
  shows "lost nr cb s'"
proof -
  have old: "nr < length (as_heap s)" "ac_closed (as_heap s ! nr)" "nr \<notin> set (as_sent s) \<union> set (as_done s)"
      "cb \<in> set (ac_callbacks (as_heap s ! nr))"
    using assms(2) by (auto simp: lost_def)
  have "nr < length (as_heap s') \<and> ac_closed (as_heap s' ! nr) \<and> nr \<notin> set (as_sent s') \<union> set (as_done s')
     \<and> cb \<in> set (ac_callbacks (as_heap s' ! nr))"
    using assms(1)
  proof cases
    case calm
    then show ?thesis using old by (rule lost_calm)
  next
    case (flush_refused xs n ys now b e)
    then show ?thesis
      using old closed_stays [OF disjI2 [OF flush_refused(4)] old(2)] by simp
  next
    case (guard_refused n nrs now b e)
    then show ?thesis
      using old closed_stays [OF disjI2 [OF guard_refused(4)] old(2)] by simp
  next
    case (mark_late n nrs)
    then show ?thesis
      using old by (cases "n = nr") simp_all
  qed (use old in simp_all)
  then show ?thesis
    using acc_inv_step [OF assms(1)] assms(2) by (simp add: lost_def)
qed

lemma lost_forever:
  assumes "acc_step\<^sup>*\<^sup>* s s'" and "lost nr cb s"
  shows "nr \<notin> set (as_sent s') \<union> set (as_done s') \<and> cb \<notin> fst ` set (as_calls s')"
proof -
  from assms have "lost nr cb s'"
    by (induction rule: rtranclp_induct) (auto intro: lost_step)
  then show ?thesis
    using waiting_not_called [of s' nr cb] by (simp add: lost_def)
qed

lemma run_seen_empty:
  "acc_reachable calm_acc (run_acc [accumulation_new sample_key 0] [Found 0 sample_key sample_stamped 0] (SeenEmpty 0 []) [sample_key \<mapsto> 0])"
proof -
  let ?s = "\<lambda>g. run_acc [accumulation_new sample_key 0] [Found 0 sample_key sample_stamped 0] g [sample_key \<mapsto> 0]"
  have "as_guard (?s Resting) = Resting" "set [0] = ran (pa_batches (as_acc (?s Resting)))"
    by (simp_all add: run_acc_def)
  from acc_calm_next [OF run_found calm_acc.guard_round [OF this]]
  have 1: "acc_reachable calm_acc (?s (Round [0]))"
    by (simp add: run_acc_def)
  have "as_guard (?s (Round [0])) = Round (0 # [])"
      "\<not> ready_to_send (as_acc (?s (Round [0]))) 0 (as_heap (?s (Round [0])) ! 0) \<or> close_locked (as_heap (?s (Round [0])) ! 0) = None"
    by (simp_all add: run_acc_def ready_to_send_def accumulator_new_def DEFAULT_HOLD_MS_def DEFAULT_HOLD_SIZE_def
        accumulation_new_def word_sless_alt word_sle_eq)
  from acc_calm_next [OF 1 calm_acc.guard_pass [OF this]]
  have 2: "acc_reachable calm_acc (?s (Visited 0 []))"
    by (simp add: run_acc_def)
  have "as_guard (?s (Visited 0 [])) = Visited 0 []"
    by (simp add: run_acc_def)
  from acc_calm_next [OF 2 calm_acc.guard_read [OF this]] show ?thesis
    by (simp add: run_acc_def)
qed

text \<open>
  C39. The guard can lose messages for good. In every state of a run in which the guard has seen a batch empty and in
  which callers have put messages into it since, while the batch is still open, the guard's next step closes it all the
  same, and whatever happens afterwards the batch is neither sent nor answered and none of its callbacks is called.
\<close>

theorem guard_loses_message:
  assumes "acc_reachable acc_step s" and "as_guard s = SeenEmpty nr nrs"
    and "\<not> ac_closed (as_heap s ! nr)" and "cb \<in> set (ac_callbacks (as_heap s ! nr))"
  shows "acc_step s (s\<lparr>as_heap := (as_heap s)[nr := mark_closed (as_heap s ! nr)], as_guard := Marked nr nrs\<rparr>) \<and>
    (\<forall>s'. acc_step\<^sup>*\<^sup>* (s\<lparr>as_heap := (as_heap s)[nr := mark_closed (as_heap s ! nr)], as_guard := Marked nr nrs\<rparr>) s' \<longrightarrow>
       nr \<notin> set (as_sent s') \<union> set (as_done s') \<and> cb \<notin> fst ` set (as_calls s'))"
proof -
  let ?s = "s\<lparr>as_heap := (as_heap s)[nr := mark_closed (as_heap s ! nr)], as_guard := Marked nr nrs\<rparr>"
  note inv = acc_inv_reachable [OF assms(1)]
  have step: "acc_step s ?s"
    by (rule acc_step.mark_late [OF assms(2)])
  have "nr < length (as_heap s)" "nr \<notin> set (as_sent s) \<union> set (as_done s)"
    using inv assms(2,3) by (auto simp: acc_inv_def shape_ok_def dispatched_ok_def)
  then have "lost nr cb ?s"
    using acc_inv_step [OF step inv] assms(4) by (simp add: lost_def mark_closed_def)
  with step show ?thesis
    using lost_forever by blast
qed

text \<open>The guard sees the sample batch empty, its caller appends, the guard closes the batch and takes it off the table.\<close>

definition lost_run :: acc_system where
  "lost_run = run_acc [mark_closed sample_batch] [Appended 0] (Round []) Map.empty"

lemma run_late_append: "acc_reachable calm_acc (run_acc [sample_batch] [Appended 0] (SeenEmpty 0 []) [sample_key \<mapsto> 0])"
proof -
  let ?s = "run_acc [accumulation_new sample_key 0] [Found 0 sample_key sample_stamped 0] (SeenEmpty 0 []) [sample_key \<mapsto> 0]"
  have "as_senders ?s = [] @ Found 0 sample_key sample_stamped 0 # []" "add_async_locked sample_stamped 0 (as_heap ?s ! 0) = Some sample_batch"
    by (simp_all add: run_acc_def sample_add)
  from acc_calm_next [OF run_seen_empty calm_acc.append [OF this]] show ?thesis
    by (simp add: run_acc_def)
qed

lemma lost_run_continues: "acc_step (run_acc [mark_closed sample_batch] [Appended 0] (Marked 0 []) [sample_key \<mapsto> 0]) lost_run"
proof -
  let ?s = "run_acc [mark_closed sample_batch] [Appended 0] (Marked 0 []) [sample_key \<mapsto> 0]"
  have "as_guard ?s = Marked 0 []"
    by (simp add: run_acc_def)
  from acc_step.calm [OF calm_acc.guard_remove [OF this]] show ?thesis
    by (simp add: run_acc_def lost_run_def remove_batch_def accumulator_new_def)
      (simp add: mark_closed_def sample_batch_def accumulation_new_def)
qed

theorem guard_loses_message_witness:
  "acc_reachable acc_step lost_run \<and> ac_messages (as_heap lost_run ! 0) = [sample_stamped] \<and> 0 \<notin> set (as_sent lost_run)
     \<and> (0 :: nat) \<notin> fst ` set (as_calls lost_run)"
proof -
  let ?s = "run_acc [sample_batch] [Appended 0] (SeenEmpty 0 []) [sample_key \<mapsto> 0]"
  have "acc_reachable acc_step ?s" "as_guard ?s = SeenEmpty 0 []" "\<not> ac_closed (as_heap ?s ! 0)" "0 \<in> set (ac_callbacks (as_heap ?s ! 0))"
    using calm_acc_step [OF run_late_append] by (simp_all add: run_acc_def sample_batch_def accumulation_new_def)
  note lost = guard_loses_message [OF this]
  have eq: "?s\<lparr>as_heap := (as_heap ?s)[0 := mark_closed (as_heap ?s ! 0)], as_guard := Marked 0 []\<rparr>
      = run_acc [mark_closed sample_batch] [Appended 0] (Marked 0 []) [sample_key \<mapsto> 0]"
    by (simp add: run_acc_def)
  have "acc_reachable acc_step lost_run"
    using acc_next [OF acc_next [OF calm_acc_step [OF run_late_append] conjunct1 [OF lost, unfolded eq]] lost_run_continues] .
  moreover have "ac_messages (as_heap lost_run ! 0) = [sample_stamped]"
    by (simp add: lost_run_def run_acc_def mark_closed_def sample_batch_def)
  ultimately show ?thesis
    using lost [unfolded eq] r_into_rtranclp [of acc_step, OF lost_run_continues] by blast
qed

definition delayed_send :: "bytes \<Rightarrow> message" where
  "delayed_send body = set_delay_time_level 1 (message_new ''TopicTest'' (Some body))"

lemma delayed_charged:
  assumes "length body = 4194304" and "pa_held a <s pa_total_hold_size a"
  shows "can_batch (delayed_send body) a = (False, a\<lparr>pa_held := pa_held a + 4194304\<rparr>)"
proof -
  have props: "get_property (delayed_send body) key = (if key = PROPERTY_DELAY_TIME_LEVEL then Some (show_signed (1 :: i32)) else None)" for key
  proof -
    have "message_inv (message_new ''TopicTest'' (Some body))"
      by (simp add: message_inv_def message_new_def ext_new_def ext_inv_def)
    then show ?thesis
      by (simp add: delayed_send_def set_delay_time_level_def get_put_property)
        (simp add: get_property_def message_new_def ext_get_def ext_new_def)
  qed
  have "max_delay_value (delayed_send body) = parsed_or_zero (show_signed (1 :: i32))"
    by (simp add: max_delay_value_def TIMER_DELAY_KEYS_def get_delay_time_level_def props PROPERTY_DELAY_TIME_LEVEL_def)
  moreover have "parsed_or_zero (show_signed (1 :: i32)) = 1"
    using parse_show_signed [of "1 :: i64"] by (simp add: parsed_or_zero_def)
  moreover have "msg_len (delayed_send body) = 4194304"
    using assms(1) by (simp add: msg_len_def delayed_send_def set_delay_time_level_def put_property_def message_new_def get_body_def)
  ultimately show ?thesis
    using assms(2) by (simp add: can_batch_def try_add_message_def charge_def word_sless_alt)
qed

text \<open>
  Messages that cannot be batched are charged all the same: eight delayed messages of four MiB each, none of which is
  in a batch, fill the accumulator for good, and no message is batched any more.
\<close>

theorem delayed_messages_fill:
  "\<exists>s. acc_reachable acc_step s \<and> as_heap s = [] \<and> as_senders s = [] \<and> (\<forall>msg. \<not> fst (can_batch msg (as_acc s)))"
proof -
  obtain body :: bytes where body: "length body = 4194304"
    by (rule that [OF length_replicate])
  let ?a = "\<lambda>k. accumulator_new\<lparr>pa_held := of_nat k * 4194304\<rparr>"
  have "acc_reachable acc_step (acc_system_new\<lparr>as_acc := ?a k\<rparr>)" if "k \<le> 8" for k
    using that
  proof (induction k)
    case 0
    then show ?case
      using acc_reachable.init [of acc_step] by (simp add: acc_system_new_def accumulator_new_def)
  next
    case (Suc k)
    then have "k \<in> {0..<8}" by simp
    then have "pa_held (?a k) <s pa_total_hold_size (?a k)"
      by (auto simp: accumulator_new_def DEFAULT_TOTAL_HOLD_SIZE_def word_sless_alt upt_rec [symmetric] atLeastLessThan_def
          lessThan_Suc numeral_eq_Suc less_Suc_eq)
    from acc_next [OF Suc.IH acc_step.alone [of "delayed_send body"]] delayed_charged [OF body this] Suc.prems
    show ?case by (simp add: distrib_right add.commute)
  qed
  from this [of 8] show ?thesis
    by (intro exI [of _ "acc_system_new\<lparr>as_acc := ?a 8\<rparr>"])
      (simp add: acc_system_new_def can_batch_def try_add_message_def accumulator_new_def DEFAULT_TOTAL_HOLD_SIZE_def word_sless_alt)
qed

end
