(* ===== verification/Trace_Codec.thy ===== *)
theory Trace_Codec
  imports Extra_Info
begin

text \<open>
  Trace records, \<open>src/rust/src/client/trace.rs\<close> with the message types of \<open>src/rust/src/common/message_type.rs\<close>: what
  the client writes about its sends and consumptions and how such text is read. A context that \<open>TraceContext::new\<close>
  creates takes its time and request id from the environment, and a new bean the local address; they are arguments.
\<close>

section \<open>Data\<close>

definition CONTENT_SPLITOR :: char where "CONTENT_SPLITOR = CHR 0x01"
definition FIELD_SPLITOR :: char where "FIELD_SPLITOR = CHR 0x02"

datatype trace_type = Pub | Recall | SubBefore | SubAfter | EndTransaction

fun trace_name :: "trace_type \<Rightarrow> string" where
  "trace_name Pub = ''Pub''"
| "trace_name Recall = ''Recall''"
| "trace_name SubBefore = ''SubBefore''"
| "trace_name SubAfter = ''SubAfter''"
| "trace_name EndTransaction = ''EndTransaction''"

definition trace_from_name :: "string \<Rightarrow> trace_type option" where
  "trace_from_name s =
     (if s = ''Pub'' then Some Pub else if s = ''Recall'' then Some Recall else if s = ''SubBefore'' then Some SubBefore
      else if s = ''SubAfter'' then Some SubAfter else if s = ''EndTransaction'' then Some EndTransaction else None)"

datatype access_channel = LocalChannel | Cloud

datatype message_type = NormalMsg | TransMsgHalf | TransMsgCommit | DelayMsg | OrderMsg

fun message_type_value :: "message_type \<Rightarrow> i32" where
  "message_type_value NormalMsg = 0"
| "message_type_value TransMsgHalf = 1"
| "message_type_value TransMsgCommit = 2"
| "message_type_value DelayMsg = 3"
| "message_type_value OrderMsg = 4"

definition message_type_from_value :: "i32 \<Rightarrow> message_type option" where
  "message_type_from_value v =
     (if v = 0 then Some NormalMsg else if v = 1 then Some TransMsgHalf else if v = 2 then Some TransMsgCommit
      else if v = 3 then Some DelayMsg else if v = 4 then Some OrderMsg else None)"

record trace_bean =
  tb_topic :: string
  tb_msg_id :: string
  tb_offset_msg_id :: string
  tb_tags :: string
  tb_keys :: string
  tb_store_host :: string
  tb_client_host :: string
  tb_store_time :: i64
  tb_retry_times :: i32
  tb_body_length :: i32
  tb_msg_type :: message_type
  tb_transaction_state :: "string option"
  tb_transaction_id :: "string option"
  tb_from_transaction_check :: bool

definition trace_bean_new :: "string \<Rightarrow> trace_bean" where
  "trace_bean_new local_address = \<lparr>tb_topic = [], tb_msg_id = [], tb_offset_msg_id = [], tb_tags = [], tb_keys = [],
     tb_store_host = local_address, tb_client_host = local_address, tb_store_time = 0, tb_retry_times = 0, tb_body_length = 0,
     tb_msg_type = NormalMsg, tb_transaction_state = None, tb_transaction_id = None, tb_from_transaction_check = False\<rparr>"

record trace_context =
  tc_trace_type :: "trace_type option"
  tc_time_stamp :: i64
  tc_region_id :: string
  tc_region_name :: string
  tc_group_name :: string
  tc_cost_time :: i32
  tc_is_success :: bool
  tc_request_id :: string
  tc_context_code :: i32
  tc_access_channel :: "access_channel option"
  tc_trace_beans :: "trace_bean list"

text \<open>What a decoder call finds around it: the clock, the id generator and the local address.\<close>

record trace_env =
  te_now :: i64
  te_uniq_id :: string
  te_local_address :: string

definition trace_context_new :: "trace_env \<Rightarrow> trace_context" where
  "trace_context_new env = \<lparr>tc_trace_type = None, tc_time_stamp = te_now env, tc_region_id = [], tc_region_name = [],
     tc_group_name = [], tc_cost_time = 0, tc_is_success = True, tc_request_id = te_uniq_id env, tc_context_code = 0,
     tc_access_channel = None, tc_trace_beans = []\<rparr>"

section \<open>Reading\<close>

definition java_split :: "string \<Rightarrow> char \<Rightarrow> string list" where
  "java_split v sep = split_drop_trailing v sep"

definition trace_field :: "string list \<Rightarrow> nat \<Rightarrow> string result" where
  "trace_field line i = (if i < length line then Inr (line ! i)
     else fail (Decode (''trace field index '' @ show_nat i @ '' missing (only '' @ show_nat (length line) @ '' parts)'')))"

definition opt_field :: "string list \<Rightarrow> nat \<Rightarrow> string option" where
  "opt_field line i = (if i < length line then Some (line ! i) else None)"

definition parse_long :: "string list \<Rightarrow> nat \<Rightarrow> i64 result" where
  "parse_long line i = bind_result (trace_field line i) (\<lambda>raw.
     ok_or (parse_i64 raw) (Decode (''trace field '' @ show_nat i @ ''='' @ str_debug raw @ '' is not a long: '')))"

definition parse_trace_int :: "string list \<Rightarrow> nat \<Rightarrow> i32 result" where
  "parse_trace_int line i = bind_result (trace_field line i) (\<lambda>raw.
     ok_or (parse_i32 raw) (Decode (''trace field '' @ show_nat i @ ''='' @ str_debug raw @ '' is not an int: '')))"

definition parse_bool :: "string list \<Rightarrow> nat \<Rightarrow> bool result" where
  "parse_bool line i = bind_result (trace_field line i) (\<lambda>raw. Inr (raw = ''true''))"

definition parse_msg_type :: "string list \<Rightarrow> nat \<Rightarrow> message_type result" where
  "parse_msg_type line i = bind_result (parse_trace_int line i) (\<lambda>ordinal.
     ok_or (message_type_from_value ordinal) (Decode (''trace msgType '' @ show_signed ordinal @ '' out of MessageType range'')))"

definition decode_pub :: "trace_env \<Rightarrow> string list \<Rightarrow> trace_context result" where
  "decode_pub env line =
     (let ctx = (trace_context_new env)\<lparr>tc_trace_type := Some Pub\<rparr>; bean = trace_bean_new (te_local_address env)
      in bind_result (parse_long line 1) (\<lambda>time_stamp.
         bind_result (trace_field line 2) (\<lambda>region_id.
         bind_result (trace_field line 3) (\<lambda>group_name.
         bind_result (trace_field line 4) (\<lambda>topic.
         bind_result (trace_field line 5) (\<lambda>msg_id.
         bind_result (trace_field line 6) (\<lambda>tags.
         bind_result (trace_field line 7) (\<lambda>keys.
         bind_result (trace_field line 8) (\<lambda>store_host.
         bind_result (parse_trace_int line 9) (\<lambda>body_length.
         bind_result (parse_trace_int line 10) (\<lambda>cost_time.
         bind_result (parse_msg_type line 11) (\<lambda>msg_type.
         let ctx = ctx\<lparr>tc_time_stamp := time_stamp, tc_region_id := region_id, tc_group_name := group_name,
               tc_cost_time := cost_time\<rparr>;
             bean = bean\<lparr>tb_topic := topic, tb_msg_id := msg_id, tb_tags := tags, tb_keys := keys, tb_store_host := store_host,
               tb_body_length := body_length, tb_msg_type := msg_type\<rparr>
         in if length line = 13
            then bind_result (parse_bool line 12) (\<lambda>ok. Inr (ctx\<lparr>tc_is_success := ok, tc_trace_beans := [bean]\<rparr>))
            else if length line = 14
            then bind_result (trace_field line 12) (\<lambda>offset_msg_id.
                 bind_result (parse_bool line 13) (\<lambda>ok.
                 Inr (ctx\<lparr>tc_is_success := ok, tc_trace_beans := [bean\<lparr>tb_offset_msg_id := offset_msg_id\<rparr>]\<rparr>)))
            else if 15 \<le> length line
            then bind_result (trace_field line 12) (\<lambda>offset_msg_id.
                 bind_result (parse_bool line 13) (\<lambda>ok.
                 bind_result (trace_field line 14) (\<lambda>client_host.
                 Inr (ctx\<lparr>tc_is_success := ok,
                   tc_trace_beans := [bean\<lparr>tb_offset_msg_id := offset_msg_id, tb_client_host := client_host\<rparr>]\<rparr>))))
            else Inr (ctx\<lparr>tc_trace_beans := [bean]\<rparr>)))))))))))))"

definition decode_sub_before :: "trace_env \<Rightarrow> string list \<Rightarrow> trace_context result" where
  "decode_sub_before env line =
     bind_result (parse_long line 1) (\<lambda>time_stamp.
     bind_result (trace_field line 2) (\<lambda>region_id.
     bind_result (trace_field line 3) (\<lambda>group_name.
     bind_result (trace_field line 4) (\<lambda>request_id.
     bind_result (trace_field line 5) (\<lambda>msg_id.
     bind_result (parse_trace_int line 6) (\<lambda>retry_times.
     Inr ((trace_context_new env)\<lparr>tc_trace_type := Some SubBefore, tc_time_stamp := time_stamp, tc_region_id := region_id,
       tc_group_name := group_name, tc_request_id := request_id,
       tc_trace_beans := [(trace_bean_new (te_local_address env))\<lparr>tb_msg_id := msg_id, tb_retry_times := retry_times,
         tb_keys := (case opt_field line 7 of Some keys \<Rightarrow> keys | None \<Rightarrow> [])\<rparr>]\<rparr>)))))))"

definition decode_sub_after :: "trace_env \<Rightarrow> string list \<Rightarrow> trace_context result" where
  "decode_sub_after env line =
     bind_result (trace_field line 1) (\<lambda>request_id.
     bind_result (trace_field line 2) (\<lambda>msg_id.
     bind_result (trace_field line 5) (\<lambda>keys.
     bind_result (parse_trace_int line 3) (\<lambda>cost_time.
     bind_result (parse_bool line 4) (\<lambda>ok.
     bind_result (if 7 \<le> length line then parse_trace_int line 6 else Inr 0) (\<lambda>context_code.
     bind_result (if 9 \<le> length line then parse_long line 7 else Inr (te_now env)) (\<lambda>time_stamp.
     bind_result (if 9 \<le> length line then trace_field line 8 else Inr []) (\<lambda>group_name.
     Inr ((trace_context_new env)\<lparr>tc_trace_type := Some SubAfter, tc_request_id := request_id, tc_cost_time := cost_time,
       tc_is_success := ok, tc_context_code := context_code, tc_time_stamp := time_stamp, tc_group_name := group_name,
       tc_trace_beans := [(trace_bean_new (te_local_address env))\<lparr>tb_msg_id := msg_id, tb_keys := keys\<rparr>]\<rparr>)))))))))"

definition decode_end_transaction :: "trace_env \<Rightarrow> string list \<Rightarrow> trace_context result" where
  "decode_end_transaction env line =
     bind_result (parse_long line 1) (\<lambda>time_stamp.
     bind_result (trace_field line 2) (\<lambda>region_id.
     bind_result (trace_field line 3) (\<lambda>group_name.
     bind_result (trace_field line 4) (\<lambda>topic.
     bind_result (trace_field line 5) (\<lambda>msg_id.
     bind_result (trace_field line 6) (\<lambda>tags.
     bind_result (trace_field line 7) (\<lambda>keys.
     bind_result (trace_field line 8) (\<lambda>store_host.
     bind_result (parse_msg_type line 9) (\<lambda>msg_type.
     bind_result (trace_field line 10) (\<lambda>transaction_id.
     bind_result (trace_field line 11) (\<lambda>transaction_state.
     bind_result (parse_bool line 12) (\<lambda>checked.
     Inr ((trace_context_new env)\<lparr>tc_trace_type := Some EndTransaction, tc_time_stamp := time_stamp, tc_region_id := region_id,
       tc_group_name := group_name,
       tc_trace_beans := [(trace_bean_new (te_local_address env))\<lparr>tb_topic := topic, tb_msg_id := msg_id, tb_tags := tags,
         tb_keys := keys, tb_store_host := store_host, tb_msg_type := msg_type, tb_transaction_id := Some transaction_id,
         tb_transaction_state := Some transaction_state, tb_from_transaction_check := checked\<rparr>]\<rparr>)))))))))))))"

definition decode_recall :: "trace_env \<Rightarrow> string list \<Rightarrow> trace_context result" where
  "decode_recall env line =
     bind_result (parse_long line 1) (\<lambda>time_stamp.
     bind_result (trace_field line 2) (\<lambda>region_id.
     bind_result (trace_field line 3) (\<lambda>group_name.
     bind_result (trace_field line 4) (\<lambda>topic.
     bind_result (trace_field line 5) (\<lambda>msg_id.
     bind_result (parse_bool line 6) (\<lambda>ok.
     Inr ((trace_context_new env)\<lparr>tc_trace_type := Some Recall, tc_time_stamp := time_stamp, tc_region_id := region_id,
       tc_group_name := group_name, tc_is_success := ok,
       tc_trace_beans := [(trace_bean_new (te_local_address env))\<lparr>tb_topic := topic, tb_msg_id := msg_id\<rparr>]\<rparr>)))))))"

fun decode_kind :: "trace_type \<Rightarrow> trace_env \<Rightarrow> string list \<Rightarrow> trace_context result" where
  "decode_kind Pub = decode_pub"
| "decode_kind SubBefore = decode_sub_before"
| "decode_kind SubAfter = decode_sub_after"
| "decode_kind EndTransaction = decode_end_transaction"
| "decode_kind Recall = decode_recall"

definition decode_trace_context :: "trace_env \<Rightarrow> string \<Rightarrow> trace_context option result" where
  "decode_trace_context env context =
     (case java_split context CONTENT_SPLITOR of
        [] \<Rightarrow> Inr None
      | name # rest \<Rightarrow>
          (case trace_from_name name of
             None \<Rightarrow> Inr None
           | Some kind \<Rightarrow> bind_result (decode_kind kind env (name # rest)) (\<lambda>ctx. Inr (Some ctx))))"

text \<open>The environment of the \<open>i\<close>th record; records that cannot be read are skipped with a warning.\<close>

fun decode_records :: "(nat \<Rightarrow> trace_env) \<Rightarrow> nat \<Rightarrow> string list \<Rightarrow> trace_context list" where
  "decode_records env i [] = []"
| "decode_records env i (context # contexts) =
     (if context = [] then []
      else case decode_trace_context (env i) context of Inr (Some ctx) \<Rightarrow> [ctx] | _ \<Rightarrow> []) @ decode_records env (Suc i) contexts"

definition decoder_from_trace_data_string :: "(nat \<Rightarrow> trace_env) \<Rightarrow> string option \<Rightarrow> trace_context list" where
  "decoder_from_trace_data_string env trace_data = (case trace_data of
       None \<Rightarrow> []
     | Some v \<Rightarrow> if v = [] then [] else decode_records env 0 (java_split v FIELD_SPLITOR))"

section \<open>Writing\<close>

definition join_record :: "string list \<Rightarrow> string" where
  "join_record fs = str_join [CONTENT_SPLITOR] fs @ [FIELD_SPLITOR]"

definition bool_str :: "bool \<Rightarrow> string" where
  "bool_str b = (if b then ''true'' else ''false'')"

record trace_transfer_bean =
  tt_trans_data :: string
  tt_trans_key :: "string set"

definition or_empty :: "string option \<Rightarrow> string" where
  "or_empty v = (case v of Some s \<Rightarrow> s | None \<Rightarrow> [])"

definition access_channel_or_local :: "trace_context \<Rightarrow> access_channel" where
  "access_channel_or_local ctx = (case tc_access_channel ctx of Some ch \<Rightarrow> ch | None \<Rightarrow> LocalChannel)"

text \<open>The fields of one record.\<close>

fun trace_fields :: "trace_type \<Rightarrow> trace_context \<Rightarrow> trace_bean \<Rightarrow> string list" where
  "trace_fields Pub ctx bean =
     [trace_name Pub, show_signed (tc_time_stamp ctx), tc_region_id ctx, tc_group_name ctx, tb_topic bean, tb_msg_id bean,
      tb_tags bean, tb_keys bean, tb_store_host bean, show_signed (tb_body_length bean), show_signed (tc_cost_time ctx),
      show_signed (message_type_value (tb_msg_type bean)), tb_offset_msg_id bean, bool_str (tc_is_success ctx)]"
| "trace_fields SubBefore ctx bean =
     [trace_name SubBefore, show_signed (tc_time_stamp ctx), tc_region_id ctx, tc_group_name ctx, tc_request_id ctx,
      tb_msg_id bean, show_signed (tb_retry_times bean), tb_keys bean]"
| "trace_fields SubAfter ctx bean =
     [trace_name SubAfter, tc_request_id ctx, tb_msg_id bean, show_signed (tc_cost_time ctx), bool_str (tc_is_success ctx),
      tb_keys bean, show_signed (tc_context_code ctx)]
     @ (if access_channel_or_local ctx \<noteq> Cloud
        then [show_signed (tc_time_stamp ctx), tc_group_name ctx] else [])"
| "trace_fields EndTransaction ctx bean =
     [trace_name EndTransaction, show_signed (tc_time_stamp ctx), tc_region_id ctx, tc_group_name ctx, tb_topic bean,
      tb_msg_id bean, tb_tags bean, tb_keys bean, tb_store_host bean, show_signed (message_type_value (tb_msg_type bean)),
      or_empty (tb_transaction_id bean), or_empty (tb_transaction_state bean), bool_str (tb_from_transaction_check bean)]"
| "trace_fields Recall ctx bean =
     [trace_name Recall, show_signed (tc_time_stamp ctx), tc_region_id ctx, tc_group_name ctx, tb_topic bean, tb_msg_id bean,
      bool_str (tc_is_success ctx)]"

definition written_beans :: "trace_type \<Rightarrow> trace_context \<Rightarrow> trace_bean list" where
  "written_beans kind ctx = (if kind = SubBefore \<or> kind = SubAfter then tc_trace_beans ctx else take 1 (tc_trace_beans ctx))"

definition bean_keys :: "trace_bean \<Rightarrow> string set" where
  "bean_keys bean = insert (tb_msg_id bean) (if tb_keys bean = [] then {} else set (str_split CHR '' '' (tb_keys bean)))"

definition encoder_from_context_bean :: "trace_context option \<Rightarrow> trace_transfer_bean option" where
  "encoder_from_context_bean ctx = map_option (\<lambda>ctx.
     \<lparr>tt_trans_data = (case tc_trace_type ctx of
          None \<Rightarrow> []
        | Some kind \<Rightarrow> concat (map (\<lambda>bean. join_record (trace_fields kind ctx bean)) (written_beans kind ctx))),
      tt_trans_key = \<Union> (bean_keys ` set (tc_trace_beans ctx))\<rparr>) ctx"

section \<open>Records are read back\<close>

text \<open>What a record carries of a context and its bean.\<close>

fun carried_context :: "trace_env \<Rightarrow> trace_type \<times> trace_context \<times> trace_bean \<Rightarrow> trace_context" where
  "carried_context env (Pub, ctx, bean) =
     (trace_context_new env)\<lparr>tc_trace_type := Some Pub, tc_time_stamp := tc_time_stamp ctx, tc_region_id := tc_region_id ctx,
       tc_group_name := tc_group_name ctx, tc_cost_time := tc_cost_time ctx, tc_is_success := tc_is_success ctx,
       tc_trace_beans := [(trace_bean_new (te_local_address env))\<lparr>tb_topic := tb_topic bean, tb_msg_id := tb_msg_id bean,
         tb_tags := tb_tags bean, tb_keys := tb_keys bean, tb_store_host := tb_store_host bean,
         tb_body_length := tb_body_length bean, tb_msg_type := tb_msg_type bean, tb_offset_msg_id := tb_offset_msg_id bean\<rparr>]\<rparr>"
| "carried_context env (SubBefore, ctx, bean) =
     (trace_context_new env)\<lparr>tc_trace_type := Some SubBefore, tc_time_stamp := tc_time_stamp ctx, tc_region_id := tc_region_id ctx,
       tc_group_name := tc_group_name ctx, tc_request_id := tc_request_id ctx,
       tc_trace_beans := [(trace_bean_new (te_local_address env))\<lparr>tb_msg_id := tb_msg_id bean,
         tb_retry_times := tb_retry_times bean, tb_keys := tb_keys bean\<rparr>]\<rparr>"
| "carried_context env (SubAfter, ctx, bean) =
     (trace_context_new env)\<lparr>tc_trace_type := Some SubAfter, tc_request_id := tc_request_id ctx, tc_cost_time := tc_cost_time ctx,
       tc_is_success := tc_is_success ctx, tc_context_code := tc_context_code ctx,
       tc_time_stamp := (if access_channel_or_local ctx = Cloud then te_now env else tc_time_stamp ctx),
       tc_group_name := (if access_channel_or_local ctx = Cloud then [] else tc_group_name ctx),
       tc_trace_beans := [(trace_bean_new (te_local_address env))\<lparr>tb_msg_id := tb_msg_id bean, tb_keys := tb_keys bean\<rparr>]\<rparr>"
| "carried_context env (EndTransaction, ctx, bean) =
     (trace_context_new env)\<lparr>tc_trace_type := Some EndTransaction, tc_time_stamp := tc_time_stamp ctx,
       tc_region_id := tc_region_id ctx, tc_group_name := tc_group_name ctx,
       tc_trace_beans := [(trace_bean_new (te_local_address env))\<lparr>tb_topic := tb_topic bean, tb_msg_id := tb_msg_id bean,
         tb_tags := tb_tags bean, tb_keys := tb_keys bean, tb_store_host := tb_store_host bean, tb_msg_type := tb_msg_type bean,
         tb_transaction_id := Some (or_empty (tb_transaction_id bean)),
         tb_transaction_state := Some (or_empty (tb_transaction_state bean)),
         tb_from_transaction_check := tb_from_transaction_check bean\<rparr>]\<rparr>"
| "carried_context env (Recall, ctx, bean) =
     (trace_context_new env)\<lparr>tc_trace_type := Some Recall, tc_time_stamp := tc_time_stamp ctx, tc_region_id := tc_region_id ctx,
       tc_group_name := tc_group_name ctx, tc_is_success := tc_is_success ctx,
       tc_trace_beans := [(trace_bean_new (te_local_address env))\<lparr>tb_topic := tb_topic bean, tb_msg_id := tb_msg_id bean\<rparr>]\<rparr>"

definition trace_rows :: "trace_context \<Rightarrow> (trace_type \<times> trace_context \<times> trace_bean) list" where
  "trace_rows ctx = (case tc_trace_type ctx of
     None \<Rightarrow> [] | Some kind \<Rightarrow> map (\<lambda>bean. (kind, ctx, bean)) (written_beans kind ctx))"

definition row_texts :: "trace_context \<Rightarrow> trace_bean \<Rightarrow> string list" where
  "row_texts ctx bean = [tc_region_id ctx, tc_group_name ctx, tc_request_id ctx, tb_topic bean, tb_msg_id bean, tb_tags bean,
     tb_keys bean, tb_store_host bean, tb_offset_msg_id bean, or_empty (tb_transaction_id bean),
     or_empty (tb_transaction_state bean)]"

text \<open>Texts are free of the separators, and the group, which ends a record after a consumption, is not empty.\<close>

definition row_ok :: "trace_type \<times> trace_context \<times> trace_bean \<Rightarrow> bool" where
  "row_ok row \<longleftrightarrow> (case row of (kind, ctx, bean) \<Rightarrow>
     (\<forall>s \<in> set (row_texts ctx bean). CONTENT_SPLITOR \<notin> set s \<and> FIELD_SPLITOR \<notin> set s)
     \<and> (kind = SubAfter \<longrightarrow> tc_group_name ctx \<noteq> []))"

lemma splitors_free:
  "CONTENT_SPLITOR \<notin> set (show_int i)" "FIELD_SPLITOR \<notin> set (show_int i)"
  "CONTENT_SPLITOR \<notin> set (bool_str b)" "FIELD_SPLITOR \<notin> set (bool_str b)"
  "CONTENT_SPLITOR \<notin> set (trace_name k)" "FIELD_SPLITOR \<notin> set (trace_name k)"
  by (simp_all add: show_int_free CONTENT_SPLITOR_def FIELD_SPLITOR_def is_digit_def bool_str_def)
    (cases k; simp)+

lemma row_fields_free:
  assumes "row_ok (kind, ctx, bean)"
  shows "\<forall>f \<in> set (trace_fields kind ctx bean). CONTENT_SPLITOR \<notin> set f \<and> FIELD_SPLITOR \<notin> set f"
  using assms by (cases kind; cases "access_channel_or_local ctx = Cloud")
    (simp_all add: row_ok_def row_texts_def splitors_free del: trace_name.simps)

lemma message_type_round_trip: "message_type_from_value (message_type_value t) = Some t"
  by (cases t) (simp_all add: message_type_from_value_def)

lemma bool_str_simps [simp]: "bool_str b \<noteq> []" "bool_str b = ''true'' \<longleftrightarrow> b"
  by (simp_all add: bool_str_def)

lemmas trace_decoding = trace_field_def opt_field_def parse_long_def parse_trace_int_def parse_bool_def parse_msg_type_def
  message_type_round_trip

lemma decode_fields:
  "decode_kind Pub env (trace_fields Pub ctx bean) = Inr (carried_context env (Pub, ctx, bean))"
  "decode_kind SubBefore env (trace_fields SubBefore ctx bean) = Inr (carried_context env (SubBefore, ctx, bean))"
  "decode_kind SubAfter env (trace_fields SubAfter ctx bean) = Inr (carried_context env (SubAfter, ctx, bean))"
  "decode_kind EndTransaction env (trace_fields EndTransaction ctx bean) = Inr (carried_context env (EndTransaction, ctx, bean))"
  "decode_kind Recall env (trace_fields Recall ctx bean) = Inr (carried_context env (Recall, ctx, bean))"
      apply (simp add: decode_pub_def trace_decoding Let_def)
     apply (simp add: decode_sub_before_def trace_decoding)
    apply (simp add: decode_sub_after_def trace_decoding)
   apply (simp add: decode_end_transaction_def trace_decoding)
  apply (simp add: decode_recall_def trace_decoding)
  done

lemma trace_name_from [simp]: "trace_from_name (trace_name k) = Some k"
  by (cases k) (simp_all add: trace_from_name_def)

lemma decode_named: "decode_trace_context env context = Inr (Some ctx)"
  if "java_split context CONTENT_SPLITOR = trace_name kind # rest" and "decode_kind kind env (trace_name kind # rest) = Inr ctx"
  using that by (simp add: decode_trace_context_def)

text \<open>A record before a consumption ends with the keys, which may be empty.\<close>

lemma decode_sub_before_short:
  "decode_kind SubBefore env (butlast (trace_fields SubBefore ctx bean)) = Inr (carried_context env (SubBefore, ctx, bean))"
  if "tb_keys bean = []"
  using that by (simp add: decode_sub_before_def trace_decoding)

lemma decode_row:
  assumes "row_ok (kind, ctx, bean)"
  shows "decode_trace_context env (str_join [CONTENT_SPLITOR] (trace_fields kind ctx bean)) = Inr (Some (carried_context env (kind, ctx, bean)))"
proof -
  let ?fs = "trace_fields kind ctx bean"
  have fs: "?fs = trace_name kind # tl ?fs" "butlast ?fs = trace_name kind # tl (butlast ?fs)"
    by (cases kind; simp)+
  have split: "str_split CONTENT_SPLITOR (str_join [CONTENT_SPLITOR] ?fs) = ?fs"
    using row_fields_free [OF assms] fs(1) by (intro str_split_join) (metis list.distinct(1), blast)
  show ?thesis
  proof (cases "kind = SubBefore \<and> tb_keys bean = []")
    case True
    then have "java_split (str_join [CONTENT_SPLITOR] ?fs) CONTENT_SPLITOR = butlast ?fs"
      unfolding java_split_def split_drop_trailing_def split by simp
    then show ?thesis
      using True fs(2) decode_sub_before_short [of bean env ctx] by (intro decode_named [of _ kind "tl (butlast ?fs)"]) simp_all
  next
    case False
    then have "List.last ?fs \<noteq> []"
      using assms by (cases kind) (simp_all add: row_ok_def)
    then have "java_split (str_join [CONTENT_SPLITOR] ?fs) CONTENT_SPLITOR = ?fs"
      unfolding java_split_def using row_fields_free [OF assms] fs(1) by (intro split_drop_trailing_join) (metis list.distinct(1), simp_all)
    then show ?thesis
      using fs(1) decode_fields [of env ctx bean] by (intro decode_named [of _ kind "tl ?fs"]) (simp, cases kind, simp_all)
  qed
qed

lemma record_not_empty: "str_join [CONTENT_SPLITOR] (trace_fields kind ctx bean) \<noteq> []"
  by (cases kind) simp_all

abbreviation row_text :: "trace_type \<times> trace_context \<times> trace_bean \<Rightarrow> string" where
  "row_text row \<equiv> str_join [CONTENT_SPLITOR] (trace_fields (fst row) (fst (snd row)) (snd (snd row)))"

lemma decode_rows:
  "\<forall>row \<in> set rows. row_ok row \<Longrightarrow>
   decode_records env i (map row_text rows) = map (\<lambda>(j, row). carried_context (env j) row) (enumerate i rows)"
proof (induction rows arbitrary: i)
  case (Cons row rows)
  then show ?case
    by (cases row) (simp add: record_not_empty decode_row)
qed simp

definition trace_text :: "trace_context \<Rightarrow> string" where
  "trace_text ctx = (case encoder_from_context_bean (Some ctx) of Some tb \<Rightarrow> tt_trans_data tb | None \<Rightarrow> [])"

lemma trace_text_rows: "trace_text ctx = concat (map (\<lambda>row. row_text row @ [FIELD_SPLITOR]) (trace_rows ctx))"
  by (auto simp: trace_text_def encoder_from_context_bean_def trace_rows_def join_record_def comp_def split: option.split)

lemma trace_data_read_back:
  assumes "\<forall>row \<in> set (concat (map trace_rows ctxs)). row_ok row"
  shows "decoder_from_trace_data_string env (Some (concat (map trace_text ctxs)))
     = map (\<lambda>(i, row). carried_context (env i) row) (enumerate 0 (concat (map trace_rows ctxs)))"
proof -
  let ?rows = "concat (map trace_rows ctxs)"
  have flat: "concat (map trace_text ctxs) = concat (map (\<lambda>row. row_text row @ [FIELD_SPLITOR]) ?rows)"
    by (induction ctxs) (simp_all add: trace_text_rows)
  have "FIELD_SPLITOR \<notin> set (row_text row)" if "row \<in> set ?rows" for row
    using that assms row_fields_free [of "fst row" "fst (snd row)" "snd (snd row)"]
    by (intro str_join_free) (auto simp: CONTENT_SPLITOR_def FIELD_SPLITOR_def)
  then have "str_split FIELD_SPLITOR (concat (map trace_text ctxs)) = map row_text ?rows @ [[]]"
    unfolding flat by (intro str_split_lines) blast
  moreover have "rev (dropWhile (\<lambda>p. p = []) (rev (map row_text rows @ [[]]))) = map row_text rows" for rows
    using record_not_empty by (cases rows rule: rev_cases) simp_all
  ultimately have "java_split (concat (map trace_text ctxs)) FIELD_SPLITOR = map row_text ?rows"
    by (simp add: java_split_def split_drop_trailing_def)
  moreover have "decode_records env 0 (map row_text ?rows) = []" if "concat (map trace_text ctxs) = []"
  proof -
    have "rows = []" if "concat (map (\<lambda>row. row_text row @ [FIELD_SPLITOR]) rows) = []" for rows
      using that by (cases rows) simp_all
    from this [OF that [unfolded flat]] show ?thesis by (simp only: list.map decode_records.simps)
  qed
  ultimately show ?thesis
    using decode_rows [OF assms, of env 0] unfolding decoder_from_trace_data_string_def option.case by (metis (no_types, lifting))
qed

text \<open>
  C18. The trace data of any sequence of contexts, written one after the other, is read back record by record with the
  fields that the records carry, when the texts are free of the two separators and no group is empty.
\<close>

theorem trace_round_trip:
  assumes "\<forall>row \<in> set (concat (map trace_rows ctxs)). row_ok row"
  shows "decoder_from_trace_data_string env (Some (concat (map trace_text ctxs)))
     = map (\<lambda>(i, row). carried_context (env i) row) (enumerate 0 (concat (map trace_rows ctxs)))"
  using assms by (rule trace_data_read_back)

definition sample_context :: trace_context where
  "sample_context = (trace_context_new \<lparr>te_now = 1700, te_uniq_id = ''R1'', te_local_address = ''10.0.0.1''\<rparr>)
     \<lparr>tc_trace_type := Some SubBefore, tc_group_name := ''g'',
      tc_trace_beans := [(trace_bean_new ''10.0.0.1'')\<lparr>tb_msg_id := ''A1'', tb_keys := ''k''\<rparr>,
        (trace_bean_new ''10.0.0.1'')\<lparr>tb_msg_id := ''B2''\<rparr>]\<rparr>"

definition sample_env :: "nat \<Rightarrow> trace_env" where
  "sample_env i = \<lparr>te_now = 9, te_uniq_id = ''U'', te_local_address = ''10.0.0.2''\<rparr>"

theorem trace_round_trip_witness:
  "map (\<lambda>ctx. map tb_msg_id (tc_trace_beans ctx)) (decoder_from_trace_data_string sample_env (Some (concat (map trace_text [sample_context]))))
     = [[''A1''], [''B2'']]"
proof -
  have rows: "trace_rows sample_context = map (\<lambda>bean. (SubBefore, sample_context, bean)) (tc_trace_beans sample_context)"
    by (simp add: trace_rows_def sample_context_def written_beans_def)
  have "\<forall>row \<in> set (concat (map trace_rows [sample_context])). row_ok row"
    by (simp add: rows row_ok_def row_texts_def)
      (simp add: sample_context_def trace_context_new_def trace_bean_new_def or_empty_def CONTENT_SPLITOR_def FIELD_SPLITOR_def)
  from trace_round_trip [OF this, of sample_env] show ?thesis
    by (simp add: rows) (simp add: sample_context_def)
qed

end
