(* ===== verification/Trace_Dispatcher.thy ===== *)
theory Trace_Dispatcher
  imports Trace_Codec Message "HOL-Library.Multiset"
begin

text \<open>
  The dispatcher of trace records, \<open>src/rust/src/client/trace_dispatcher.rs\<close>: the bounded queue of contexts, the batches
  that a flush takes from it, the groups of a batch, and the messages into which a group is cut. The producer that sends
  the messages and the clock are arguments or left out.
\<close>

section \<open>Queue and batches\<close>

record dispatcher =
  td_queue :: "trace_context list"
  td_queue_capacity :: nat
  td_batch_num :: nat
  td_max_msg_size :: nat
  td_flush_interval :: i64
  td_last_flush_time :: i64
  td_discard_count :: u64
  td_trace_topic_name :: string
  td_access_channel :: access_channel

text \<open>\<open>append\<close>: a full queue discards the context and counts it.\<close>

definition trace_append :: "trace_context \<Rightarrow> dispatcher \<Rightarrow> bool \<times> dispatcher" where
  "trace_append ctx d =
     (if td_queue_capacity d \<le> length (td_queue d) then (False, d\<lparr>td_discard_count := td_discard_count d + 1\<rparr>)
      else (True, d\<lparr>td_queue := td_queue d @ [ctx]\<rparr>))"

text \<open>The batch that is handed to a send task, and the dispatcher after it.\<close>

definition flush_trace_context :: "bool \<Rightarrow> i64 \<Rightarrow> dispatcher \<Rightarrow> trace_context list \<times> dispatcher" where
  "flush_trace_context force now d =
     (if td_queue d \<noteq> [] \<and> (force \<or> td_batch_num d \<le> length (td_queue d) \<or> td_flush_interval d <s now - td_last_flush_time d)
      then let batch = take (td_batch_num d) (td_queue d);
               d = d\<lparr>td_queue := drop (td_batch_num d) (td_queue d)\<rparr>
           in (batch, if batch = [] then d else d\<lparr>td_last_flush_time := now\<rparr>)
      else ([], d))"

text \<open>\<open>flush\<close>: batches until the queue is empty or a round takes nothing; \<open>now i\<close> is the clock in round \<open>i\<close>.\<close>

function flush_all :: "(nat \<Rightarrow> i64) \<Rightarrow> nat \<Rightarrow> dispatcher \<Rightarrow> trace_context list list \<times> dispatcher" where
  "flush_all now i d =
     (if td_queue d = [] then ([], d)
      else let (batch, d') = flush_trace_context True (now i) d
           in if batch = [] then ([], d')
              else let (batches, d'') = flush_all now (Suc i) d' in (batch # batches, d''))"
  by pat_completeness auto
termination
  by (relation "measure (\<lambda>(now, i, d). length (td_queue d))")
    (auto simp: flush_trace_context_def Let_def split: if_splits)

declare flush_all.simps [simp del]

section \<open>Groups and messages\<close>

definition TRACE_TOPIC_PREFIX :: string where "TRACE_TOPIC_PREFIX = ''rmq_sys_TRACE_DATA_''"

text \<open>The topic that a context is sent to and the key of its group; contexts without region or beans are skipped.\<close>

definition trace_topic_of :: "dispatcher \<Rightarrow> trace_context \<Rightarrow> string" where
  "trace_topic_of d ctx =
     (if (case tc_access_channel ctx of Some ch \<Rightarrow> ch | None \<Rightarrow> td_access_channel d) = Cloud
      then TRACE_TOPIC_PREFIX @ tc_region_id ctx else td_trace_topic_name d)"

definition keeps_context :: "trace_context \<Rightarrow> bool" where
  "keeps_context ctx \<longleftrightarrow> tc_region_id ctx \<noteq> [] \<and> tc_trace_beans ctx \<noteq> []"

definition trace_group_key :: "dispatcher \<Rightarrow> trace_context \<Rightarrow> string" where
  "trace_group_key d ctx = tb_topic (hd (tc_trace_beans ctx)) @ [CONTENT_SPLITOR] @ trace_topic_of d ctx"

fun group_add :: "string \<Rightarrow> 'a \<Rightarrow> (string \<times> 'a list) list \<Rightarrow> (string \<times> 'a list) list" where
  "group_add key x [] = [(key, [x])]"
| "group_add key x ((k, xs) # groups) = (if k = key then (k, xs @ [x]) # groups else (k, xs) # group_add key x groups)"

definition keyed_bean :: "dispatcher \<Rightarrow> trace_context \<Rightarrow> (string \<times> trace_transfer_bean) option" where
  "keyed_bean d ctx = (if keeps_context ctx
     then map_option (\<lambda>bean. (trace_group_key d ctx, bean)) (encoder_from_context_bean (Some ctx)) else None)"

definition trace_groups :: "dispatcher \<Rightarrow> trace_context list \<Rightarrow> (string \<times> trace_transfer_bean list) list" where
  "trace_groups d ctxs = fold (\<lambda>(key, bean). group_add key bean) (List.map_filter (keyed_bean d) ctxs) []"

text \<open>A group is cut after the record with which it reaches the limit, counted in characters.\<close>

fun chunk_beans :: "nat \<Rightarrow> string set \<Rightarrow> string \<Rightarrow> nat \<Rightarrow> nat \<Rightarrow> trace_transfer_bean list \<Rightarrow> (string set \<times> string) list" where
  "chunk_beans limit key_set buffer chars n [] = (if 0 < n then [(key_set, buffer)] else [])"
| "chunk_beans limit key_set buffer chars n (bean # beans) =
     (let key_set = key_set \<union> tt_trans_key bean;
          chars = chars + length (str_chars (tt_trans_data bean));
          buffer = buffer @ tt_trans_data bean
      in if limit \<le> chars then (key_set, buffer) # chunk_beans limit {} [] 0 0 beans
         else chunk_beans limit key_set buffer chars (n + 1) beans)"

definition trace_message :: "string \<Rightarrow> string set \<times> string \<Rightarrow> message" where
  "trace_message trace_topic = (\<lambda>(key_set, data).
     put_property PROPERTY_KEYS (str_join '' '' (filter (\<lambda>k. k \<noteq> []) (sorted_list_of_set key_set)))
       (message_new trace_topic (Some (str_bytes data))))"

definition flush_data :: "nat \<Rightarrow> string \<Rightarrow> trace_transfer_bean list \<Rightarrow> message list" where
  "flush_data limit trace_topic beans = map (trace_message trace_topic) (chunk_beans limit {} [] 0 0 beans)"

fun split_once :: "char \<Rightarrow> string \<Rightarrow> (string \<times> string) option" where
  "split_once c [] = None"
| "split_once c (x # s) = (if x = c then Some ([], s) else map_option (\<lambda>(a, b). (x # a, b)) (split_once c s))"

definition send_trace_data :: "dispatcher \<Rightarrow> trace_context list \<Rightarrow> message list" where
  "send_trace_data d ctxs = concat (map (\<lambda>(key, beans).
     case split_once CONTENT_SPLITOR key of
       Some (topic, trace_topic) \<Rightarrow> flush_data (td_max_msg_size d) trace_topic beans
     | None \<Rightarrow> []) (trace_groups d ctxs))"

text \<open>The queue of a message on one of the given brokers, in turn; all queues if none is on them.\<close>

definition broker_set_select :: "u64 \<Rightarrow> message_queue list \<Rightarrow> string set \<Rightarrow> message_queue option \<times> u64" where
  "broker_set_select counter mqs brokers =
     (let filtered = filter (\<lambda>q. mq_broker_name q \<in> brokers) mqs;
          filtered = (if filtered = [] then mqs else filtered)
      in if filtered = [] then (None, counter)
         else (Some (filtered ! (unat counter mod length filtered)), counter + 1))"

section \<open>Nothing is lost on the way\<close>

text \<open>A flush takes the whole queue, in order, in batches of the configured size.\<close>

lemma flush_all_complete:
  "0 < td_batch_num d \<Longrightarrow> concat (fst (flush_all now i d)) = td_queue d \<and> td_queue (snd (flush_all now i d)) = []
     \<and> (\<forall>batch \<in> set (fst (flush_all now i d)). batch \<noteq> [] \<and> length batch \<le> td_batch_num d)"
proof (induction now i d rule: flush_all.induct)
  case (1 now i d)
  show ?case
  proof (cases "td_queue d = []")
    case False
    let ?d = "d\<lparr>td_queue := drop (td_batch_num d) (td_queue d), td_last_flush_time := now i\<rparr>"
    let ?b = "take (td_batch_num d) (td_queue d)"
    have flush: "flush_trace_context True (now i) d = (?b, ?d)" "?b \<noteq> []"
      using False 1(2) by (simp_all add: flush_trace_context_def)
    have "flush_all now i d = (?b # fst (flush_all now (Suc i) ?d), snd (flush_all now (Suc i) ?d))"
      using False flush by (subst flush_all.simps) (simp add: case_prod_beta)
    then show ?thesis
      using 1(1) [OF False flush(1) [symmetric] refl flush(2)] 1(2) flush(2) by simp
  qed (subst flush_all.simps, simp)+
qed

text \<open>The groups and messages in terms of the contexts.\<close>

fun segments :: "nat \<Rightarrow> ('a \<Rightarrow> nat) \<Rightarrow> 'a list \<Rightarrow> 'a list \<Rightarrow> 'a list list" where
  "segments limit w acc [] = (if acc = [] then [] else [acc])"
| "segments limit w acc (x # xs) =
     (if limit \<le> sum_list (map w acc) + w x then (acc @ [x]) # segments limit w [] xs else segments limit w (acc @ [x]) xs)"

definition context_keys :: "trace_context \<Rightarrow> string set" where
  "context_keys ctx = \<Union> (bean_keys ` set (tc_trace_beans ctx))"

definition context_bean :: "trace_context \<Rightarrow> trace_transfer_bean" where
  "context_bean ctx = \<lparr>tt_trans_data = trace_text ctx, tt_trans_key = context_keys ctx\<rparr>"

definition context_size :: "trace_context \<Rightarrow> nat" where
  "context_size ctx = length (str_chars (trace_text ctx))"

definition context_groups :: "dispatcher \<Rightarrow> trace_context list \<Rightarrow> (string \<times> trace_context list) list" where
  "context_groups d ctxs = fold (\<lambda>ctx. group_add (trace_group_key d ctx) ctx) (filter keeps_context ctxs) []"

lemma keyed_bean_alt: "keyed_bean d ctx = (if keeps_context ctx then Some (trace_group_key d ctx, context_bean ctx) else None)"
  by (simp add: keyed_bean_def context_bean_def context_keys_def trace_text_def encoder_from_context_bean_def)

lemma segments_concat: "concat (segments limit w acc xs) = acc @ xs"
  by (induction limit w acc xs rule: segments.induct) auto

lemma segments_shape:
  "\<forall>seg \<in> set (segments limit w acc xs). seg \<noteq> [] \<and> (butlast seg \<noteq> [] \<longrightarrow> sum_list (map w (butlast seg)) < limit)"
  if "acc \<noteq> [] \<Longrightarrow> sum_list (map w acc) < limit"
  using that
proof (induction limit w acc xs rule: segments.induct)
  case (1 limit w acc)
  have "sum_list (map w (butlast acc)) \<le> sum_list (map w acc)"
    by (cases acc rule: rev_cases) simp_all
  with 1 show ?case by (cases "acc = []") simp_all
next
  case (2 limit w acc x xs)
  show ?case
  proof (cases "limit \<le> sum_list (map w acc) + w x")
    case True
    with 2(1) [OF True] 2(3) show ?thesis by (cases "acc = []") simp_all
  next
    case False
    with 2(2) [OF False] show ?thesis by simp
  qed
qed

lemma chunk_beans_segments:
  assumes "n = length acc"
  shows "chunk_beans limit (\<Union> (context_keys ` set acc)) (concat (map trace_text acc)) (sum_list (map context_size acc)) n (map context_bean xs)
     = map (\<lambda>seg. (\<Union> (context_keys ` set seg), concat (map trace_text seg))) (segments limit context_size acc xs)"
  using assms
proof (induction xs arbitrary: acc n)
  case (Cons x xs)
  then show ?case
    using Cons.IH [of 0 "[]"] Cons.IH [of "n + 1" "acc @ [x]"]
    by (simp add: context_bean_def context_size_def Un_commute)
qed simp

lemma group_add_map: "group_add k (f x) (map (\<lambda>(k, xs). (k, map f xs)) g) = map (\<lambda>(k, xs). (k, map f xs)) (group_add k x g)"
  by (induction k x g rule: group_add.induct) auto

lemma trace_groups_map: "trace_groups d ctxs = map (\<lambda>(k, cs). (k, map context_bean cs)) (context_groups d ctxs)"
proof -
  have "fold (\<lambda>(key, bean). group_add key bean) (List.map_filter (keyed_bean d) ctxs) (map (\<lambda>(k, cs). (k, map context_bean cs)) g)
      = map (\<lambda>(k, cs). (k, map context_bean cs)) (fold (\<lambda>ctx. group_add (trace_group_key d ctx) ctx) (filter keeps_context ctxs) g)" for g
    by (induction ctxs arbitrary: g) (simp_all add: List.map_filter_simps keyed_bean_alt group_add_map)
  from this [of "[]"] show ?thesis
    by (simp add: trace_groups_def context_groups_def)
qed

lemma group_add_members:
  "mset (concat (map snd (group_add k x g))) = add_mset x (mset (concat (map snd g)))"
  "(\<forall>(k', xs) \<in> set g. \<forall>y \<in> set xs. key y = k') \<Longrightarrow> key x = k \<Longrightarrow> \<forall>(k', xs) \<in> set (group_add k x g). \<forall>y \<in> set xs. key y = k'"
  by (induction k x g rule: group_add.induct) auto

lemma context_groups_members:
  "mset (concat (map snd (context_groups d ctxs))) = mset (filter keeps_context ctxs)"
  "\<forall>(k, cs) \<in> set (context_groups d ctxs). \<forall>ctx \<in> set cs. trace_group_key d ctx = k"
proof -
  have "mset (concat (map snd (fold (\<lambda>ctx. group_add (trace_group_key d ctx) ctx) cs g))) = mset (concat (map snd g)) + mset cs" for cs g
    by (induction cs arbitrary: g) (simp_all add: group_add_members)
  then show "mset (concat (map snd (context_groups d ctxs))) = mset (filter keeps_context ctxs)"
    by (simp add: context_groups_def)
  have "\<forall>(k, cs) \<in> set (fold (\<lambda>ctx. group_add (trace_group_key d ctx) ctx) cs g). \<forall>ctx \<in> set cs. trace_group_key d ctx = k"
    if "\<forall>(k, cs) \<in> set g. \<forall>ctx \<in> set cs. trace_group_key d ctx = k" for cs g
    using that
  proof (induction cs arbitrary: g)
    case (Cons c cs)
    from Cons.IH [OF group_add_members(2) [where key = "trace_group_key d", OF Cons.prems refl]] show ?case by simp
  qed simp
  from this [of "[]"] show "\<forall>(k, cs) \<in> set (context_groups d ctxs). \<forall>ctx \<in> set cs. trace_group_key d ctx = k"
    by (simp add: context_groups_def)
qed

lemma split_once_append: "c \<notin> set a \<Longrightarrow> split_once c (a @ c # b) = Some (a, b)"
  by (induction a) auto

definition message_parts :: "dispatcher \<Rightarrow> trace_context list \<Rightarrow> (string \<times> trace_context list) list" where
  "message_parts d ctxs = concat (map (\<lambda>(key, cs).
     map (\<lambda>seg. (trace_topic_of d (hd seg), seg)) (segments (td_max_msg_size d) context_size [] cs)) (context_groups d ctxs))"

lemma flush_data_parts:
  "flush_data limit topic (map context_bean cs)
     = map (\<lambda>seg. trace_message topic (\<Union> (context_keys ` set seg), concat (map trace_text seg))) (segments limit context_size [] cs)"
  using chunk_beans_segments [of 0 "[]" limit cs] by (simp add: flush_data_def comp_def)

lemma group_split:
  assumes "\<forall>ctx \<in> set cs. trace_group_key d ctx = key \<and> CONTENT_SPLITOR \<notin> set (tb_topic (hd (tc_trace_beans ctx)))" and "ctx \<in> set cs"
  shows "split_once CONTENT_SPLITOR key = Some (tb_topic (hd (tc_trace_beans ctx)), trace_topic_of d ctx)"
  using assms split_once_append by (auto simp: trace_group_key_def)

lemma send_group:
  assumes "\<forall>ctx \<in> set cs. trace_group_key d ctx = key \<and> CONTENT_SPLITOR \<notin> set (tb_topic (hd (tc_trace_beans ctx)))"
  shows "(case split_once CONTENT_SPLITOR key of Some (topic, trace_topic) \<Rightarrow> flush_data limit trace_topic (map context_bean cs) | None \<Rightarrow> [])
     = map (\<lambda>seg. trace_message (trace_topic_of d (hd seg)) (\<Union> (context_keys ` set seg), concat (map trace_text seg)))
         (segments limit context_size [] cs)"
proof (cases cs)
  case Nil
  then show ?thesis by (simp add: flush_data_def split: option.split)
next
  case (Cons c cs')
  have segs: "set seg \<subseteq> set cs \<and> seg \<noteq> []" if "seg \<in> set (segments limit context_size [] cs)" for seg
  proof -
    have "set (concat (segments limit context_size [] cs)) = set cs"
      by (simp only: segments_concat append_Nil)
    then show ?thesis
      using that segments_shape [of "[]" context_size limit cs] by auto
  qed
  have "trace_topic_of d (hd seg) = trace_topic_of d c" if "seg \<in> set (segments limit context_size [] cs)" for seg
    using group_split [OF assms, of "hd seg"] group_split [OF assms, of c] segs [OF that] Cons by (metis list.set_intros(1) list.set_sel(1) option.inject prod.inject subsetD)
  then show ?thesis
    using group_split [OF assms, of c] Cons flush_data_parts [of limit _ cs] by simp
qed

lemma trace_message_simps [simp]:
  "m_topic (trace_message topic p) = topic" "m_body (trace_message topic p) = Some (str_bytes (snd p))"
  by (simp_all add: trace_message_def case_prod_beta put_property_def message_new_def)

lemma concat_map_cong: "(\<And>x. x \<in> set xs \<Longrightarrow> f x = g x) \<Longrightarrow> concat (map f xs) = concat (map g xs)"
  by (simp cong: map_cong)

lemma parts_contexts: "concat (map snd (message_parts d ctxs)) = concat (map snd (context_groups d ctxs))"
proof -
  have "concat (map snd (concat (map (\<lambda>(key, cs). map (\<lambda>seg. (trace_topic_of d (hd seg), seg)) (segments limit context_size [] cs)) g)))
      = concat (map snd g)" for limit and g :: "(string \<times> trace_context list) list"
    by (induction g) (auto simp: comp_def segments_concat)
  then show ?thesis by (simp add: message_parts_def)
qed

text \<open>
  C13. Every context with a region and a bean is in exactly one trace message, on the topic of its channel; every message
  can be read by itself, gives what its records carry, and is below the size limit without its last context.
\<close>

theorem trace_messages_complete:
  assumes "\<forall>ctx \<in> set ctxs. keeps_context ctx \<longrightarrow> CONTENT_SPLITOR \<notin> set (tb_topic (hd (tc_trace_beans ctx)))"
    and "\<forall>ctx \<in> set ctxs. \<forall>row \<in> set (trace_rows ctx). row_ok row"
  shows "map (\<lambda>m. (m_topic m, m_body m)) (send_trace_data d ctxs)
       = map (\<lambda>(topic, seg). (topic, Some (str_bytes (concat (map trace_text seg))))) (message_parts d ctxs)
     \<and> mset (concat (map snd (message_parts d ctxs))) = mset (filter keeps_context ctxs)
     \<and> (\<forall>(topic, seg) \<in> set (message_parts d ctxs). (\<forall>ctx \<in> set seg. trace_topic_of d ctx = topic)
          \<and> (butlast seg \<noteq> [] \<longrightarrow> sum_list (map context_size (butlast seg)) < td_max_msg_size d)
          \<and> decoder_from_trace_data_string env (Some (concat (map trace_text seg)))
              = map (\<lambda>(i, row). carried_context (env i) row) (enumerate 0 (concat (map trace_rows seg))))"
proof -
  have groups: "ctx \<in> set ctxs \<and> trace_group_key d ctx = k \<and> CONTENT_SPLITOR \<notin> set (tb_topic (hd (tc_trace_beans ctx)))"
    if "(k, cs) \<in> set (context_groups d ctxs)" "ctx \<in> set cs" for k cs ctx
  proof -
    have "ctx \<in> set (concat (map snd (context_groups d ctxs)))"
      using that by (force simp: image_iff)
    then have "ctx \<in> set (filter keeps_context ctxs)"
      by (metis context_groups_members(1) set_mset_mset)
    then show ?thesis
      using assms(1) that context_groups_members(2) [of d ctxs] by auto
  qed
  have "send_trace_data d ctxs = map (\<lambda>(topic, seg). trace_message topic (\<Union> (context_keys ` set seg), concat (map trace_text seg)))
      (message_parts d ctxs)"
    unfolding send_trace_data_def trace_groups_map message_parts_def map_concat map_map
  proof (rule concat_map_cong)
    fix p assume p: "p \<in> set (context_groups d ctxs)"
    obtain k cs where [simp]: "p = (k, cs)" by fastforce
    show "((\<lambda>(key, beans). case split_once CONTENT_SPLITOR key of None \<Rightarrow> [] | Some (topic, trace_topic) \<Rightarrow>
          flush_data (td_max_msg_size d) trace_topic beans) \<circ> (\<lambda>(k, cs). (k, map context_bean cs))) p
      = (map (\<lambda>(topic, seg). trace_message topic (\<Union> (context_keys ` set seg), concat (map trace_text seg)))
          \<circ> (\<lambda>(key, cs). map (\<lambda>seg. (trace_topic_of d (hd seg), seg)) (segments (td_max_msg_size d) context_size [] cs))) p"
      using send_group [of cs d k "td_max_msg_size d"] groups [of k cs] p by (simp add: comp_def)
  qed
  then have 1: "map (\<lambda>m. (m_topic m, m_body m)) (send_trace_data d ctxs)
      = map (\<lambda>(topic, seg). (topic, Some (str_bytes (concat (map trace_text seg))))) (message_parts d ctxs)"
    by (simp add: case_prod_beta)
  have 2: "mset (concat (map snd (message_parts d ctxs))) = mset (filter keeps_context ctxs)"
    by (simp only: parts_contexts context_groups_members(1))
  have 3: "(\<forall>ctx \<in> set seg. trace_topic_of d ctx = topic) \<and> (butlast seg \<noteq> [] \<longrightarrow> sum_list (map context_size (butlast seg)) < td_max_msg_size d)
      \<and> decoder_from_trace_data_string env (Some (concat (map trace_text seg)))
          = map (\<lambda>(i, row). carried_context (env i) row) (enumerate 0 (concat (map trace_rows seg)))"
    if part: "(topic, seg) \<in> set (message_parts d ctxs)" for topic seg
  proof -
    obtain k cs where k: "(k, cs) \<in> set (context_groups d ctxs)" and seg: "seg \<in> set (segments (td_max_msg_size d) context_size [] cs)"
      and topic: "topic = trace_topic_of d (hd seg)"
      using part by (auto simp: message_parts_def)
    have "set (concat (segments (td_max_msg_size d) context_size [] cs)) = set cs"
      by (simp only: segments_concat append_Nil)
    then have sub: "set seg \<subseteq> set cs" using seg by auto
    have shape: "seg \<noteq> []" "butlast seg \<noteq> [] \<longrightarrow> sum_list (map context_size (butlast seg)) < td_max_msg_size d"
      using segments_shape [of "[]" context_size "td_max_msg_size d" cs] seg by auto
    have "split_once CONTENT_SPLITOR k = Some (tb_topic (hd (tc_trace_beans ctx)), trace_topic_of d ctx)" if "ctx \<in> set cs" for ctx
      using groups [OF k] that by (intro group_split [of cs]) auto
    then have "\<forall>ctx \<in> set seg. trace_topic_of d ctx = topic"
      unfolding topic using sub shape(1) by (metis hd_in_set option.inject prod.inject subsetD)
    moreover have "\<forall>row \<in> set (concat (map trace_rows seg)). row_ok row"
    proof
      fix row assume "row \<in> set (concat (map trace_rows seg))"
      then obtain ctx where ctx: "ctx \<in> set seg" "row \<in> set (trace_rows ctx)" by auto
      then have "ctx \<in> set ctxs" using sub groups [OF k] by blast
      then show "row_ok row" using assms(2) ctx(2) by blast
    qed
    ultimately show ?thesis
      using shape(2) trace_data_read_back [of seg env] by blast
  qed
  show ?thesis
    using 1 2 3 by blast
qed

definition regional_context :: trace_context where
  "regional_context = sample_context\<lparr>tc_region_id := ''cn''\<rparr>"

definition sample_dispatcher :: dispatcher where
  "sample_dispatcher = \<lparr>td_queue = [], td_queue_capacity = 2048, td_batch_num = 100, td_max_msg_size = 128000,
     td_flush_interval = 5000, td_last_flush_time = 0, td_discard_count = 0, td_trace_topic_name = ''RMQ_SYS_TRACE_TOPIC'',
     td_access_channel = LocalChannel\<rparr>"

theorem trace_messages_complete_witness:
  "mset (concat (map snd (message_parts sample_dispatcher [regional_context]))) = {#regional_context#}"
proof -
  have rows: "trace_rows regional_context = map (\<lambda>bean. (SubBefore, regional_context, bean)) (tc_trace_beans regional_context)"
    by (simp add: trace_rows_def regional_context_def sample_context_def written_beans_def)
  have keep: "keeps_context regional_context"
    by (simp add: keeps_context_def regional_context_def sample_context_def)
  have "\<forall>ctx \<in> set [regional_context]. keeps_context ctx \<longrightarrow> CONTENT_SPLITOR \<notin> set (tb_topic (hd (tc_trace_beans ctx)))"
    by (simp add: regional_context_def sample_context_def trace_bean_new_def)
  moreover have "\<forall>ctx \<in> set [regional_context]. \<forall>row \<in> set (trace_rows ctx). row_ok row"
    by (simp add: rows row_ok_def row_texts_def)
      (simp add: regional_context_def sample_context_def trace_context_new_def trace_bean_new_def or_empty_def CONTENT_SPLITOR_def
        FIELD_SPLITOR_def)
  ultimately show ?thesis
    using trace_messages_complete [of "[regional_context]" sample_dispatcher sample_env] keep by simp
qed

end
