(* ===== verification/Consume_Executor.thy ===== *)
theory Consume_Executor
  imports Rmq_Error
begin

text \<open>
  The worker pool of \<open>src/rust/src/client/consume_executor.rs\<close>: its state, the sections under its lock, and its callers and
  workers as interleaved steps. A task is a number. A worker arms its wake-up ticket before it looks at the queue, and
  \<open>notify_waiters\<close> wakes exactly the tickets that are armed.
\<close>

section \<open>Pool\<close>

record pool =
  ex_core :: i32
  ex_max :: i32
  ex_queue :: "nat list"
  ex_workers :: i32
  ex_seq :: u64
  ex_shutdown :: bool

definition i32_max :: "i32 \<Rightarrow> i32 \<Rightarrow> i32" where
  "i32_max a b = (if a <s b then b else a)"

definition pool_with_params :: "i32 \<Rightarrow> i32 \<Rightarrow> pool" where
  "pool_with_params core_pool_size maximum_pool_size =
     (let core = i32_max core_pool_size 0
      in \<lparr>ex_core = core, ex_max = i32_max core maximum_pool_size, ex_queue = [], ex_workers = 0, ex_seq = 0, ex_shutdown = False\<rparr>)"

definition plan_spawn_locked :: "string \<Rightarrow> pool \<Rightarrow> string \<times> pool" where
  "plan_spawn_locked prefx st =
     (prefx @ ''-'' @ show_nat (unat (ex_seq st)), st\<lparr>ex_workers := ex_workers st + 1, ex_seq := ex_seq st + 1\<rparr>)"

definition retire_locked :: "pool \<Rightarrow> pool" where
  "retire_locked st = st\<lparr>ex_workers := ex_workers st - 1\<rparr>"

text \<open>The worker to spawn, if any.\<close>

definition submit_locked :: "string \<Rightarrow> nat \<Rightarrow> pool \<Rightarrow> (string option \<times> pool) result" where
  "submit_locked prefx task st =
     (if ex_shutdown st then fail (client_err ''ConsumeExecutor has been shut down'')
      else let st = st\<lparr>ex_queue := ex_queue st @ [task]\<rparr>
           in if ex_workers st <s ex_core st \<or> ex_workers st = 0
              then let (name, st) = plan_spawn_locked prefx st in Inr (Some name, st)
              else Inr (None, st))"

text \<open>The loop that tops up the workers; \<open>k\<close> counts down.\<close>

fun top_up :: "string \<Rightarrow> nat \<Rightarrow> pool \<Rightarrow> string list \<times> pool" where
  "top_up prefx 0 st = ([], st)"
| "top_up prefx (Suc k) st =
     (if ex_workers st <s ex_max st
      then let (name, st) = plan_spawn_locked prefx st
           in if ex_queue st = [] then ([name], st)
              else let (names, st) = top_up prefx k st in (name # names, st)
      else ([], st))"

definition set_core_pool_size_locked :: "string \<Rightarrow> i32 \<Rightarrow> pool \<Rightarrow> (string list \<times> pool) result" where
  "set_core_pool_size_locked prefx n st =
     (if n <s 0 then fail (client_err ''core pool size must be >= 0'')
      else let delta = n - ex_core st;
               st = st\<lparr>ex_core := n\<rparr>;
               st = (if ex_max st <s n then st\<lparr>ex_max := n\<rparr> else st);
               queued = (of_nat (length (ex_queue st)) :: i32);
               k = (if delta <s queued then delta else queued)
           in if 0 <s delta \<and> \<not> ex_shutdown st then Inr (top_up prefx (nat (sint k)) st)
              else Inr ([], st))"

definition shutdown_locked :: "pool \<Rightarrow> pool" where
  "shutdown_locked st = st\<lparr>ex_shutdown := True\<rparr>"

datatype take_outcome = Retire | Got nat | Wait

definition take_locked :: "pool \<Rightarrow> take_outcome \<times> pool" where
  "take_locked st =
     (if ex_shutdown st \<and> ex_queue st = [] then (Retire, retire_locked st)
      else case ex_queue st of task # queue \<Rightarrow> (Got task, st\<lparr>ex_queue := queue\<rparr>) | [] \<Rightarrow> (Wait, st))"

definition idle_locked :: "pool \<Rightarrow> bool \<times> pool" where
  "idle_locked st =
     (if ex_queue st = [] \<and> \<not> ex_shutdown st \<and> ex_core st <s ex_workers st then (True, retire_locked st) else (False, st))"

section \<open>Steps\<close>

text \<open>A worker is at the top of its loop, has armed its ticket, waits, or runs a task; the flag says that it was notified.\<close>

datatype worker = Top | Armed bool | Parked bool | Running nat

fun wake :: "worker \<Rightarrow> worker" where
  "wake (Armed _) = Armed True"
| "wake (Parked _) = Parked True"
| "wake w = w"

text \<open>\<open>es_spawning\<close> are workers that were counted and not started yet, \<open>es_notify\<close> callers that still have to notify.\<close>

record ex_system =
  es_pool :: pool
  es_spawning :: nat
  es_notify :: nat
  es_workers :: "worker list"
  es_accepted :: "nat list"
  es_started :: "nat list"

definition ex_system_new :: "i32 \<Rightarrow> i32 \<Rightarrow> ex_system" where
  "ex_system_new core mx = \<lparr>es_pool = pool_with_params core mx, es_spawning = 0, es_notify = 0, es_workers = [],
     es_accepted = [], es_started = []\<rparr>"

inductive ex_step :: "ex_system \<Rightarrow> ex_system \<Rightarrow> bool" where
  submit: "submit_locked prefx task (es_pool s) = Inr (name, st) \<Longrightarrow>
    ex_step s (s\<lparr>es_pool := st, es_spawning := es_spawning s + (case name of Some _ \<Rightarrow> 1 | None \<Rightarrow> 0),
      es_notify := Suc (es_notify s), es_accepted := es_accepted s @ [task]\<rparr>)"
| resize: "set_core_pool_size_locked prefx n (es_pool s) = Inr (names, st) \<Longrightarrow>
    ex_step s (s\<lparr>es_pool := st, es_spawning := es_spawning s + length names, es_notify := Suc (es_notify s)\<rparr>)"
| shutdown: "ex_step s (s\<lparr>es_pool := shutdown_locked (es_pool s), es_notify := Suc (es_notify s)\<rparr>)"
| spawn: "es_spawning s = Suc n \<Longrightarrow> ex_step s (s\<lparr>es_spawning := n, es_workers := Top # es_workers s\<rparr>)"
| notify: "es_notify s = Suc n \<Longrightarrow> ex_step s (s\<lparr>es_notify := n, es_workers := map wake (es_workers s)\<rparr>)"
| arm: "es_workers s = xs @ Top # ys \<Longrightarrow> ex_step s (s\<lparr>es_workers := xs @ Armed False # ys\<rparr>)"
| take_none: "es_workers s = xs @ Armed b # ys \<Longrightarrow> take_locked (es_pool s) = (Wait, st) \<Longrightarrow>
    ex_step s (s\<lparr>es_pool := st, es_workers := xs @ Parked b # ys\<rparr>)"
| take_task: "es_workers s = xs @ Armed b # ys \<Longrightarrow> take_locked (es_pool s) = (Got task, st) \<Longrightarrow>
    ex_step s (s\<lparr>es_pool := st, es_workers := xs @ Running task # ys, es_started := es_started s @ [task]\<rparr>)"
| take_exit: "es_workers s = xs @ Armed b # ys \<Longrightarrow> take_locked (es_pool s) = (Retire, st) \<Longrightarrow>
    ex_step s (s\<lparr>es_pool := st, es_workers := xs @ ys\<rparr>)"
| woken: "es_workers s = xs @ Parked True # ys \<Longrightarrow> ex_step s (s\<lparr>es_workers := xs @ Top # ys\<rparr>)"
| idle_exit: "es_workers s = xs @ Parked False # ys \<Longrightarrow> idle_locked (es_pool s) = (True, st) \<Longrightarrow>
    ex_step s (s\<lparr>es_pool := st, es_workers := xs @ ys\<rparr>)"
| idle_stay: "es_workers s = xs @ Parked False # ys \<Longrightarrow> idle_locked (es_pool s) = (False, st) \<Longrightarrow>
    ex_step s (s\<lparr>es_pool := st, es_workers := xs @ Top # ys\<rparr>)"
| finish: "es_workers s = xs @ Running task # ys \<Longrightarrow> ex_step s (s\<lparr>es_workers := xs @ Top # ys\<rparr>)"

inductive ex_reachable :: "i32 \<Rightarrow> i32 \<Rightarrow> ex_system \<Rightarrow> bool" for core mx where
  init: "ex_reachable core mx (ex_system_new core mx)"
| step: "ex_reachable core mx s \<Longrightarrow> ex_step s s' \<Longrightarrow> ex_reachable core mx s'"

section \<open>Invariant\<close>

definition pool_ok :: "pool \<Rightarrow> bool" where
  "pool_ok st \<longleftrightarrow> 0 \<le> sint (ex_core st) \<and> sint (ex_core st) \<le> sint (ex_max st)
     \<and> 0 \<le> sint (ex_workers st) \<and> sint (ex_workers st) \<le> max 1 (sint (ex_max st))
     \<and> (ex_queue st \<noteq> [] \<longrightarrow> 0 < sint (ex_workers st))"

definition ex_inv :: "ex_system \<Rightarrow> bool" where
  "ex_inv s \<longleftrightarrow> pool_ok (es_pool s) \<and> sint (ex_workers (es_pool s)) = int (es_spawning s + length (es_workers s))
     \<and> es_started s @ ex_queue (es_pool s) = es_accepted s
     \<and> (ex_queue (es_pool s) \<noteq> [] \<or> ex_shutdown (es_pool s) \<longrightarrow> 0 < es_notify s \<or> Parked False \<notin> set (es_workers s))"

lemma sint_inc: "0 \<le> sint (w :: i32) \<Longrightarrow> sint w < 2 ^ 31 - 1 \<Longrightarrow> sint (w + 1) = sint w + 1"
  by (simp add: sint_word_ariths signed_take_bit_int_eq_self)

lemma sint_dec: "0 < sint (w :: i32) \<Longrightarrow> sint (w - 1) = sint w - 1"
  using sint_lt [of w] by (simp add: sint_word_ariths signed_take_bit_int_eq_self)

lemma sint_bound: "sint (w :: i32) \<le> 2 ^ 31 - 1"
  using sint_lt [of w] by simp

lemma plan_spawn_ok:
  assumes "plan_spawn_locked prefx st = (name, st')" and "0 \<le> sint (ex_workers st)" and "sint (ex_workers st) < max 1 (sint (ex_max st))"
  shows "sint (ex_workers st') = sint (ex_workers st) + 1 \<and> ex_core st' = ex_core st \<and> ex_max st' = ex_max st
     \<and> ex_queue st' = ex_queue st \<and> ex_shutdown st' = ex_shutdown st"
proof -
  have "sint (ex_workers st) < 2 ^ 31 - 1"
    using assms(3) sint_bound [of "ex_max st"] by (simp add: max_def split: if_splits)
  then show ?thesis
    using assms(1,2) sint_inc by (auto simp: plan_spawn_locked_def)
qed

lemma submit_ok:
  assumes "submit_locked prefx task st = Inr (name, st')" and "pool_ok st"
  shows "pool_ok st' \<and> sint (ex_workers st') = sint (ex_workers st) + (case name of Some _ \<Rightarrow> 1 | None \<Rightarrow> 0)
     \<and> ex_queue st' = ex_queue st @ [task] \<and> ex_shutdown st' = ex_shutdown st"
proof -
  let ?st = "st\<lparr>ex_queue := ex_queue st @ [task]\<rparr>"
  have open_pool: "\<not> ex_shutdown st"
    using assms(1) by (auto simp: submit_locked_def)
  show ?thesis
  proof (cases "ex_workers st <s ex_core st \<or> ex_workers st = 0")
    case True
    obtain n st1 where spawn: "plan_spawn_locked prefx ?st = (n, st1)" by fastforce
    have room: "sint (ex_workers ?st) < max 1 (sint (ex_max ?st))"
      using True assms(2) by (auto simp: pool_ok_def word_sless_alt)
    from plan_spawn_ok [OF spawn _ room] show ?thesis
      using assms True open_pool spawn room by (auto simp: submit_locked_def pool_ok_def)
  next
    case False
    then have "sint (ex_workers st) \<noteq> 0" by (simp add: signed_eq_0_iff)
    then show ?thesis
      using assms False open_pool by (auto simp: submit_locked_def pool_ok_def)
  qed
qed

lemma top_up_ok:
  assumes "top_up prefx k st = (names, st')" and "pool_ok st"
  shows "pool_ok st' \<and> sint (ex_workers st') = sint (ex_workers st) + int (length names)
     \<and> ex_queue st' = ex_queue st \<and> ex_shutdown st' = ex_shutdown st"
  using assms
proof (induction prefx k st arbitrary: names st' rule: top_up.induct)
  case (2 prefx k st)
  show ?case
  proof (cases "ex_workers st <s ex_max st")
    case True
    obtain n st1 where spawn: "plan_spawn_locked prefx st = (n, st1)" by fastforce
    have "sint (ex_workers st) < max 1 (sint (ex_max st))"
      using True by (auto simp: word_sless_alt)
    note st1 = plan_spawn_ok [OF spawn _ this]
    have ok: "pool_ok st1"
      using st1 2(3) True by (auto simp: pool_ok_def word_sless_alt)
    show ?thesis
    proof (cases "ex_queue st1 = []")
      case True
      then show ?thesis
        using 2(2,3) \<open>ex_workers st <s ex_max st\<close> spawn st1 ok by (auto simp: pool_ok_def)
    next
      case False
      obtain ns st2 where rest: "top_up prefx k st1 = (ns, st2)" by fastforce
      from 2(1) [OF True spawn [symmetric] refl False rest ok] show ?thesis
        using 2(2,3) True False spawn st1 rest by (auto simp: pool_ok_def)
    qed
  next
    case False
    then show ?thesis
      using 2(2,3) by simp
  qed
qed simp

lemma resize_ok:
  assumes "set_core_pool_size_locked prefx n st = Inr (names, st')" and "pool_ok st"
  shows "pool_ok st' \<and> sint (ex_workers st') = sint (ex_workers st) + int (length names)
     \<and> ex_queue st' = ex_queue st \<and> ex_shutdown st' = ex_shutdown st"
proof -
  let ?st = "if ex_max st <s n then st\<lparr>ex_core := n, ex_max := n\<rparr> else st\<lparr>ex_core := n\<rparr>"
  have n: "0 \<le> sint n"
    using assms(1) by (auto simp: set_core_pool_size_locked_def word_sless_alt split: if_splits)
  have "pool_ok ?st"
    using assms(2) n by (auto simp: pool_ok_def word_sless_alt)
  moreover have "ex_workers ?st = ex_workers st" "ex_queue ?st = ex_queue st" "ex_shutdown ?st = ex_shutdown st"
    by simp_all
  moreover have "names = [] \<and> st' = ?st" if "\<not> (0 <s n - ex_core st \<and> \<not> ex_shutdown st)"
    using assms(1) that by (auto simp: set_core_pool_size_locked_def Let_def split: if_splits)
  moreover have "\<exists>k. top_up prefx k ?st = (names, st')" if "0 <s n - ex_core st \<and> \<not> ex_shutdown st"
    using assms(1) that n by (cases "ex_max st <s n") (auto simp: set_core_pool_size_locked_def Let_def word_sless_alt)
  ultimately show ?thesis
    using top_up_ok [of prefx _ ?st names st'] by (cases "0 <s n - ex_core st \<and> \<not> ex_shutdown st") fastforce+
qed

lemma take_ok:
  assumes "take_locked st = (out, st')" and "pool_ok st" and "0 < sint (ex_workers st)"
  shows "pool_ok st' \<and> ex_shutdown st' = ex_shutdown st
     \<and> (out = Retire \<longrightarrow> ex_queue st = [] \<and> ex_queue st' = [] \<and> sint (ex_workers st') = sint (ex_workers st) - 1)
     \<and> (out = Wait \<longrightarrow> st' = st \<and> ex_queue st = [] \<and> \<not> ex_shutdown st)
     \<and> (\<forall>task. out = Got task \<longrightarrow> ex_queue st = task # ex_queue st' \<and> ex_workers st' = ex_workers st)"
  using assms sint_dec [OF assms(3)]
  by (auto simp: take_locked_def retire_locked_def pool_ok_def split: if_splits list.splits)

lemma idle_ok:
  assumes "idle_locked st = (out, st')" and "pool_ok st" and "0 < sint (ex_workers st)"
  shows "pool_ok st' \<and> ex_shutdown st' = ex_shutdown st \<and> ex_queue st' = ex_queue st
     \<and> sint (ex_workers st') = sint (ex_workers st) - (if out then 1 else 0)"
  using assms sint_dec [OF assms(3)] by (auto simp: idle_locked_def retire_locked_def pool_ok_def split: if_splits)

lemma parked_after:
  "Parked False \<in> set (xs @ w # ys) \<Longrightarrow> w \<noteq> Parked False \<Longrightarrow> Parked False \<in> set (xs @ v # ys)"
  by auto

lemma wake_not_parked: "Parked False \<notin> wake ` set ws"
proof
  assume "Parked False \<in> wake ` set ws"
  then obtain w where "wake w = Parked False" by auto
  then show False by (cases w) simp_all
qed

lemma ex_inv_step:
  assumes "ex_step s s'" and "ex_inv s"
  shows "ex_inv s'"
  using assms(1)
proof cases
  case (submit prefx task name st)
  then show ?thesis
    using assms(2) submit_ok [OF submit(2)] by (auto simp: ex_inv_def split: option.splits)
next
  case (resize prefx n names st)
  then show ?thesis
    using assms(2) resize_ok [OF resize(2)] by (auto simp: ex_inv_def)
next
  case shutdown
  then show ?thesis
    using assms(2) by (auto simp: ex_inv_def shutdown_locked_def pool_ok_def)
next
  case (spawn n)
  then show ?thesis
    using assms(2) by (auto simp: ex_inv_def)
next
  case (notify n)
  then show ?thesis
    using assms(2) wake_not_parked by (auto simp: ex_inv_def)
next
  case (arm xs ys)
  then show ?thesis
    using assms(2) by (auto simp: ex_inv_def)
next
  case (take_none xs b ys st)
  have "0 < sint (ex_workers (es_pool s))"
    using assms(2) take_none(2) by (simp add: ex_inv_def)
  then show ?thesis
    using assms(2) take_none take_ok [OF take_none(3)] by (auto simp: ex_inv_def)
next
  case (take_task xs b ys task st)
  have "0 < sint (ex_workers (es_pool s))"
    using assms(2) take_task(2) by (simp add: ex_inv_def)
  then show ?thesis
    using assms(2) take_task take_ok [OF take_task(3)] by (auto simp: ex_inv_def)
next
  case (take_exit xs b ys st)
  have "0 < sint (ex_workers (es_pool s))"
    using assms(2) take_exit(2) by (simp add: ex_inv_def)
  then show ?thesis
    using assms(2) take_exit take_ok [OF take_exit(3)] by (auto simp: ex_inv_def)
next
  case (woken xs ys)
  then show ?thesis
    using assms(2) by (auto simp: ex_inv_def)
next
  case (idle_exit xs ys st)
  have "0 < sint (ex_workers (es_pool s))"
    using assms(2) idle_exit(2) by (simp add: ex_inv_def)
  then show ?thesis
    using assms(2) idle_exit idle_ok [OF idle_exit(3)] by (auto simp: ex_inv_def)
next
  case (idle_stay xs ys st)
  have "0 < sint (ex_workers (es_pool s))"
    using assms(2) idle_stay(2) by (simp add: ex_inv_def)
  then show ?thesis
    using assms(2) idle_stay idle_ok [OF idle_stay(3)] by (auto simp: ex_inv_def)
next
  case (finish xs task ys)
  then show ?thesis
    using assms(2) by (auto simp: ex_inv_def)
qed

lemma ex_inv_reachable: "ex_reachable core mx s \<Longrightarrow> ex_inv s"
proof (induction rule: ex_reachable.induct)
  case init
  have "0 \<le> sint (i32_max core 0)" "sint (i32_max core 0) \<le> sint (i32_max (i32_max core 0) mx)"
    by (auto simp: i32_max_def word_sless_alt)
  then show ?case
    by (simp add: ex_inv_def ex_system_new_def pool_ok_def pool_with_params_def Let_def)
next
  case (step s s')
  then show ?case by (blast intro: ex_inv_step)
qed

section \<open>What the pool promises\<close>

text \<open>
  C12. Tasks are started in the order in which they were accepted and none twice or out of thin air; and a task that
  waits is never stranded: as long as the queue is not empty, a worker is about to start, awake or notified, or a caller is
  about to notify all workers, which then look at the queue again.
\<close>

theorem tasks_served_in_order:
  assumes "ex_reachable core mx s"
  shows "es_started s @ ex_queue (es_pool s) = es_accepted s
     \<and> (ex_queue (es_pool s) \<noteq> [] \<longrightarrow>
          0 < es_spawning s \<or> (es_workers s \<noteq> [] \<and> (0 < es_notify s \<or> (\<forall>w \<in> set (es_workers s). w \<noteq> Parked False))))"
  using ex_inv_reachable [OF assms] by (auto simp: ex_inv_def pool_ok_def)

text \<open>
  C32. The workers that are counted are those that run or are about to start, and they never exceed the maximum, or one if
  the maximum is zero; neither the counter nor its increments overflow.
\<close>

theorem workers_bounded:
  assumes "ex_reachable core mx s"
  shows "sint (ex_workers (es_pool s)) = int (es_spawning s + length (es_workers s))
     \<and> sint (ex_workers (es_pool s)) \<le> max 1 (sint (ex_max (es_pool s)))"
  using ex_inv_reachable [OF assms] by (simp add: ex_inv_def pool_ok_def)

definition busy_run :: ex_system where
  "busy_run = \<lparr>es_pool = \<lparr>ex_core = 1, ex_max = 2, ex_queue = [7], ex_workers = 1, ex_seq = 1, ex_shutdown = False\<rparr>,
     es_spawning = 1, es_notify = 1, es_workers = [], es_accepted = [7], es_started = []\<rparr>"

lemma run_submitted: "ex_reachable 1 2 busy_run"
proof -
  have "submit_locked ''p'' 7 (es_pool (ex_system_new 1 2)) = Inr (Some (''p-'' @ show_nat 0), es_pool busy_run)"
    by (simp add: submit_locked_def ex_system_new_def pool_with_params_def i32_max_def word_sless_alt plan_spawn_locked_def busy_run_def)
  from ex_reachable.step [OF ex_reachable.init ex_step.submit [OF this]] show ?thesis
    by (simp add: ex_system_new_def busy_run_def)
qed

theorem tasks_served_in_order_witness:
  "es_started busy_run @ ex_queue (es_pool busy_run) = es_accepted busy_run \<and> 0 < es_spawning busy_run"
  using tasks_served_in_order [OF run_submitted] by (simp add: busy_run_def)

theorem workers_bounded_witness: "sint (ex_workers (es_pool busy_run)) \<le> max 1 (sint (ex_max (es_pool busy_run)))"
  using workers_bounded [OF run_submitted] by blast

end
