(* ===== verification/Request_Reply.thy ===== *)
theory Request_Reply
  imports Mix_All Message
begin

unbundle bit_operations_syntax

text \<open>
  Requests and their replies, \<open>src/rust/src/client/request_reply.rs\<close>: the slot of a waiting request, the table of the
  slots by correlation id, the scan for expired requests, and the reply message. Slots are shared objects: the heap holds
  them and the table names them by number. The clock is an argument.
\<close>

section \<open>Slots\<close>

record request_future =
  rf_correlation_id :: string
  rf_timeout_millis :: i64
  rf_begin_timestamp :: i64
  rf_has_callback :: bool
  rf_send_request_ok :: bool
  rf_responded :: bool
  rf_callback_fired :: bool
  rf_response_msg :: "message_ext option"
  rf_cause :: "error option"

definition with_callback :: "string \<Rightarrow> i64 \<Rightarrow> bool \<Rightarrow> i64 \<Rightarrow> request_future" where
  "with_callback correlation_id timeout_millis has_callback now =
     \<lparr>rf_correlation_id = correlation_id, rf_timeout_millis = timeout_millis, rf_begin_timestamp = now,
      rf_has_callback = has_callback, rf_send_request_ok = True, rf_responded = False, rf_callback_fired = False,
      rf_response_msg = None, rf_cause = None\<rparr>"

definition put_response_message :: "message_ext option \<Rightarrow> request_future \<Rightarrow> request_future" where
  "put_response_message msg f = f\<lparr>rf_response_msg := msg, rf_responded := True\<rparr>"

definition request_is_timeout :: "i64 \<Rightarrow> request_future \<Rightarrow> bool" where
  "request_is_timeout now f \<longleftrightarrow> rf_timeout_millis f <s now - rf_begin_timestamp f"

definition set_failed :: "error \<Rightarrow> request_future \<Rightarrow> request_future" where
  "set_failed e f = f\<lparr>rf_send_request_ok := False, rf_cause := Some e, rf_responded := True\<rparr>"

definition set_cause_only :: "error \<Rightarrow> request_future \<Rightarrow> request_future" where
  "set_cause_only e f = f\<lparr>rf_cause := Some e\<rparr>"

datatype request_call = RequestSuccess "message_ext option" | RequestException error

text \<open>What the callback is called with, if it is.\<close>

definition execute_request_callback :: "request_future \<Rightarrow> request_call option \<times> request_future" where
  "execute_request_callback f =
     (if \<not> rf_has_callback f \<or> rf_callback_fired f then (None, f)
      else let f' = f\<lparr>rf_callback_fired := True, rf_cause := None\<rparr>
           in (Some (case rf_cause f of
                 Some e \<Rightarrow> RequestException e
               | None \<Rightarrow> if rf_send_request_ok f then RequestSuccess (rf_response_msg f)
                   else RequestException (client_err (''request failed, correlationId='' @ rf_correlation_id f))), f'))"

text \<open>A waiter goes on when there is a response, and gives up at its deadline with whatever there is.\<close>

definition waiter_goes_on :: "bool \<Rightarrow> request_future \<Rightarrow> message_ext option option" where
  "waiter_goes_on deadline_passed f = (if rf_response_msg f \<noteq> None \<or> deadline_passed then Some (rf_response_msg f) else None)"

definition wait_request_response :: "string \<Rightarrow> i64 \<Rightarrow> message_ext option \<Rightarrow> request_future \<Rightarrow> message_ext result" where
  "wait_request_response topic timeout waited f = (case waited of
       Some response \<Rightarrow> Inr response
     | None \<Rightarrow> if rf_send_request_ok f then fail (RequestTimeout topic timeout)
         else fail (client_err (''send request message to <'' @ topic @ ''> fail'')))"

section \<open>Table\<close>

record request_holder =
  rh_futures :: "request_future list"
  rh_table :: "string \<rightharpoonup> nat"
  rh_calls :: "(nat \<times> request_call) list"

definition request_holder_new :: request_holder where
  "request_holder_new = \<lparr>rh_futures = [], rh_table = Map.empty, rh_calls = []\<rparr>"

definition put_request :: "string \<Rightarrow> request_future \<Rightarrow> request_holder \<Rightarrow> request_holder" where
  "put_request correlation_id f h =
     h\<lparr>rh_futures := rh_futures h @ [f], rh_table := (rh_table h)(correlation_id \<mapsto> length (rh_futures h))\<rparr>"

definition remove_request :: "string \<Rightarrow> request_holder \<Rightarrow> nat option \<times> request_holder" where
  "remove_request correlation_id h = (rh_table h correlation_id, h\<lparr>rh_table := (rh_table h)(correlation_id := None)\<rparr>)"

definition change_future :: "nat \<Rightarrow> (request_future \<Rightarrow> request_future) \<Rightarrow> request_holder \<Rightarrow> request_holder" where
  "change_future nr g h = h\<lparr>rh_futures := (rh_futures h)[nr := g (rh_futures h ! nr)]\<rparr>"

definition call_future :: "nat \<Rightarrow> request_holder \<Rightarrow> request_holder" where
  "call_future nr h = (let (call, f) = execute_request_callback (rh_futures h ! nr)
     in (change_future nr (\<lambda>_. f) h)\<lparr>rh_calls := rh_calls h @ (case call of Some c \<Rightarrow> [(nr, c)] | None \<Rightarrow> [])\<rparr>)"

definition put_response :: "string option \<Rightarrow> message_ext \<Rightarrow> request_holder \<Rightarrow> nat option \<times> request_holder" where
  "put_response correlation_id msg h = (case correlation_id of
       None \<Rightarrow> (None, h)
     | Some cid \<Rightarrow> (case remove_request cid h of
           (None, h) \<Rightarrow> (None, h)
         | (Some nr, h) \<Rightarrow> (Some nr, call_future nr (change_future nr (put_response_message (Some msg)) h))))"

definition SCAN_EXPIRED_REQUEST_TEXT :: string where
  "SCAN_EXPIRED_REQUEST_TEXT = ''request timeout, no reply message.''"

text \<open>The ids of the table in the order in which the hash map iterates are an argument.\<close>

definition expired_keys :: "i64 \<Rightarrow> string list \<Rightarrow> request_holder \<Rightarrow> string list" where
  "expired_keys now keys h = filter (\<lambda>k. case rh_table h k of Some nr \<Rightarrow> request_is_timeout now (rh_futures h ! nr) | None \<Rightarrow> False) keys"

definition scan_expired_request :: "i64 \<Rightarrow> string list \<Rightarrow> request_holder \<Rightarrow> nat \<times> request_holder" where
  "scan_expired_request now keys h =
     (let expired = List.map_filter (rh_table h) (expired_keys now keys h);
          h = h\<lparr>rh_table := fold (\<lambda>k t. t(k := None)) (expired_keys now keys h) (rh_table h)\<rparr>
      in (length expired, fold (\<lambda>nr h. call_future nr (change_future nr
            (set_cause_only (client_err_with_code REQUEST_TIMEOUT_EXCEPTION SCAN_EXPIRED_REQUEST_TEXT)) h)) expired h))"

section \<open>Reply messages\<close>

definition PROPERTY_CLUSTER :: string where "PROPERTY_CLUSTER = ''CLUSTER''"
definition PROPERTY_MESSAGE_TYPE :: string where "PROPERTY_MESSAGE_TYPE = ''MSG_TYPE''"
definition PROPERTY_CORRELATION_ID :: string where "PROPERTY_CORRELATION_ID = ''CORRELATION_ID''"
definition PROPERTY_MESSAGE_REPLY_TO_CLIENT :: string where "PROPERTY_MESSAGE_REPLY_TO_CLIENT = ''REPLY_TO_CLIENT''"
definition PROPERTY_MESSAGE_TTL :: string where "PROPERTY_MESSAGE_TTL = ''TTL''"
definition REPLY_MESSAGE_FLAG :: string where "REPLY_MESSAGE_FLAG = ''reply''"
definition CREATE_REPLY_MESSAGE_EXCEPTION :: i32 where "CREATE_REPLY_MESSAGE_EXCEPTION = 10007"

definition copied_properties :: "string list" where
  "copied_properties = [PROPERTY_MESSAGE_TYPE, PROPERTY_CORRELATION_ID, PROPERTY_MESSAGE_REPLY_TO_CLIENT, PROPERTY_MESSAGE_TTL]"

definition copy_properties :: "message \<Rightarrow> string list \<Rightarrow> message \<Rightarrow> message" where
  "copy_properties request names reply = fold (\<lambda>name reply. case get_property request name of
       Some v \<Rightarrow> put_property name v reply | None \<Rightarrow> reply) names reply"

definition create_reply_message :: "message \<Rightarrow> bytes \<Rightarrow> message result" where
  "create_reply_message request body =
     (let cluster = (case get_property request PROPERTY_CLUSTER of Some c \<Rightarrow> c | None \<Rightarrow> [])
      in if cluster = []
         then fail (client_err_with_code CREATE_REPLY_MESSAGE_EXCEPTION
                (''create reply message fail, requestMessage error, property['' @ PROPERTY_CLUSTER @ ''] is null.''))
         else let reply = message_new (get_reply_topic cluster) (Some body);
                  reply = copy_properties request copied_properties reply
              in Inr (put_property PROPERTY_MESSAGE_TYPE REPLY_MESSAGE_FLAG reply))"

definition is_reply_message :: "message \<Rightarrow> bool" where
  "is_reply_message msg \<longleftrightarrow> get_property msg PROPERTY_MESSAGE_TYPE = Some REPLY_MESSAGE_FLAG"

section \<open>Correlation ids\<close>

definition SPLITMIX_DELTA :: u64 where "SPLITMIX_DELTA = 0x9E3779B97F4A7C15"

definition splitmix64 :: "u64 \<Rightarrow> u64" where
  "splitmix64 x =
     (let z = x + SPLITMIX_DELTA;
          z = (z XOR drop_bit 30 z) * 0xBF58476D1CE4E5B9;
          z = (z XOR drop_bit 27 z) * 0x94D049BB133111EB
      in z XOR drop_bit 31 z)"

definition uuid_bits :: "u64 \<Rightarrow> 128 word" where
  "uuid_bits base =
     (let bits = push_bit 64 (ucast (splitmix64 base)) OR ucast (splitmix64 (base + SPLITMIX_DELTA));
          bits = (bits AND NOT (push_bit 76 15)) OR push_bit 76 4
      in (bits AND NOT (push_bit 62 3)) OR push_bit 62 2)"

definition lower_hex_digit :: "128 word \<Rightarrow> char" where
  "lower_hex_digit d = (''0123456789abcdef'' ! unat (d AND 15))"

text \<open>The 32 digits of \<open>{bits:032x}\<close>, most significant first.\<close>

definition format_032x :: "128 word \<Rightarrow> string" where
  "format_032x bits = map (\<lambda>i. lower_hex_digit (drop_bit (4 * (31 - i)) bits)) [0..<32]"

definition slice :: "nat \<Rightarrow> nat \<Rightarrow> string \<Rightarrow> string" where
  "slice a b s = take (b - a) (drop a s)"

text \<open>The nanoseconds of the clock, the process id and the value of the counter are arguments.\<close>

definition create_correlation_id :: "u64 \<Rightarrow> 32 word \<Rightarrow> u64 \<Rightarrow> string" where
  "create_correlation_id nanos pid seed =
     (let hex = format_032x (uuid_bits (nanos XOR push_bit 16 (ucast pid) XOR seed))
      in slice 0 8 hex @ ''-'' @ slice 8 12 hex @ ''-'' @ slice 12 16 hex @ ''-'' @ slice 16 20 hex @ ''-'' @ slice 20 32 hex)"

text \<open>The shape of a version 4 UUID in lower case.\<close>

definition uuid_v4 :: "string \<Rightarrow> bool" where
  "uuid_v4 s \<longleftrightarrow> length s = 36 \<and>
     list_all (\<lambda>i. if i \<in> {8, 13, 18, 23} then s ! i = CHR ''-'' else s ! i \<in> set ''0123456789abcdef'') [0..<36] \<and>
     s ! 14 = CHR ''4'' \<and> s ! 19 \<in> set ''89ab''"

lemma lower_hex_digit_hex: "lower_hex_digit d \<in> set ''0123456789abcdef''"
proof -
  have "unat (d AND 15) < 16"
    using word_and_le1 [of d 15] by (simp add: word_le_nat_alt)
  then show ?thesis
    unfolding lower_hex_digit_def by (intro nth_mem) simp
qed

lemma nibble_eqI:
  fixes v w :: "128 word"
  assumes "bit v 0 = bit w 0" "bit v 1 = bit w 1" "bit v 2 = bit w 2" "bit v 3 = bit w 3"
  shows "v AND 15 = w AND 15"
proof (rule bit_word_eqI)
  fix n assume "n < LENGTH(128)"
  have mask: "(15 :: 128 word) = mask 4" by (simp add: mask_eq_decr_exp)
  show "bit (v AND 15) n = bit (w AND 15) n"
  proof (cases "n < 4")
    case True
    then have "n = 0 \<or> n = 1 \<or> n = 2 \<or> n = 3" by linarith
    then show ?thesis using assms by (elim disjE) (simp_all add: bit_and_iff)
  next
    case False
    then show ?thesis unfolding mask by (simp add: bit_and_iff bit_mask_iff)
  qed
qed

lemma version_nibble: "drop_bit 76 (uuid_bits base) AND 15 = 4"
proof -
  have "drop_bit 76 (uuid_bits base) AND 15 = 4 AND 15"
    by (rule nibble_eqI) (simp_all add: uuid_bits_def Let_def bit_simps)
  then show ?thesis by simp
qed

lemma variant_nibble: "drop_bit 60 (uuid_bits base) AND 15 \<in> {8, 9, 10, 11}"
proof -
  define w where "w = drop_bit 60 (uuid_bits base)"
  have top: "bit w 3" "\<not> bit w 2"
    unfolding w_def by (simp_all add: uuid_bits_def Let_def bit_simps)
  consider "bit w 0" "bit w 1" | "bit w 0" "\<not> bit w 1" | "\<not> bit w 0" "bit w 1" | "\<not> bit w 0" "\<not> bit w 1"
    by blast
  then have "w AND 15 = 11 AND 15 \<or> w AND 15 = 9 AND 15 \<or> w AND 15 = 10 AND 15 \<or> w AND 15 = 8 AND 15"
  proof cases
    case 1
    then have "w AND 15 = 11 AND 15" using top by (intro nibble_eqI) simp_all
    then show ?thesis by simp
  next
    case 2
    then have "w AND 15 = 9 AND 15" using top by (intro nibble_eqI) simp_all
    then show ?thesis by simp
  next
    case 3
    then have "w AND 15 = 10 AND 15" using top by (intro nibble_eqI) simp_all
    then show ?thesis by simp
  next
    case 4
    then have "w AND 15 = 8 AND 15" using top by (intro nibble_eqI) simp_all
    then show ?thesis by simp
  qed
  then show ?thesis unfolding w_def by auto
qed

lemma correlation_id_shape: "uuid_v4 (create_correlation_id nanos pid seed)"
proof -
  define bits where "bits = uuid_bits (nanos XOR push_bit 16 (ucast pid) XOR seed)"
  have upt: "[0..<32] = [0, 1, 2, 3, 4, 5, 6, 7, 8, 9, 10, 11, 12, 13, 14, 15, 16, 17, 18, 19, 20, 21, 22, 23, 24,
      25, 26, 27, 28, 29, 30, 31 :: nat]" by (simp add: upt_rec)
  have v: "lower_hex_digit (drop_bit 76 bits) = CHR ''4''"
    unfolding lower_hex_digit_def bits_def version_nibble by simp
  have r: "lower_hex_digit (drop_bit 60 bits) \<in> set ''89ab''"
    using variant_nibble [of "nanos XOR push_bit 16 (ucast pid) XOR seed"]
    unfolding lower_hex_digit_def bits_def by auto
  show ?thesis
    using v r lower_hex_digit_hex
    unfolding uuid_v4_def create_correlation_id_def Let_def bits_def [symmetric] format_032x_def upt slice_def
    by (simp add: upt_rec)
qed

section \<open>A reply goes to its request\<close>

text \<open>The answer that \<open>create_reply_message\<close> builds is recognised as a reply and carries the correlation id.\<close>

lemma put_property_other:
  "m_topic (put_property k v msg) = m_topic msg" "m_body (put_property k v msg) = m_body msg"
  by (simp_all add: put_property_def)

lemma copied_get:
  assumes "message_inv reply"
  shows "message_inv (copy_properties request names reply) \<and>
    get_property (copy_properties request names reply) k =
      (if k \<in> set names \<and> get_property request k \<noteq> None then get_property request k else get_property reply k) \<and>
    m_topic (copy_properties request names reply) = m_topic reply \<and>
    m_body (copy_properties request names reply) = m_body reply"
  using assms unfolding copy_properties_def
  by (induction names arbitrary: reply)
    (auto split: option.splits simp: get_put_property message_inv_preserved put_property_other)

lemma reply_message_properties:
  assumes "create_reply_message request body = Inr reply"
  shows "is_reply_message reply"
    and "k \<in> set copied_properties \<Longrightarrow> k \<noteq> PROPERTY_MESSAGE_TYPE \<Longrightarrow> get_property reply k = get_property request k"
    and "m_topic reply = get_reply_topic (the (get_property request PROPERTY_CLUSTER))"
    and "get_body reply = body"
proof -
  define r where "r = copy_properties request copied_properties
    (message_new (get_reply_topic (the (get_property request PROPERTY_CLUSTER))) (Some body))"
  have reply: "reply = put_property PROPERTY_MESSAGE_TYPE REPLY_MESSAGE_FLAG r"
    using assms by (auto simp: create_reply_message_def Let_def r_def split: if_splits option.splits)
  note r = copied_get [OF message_inv_preserved(1), where request = request and names = copied_properties,
      of "get_reply_topic (the (get_property request PROPERTY_CLUSTER))" "Some body", folded r_def]
  have inv: "message_inv r" using r by simp
  show "is_reply_message reply"
    unfolding reply is_reply_message_def using inv by (simp add: get_put_property)
  show "get_property reply k = get_property request k" if "k \<in> set copied_properties" "k \<noteq> PROPERTY_MESSAGE_TYPE"
    using r [of k] that inv
    by (auto simp: reply get_put_property get_property_def message_new_def ext.get_empty)
  show "m_topic reply = get_reply_topic (the (get_property request PROPERTY_CLUSTER))"
    using r by (simp add: reply put_property_other message_new_def)
  show "get_body reply = body"
    using r by (simp add: reply put_property_other message_new_def get_body_def)
qed

section \<open>Runs\<close>

datatype request_op =
    OpRequest string i64 bool i64
  | OpFailed nat error
  | OpRemove string
  | OpResponse "string option" message_ext
  | OpScan i64 "string list"

fun run_request_op :: "request_op \<Rightarrow> request_holder \<Rightarrow> request_holder" where
  "run_request_op (OpRequest cid timeout has_callback now) h = put_request cid (with_callback cid timeout has_callback now) h"
| "run_request_op (OpFailed nr e) h = change_future nr (set_failed e) h"
| "run_request_op (OpRemove cid) h = snd (remove_request cid h)"
| "run_request_op (OpResponse cid msg) h = snd (put_response cid msg h)"
| "run_request_op (OpScan now keys) h = snd (scan_expired_request now keys h)"

definition request_run :: "request_op list \<Rightarrow> request_holder" where
  "request_run ops = fold run_request_op ops request_holder_new"

definition calls_of :: "nat \<Rightarrow> request_holder \<Rightarrow> request_call list" where
  "calls_of nr h = map snd (filter (\<lambda>c. fst c = nr) (rh_calls h))"

text \<open>
  A slot has been called when its flag says so, and then once; the table names slots that exist, under their own id, and
  that no reply and no scan has touched.
\<close>

definition holder_inv :: "request_holder \<Rightarrow> bool" where
  "holder_inv h \<longleftrightarrow>
     (\<forall>nr. length (calls_of nr h) = (if nr < length (rh_futures h) \<and> rf_callback_fired (rh_futures h ! nr) then 1 else 0)) \<and>
     (\<forall>cid nr. rh_table h cid = Some nr \<longrightarrow> nr < length (rh_futures h) \<and> rf_correlation_id (rh_futures h ! nr) = cid \<and>
        \<not> rf_callback_fired (rh_futures h ! nr) \<and> rf_response_msg (rh_futures h ! nr) = None)"

lemma holder_inv_slot:
  assumes "holder_inv h" "rh_table h cid = Some nr"
  shows "nr < length (rh_futures h)" "rf_correlation_id (rh_futures h ! nr) = cid"
    "\<not> rf_callback_fired (rh_futures h ! nr)" "rf_response_msg (rh_futures h ! nr) = None" "calls_of nr h = []"
proof -
  show nr: "nr < length (rh_futures h)" "rf_correlation_id (rh_futures h ! nr) = cid"
    "\<not> rf_callback_fired (rh_futures h ! nr)" "rf_response_msg (rh_futures h ! nr) = None"
    using assms by (auto simp: holder_inv_def)
  have "length (calls_of nr h) = 0" using assms(1) nr(3) unfolding holder_inv_def by simp
  then show "calls_of nr h = []" by simp
qed

definition unlisted :: "nat \<Rightarrow> request_holder \<Rightarrow> bool" where
  "unlisted nr h \<longleftrightarrow> nr < length (rh_futures h) \<and> (\<forall>cid. rh_table h cid \<noteq> Some nr)"

lemma calls_of_change [simp]: "calls_of nr (change_future n g h) = calls_of nr h"
  by (simp add: calls_of_def change_future_def)

lemma change_keeps:
  assumes "holder_inv h" and keep: "\<And>f. rf_callback_fired (g f) = rf_callback_fired f \<and> rf_correlation_id (g f) = rf_correlation_id f"
    and "unlisted nr h \<or> (\<forall>f. rf_response_msg (g f) = rf_response_msg f)"
  shows "holder_inv (change_future nr g h)"
proof -
  have at: "rh_futures (change_future nr g h) ! n = (if n = nr \<and> nr < length (rh_futures h) then g (rh_futures h ! nr) else rh_futures h ! n)" for n
    by (cases "nr < length (rh_futures h)") (auto simp: change_future_def nth_list_update list_update_beyond)
  have same: "length (rh_futures (change_future nr g h)) = length (rh_futures h)" "rh_table (change_future nr g h) = rh_table h"
    by (simp_all add: change_future_def)
  show ?thesis
    using assms(1,3) unfolding holder_inv_def calls_of_change at same unlisted_def by (auto simp: keep)
qed

lemma call_keeps:
  assumes inv: "holder_inv h" and un: "unlisted nr h"
  shows "holder_inv (call_future nr h)" "rh_table (call_future nr h) = rh_table h"
    "length (rh_futures (call_future nr h)) = length (rh_futures h)"
proof -
  let ?f = "rh_futures h ! nr"
  have nr: "nr < length (rh_futures h)" "\<And>cid. rh_table h cid \<noteq> Some nr" using un by (auto simp: unlisted_def)
  show "rh_table (call_future nr h) = rh_table h" "length (rh_futures (call_future nr h)) = length (rh_futures h)"
    by (simp_all add: call_future_def change_future_def Let_def split: prod.splits)
  show "holder_inv (call_future nr h)"
  proof (cases "rf_has_callback ?f \<and> \<not> rf_callback_fired ?f")
    case False
    then have "call_future nr h = h"
      using nr by (auto simp: call_future_def execute_request_callback_def change_future_def)
    then show ?thesis using inv by simp
  next
    case True
    then obtain c where h': "call_future nr h =
        h\<lparr>rh_futures := (rh_futures h)[nr := ?f\<lparr>rf_callback_fired := True, rf_cause := None\<rparr>], rh_calls := rh_calls h @ [(nr, c)]\<rparr>"
      by (simp add: call_future_def execute_request_callback_def change_future_def Let_def)
    have "calls_of n (call_future nr h) = calls_of n h @ (if n = nr then [c] else [])" for n
      by (simp add: h' calls_of_def)
    then show ?thesis
      using inv nr True unfolding holder_inv_def by (auto simp: h' nth_list_update)
  qed
qed

lemma put_request_keeps:
  assumes "holder_inv h"
  shows "holder_inv (put_request cid (with_callback cid timeout has_callback now) h)"
proof -
  have "calls_of n (put_request cid f h) = calls_of n h" for n f by (simp add: calls_of_def put_request_def)
  then show ?thesis
    using assms unfolding holder_inv_def
    by (auto simp: put_request_def with_callback_def nth_append less_Suc_eq)
qed

lemma unlist_keeps:
  assumes "holder_inv h" "\<And>cid. t cid = None \<or> t cid = rh_table h cid"
  shows "holder_inv (h\<lparr>rh_table := t\<rparr>)"
proof -
  have old: "t cid = Some nr \<Longrightarrow> rh_table h cid = Some nr" for cid nr using assms(2) [of cid] by auto
  have "calls_of nr (h\<lparr>rh_table := t\<rparr>) = calls_of nr h" for nr by (simp add: calls_of_def)
  then show ?thesis using assms(1) old unfolding holder_inv_def by simp blast
qed

lemma removed_unlisted:
  assumes "holder_inv h" "rh_table h cid = Some nr" "t cid = None" "\<And>c. t c = None \<or> t c = rh_table h c"
  shows "unlisted nr (h\<lparr>rh_table := t\<rparr>)"
proof -
  have "t c \<noteq> Some nr" for c
  proof
    assume "t c = Some nr"
    then have "rh_table h c = Some nr" using assms(4) [of c] by auto
    then have "c = cid" using holder_inv_slot(2) [OF assms(1)] assms(2) by metis
    then show False using \<open>t c = Some nr\<close> assms(3) by simp
  qed
  then show ?thesis using holder_inv_slot(1) [OF assms(1,2)] by (simp add: unlisted_def)
qed

lemma remove_keeps:
  assumes "holder_inv h"
  shows "holder_inv (snd (remove_request cid h))"
    and "rh_table h cid = Some nr \<Longrightarrow> unlisted nr (snd (remove_request cid h))"
  using unlist_keeps [OF assms, of "(rh_table h)(cid := None)"]
    removed_unlisted [OF assms, of cid nr "(rh_table h)(cid := None)"]
  by (simp_all add: remove_request_def)

lemma change_unlisted: "unlisted nr (change_future n g h) = unlisted nr h"
  by (simp add: unlisted_def change_future_def)

lemma call_unlisted: "unlisted nr (call_future n h) = unlisted nr h"
  by (simp add: unlisted_def call_future_def change_future_def Let_def split: prod.splits)

lemma put_response_keeps:
  assumes "holder_inv h"
  shows "holder_inv (snd (put_response cid msg h))"
proof (cases cid)
  case None
  then show ?thesis using assms by (simp add: put_response_def)
next
  case (Some c)
  show ?thesis
  proof (cases "rh_table h c")
    case None
    then show ?thesis using Some remove_keeps(1) [OF assms, of c] by (simp add: put_response_def remove_request_def)
  next
    case (Some nr)
    let ?h = "snd (remove_request c h)"
    have "holder_inv (change_future nr (put_response_message (Some msg)) ?h)"
      using remove_keeps [OF assms] Some by (intro change_keeps) (auto simp: put_response_message_def)
    then have "holder_inv (call_future nr (change_future nr (put_response_message (Some msg)) ?h))"
      by (rule call_keeps) (simp add: change_unlisted remove_keeps(2) [OF assms Some])
    then show ?thesis
      using Some \<open>cid = Some c\<close> by (simp add: put_response_def remove_request_def)
  qed
qed

definition expire :: "nat \<Rightarrow> request_holder \<Rightarrow> request_holder" where
  "expire nr h = call_future nr (change_future nr
     (set_cause_only (client_err_with_code REQUEST_TIMEOUT_EXCEPTION SCAN_EXPIRED_REQUEST_TEXT)) h)"

lemma expire_keeps:
  assumes "holder_inv h" "unlisted nr h"
  shows "holder_inv (expire nr h)" "unlisted n (expire nr h) = unlisted n h" "rh_table (expire nr h) = rh_table h"
proof -
  have inv: "holder_inv (change_future nr (set_cause_only e) h)" for e
    using assms by (intro change_keeps) (auto simp: set_cause_only_def)
  show "holder_inv (expire nr h)"
    unfolding expire_def by (rule call_keeps [OF inv]) (simp add: change_unlisted assms(2))
  show "unlisted n (expire nr h) = unlisted n h"
    by (simp add: expire_def change_unlisted call_unlisted)
  show "rh_table (expire nr h) = rh_table h"
    by (simp add: expire_def call_future_def change_future_def Let_def split: prod.splits)
qed

lemma expire_all:
  assumes "holder_inv h" "\<forall>nr \<in> set nrs. unlisted nr h"
  shows "holder_inv (fold expire nrs h) \<and> rh_table (fold expire nrs h) = rh_table h"
  using assms by (induction nrs arbitrary: h) (simp_all add: expire_keeps)

definition unlist_keys :: "string list \<Rightarrow> request_holder \<Rightarrow> request_holder" where
  "unlist_keys keys h = h\<lparr>rh_table := fold (\<lambda>k t. t(k := None)) keys (rh_table h)\<rparr>"

lemma fold_unlist: "fold (\<lambda>k t. t(k := None)) keys t c = (if c \<in> set keys then None else t c)"
  by (induction keys arbitrary: t) auto

lemma scan_as_expire:
  "scan_expired_request now keys h =
     (length (List.map_filter (rh_table h) (expired_keys now keys h)),
      fold expire (List.map_filter (rh_table h) (expired_keys now keys h)) (unlist_keys (expired_keys now keys h) h))"
  by (simp add: scan_expired_request_def Let_def unlist_keys_def expire_def [abs_def])

lemma scan_unlists:
  assumes "holder_inv h"
  shows "holder_inv (unlist_keys ks h)"
    and "\<forall>nr \<in> set (List.map_filter (rh_table h) ks). unlisted nr (unlist_keys ks h)"
  unfolding unlist_keys_def
  using unlist_keeps [OF assms, of "fold (\<lambda>k t. t(k := None)) ks (rh_table h)"]
    removed_unlisted [OF assms, of _ _ "fold (\<lambda>k t. t(k := None)) ks (rh_table h)"]
  by (auto simp: fold_unlist map_filter_def)

lemma scan_keeps: "holder_inv h \<Longrightarrow> holder_inv (snd (scan_expired_request now keys h))"
  using expire_all [OF scan_unlists] by (simp add: scan_as_expire)

lemma run_op_keeps: "holder_inv h \<Longrightarrow> holder_inv (run_request_op op h)"
  by (cases op) (auto simp: put_request_keeps remove_keeps put_response_keeps scan_keeps set_failed_def intro!: change_keeps)

lemma run_keeps: "holder_inv (request_run ops)"
proof -
  have "holder_inv (fold run_request_op ops h)" if "holder_inv h" for h
    using that by (induction ops arbitrary: h) (simp_all add: run_op_keeps)
  moreover have "holder_inv request_holder_new" by (simp add: holder_inv_def request_holder_new_def calls_of_def)
  ultimately show ?thesis by (simp add: request_run_def)
qed

definition request_expired :: request_call where
  "request_expired = RequestException (client_err_with_code REQUEST_TIMEOUT_EXCEPTION SCAN_EXPIRED_REQUEST_TEXT)"

lemmas expire_defs = expire_def call_future_def change_future_def execute_request_callback_def set_cause_only_def calls_of_def Let_def

lemma expire_length [simp]: "length (rh_futures (expire n h)) = length (rh_futures h)"
  by (simp add: expire_defs split: prod.splits)

lemma expire_other:
  assumes "n \<noteq> nr"
  shows "rh_futures (expire n h) ! nr = rh_futures h ! nr" "calls_of nr (expire n h) = calls_of nr h"
  using assms by (simp_all add: expire_defs split: prod.splits option.splits)

lemma expire_self:
  assumes "nr < length (rh_futures h)"
  shows "rf_callback_fired (rh_futures h ! nr) \<Longrightarrow> rf_callback_fired (rh_futures (expire nr h) ! nr)"
    and "rf_callback_fired (rh_futures h ! nr) \<Longrightarrow> calls_of nr (expire nr h) = calls_of nr h"
    and "\<not> rf_callback_fired (rh_futures h ! nr) \<Longrightarrow> rf_has_callback (rh_futures h ! nr) \<Longrightarrow>
      rf_callback_fired (rh_futures (expire nr h) ! nr) \<and> calls_of nr (expire nr h) = calls_of nr h @ [request_expired]"
  using assms by (simp_all add: expire_defs request_expired_def)

lemma fold_expire_fired:
  assumes "nr < length (rh_futures h)" "rf_callback_fired (rh_futures h ! nr)"
  shows "calls_of nr (fold expire nrs h) = calls_of nr h"
  using assms
proof (induction nrs arbitrary: h)
  case (Cons n nrs)
  then show ?case by (cases "n = nr") (simp_all add: expire_other expire_self)
qed simp

lemma fold_expire_calls:
  assumes "nr \<in> set nrs" "nr < length (rh_futures h)" "rf_has_callback (rh_futures h ! nr)" "\<not> rf_callback_fired (rh_futures h ! nr)"
  shows "calls_of nr (fold expire nrs h) = calls_of nr h @ [request_expired]"
  using assms
proof (induction nrs arbitrary: h)
  case (Cons n nrs)
  then show ?case by (cases "n = nr") (simp_all add: expire_other expire_self fold_expire_fired)
qed simp

section \<open>Properties\<close>

text \<open>
  (C33) The correlation id of a request is the text of a version 4 UUID in lower case, whatever the clock, the process
  id and the counter are.
\<close>

theorem correlation_id_is_uuid: "uuid_v4 (create_correlation_id nanos pid seed)"
  by (rule correlation_id_shape)

text \<open>
  (C15) In every run of requests, failures, removals, replies and scans, the callback of a request is called at most
  once, and a request that is still in the table is there under its own correlation id and has not been called yet.
\<close>

theorem request_answered_once:
  "length (calls_of nr (request_run ops)) \<le> 1 \<and>
   (rh_table (request_run ops) cid = Some nr \<longrightarrow>
      calls_of nr (request_run ops) = [] \<and> rf_correlation_id (rh_futures (request_run ops) ! nr) = cid)"
proof -
  note inv = run_keeps [of ops]
  have "length (calls_of nr (request_run ops)) \<le> 1" using inv unfolding holder_inv_def by simp
  then show ?thesis using holder_inv_slot [OF inv] by blast
qed

theorem request_answered_once_witness:
  "rh_table (request_run [OpRequest ''c'' 3000 True 0]) ''c'' = Some 0 \<and>
   calls_of 0 (request_run [OpRequest ''c'' 3000 True 0]) = []"
  using request_answered_once [of 0 "[OpRequest ''c'' 3000 True 0]" "''c''"]
  by (simp add: request_run_def put_request_def request_holder_new_def)

text \<open>
  (C14) The reply that \<open>create_reply_message\<close> builds for a request goes to the slot of that request: the slot
  leaves the table, its waiter goes on at once and returns this reply, and no other slot changes.
\<close>

theorem reply_reaches_request:
  assumes "rh_table (request_run ops) cid = Some nr"
    and "get_property request PROPERTY_CORRELATION_ID = Some cid"
    and "create_reply_message request body = Inr reply"
  shows "\<exists>h. put_response (get_property reply PROPERTY_CORRELATION_ID) (from_message reply) (request_run ops) = (Some nr, h) \<and>
     rh_table h = (rh_table (request_run ops))(cid := None) \<and>
     waiter_goes_on False (rh_futures h ! nr) = Some (Some (from_message reply)) \<and>
     wait_request_response topic timeout (the (waiter_goes_on False (rh_futures h ! nr))) (rh_futures h ! nr) = Inr (from_message reply) \<and>
     get_body (from_message reply) = body \<and>
     (\<forall>n. n \<noteq> nr \<longrightarrow> rh_futures h ! n = rh_futures (request_run ops) ! n)"
proof -
  let ?h = "request_run ops"
  have cid: "get_property reply PROPERTY_CORRELATION_ID = Some cid"
    using reply_message_properties(2) [OF assms(3), of PROPERTY_CORRELATION_ID] assms(2)
    by (simp add: copied_properties_def PROPERTY_CORRELATION_ID_def PROPERTY_MESSAGE_TYPE_def)
  have body: "get_body (from_message reply) = body"
    using reply_message_properties(4) [OF assms(3)] by (simp add: get_body_def from_message_def message_ext_new_def)
  note nr = holder_inv_slot [OF run_keeps assms(1)]
  show ?thesis
    using nr assms(1)
    by (simp add: body cid put_response_def remove_request_def call_future_def change_future_def Let_def
        put_response_message_def execute_request_callback_def waiter_goes_on_def wait_request_response_def)
qed

theorem reply_reaches_request_witness:
  "fst (put_response (Some ''c'') (from_message (put_property PROPERTY_MESSAGE_TYPE ''reply''
      (put_property PROPERTY_CORRELATION_ID ''c'' (message_new ''k_REPLY_TOPIC'' (Some [1])))))
     (request_run [OpRequest ''c'' 3000 True 0])) = Some 0"
proof -
  let ?request = "put_property PROPERTY_CLUSTER ''k'' (put_property PROPERTY_CORRELATION_ID ''c'' (message_new ''t'' None))"
  let ?reply = "put_property PROPERTY_MESSAGE_TYPE ''reply''
      (put_property PROPERTY_CORRELATION_ID ''c'' (message_new ''k_REPLY_TOPIC'' (Some [1])))"
  have names: "get_property ?request PROPERTY_CLUSTER = Some ''k''" "get_property ?request PROPERTY_CORRELATION_ID = Some ''c''"
      "get_property ?request PROPERTY_MESSAGE_TYPE = None" "get_property ?request PROPERTY_MESSAGE_REPLY_TO_CLIENT = None"
      "get_property ?request PROPERTY_MESSAGE_TTL = None" "get_property ?reply PROPERTY_CORRELATION_ID = Some ''c''"
    by code_simp+
  have reply: "create_reply_message ?request [1] = Inr ?reply"
    by (simp add: create_reply_message_def names copy_properties_def copied_properties_def get_reply_topic_def
        REPLY_TOPIC_POSTFIX_def REPLY_MESSAGE_FLAG_def)
  have "rh_table (request_run [OpRequest ''c'' 3000 True 0]) ''c'' = Some 0"
    by (simp add: request_run_def put_request_def request_holder_new_def)
  from reply_reaches_request [where topic = "''t''" and timeout = 3000, OF this names(2) reply] show ?thesis by (auto simp: names)
qed

text \<open>
  (C923) A scan takes exactly the expired requests out of the table, and the callback of each of them is called with
  the timeout error; the keys are the keys of the table.
\<close>

theorem scan_answers_expired:
  assumes "set keys = dom (rh_table (request_run ops))"
  shows "rh_table (snd (scan_expired_request now keys (request_run ops))) cid =
       (case rh_table (request_run ops) cid of
          Some nr \<Rightarrow> if request_is_timeout now (rh_futures (request_run ops) ! nr) then None else Some nr | None \<Rightarrow> None) \<and>
     (\<forall>nr. rh_table (request_run ops) cid = Some nr \<and> request_is_timeout now (rh_futures (request_run ops) ! nr) \<and>
         rf_has_callback (rh_futures (request_run ops) ! nr) \<longrightarrow>
       calls_of nr (snd (scan_expired_request now keys (request_run ops))) =
         [RequestException (client_err_with_code REQUEST_TIMEOUT_EXCEPTION SCAN_EXPIRED_REQUEST_TEXT)])"
proof -
  let ?h = "request_run ops"
  let ?ks = "expired_keys now keys ?h"
  let ?nrs = "List.map_filter (rh_table ?h) ?ks"
  let ?h' = "fold expire ?nrs (unlist_keys ?ks ?h)"
  have h': "snd (scan_expired_request now keys ?h) = ?h'" by (simp add: scan_as_expire)
  have ks: "c \<in> set ?ks \<longleftrightarrow> (\<exists>nr. rh_table ?h c = Some nr \<and> request_is_timeout now (rh_futures ?h ! nr))" for c
    using assms by (auto simp: expired_keys_def split: option.splits)
  have "rh_table ?h' = rh_table (unlist_keys ?ks ?h)"
    using expire_all [OF scan_unlists [OF run_keeps]] by blast
  then have table: "rh_table ?h' cid = (case rh_table ?h cid of
      Some nr \<Rightarrow> if request_is_timeout now (rh_futures ?h ! nr) then None else Some nr | None \<Rightarrow> None)"
    by (auto simp: unlist_keys_def fold_unlist ks split: option.splits)
  have "calls_of nr ?h' = [request_expired]"
    if nr: "rh_table ?h cid = Some nr" "request_is_timeout now (rh_futures ?h ! nr)" "rf_has_callback (rh_futures ?h ! nr)" for nr
  proof -
    note slot = holder_inv_slot [OF run_keeps nr(1)]
    have "cid \<in> set ?ks" using nr by (simp add: ks)
    then have "nr \<in> set ?nrs" using nr(1) by (force simp: map_filter_def)
    moreover have "rh_futures (unlist_keys ?ks ?h) = rh_futures ?h" "calls_of nr (unlist_keys ?ks ?h) = calls_of nr ?h"
      by (simp_all add: unlist_keys_def calls_of_def)
    ultimately show ?thesis using fold_expire_calls [of nr ?nrs "unlist_keys ?ks ?h"] slot nr(3) by simp
  qed
  then show ?thesis using table unfolding h' request_expired_def by blast
qed

theorem scan_answers_expired_witness:
  "rh_table (snd (scan_expired_request 3001 [''c''] (request_run [OpRequest ''c'' 3000 True 0]))) ''c'' = None \<and>
   calls_of 0 (snd (scan_expired_request 3001 [''c''] (request_run [OpRequest ''c'' 3000 True 0]))) =
     [RequestException (client_err_with_code REQUEST_TIMEOUT_EXCEPTION SCAN_EXPIRED_REQUEST_TEXT)]"
proof -
  let ?h = "request_run [OpRequest ''c'' 3000 True 0]"
  have h: "rh_table ?h = [''c'' \<mapsto> 0]" "rh_futures ?h = [with_callback ''c'' 3000 True 0]"
    by (simp_all add: request_run_def put_request_def request_holder_new_def)
  have "request_is_timeout 3001 (with_callback ''c'' 3000 True 0)" "rf_has_callback (with_callback ''c'' 3000 True 0)"
    by (simp_all add: request_is_timeout_def with_callback_def)
  then show ?thesis
    using scan_answers_expired [of "[''c'']" "[OpRequest ''c'' 3000 True 0]" 3001 "''c''"] by (simp add: h)
qed

end
