(* ===== verification/Spec2Isabelle.thy ===== *)
theory Spec2Isabelle
  imports Message_Batch Remoting_Command Allocate_Strategy Backpressure Latency Namespace_Util Extra_Info Validators
    Route Lite_Ownership Push_Races Accumulator_Calls Trace_Dispatcher Consume_Executor Request_Reply
begin

text \<open>
  A verification library for the Rust client under \<open>src/rust/src\<close>: the parts of a RocketMQ remoting client that
  decide what goes over the wire, what is done with what comes back, and which queue, broker or message is next.

  \<^bold>\<open>Conventions.\<close> Machine integers keep their width (\<open>i32 = 32 word\<close>, \<open>i64 = 64 word\<close>, signed reading by
  \<open>sint\<close>); \<open>usize\<close> is \<open>nat\<close>. A Rust \<open>String\<close> is a HOL string whose characters are its UTF-8 bytes; \<open>is_str\<close>
  says that they are valid. A fallible function returns \<open>failure + 'a\<close>, where a failure is an error value of
  \<open>error.rs\<close> or a panic. Text that the standard library appends to an error message is left out. Clocks, random
  numbers, the codecs of the compression crates and the printers of \<open>serde_json\<close> are arguments of the definitions that
  use them. Code behind a lock is a function from state to state; tasks that interleave are steps of a relation.

  \<^bold>\<open>Ground.\<close>
  \<^item> \<open>Prelude\<close>: integers, big-endian bytes, UTF-8, decimal text, trimming, splitting and joining.
  \<^item> \<open>Rmq_Error\<close>: \<open>error.rs\<close> and the result type.
  \<^item> \<open>Buffer\<close>: \<open>common/buffer.rs\<close>, the byte writer and reader; each reader undoes its writer.
  \<^item> \<open>Ext_Fields\<close>: \<open>remoting/protocol/ext_fields.rs\<close>, the ordered string map, which refines a finite map.
  \<^item> \<open>Sys_Flag\<close>, \<open>Util_All\<close>: \<open>common/sysflag.rs\<close> and \<open>common/util_all.rs\<close>; the flags are independent bits and the
    table-driven CRC-32 equals the bitwise one.

  \<^bold>\<open>Messages.\<close>
  \<^item> \<open>Message\<close>: \<open>common/message.rs\<close> (messages, queues and their order).
  \<^item> \<open>Compression\<close>: \<open>common/compression.rs\<close> over codecs that are parameters.
  \<^item> \<open>Net_Addr\<close>: the IP address text of the standard library, as far as the decoder uses it.
  \<^item> \<open>Message_Properties\<close>, \<open>Frame_Stream\<close>, \<open>Message_Decoder\<close>, \<open>Message_Batch\<close>: \<open>common/message_decoder.rs\<close>;
    stored frames, batches, message ids and property text are read back, and decoding never panics.
  \<^item> \<open>Mix_All\<close>, \<open>Namespace_Util\<close>, \<open>Validators\<close>: \<open>common/mix_all.rs\<close>, \<open>remoting/protocol/namespace_util.rs\<close>,
    \<open>common/topic_validator.rs\<close> and \<open>client/validators.rs\<close>; names are unwrapped to what was wrapped, properties text is
    read back, and the messages that pass the validation are characterised.
  \<^item> \<open>Extra_Info\<close>: \<open>remoting/protocol/extra_info.rs\<close>, the receipts and tables of popped messages.

  \<^bold>\<open>Protocol.\<close>
  \<^item> \<open>Json_Value\<close>, \<open>Fast_Json\<close>, \<open>Json_Text\<close>: the tolerant JSON reader of \<open>remoting/protocol/serialize.rs\<close>; it
    returns on every text and reads compact JSON back.
  \<^item> \<open>Binary_Header\<close>, \<open>Remoting_Command\<close>: the binary header of \<open>serialize.rs\<close> and
    \<open>remoting/protocol/remoting_command.rs\<close>; commands are received as they were sent.
  \<^item> \<open>Json_Fields\<close>, \<open>Route\<close>: the field readers of \<open>remoting/protocol/admin_body.rs\<close>, with the contract
    \<open>json_codec\<close> of a body type, and \<open>remoting/protocol/route.rs\<close>, whose three types satisfy it; the queues of a route
    and the test whether it changed.

  \<^bold>\<open>Client.\<close>
  \<^item> \<open>Consistent_Hash\<close>, \<open>Allocate_Strategy\<close>: \<open>common/consistent_hash.rs\<close> and \<open>client/allocate_strategy.rs\<close>; every
    strategy hands each queue to exactly one consumer, and nodes that come or go move only their own keys.
  \<^item> \<open>Backpressure\<close>: the fair semaphore of \<open>client/backpressure.rs\<close> as steps of its tasks.
  \<^item> \<open>Latency\<close>: \<open>client/latency.rs\<close> and the publish information of \<open>client/mq_client.rs\<close>.
  \<^item> \<open>Heartbeat\<close>: \<open>remoting/protocol/heartbeat.rs\<close>; heartbeats are read back, their fingerprint is blind to what
    changes between beats, and a tag expression selects the messages that carry one of its tags.
  \<^item> \<open>Lite_Buffer\<close>: the local buffer and the cache gates of \<open>client/pull_consumer.rs\<close>; the accumulators are what a scan
    gives.
  \<^item> \<open>Btree_Map\<close>, \<open>Lite_Consumer\<close>: the ordered map of the standard library and the state of the lite pull consumer.
  \<^item> \<open>Lite_Commit\<close>: sequences of its calls; a commit never passes a message that is still buffered, unless a seek back
    kept later messages.
  \<^item> \<open>Lite_Ownership\<close>: its calls interleaved, one step per lock; buffered messages belong to assigned queues as long as
    no pull loses its queue while it waits for its first offset or between its check and the buffer.

  \<^item> \<open>Push_Config\<close>: the configuration of \<open>client/consumer.rs\<close>, its gates and the division of topic budgets.
  \<^item> \<open>Push_Queue\<close>: the tables of the push consumer's queues and the functions that run under their lock.
  \<^item> \<open>Push_Steps\<close>, \<open>Push_Commit\<close>, \<open>Push_Races\<close>: its tasks as steps, the invariant that connects the consumed offset, the
    unsettled messages and the pull cursor of a queue, and what follows: a persisted offset passes no unsettled message, as
    long as no batch goes back into a later generation of its queue and no loop places the cursor of a queue it lost.
  \<^item> \<open>Consume_Executor\<close>: the pool of \<open>client/consume_executor.rs\<close> and its workers as steps; tasks start in order, none is
    stranded, and the workers stay within their bounds.
  \<^item> \<open>Produce_Accumulator\<close>: the batches of \<open>client/produce_accumulator.rs\<close>, the splitting of an answer, and the admission of
    a message in \<open>client/producer.rs\<close>.
  \<^item> \<open>Accumulator_Steps\<close>, \<open>Accumulator_Calls\<close>: asynchronous senders and the guard as steps; no callback is called twice, and
    no message is lost and no byte stays charged unless the guard closes a batch that was just filled, a message is charged
    without being batched, or the producer refuses a batch.
  \<^item> \<open>Request_Reply\<close>: the slots and the table of \<open>client/request_reply.rs\<close>, correlation ids and reply messages; a reply
    reaches its request, a scan answers what expired, and no request is answered twice.
  \<^item> \<open>Trace_Codec\<close>, \<open>Trace_Dispatcher\<close>: the records of \<open>client/trace.rs\<close>, read back as written, and the queue, grouping and
    cutting of \<open>client/trace_dispatcher.rs\<close>; every context that is kept is in exactly one message.

  \<^bold>\<open>Fuel.\<close> The JSON reader recurses on positions of the text; \<open>parse_fuel\<close> gives three units per byte, and
  \<open>from_str_terminates\<close> shows that this is enough for every text. No other definition has fuel.

  \<^bold>\<open>Not modelled.\<close> Sockets, TLS, proxies and the tasks over them (\<open>remoting/client.rs\<close>, \<open>remoting/socks.rs\<close>, the loops
  and the POP path of \<open>client/consumer.rs\<close>, the loops of \<open>client/producer.rs\<close>, \<open>client/mq_client.rs\<close>), logging, statistics, the trace hooks,
  the blocking senders and threads of the accumulator, the request
  wrappers of \<open>client/admin.rs\<close> and its bodies, and the ports of the client to other languages.
\<close>

end
